(* ===== verification/Nchan_Prelude.thy ===== *)
theory Nchan_Prelude
  imports Main "HOL-Library.Word" "HOL-Library.Monad_Syntax"
begin

text \<open>
  Shared vocabulary of the development.

  \<^item> nginx's return codes (\<open>ngx_rc\<close>), pointers (\<open>addr option\<close>, \<open>None\<close> is \<^verbatim>\<open>NULL\<close>) and the
    fixed-width integers of the C sources.
  \<^item> The failure discipline: an operation of result type \<open>'a option\<close> returns \<open>None\<close> exactly
    where the C program aborts on a failed \<^verbatim>\<open>assert\<close>, dereferences \<^verbatim>\<open>NULL\<close>, or reads or writes
    memory it does not own.  Error \<^emph>\<open>codes\<close> the program returns are ordinary values.
  \<^item> The generic list and word lemmas the components share.
\<close>

named_theorems link_simps \<open>rewriting of link-field memories\<close>

type_synonym addr = nat
type_synonym ptr = "addr option"
type_synonym int16 = "16 word"
type_synonym uint8 = "8 word"
type_synonym uint16 = "16 word"
type_synonym uint32 = "32 word"
type_synonym uint64 = "64 word"

datatype ngx_rc = NGX_OK | NGX_ERROR | NGX_AGAIN | NGX_BUSY | NGX_DONE | NGX_DECLINED | NGX_ABORT

text \<open>The C \<^verbatim>\<open>assert\<close>: execution continues only when the condition holds.\<close>

definition c_assert :: "bool \<Rightarrow> unit option" where
  "c_assert b = (if b then Some () else None)"

lemma c_assert_True [simp]: "c_assert True = Some ()"
  by (simp add: c_assert_def)

lemma c_assert_False [simp]: "c_assert False = None"
  by (simp add: c_assert_def)

lemma c_assert_bind [simp]: "(c_assert b \<bind> f) = (if b then f () else None)"
  by (simp add: c_assert_def)

lemma c_assert_eq_Some [simp]: "c_assert b = Some u \<longleftrightarrow> b"
  by (simp add: c_assert_def)

text \<open>An indexed read and write of a C array; out of bounds is a fault.\<close>

definition arr_get :: "'a list \<Rightarrow> nat \<Rightarrow> 'a option" where
  "arr_get xs i = (if i < length xs then Some (xs ! i) else None)"

definition arr_set :: "'a list \<Rightarrow> nat \<Rightarrow> 'a \<Rightarrow> 'a list option" where
  "arr_set xs i v = (if i < length xs then Some (xs[i := v]) else None)"

lemma arr_get_in [simp]: "i < length xs \<Longrightarrow> arr_get xs i = Some (xs ! i)"
  by (simp add: arr_get_def)

lemma arr_set_in [simp]: "i < length xs \<Longrightarrow> arr_set xs i v = Some (xs[i := v])"
  by (simp add: arr_set_def)

lemma arr_get_eq_Some: "arr_get xs i = Some v \<longleftrightarrow> i < length xs \<and> xs ! i = v"
  by (auto simp: arr_get_def)

lemma arr_set_eq_Some: "arr_set xs i v = Some ys \<longleftrightarrow> i < length xs \<and> ys = xs[i := v]"
  by (auto simp: arr_set_def)

lemma of_nat_word_eq_0:
  assumes "n < 2 ^ LENGTH('a::len)"
  shows "(of_nat n :: 'a word) = 0 \<longleftrightarrow> n = 0"
  using assms by (auto simp: word_of_nat_eq_0_iff dest: nat_dvd_not_less)

lemma unat_plus_one:
  "Suc (unat x) < 2 ^ LENGTH('a) \<Longrightarrow> unat (x + 1 :: 'a::len word) = Suc (unat x)"
  by (simp add: unat_word_ariths)

lemma take_Suc_update:
  "i < length xs \<Longrightarrow> take (Suc i) (xs[i := v]) = take i xs @ [v]"
  by (simp add: take_Suc_conv_app_nth)

lemma filter_neq: "x \<notin> set xs \<Longrightarrow> filter (\<lambda>y. y \<noteq> x \<and> P y) xs = filter P xs"
  by (induction xs) auto

end
