(* ===== verification/Link_Heap.thy ===== *)
theory Link_Heap
  imports Nchan_Prelude
begin

text \<open>
  Doubly linked lists threaded through pre-allocated objects.

  nchan's \<^verbatim>\<open>nchan_slist_t\<close>, \<^verbatim>\<open>nchan_reuse_queue_t\<close> and \<^verbatim>\<open>nchan_reaper_t\<close> keep their elements in
  objects they do not own and reach the two link fields by the byte offsets \<^verbatim>\<open>offset.prev\<close> and
  \<^verbatim>\<open>offset.next\<close>; \<^verbatim>\<open>nchan_list_t\<close> allocates a header with the two fields.  All of them are modelled
  on one memory of pointer fields, indexed by object address and field offset.
  \<open>dlseg\<close> relates a segment of such a memory to the list of its addresses.
\<close>

type_synonym off = nat
type_synonym link_mem = "addr \<Rightarrow> off \<Rightarrow> ptr"

definition wr :: "link_mem \<Rightarrow> addr \<Rightarrow> off \<Rightarrow> ptr \<Rightarrow> link_mem" where
  "wr m a f v = m(a := (m a)(f := v))"

lemma wr_apply [simp, link_simps]: "wr m a f v b g = (if b = a \<and> g = f then v else m b g)"
  by (simp add: wr_def)

definition first_of :: "addr list \<Rightarrow> ptr \<Rightarrow> ptr" where
  "first_of xs n = (case xs of [] \<Rightarrow> n | x # _ \<Rightarrow> Some x)"

definition last_of :: "ptr \<Rightarrow> addr list \<Rightarrow> ptr" where
  "last_of p xs = (if xs = [] then p else Some (last xs))"

lemma first_of_simps [simp, link_simps]:
  "first_of [] n = n" "first_of (x # xs) n = Some x"
  by (simp_all add: first_of_def)

lemma last_of_simps [simp, link_simps]:
  "last_of p [] = p" "last_of p (xs @ [x]) = Some x" "last_of p [x] = Some x"
  by (simp_all add: last_of_def)

lemma first_of_append [link_simps]: "first_of (xs @ ys) n = first_of xs (first_of ys n)"
  by (cases xs) auto

lemma last_of_append [link_simps]: "last_of p (xs @ ys) = last_of (last_of p xs) ys"
  by (simp add: last_of_def)

lemma last_of_Cons [link_simps]: "last_of p (x # xs) = last_of (Some x) xs"
  by (simp add: last_of_def)

lemma first_of_None_iff [simp]: "first_of xs None = None \<longleftrightarrow> xs = []"
  by (cases xs) auto

lemma last_of_None_iff [simp]: "last_of None xs = None \<longleftrightarrow> xs = []"
  by (simp add: last_of_def)

lemma first_of_Some_neq_None [simp]: "first_of xs (Some y) \<noteq> None"
  by (cases xs) auto

lemma last_of_Some_neq_None [simp]: "last_of (Some y) xs \<noteq> None"
  by (simp add: last_of_def)

lemma first_of_Some_ex [simp]: "\<exists>z. first_of xs (Some y) = Some z"
  by (cases xs) auto

lemma last_of_Some_ex [simp]: "\<exists>z. last_of (Some y) xs = Some z"
  by (simp add: last_of_def)

lemma first_of_in: "first_of xs n = Some x \<Longrightarrow> x \<in> set xs \<or> n = Some x"
  by (cases xs) auto

lemma last_of_in: "last_of p xs = Some x \<Longrightarrow> x \<in> set xs \<or> p = Some x"
  by (auto simp: last_of_def split: if_splits)

lemma first_of_eq_SomeD: "first_of xs None = Some x \<Longrightarrow> \<exists>ys. xs = x # ys"
  by (cases xs) auto

lemma last_of_eq_SomeD: "last_of None xs = Some x \<Longrightarrow> \<exists>ys. xs = ys @ [x]"
  by (cases xs rule: rev_cases) auto

fun dlseg :: "link_mem \<Rightarrow> off \<Rightarrow> off \<Rightarrow> ptr \<Rightarrow> addr list \<Rightarrow> ptr \<Rightarrow> bool" where
  "dlseg m po no p [] n = True"
| "dlseg m po no p (x # xs) n =
     (m x po = p \<and> m x no = first_of xs n \<and> dlseg m po no (Some x) xs n)"

lemma dlseg_append [link_simps]:
  "dlseg m po no p (xs @ ys) n \<longleftrightarrow>
     dlseg m po no p xs (first_of ys n) \<and> dlseg m po no (last_of p xs) ys n"
  by (induction xs arbitrary: p) (auto simp: link_simps)

lemma dlseg_frame [simp, link_simps]:
  "a \<notin> set xs \<Longrightarrow> dlseg (wr m a f v) po no p xs n = dlseg m po no p xs n"
  by (induction xs arbitrary: p) auto

lemma dlseg_cong:
  "(\<And>x. x \<in> set xs \<Longrightarrow> m x po = m' x po \<and> m x no = m' x no) \<Longrightarrow>
     dlseg m po no p xs n = dlseg m' po no p xs n"
  by (induction xs arbitrary: p) auto

definition dll :: "link_mem \<Rightarrow> off \<Rightarrow> off \<Rightarrow> ptr \<Rightarrow> ptr \<Rightarrow> addr list \<Rightarrow> bool" where
  "dll m po no h t xs \<longleftrightarrow>
     po \<noteq> no \<and> distinct xs \<and> h = first_of xs None \<and> t = last_of None xs
     \<and> dlseg m po no None xs None"

lemma dll_Nil [simp]: "dll m po no h t [] \<longleftrightarrow> po \<noteq> no \<and> h = None \<and> t = None"
  by (auto simp: dll_def)

lemma dll_head_None: "dll m po no h t xs \<Longrightarrow> h = None \<longleftrightarrow> xs = []"
  by (simp add: dll_def)

lemma dll_tail_None: "dll m po no h t xs \<Longrightarrow> t = None \<longleftrightarrow> xs = []"
  by (simp add: dll_def)

text \<open>The links of a member, read off its position.\<close>

lemma dlseg_member:
  assumes "dlseg m po no p (xs @ x # ys) n"
  shows "m x po = last_of p xs" "m x no = first_of ys n"
  using assms by (auto simp: link_simps)

text \<open>Linking in a new last element, as every append of the sources does.\<close>

lemma dll_snoc:
  assumes "dll m po no h t xs" and "x \<notin> set xs"
  shows "dll (wr (case t of None \<Rightarrow> wr m x po None
                          | Some a \<Rightarrow> wr (wr m x po (Some a)) a no (Some x)) x no None)
           po no (if h = None then Some x else h) (Some x) (xs @ [x])"
proof (cases xs rule: rev_cases)
  case Nil
  with assms show ?thesis by (auto simp: dll_def)
next
  case (snoc ys y)
  with assms show ?thesis by (auto simp: dll_def link_simps)
qed

text \<open>Linking in a new first element.\<close>

lemma dll_Cons:
  assumes "dll m po no h t xs" and "x \<notin> set xs"
  shows "dll (wr (case h of None \<Rightarrow> wr m x no None
                          | Some a \<Rightarrow> wr (wr m x no (Some a)) a po (Some x)) x po None)
           po no (Some x) (if t = None then Some x else t) (x # xs)"
proof (cases xs)
  case Nil
  with assms show ?thesis by (auto simp: dll_def)
next
  case (Cons y ys)
  with assms show ?thesis by (auto simp: dll_def link_simps)
qed

text \<open>Unlinking a member: its neighbours are joined and the end pointers moved.\<close>

definition unlink :: "link_mem \<Rightarrow> off \<Rightarrow> off \<Rightarrow> ptr \<Rightarrow> ptr \<Rightarrow> link_mem" where
  "unlink m po no p n =
     (let m1 = (case p of None \<Rightarrow> m | Some a \<Rightarrow> wr m a no n)
      in case n of None \<Rightarrow> m1 | Some b \<Rightarrow> wr m1 b po p)"

lemma dll_unlink:
  assumes "dll m po no h t (xs @ x # ys)"
  shows "dll (unlink m po no (m x po) (m x no)) po no
           (if h = Some x then m x no else h) (if t = Some x then m x po else t) (xs @ ys)"
proof -
  from assms have seg: "dlseg m po no None (xs @ x # ys) None"
    and d: "distinct (xs @ x # ys)" and off: "po \<noteq> no"
    and h: "h = first_of (xs @ x # ys) None" and t: "t = last_of None (xs @ x # ys)"
    by (auto simp: dll_def)
  have p: "m x po = last_of None xs" and n: "m x no = first_of ys None"
    using dlseg_member [OF seg] by auto
  show ?thesis
    using seg d off h t unfolding p n dll_def unlink_def
    by (cases xs rule: rev_cases; cases ys) (auto simp: link_simps dest: first_of_in last_of_in)
qed

lemma unlink_other:
  "a \<notin> set_option p \<Longrightarrow> a \<notin> set_option n \<Longrightarrow> unlink m po no p n a = m a"
  by (auto simp: unlink_def wr_def split: option.splits)

text \<open>Writing the fields of an object outside the list does not disturb it.\<close>

lemma dll_frame [simp]:
  "x \<notin> set xs \<Longrightarrow> dll (wr m x f v) po no h t xs = dll m po no h t xs"
  by (simp add: dll_def)

text \<open>
  Singly linked chains.  \<open>nxt\<close> reads the link of an object, \<open>lseg nxt p xs q\<close> says that following it
  from \<open>p\<close> passes through \<open>xs\<close> and arrives at \<open>q\<close>; \<open>walk\<close> is the loop
  \<^verbatim>\<open>for(cur = p; cur != NULL; cur = cur->next)\<close>, which returns when the chain ends.
\<close>

fun lseg :: "(addr \<Rightarrow> ptr) \<Rightarrow> ptr \<Rightarrow> addr list \<Rightarrow> ptr \<Rightarrow> bool" where
  "lseg nxt p [] q = (p = q)"
| "lseg nxt p (x # xs) q = (p = Some x \<and> lseg nxt (nxt x) xs q)"

partial_function (option) walk :: "(addr \<Rightarrow> ptr) \<Rightarrow> ptr \<Rightarrow> addr list option" where
  "walk nxt p = (case p of None \<Rightarrow> Some []
                 | Some a \<Rightarrow> do { rest \<leftarrow> walk nxt (nxt a); Some (a # rest) })"

lemma lseg_append [link_simps]:
  "lseg nxt p (xs @ ys) q \<longleftrightarrow> (\<exists>r. lseg nxt p xs r \<and> lseg nxt r ys q)"
  by (induction xs arbitrary: p) auto

lemma lseg_cong:
  "(\<And>x. x \<in> set xs \<Longrightarrow> nxt x = nxt' x) \<Longrightarrow> lseg nxt p xs q = lseg nxt' p xs q"
  by (induction xs arbitrary: p) auto

lemma lseg_first: "lseg nxt p xs q \<Longrightarrow> p = first_of xs q"
  by (cases xs) auto

lemma lseg_wr [simp]:
  "a \<notin> set xs \<Longrightarrow> lseg (\<lambda>x. wr m a f v x g) p xs q = lseg (\<lambda>x. m x g) p xs q"
  by (rule lseg_cong) auto

lemma lseg_upd [simp]: "a \<notin> set xs \<Longrightarrow> lseg (nxt(a := v)) p xs q = lseg nxt p xs q"
  by (rule lseg_cong) auto

lemma lseg_snoc:
  "lseg nxt p (xs @ [x]) q \<Longrightarrow> distinct (xs @ [x, n]) \<Longrightarrow>
     lseg (nxt(x := Some n, n := r)) p (xs @ [x, n]) r"
  by (auto simp: lseg_append)

lemma walk_lseg: "lseg nxt p xs None \<Longrightarrow> walk nxt p = Some xs"
proof (induction xs arbitrary: p)
  case Nil
  then show ?case by (subst walk.simps) simp
next
  case (Cons x xs)
  then show ?case by (subst walk.simps) simp
qed

lemma dlseg_rev_lseg: "dlseg m po no p xs n \<Longrightarrow> lseg (\<lambda>x. m x po) (last_of p xs) (rev xs) p"
  by (induction xs arbitrary: p) (auto simp: lseg_append last_of_Cons)

lemma dlseg_lseg: "dlseg m po no p xs n \<Longrightarrow> lseg (\<lambda>x. m x no) (first_of xs n) xs n"
  by (induction xs arbitrary: p) auto

text \<open>
  The contract of a first-in first-out queue of addresses, and what a client may conclude
  from it: pushing a sequence and draining the queue returns exactly that sequence, in order.
\<close>

fun enq_all :: "('s \<Rightarrow> addr \<Rightarrow> 's) \<Rightarrow> 's \<Rightarrow> addr list \<Rightarrow> 's" where
  "enq_all enq s [] = s"
| "enq_all enq s (x # xs) = enq_all enq (enq s x) xs"

fun deq_n :: "('s \<Rightarrow> ptr \<times> 's) \<Rightarrow> nat \<Rightarrow> 's \<Rightarrow> ptr list \<times> 's" where
  "deq_n deq 0 s = ([], s)"
| "deq_n deq (Suc k) s = (let (x, s1) = deq s; (xs, s2) = deq_n deq k s1 in (x # xs, s2))"

locale link_queue =
  fixes holds :: "'s \<Rightarrow> addr list \<Rightarrow> bool"
    and enq :: "'s \<Rightarrow> addr \<Rightarrow> 's"
    and deq :: "'s \<Rightarrow> ptr \<times> 's"
  assumes enq_holds: "holds s xs \<Longrightarrow> x \<notin> set xs \<Longrightarrow> holds (enq s x) (xs @ [x])"
    and deq_head: "holds s (x # xs) \<Longrightarrow> \<exists>s'. deq s = (Some x, s') \<and> holds s' xs"
    and deq_empty: "holds s [] \<Longrightarrow> deq s = (None, s)"
begin

lemma enq_all_holds:
  "holds s xs \<Longrightarrow> distinct (xs @ ys) \<Longrightarrow> holds (enq_all enq s ys) (xs @ ys)"
proof (induction ys arbitrary: s xs)
  case Nil
  then show ?case by simp
next
  case (Cons y ys)
  then have "holds (enq s y) (xs @ [y])" by (simp add: enq_holds)
  from Cons.IH [OF this] Cons.prems(2) show ?case by simp
qed

lemma deq_n_holds:
  "holds s (xs @ ys) \<Longrightarrow> \<exists>s'. deq_n deq (length xs) s = (map Some xs, s') \<and> holds s' ys"
proof (induction xs arbitrary: s)
  case Nil
  then show ?case by simp
next
  case (Cons x xs)
  from Cons.prems deq_head obtain s1 where "deq s = (Some x, s1)" "holds s1 (xs @ ys)"
    by force
  with Cons.IH show ?case by fastforce
qed

theorem fifo:
  assumes "holds s []" and "distinct xs"
  shows "\<exists>s'. deq_n deq (length xs) (enq_all enq s xs) = (map Some xs, s') \<and> holds s' []"
  using deq_n_holds [of "enq_all enq s xs" xs "[]"] enq_all_holds [of s "[]" xs] assms by simp

end

end
