(* ===== verification/Slist.thy ===== *)
theory Slist
  imports Link_Heap
begin

text \<open>
  \<^verbatim>\<open>util/nchan_slist.c\<close>: the non-allocating doubly linked list, reached through the field offsets
  stored in the list header.  Each operation takes and returns the header and the memory of link
  fields.  \<open>slist_rep\<close> relates a header and a memory to the abstract list of element addresses;
  every operation refines the list operation it is named after.
\<close>

record nchan_slist =
  sl_head :: ptr
  sl_tail :: ptr
  sl_n :: uint64
  off_prev :: off
  off_next :: off

definition nchan_slist_reset :: "nchan_slist \<Rightarrow> nchan_slist" where
  "nchan_slist_reset l = l\<lparr>sl_head := None, sl_tail := None, sl_n := 0\<rparr>"

definition nchan_slist_init :: "nchan_slist \<Rightarrow> off \<Rightarrow> off \<Rightarrow> nchan_slist" where
  "nchan_slist_init l op on = nchan_slist_reset (l\<lparr>off_prev := op, off_next := on\<rparr>)"

definition nchan_slist_first :: "nchan_slist \<Rightarrow> ptr" where
  "nchan_slist_first l = sl_head l"

definition nchan_slist_last :: "nchan_slist \<Rightarrow> ptr" where
  "nchan_slist_last l = sl_tail l"

definition nchan_slist_next :: "nchan_slist \<Rightarrow> link_mem \<Rightarrow> addr \<Rightarrow> ptr" where
  "nchan_slist_next l m el = m el (off_next l)"

definition nchan_slist_prev :: "nchan_slist \<Rightarrow> link_mem \<Rightarrow> addr \<Rightarrow> ptr" where
  "nchan_slist_prev l m el = m el (off_prev l)"

definition nchan_slist_append :: "nchan_slist \<Rightarrow> link_mem \<Rightarrow> addr \<Rightarrow> nchan_slist \<times> link_mem" where
  "nchan_slist_append l m el =
     (let l1 = (if sl_head l = None then l\<lparr>sl_head := Some el\<rparr> else l);
          m1 = (case sl_tail l1 of
                  None \<Rightarrow> wr m el (off_prev l) None
                | Some t \<Rightarrow> wr (wr m el (off_prev l) (Some t)) t (off_next l) (Some el))
      in (l1\<lparr>sl_tail := Some el, sl_n := sl_n l1 + 1\<rparr>, wr m1 el (off_next l) None))"

definition nchan_slist_prepend :: "nchan_slist \<Rightarrow> link_mem \<Rightarrow> addr \<Rightarrow> nchan_slist \<times> link_mem" where
  "nchan_slist_prepend l m el =
     (let l1 = (if sl_tail l = None then l\<lparr>sl_tail := Some el\<rparr> else l);
          m1 = (case sl_head l1 of
                  None \<Rightarrow> wr m el (off_next l) None
                | Some h \<Rightarrow> wr (wr m el (off_next l) (Some h)) h (off_prev l) (Some el))
      in (l1\<lparr>sl_head := Some el, sl_n := sl_n l1 + 1\<rparr>, wr m1 el (off_prev l) None))"

definition nchan_slist_remove :: "nchan_slist \<Rightarrow> link_mem \<Rightarrow> addr \<Rightarrow> nchan_slist \<times> link_mem" where
  "nchan_slist_remove l m el =
     (let el_prev = m el (off_prev l); el_next = m el (off_next l);
          l1 = (if sl_head l = Some el then l\<lparr>sl_head := el_next\<rparr> else l);
          l2 = (if sl_tail l1 = Some el then l1\<lparr>sl_tail := el_prev\<rparr> else l1);
          m1 = (case el_prev of None \<Rightarrow> m | Some p \<Rightarrow> wr m p (off_next l) el_next);
          m2 = (case el_next of None \<Rightarrow> m1 | Some n \<Rightarrow> wr m1 n (off_prev l) el_prev)
      in (l2\<lparr>sl_n := sl_n l2 - 1\<rparr>, wr (wr m2 el (off_prev l) None) el (off_next l) None))"

text \<open>
  \<^verbatim>\<open>dst_tail_next_ptr\<close> is computed from \<^verbatim>\<open>src->tail\<close>, as in the source.  The pointer to the
  source's head field is only dereferenced after the emptiness test.
\<close>

definition nchan_slist_transfer ::
  "nchan_slist \<Rightarrow> nchan_slist \<Rightarrow> link_mem \<Rightarrow> (nchan_slist \<times> nchan_slist \<times> link_mem) option" where
  "nchan_slist_transfer dst src m = do {
     c_assert (off_prev dst = off_prev src);
     c_assert (off_next dst = off_next src);
     if sl_n src = 0 then do {
       c_assert (sl_head src = None);
       c_assert (sl_tail src = None);
       Some (dst, src, m)
     } else do {
       h \<leftarrow> sl_head src;
       let m1 = wr m h (off_prev src) (sl_tail dst);
       m2 \<leftarrow> (case sl_tail dst of
               None \<Rightarrow> Some m1
             | Some _ \<Rightarrow> (case sl_tail src of
                           None \<Rightarrow> None
                         | Some st \<Rightarrow> Some (wr m1 st (off_next dst) (sl_head src))));
       let dst1 = dst\<lparr>sl_tail := sl_tail src\<rparr>;
       let dst2 = (if sl_head dst1 = None then dst1\<lparr>sl_head := sl_head src\<rparr> else dst1);
       Some (dst2\<lparr>sl_tail := sl_tail src, sl_n := sl_n dst2 + sl_n src\<rparr>,
             src\<lparr>sl_n := 0, sl_head := None, sl_tail := None\<rparr>, m2)
     }
   }"

definition nchan_slist_shift :: "nchan_slist \<Rightarrow> link_mem \<Rightarrow> ptr \<times> nchan_slist \<times> link_mem" where
  "nchan_slist_shift l m =
     (case sl_head l of None \<Rightarrow> (None, l, m) | Some h \<Rightarrow> (Some h, nchan_slist_remove l m h))"

definition nchan_slist_pop :: "nchan_slist \<Rightarrow> link_mem \<Rightarrow> ptr \<times> nchan_slist \<times> link_mem" where
  "nchan_slist_pop l m =
     (case sl_tail l of None \<Rightarrow> (None, l, m) | Some t \<Rightarrow> (Some t, nchan_slist_remove l m t))"

definition nchan_slist_is_empty :: "nchan_slist \<Rightarrow> bool option" where
  "nchan_slist_is_empty l =
     (if sl_n l = 0 then do { c_assert (sl_head l = None); c_assert (sl_tail l = None); Some True }
      else do { c_assert (sl_head l \<noteq> None); c_assert (sl_tail l \<noteq> None); Some False })"

text \<open>The abstraction relation.\<close>

definition slist_rep :: "nchan_slist \<Rightarrow> link_mem \<Rightarrow> addr list \<Rightarrow> bool" where
  "slist_rep l m xs \<longleftrightarrow>
     dll m (off_prev l) (off_next l) (sl_head l) (sl_tail l) xs \<and> sl_n l = of_nat (length xs)"

lemma slist_rep_init: "op \<noteq> on \<Longrightarrow> slist_rep (nchan_slist_init l op on) m []"
  by (simp add: slist_rep_def nchan_slist_init_def nchan_slist_reset_def)

lemma slist_append_rep:
  assumes "slist_rep l m xs" and "x \<notin> set xs"
  shows "case nchan_slist_append l m x of (l', m') \<Rightarrow> slist_rep l' m' (xs @ [x])"
  using assms dll_snoc [of m "off_prev l" "off_next l" "sl_head l" "sl_tail l" xs x]
  by (auto simp: slist_rep_def nchan_slist_append_def Let_def split: option.splits)

lemma slist_prepend_rep:
  assumes "slist_rep l m xs" and "x \<notin> set xs"
  shows "case nchan_slist_prepend l m x of (l', m') \<Rightarrow> slist_rep l' m' (x # xs)"
  using assms dll_Cons [of m "off_prev l" "off_next l" "sl_head l" "sl_tail l" xs x]
  by (auto simp: slist_rep_def nchan_slist_prepend_def Let_def split: option.splits)

lemma slist_remove_rep:
  assumes "slist_rep l m (xs @ x # ys)"
  shows "case nchan_slist_remove l m x of (l', m') \<Rightarrow>
           slist_rep l' m' (xs @ ys) \<and> m' x (off_prev l') = None \<and> m' x (off_next l') = None"
proof -
  from assms have "dll m (off_prev l) (off_next l) (sl_head l) (sl_tail l) (xs @ x # ys)"
    and x: "x \<notin> set (xs @ ys)" and n: "sl_n l = of_nat (length xs) + 1 + of_nat (length ys)"
    by (auto simp: slist_rep_def dll_def)
  from dll_unlink [OF this(1)] x n show ?thesis
    by (auto simp: slist_rep_def nchan_slist_remove_def Let_def unlink_def split: option.splits)
qed

lemma slist_shift_Cons:
  "slist_rep l m (x # xs) \<Longrightarrow>
     \<exists>l' m'. nchan_slist_shift l m = (Some x, l', m') \<and> slist_rep l' m' xs"
  using slist_remove_rep [of l m "[]" x xs]
  by (auto simp: nchan_slist_shift_def slist_rep_def dll_def split: prod.splits)

lemma slist_shift_Nil: "slist_rep l m [] \<Longrightarrow> nchan_slist_shift l m = (None, l, m)"
  by (simp add: nchan_slist_shift_def slist_rep_def)

lemma slist_pop_snoc:
  "slist_rep l m (xs @ [x]) \<Longrightarrow>
     \<exists>l' m'. nchan_slist_pop l m = (Some x, l', m') \<and> slist_rep l' m' xs"
  using slist_remove_rep [of l m xs x "[]"]
  by (auto simp: nchan_slist_pop_def slist_rep_def dll_def split: prod.splits)

lemma slist_pop_Nil: "slist_rep l m [] \<Longrightarrow> nchan_slist_pop l m = (None, l, m)"
  by (simp add: nchan_slist_pop_def slist_rep_def)

lemma slist_is_empty_iff:
  assumes "slist_rep l m xs" and "length xs < 2 ^ 64"
  shows "nchan_slist_is_empty l = Some (xs = [])"
  using assms of_nat_word_eq_0 [of "length xs", where 'a = 64]
  by (auto simp: nchan_slist_is_empty_def slist_rep_def dll_def)
text \<open>The list is a queue of addresses: append at the tail, shift from the head.\<close>

interpretation slist_queue: link_queue
  "\<lambda>(l, m) xs. slist_rep l m xs"
  "\<lambda>(l, m) x. nchan_slist_append l m x"
  "\<lambda>(l, m). nchan_slist_shift l m"
proof
  fix s xs x
  assume "(\<lambda>(l, m) xs. slist_rep l m xs) s xs" "x \<notin> set xs"
  then show "(\<lambda>(l, m) xs. slist_rep l m xs) ((\<lambda>(l, m) x. nchan_slist_append l m x) s x) (xs @ [x])"
    using slist_append_rep by (cases s) fastforce
next
  fix s x xs
  assume "(\<lambda>(l, m) xs. slist_rep l m xs) s (x # xs)"
  then show "\<exists>s'. (\<lambda>(l, m). nchan_slist_shift l m) s = (Some x, s')
                 \<and> (\<lambda>(l, m) xs. slist_rep l m xs) s' xs"
    using slist_shift_Cons by (cases s) fastforce
next
  fix s
  assume "(\<lambda>(l, m) xs. slist_rep l m xs) s []"
  then show "(\<lambda>(l, m). nchan_slist_shift l m) s = (None, s)"
    using slist_shift_Nil by (cases s) fastforce
qed

text \<open>Moving one list to the end of another.\<close>

lemma slist_transfer_to_empty:
  assumes "slist_rep dst m []" and "slist_rep src m ys"
    and "off_prev dst = off_prev src" and "off_next dst = off_next src"
    and "length ys < 2 ^ 64"
  shows "\<exists>dst' src' m'. nchan_slist_transfer dst src m = Some (dst', src', m')
           \<and> slist_rep dst' m' ys \<and> slist_rep src' m' []"
proof (cases ys)
  case Nil
  with assms show ?thesis by (auto simp: slist_rep_def nchan_slist_transfer_def)
next
  case (Cons y zs)
  from assms(5) Cons have "(of_nat (length ys) :: uint64) \<noteq> 0"
    using of_nat_word_eq_0 [of "length ys", where 'a = 64] by simp
  with assms Cons show ?thesis
    by (auto simp: slist_rep_def nchan_slist_transfer_def Let_def dll_def)
qed

text \<open>
  Appending one non-empty list to another does not append it: the code takes the address of the link that it
  means to extend from the source list, so the last element of the source is linked back to its first (a cycle), while
  the last element of the destination keeps its \<^verbatim>\<open>NULL\<close> link and the moved elements cannot be reached from the
  destination's head, although the destination counts them.  No file of the module calls
  \<^verbatim>\<open>nchan_slist_transfer\<close>.
\<close>

lemma slist_transfer_nonempty:
  assumes "slist_rep dst m (xs @ [x])" and "slist_rep src m (y # ys)"
    and "set (xs @ [x]) \<inter> set (y # ys) = {}"
    and "off_prev dst = off_prev src" and "off_next dst = off_next src"
    and "length (y # ys) < 2 ^ 64"
  shows "\<exists>dst' src' m'. nchan_slist_transfer dst src m = Some (dst', src', m')
           \<and> sl_head dst' = sl_head dst \<and> sl_tail dst' = Some (last (y # ys)) \<and> sl_n dst' = sl_n dst + sl_n src
           \<and> sl_head src' = None \<and> sl_tail src' = None \<and> sl_n src' = 0
           \<and> dlseg m' (off_prev dst') (off_next dst') None (xs @ [x]) None
           \<and> nchan_slist_next dst' m' (last (y # ys)) = Some y"
proof -
  define z where "z = last (y # ys)"
  have z: "z \<in> set (y # ys)" unfolding z_def by (rule last_in_set) simp
  have y: "y \<notin> set (xs @ [x])" and zx: "z \<notin> set (xs @ [x])"
    using assms(3) z by auto
  have n0: "sl_n src \<noteq> 0"
    using assms(2,6) of_nat_word_eq_0 [of "length (y # ys)", where 'a = 64]
    by (simp add: slist_rep_def)
  have ends: "sl_tail dst = Some x" "sl_head dst \<noteq> None" "sl_head src = Some y" "sl_tail src = Some z"
    using assms(1,2) by (simp_all add: slist_rep_def dll_def last_of_def first_of_append z_def)
  have seg: "dlseg m (off_prev dst) (off_next dst) None (xs @ [x]) None"
    using assms(1) by (simp add: slist_rep_def dll_def)
  let ?m = "wr (wr m y (off_prev src) (Some x)) z (off_next dst) (Some y)"
  have seg': "dlseg ?m (off_prev dst) (off_next dst) None (xs @ [x]) None"
    using seg by (simp only: dlseg_frame [OF zx] dlseg_frame [OF y])
  have t: "nchan_slist_transfer dst src m =
      Some (dst\<lparr>sl_tail := Some z, sl_n := sl_n dst + sl_n src\<rparr>,
            src\<lparr>sl_n := 0, sl_head := None, sl_tail := None\<rparr>, ?m)"
    using n0 ends assms(4,5) by (simp add: nchan_slist_transfer_def Let_def)
  show ?thesis
    unfolding t z_def [symmetric] using seg' by (simp add: nchan_slist_next_def)
qed

text \<open>
  The intrusive list is a first-in first-out queue: appending distinct elements to an empty list and then shifting as
  many returns them in the order they were appended and leaves the list empty again.
\<close>

theorem slist_fifo:
  assumes "slist_rep l m []" and "distinct xs"
  shows "\<exists>l' m'. deq_n (\<lambda>(l, m). nchan_slist_shift l m) (length xs) (enq_all (\<lambda>(l, m) x. nchan_slist_append l m x) (l, m) xs)
           = (map Some xs, l', m') \<and> slist_rep l' m' []"
  using slist_queue.fifo [of "(l, m)" xs] assms by fastforce

definition sample_slist :: nchan_slist where
  "sample_slist = nchan_slist_init \<lparr>sl_head = None, sl_tail = None, sl_n = 0, off_prev = 0, off_next = 0\<rparr> 0 8"

theorem slist_fifo_witness:
  "\<exists>l' m'. deq_n (\<lambda>(l, m). nchan_slist_shift l m) (length [5, 6, 7 :: addr])
       (enq_all (\<lambda>(l, m) x. nchan_slist_append l m x) (sample_slist, \<lambda>_ _. None) [5, 6, 7])
     = (map Some [5, 6, 7], l', m') \<and> slist_rep l' m' []"
  by (rule slist_fifo) (simp_all add: sample_slist_def slist_rep_init)

end
