(* ===== verification/Heap_List.thy ===== *)
theory Heap_List
  imports Link_Heap
begin

text \<open>
  \<^verbatim>\<open>util/nchan_list.c\<close>: the allocating doubly linked list.  An element is a header with the fields
  \<^verbatim>\<open>prev\<close> and \<^verbatim>\<open>next\<close> followed by its data, so an element and its data are named by one address.
  The memory records the link fields and who owns each element: the C heap (\<open>lm_heap\<close>) or the
  list's nginx pool (\<open>lm_pool\<close>).  What \<^verbatim>\<open>ngx_alloc\<close> or \<^verbatim>\<open>ngx_palloc\<close> returns is an argument of the
  operation; the code does not test it, so \<open>None\<close> is a fault.  Freeing an address that the heap
  does not own is a fault.
\<close>

definition el_prev :: off where "el_prev = 0"
definition el_next :: off where "el_next = 8"

record nchan_list =
  ls_head :: ptr
  ls_tail :: ptr
  ls_n :: uint64
  data_sz :: nat
  ls_pool :: bool  \<comment> \<open>\<^verbatim>\<open>pool != NULL\<close>\<close>
  pool_sz :: nat

record list_mem =
  lm_links :: link_mem
  lm_heap :: "addr set"
  lm_pool :: "addr set"

definition nchan_list_pool_init :: "nchan_list \<Rightarrow> nat \<Rightarrow> nat \<Rightarrow> nchan_list" where
  "nchan_list_pool_init l dsz psz =
     l\<lparr>ls_head := None, ls_tail := None, data_sz := dsz, ls_n := 0, ls_pool := False, pool_sz := psz\<rparr>"

definition nchan_list_init :: "nchan_list \<Rightarrow> nat \<Rightarrow> nchan_list" where
  "nchan_list_init l dsz = nchan_list_pool_init l dsz 0"

definition nchan_list_get_pool :: "nchan_list \<Rightarrow> nchan_list" where
  "nchan_list_get_pool l = (if \<not> ls_pool l \<and> pool_sz l \<noteq> 0 then l\<lparr>ls_pool := True\<rparr> else l)"

definition nchan_list_first :: "nchan_list \<Rightarrow> ptr" where
  "nchan_list_first l = ls_head l"

definition nchan_list_last :: "nchan_list \<Rightarrow> ptr" where
  "nchan_list_last l = ls_tail l"

definition nchan_list_prev :: "list_mem \<Rightarrow> addr \<Rightarrow> ptr" where
  "nchan_list_prev m d = lm_links m d el_prev"

definition nchan_list_next :: "list_mem \<Rightarrow> addr \<Rightarrow> ptr" where
  "nchan_list_next m d = lm_links m d el_next"

definition nchan_list_append_sized ::
  "nchan_list \<Rightarrow> list_mem \<Rightarrow> ptr \<Rightarrow> (addr \<times> nchan_list \<times> list_mem) option" where
  "nchan_list_append_sized l m alloc = do {
     let tail = ls_tail l;
     el \<leftarrow> alloc;
     let (l1, m1) = (if pool_sz l > 0
                     then (nchan_list_get_pool l, m\<lparr>lm_pool := insert el (lm_pool m)\<rparr>)
                     else (l, m\<lparr>lm_heap := insert el (lm_heap m)\<rparr>));
     let k1 = (case tail of None \<Rightarrow> lm_links m1 | Some t \<Rightarrow> wr (lm_links m1) t el_next (Some el));
     let k2 = wr (wr k1 el el_prev tail) el el_next None;
     let l2 = (if ls_head l1 = None then l1\<lparr>ls_head := Some el\<rparr> else l1);
     Some (el, l2\<lparr>ls_tail := Some el, ls_n := ls_n l2 + 1\<rparr>, m1\<lparr>lm_links := k2\<rparr>)
   }"

text \<open>The guard \<^verbatim>\<open>if(!list->tail) list->head = el;\<close> is kept as the source has it.\<close>

definition nchan_list_prepend_sized ::
  "nchan_list \<Rightarrow> list_mem \<Rightarrow> ptr \<Rightarrow> (addr \<times> nchan_list \<times> list_mem) option" where
  "nchan_list_prepend_sized l m alloc = do {
     let head = ls_head l;
     el \<leftarrow> alloc;
     let m1 = m\<lparr>lm_heap := insert el (lm_heap m)\<rparr>;
     let k1 = (case head of None \<Rightarrow> lm_links m1 | Some h \<Rightarrow> wr (lm_links m1) h el_prev (Some el));
     let k2 = wr (wr k1 el el_prev None) el el_next head;
     let l1 = l\<lparr>ls_head := Some el\<rparr>;
     let l2 = (if ls_tail l1 = None then l1\<lparr>ls_head := Some el\<rparr> else l1);
     Some (el, l2\<lparr>ls_n := ls_n l2 + 1\<rparr>, m1\<lparr>lm_links := k2\<rparr>)
   }"

text \<open>
  \<^verbatim>\<open>nchan_list_remove\<close>: the neighbours are joined, then the element is released; \<^verbatim>\<open>ngx_pfree\<close> on a
  pool leaves the memory to the pool, which still owns it.
\<close>

definition nchan_list_remove :: "nchan_list \<Rightarrow> list_mem \<Rightarrow> addr \<Rightarrow> (nchan_list \<times> list_mem) option" where
  "nchan_list_remove l m el = do {
     let k = lm_links m;
     let k1 = (case k el el_prev of None \<Rightarrow> k | Some p \<Rightarrow> wr k p el_next (k el el_next));
     let k2 = (case k1 el el_next of None \<Rightarrow> k1 | Some n \<Rightarrow> wr k1 n el_prev (k1 el el_prev));
     let l1 = (if ls_head l = Some el then l\<lparr>ls_head := k2 el el_next\<rparr> else l);
     let l2 = (if ls_tail l1 = Some el then l1\<lparr>ls_tail := k2 el el_prev\<rparr> else l1);
     let l3 = l2\<lparr>ls_n := ls_n l2 - 1\<rparr>;
     let m1 = m\<lparr>lm_links := k2\<rparr>;
     if ls_pool l3 then Some (l3, m1)
     else if el \<in> lm_heap m1 then Some (l3, m1\<lparr>lm_heap := lm_heap m1 - {el}\<rparr>)
     else None
   }"

partial_function (option) free_elements :: "link_mem \<Rightarrow> ptr \<Rightarrow> addr set \<Rightarrow> addr set option" where
  "free_elements k el heap =
     (case el of
        None \<Rightarrow> Some heap
      | Some a \<Rightarrow> if a \<in> heap then free_elements k (k a el_next) (heap - {a}) else None)"

definition nchan_list_empty :: "nchan_list \<Rightarrow> list_mem \<Rightarrow> (nchan_list \<times> list_mem) option" where
  "nchan_list_empty l m = do {
     (l1, m1) \<leftarrow> (if ls_pool l then Some (l\<lparr>ls_pool := False\<rparr>, m\<lparr>lm_pool := {}\<rparr>)
                 else map_option (\<lambda>h. (l, m\<lparr>lm_heap := h\<rparr>))
                        (free_elements (lm_links m) (ls_head l) (lm_heap m)));
     Some (l1\<lparr>ls_head := None, ls_tail := None, ls_n := 0\<rparr>, m1)
   }"

definition nchan_list_count :: "nchan_list \<Rightarrow> uint64" where
  "nchan_list_count l = ls_n l"

text \<open>The loop of \<^verbatim>\<open>nchan_list_traverse_and_empty\<close>; the callback acts on the caller's state.\<close>

partial_function (option) traverse_elements ::
  "link_mem \<Rightarrow> bool \<Rightarrow> (addr \<Rightarrow> 's \<Rightarrow> 's) \<Rightarrow> ptr \<Rightarrow> addr set \<Rightarrow> 's \<Rightarrow> (addr set \<times> 's) option" where
  "traverse_elements k pool cb el heap pd =
     (case el of
        None \<Rightarrow> Some (heap, pd)
      | Some a \<Rightarrow>
          let pd1 = cb a pd; nxt = k a el_next
          in if pool then traverse_elements k pool cb nxt heap pd1
             else if a \<in> heap then traverse_elements k pool cb nxt (heap - {a}) pd1
             else None)"

definition nchan_list_traverse_and_empty ::
  "nchan_list \<Rightarrow> list_mem \<Rightarrow> (addr \<Rightarrow> 's \<Rightarrow> 's) \<Rightarrow> 's \<Rightarrow> (nchan_list \<times> list_mem \<times> 's) option" where
  "nchan_list_traverse_and_empty l m cb pd = do {
     let head = ls_head l;
     let pool = ls_pool l;
     let l1 = l\<lparr>ls_head := None, ls_tail := None, ls_n := 0, ls_pool := False\<rparr>;
     (heap, pd1) \<leftarrow> traverse_elements (lm_links m) pool cb head (lm_heap m) pd;
     let m1 = m\<lparr>lm_heap := heap\<rparr>;
     Some (l1, (if pool then m1\<lparr>lm_pool := {}\<rparr> else m1), pd1)
   }"

text \<open>The abstraction relation of a list without a pool, and that every element is owned.\<close>

definition hlist_rep :: "nchan_list \<Rightarrow> list_mem \<Rightarrow> addr list \<Rightarrow> bool" where
  "hlist_rep l m xs \<longleftrightarrow>
     dll (lm_links m) el_prev el_next (ls_head l) (ls_tail l) xs
     \<and> ls_n l = of_nat (length xs) \<and> pool_sz l = 0 \<and> \<not> ls_pool l \<and> set xs \<subseteq> lm_heap m"

lemma el_offsets [simp]: "el_prev \<noteq> el_next" "el_next \<noteq> el_prev"
  by (simp_all add: el_prev_def el_next_def)

lemma hlist_rep_init: "hlist_rep (nchan_list_init l sz) m []"
  by (simp add: hlist_rep_def nchan_list_init_def nchan_list_pool_init_def)

lemma hlist_append_rep:
  assumes "hlist_rep l m xs" and "a \<notin> lm_heap m"
  shows "\<exists>l' m'. nchan_list_append_sized l m (Some a) = Some (a, l', m')
           \<and> hlist_rep l' m' (xs @ [a]) \<and> lm_heap m' = insert a (lm_heap m)"
proof -
  from assms have a: "a \<notin> set xs" and d: "dll (lm_links m) el_prev el_next (ls_head l) (ls_tail l) xs"
    by (auto simp: hlist_rep_def)
  have "wr (wr (case ls_tail l of None \<Rightarrow> lm_links m | Some t \<Rightarrow> wr (lm_links m) t el_next (Some a))
           a el_prev (ls_tail l)) a el_next None
        = wr (case ls_tail l of None \<Rightarrow> wr (lm_links m) a el_prev None
             | Some t \<Rightarrow> wr (wr (lm_links m) a el_prev (Some t)) t el_next (Some a)) a el_next None"
    using a d by (auto simp: fun_eq_iff dll_def last_of_def split: option.splits)
  then show ?thesis
    using dll_snoc [OF d a] assms
    by (auto simp: hlist_rep_def nchan_list_append_sized_def Let_def split: option.splits)
qed

lemma hlist_remove_rep:
  assumes "hlist_rep l m (xs @ x # ys)"
  shows "\<exists>l' m'. nchan_list_remove l m x = Some (l', m')
           \<and> hlist_rep l' m' (xs @ ys) \<and> lm_heap m' = lm_heap m - {x}"
proof -
  from assms have d: "dll (lm_links m) el_prev el_next (ls_head l) (ls_tail l) (xs @ x # ys)"
    and own: "set (xs @ x # ys) \<subseteq> lm_heap m" and dist: "distinct (xs @ x # ys)"
    and n: "ls_n l = of_nat (length xs) + 1 + of_nat (length ys)"
    by (auto simp: hlist_rep_def dll_def)
  have nb: "lm_links m x el_prev = last_of None xs" "lm_links m x el_next = first_of ys None"
    using d dlseg_member by (auto simp: dll_def)
  have neq: "lm_links m x el_prev \<noteq> Some x" "lm_links m x el_next \<noteq> Some x"
    unfolding nb using dist by (auto dest: first_of_in last_of_in)
  define k where "k = lm_links m"
  define k2 where "k2 = unlink k el_prev el_next (k x el_prev) (k x el_next)"
  have k2x: "k2 x = k x"
    unfolding k2_def k_def using neq by (intro unlink_other) auto
  have rem: "nchan_list_remove l m x =
      Some (l\<lparr>ls_head := (if ls_head l = Some x then k x el_next else ls_head l),
              ls_tail := (if ls_tail l = Some x then k x el_prev else ls_tail l),
              ls_n := ls_n l - 1\<rparr>,
            m\<lparr>lm_links := k2, lm_heap := lm_heap m - {x}\<rparr>)"
    using own neq assms k2x
    by (auto simp: nchan_list_remove_def Let_def k2_def k_def unlink_def hlist_rep_def
             split: option.splits)
  have "set (xs @ ys) \<subseteq> lm_heap m - {x}" using own dist by auto
  with dll_unlink [OF d] n assms show ?thesis
    unfolding rem k2_def k_def by (simp add: hlist_rep_def split del: if_split)
qed

lemma free_elements_seg:
  "dlseg k el_prev el_next p xs None \<Longrightarrow> distinct xs \<Longrightarrow> set xs \<subseteq> heap \<Longrightarrow>
     free_elements k (first_of xs None) heap = Some (heap - set xs)"
proof (induction xs arbitrary: p heap)
  case Nil
  then show ?case by (subst free_elements.simps) simp
next
  case (Cons x xs)
  then have "free_elements k (first_of xs None) (heap - {x}) = Some (heap - {x} - set xs)"
    by (intro Cons.IH [of "Some x"]) auto
  with Cons.prems show ?case
    by (subst free_elements.simps) auto
qed

lemma hlist_empty_rep:
  assumes "hlist_rep l m xs"
  shows "\<exists>l' m'. nchan_list_empty l m = Some (l', m') \<and> hlist_rep l' m' []
           \<and> lm_heap m' = lm_heap m - set xs"
  using assms free_elements_seg [of "lm_links m" None xs "lm_heap m"]
  by (auto simp: hlist_rep_def nchan_list_empty_def dll_def)

lemma traverse_elements_seg:
  "dlseg k el_prev el_next p xs None \<Longrightarrow> distinct xs \<Longrightarrow> set xs \<subseteq> heap \<Longrightarrow>
     traverse_elements k False cb (first_of xs None) heap pd = Some (heap - set xs, fold cb xs pd)"
proof (induction xs arbitrary: p heap pd)
  case Nil
  then show ?case by (subst traverse_elements.simps) simp
next
  case (Cons x xs)
  then have "traverse_elements k False cb (first_of xs None) (heap - {x}) (cb x pd)
             = Some (heap - {x} - set xs, fold cb xs (cb x pd))"
    by (intro Cons.IH [of "Some x"]) auto
  with Cons.prems show ?case
    by (subst traverse_elements.simps) (auto simp: Let_def)
qed

text \<open>
  Traversing and emptying a heap list calls the callback once for every element, in order, frees exactly the
  elements of the list, and leaves an empty list.
\<close>

theorem hlist_traverse_rep:
  assumes "hlist_rep l m xs"
  shows "\<exists>l' m'. nchan_list_traverse_and_empty l m cb pd = Some (l', m', fold cb xs pd)
           \<and> hlist_rep l' m' [] \<and> lm_heap m' = lm_heap m - set xs"
  using assms traverse_elements_seg [of "lm_links m" None xs "lm_heap m" cb pd]
  by (auto simp: hlist_rep_def nchan_list_traverse_and_empty_def dll_def)

text \<open>
  Prepending to an empty heap list leaves its tail pointer \<^verbatim>\<open>NULL\<close>.  The element appended next is not linked to
  the one before: it is not reachable from the head, and emptying the list does not free it.  No file of the module
  calls \<^verbatim>\<open>nchan_list_prepend\<close>.
\<close>

lemma hlist_prepend_append_leaks:
  assumes "hlist_rep l m []" and "a \<notin> lm_heap m" and "b \<notin> insert a (lm_heap m)"
  shows "\<exists>l1 m1 l2 m2 l3 m3. nchan_list_prepend_sized l m (Some a) = Some (a, l1, m1) \<and> ls_tail l1 = None
           \<and> nchan_list_append_sized l1 m1 (Some b) = Some (b, l2, m2) \<and> ls_n l2 = 2
           \<and> ls_head l2 = Some a \<and> nchan_list_next m2 a = None \<and> ls_tail l2 = Some b \<and> nchan_list_prev m2 b = None
           \<and> nchan_list_empty l2 m2 = Some (l3, m3) \<and> lm_heap m3 = insert b (lm_heap m)"
  using assms
  by (auto simp: hlist_rep_def nchan_list_prepend_sized_def nchan_list_append_sized_def nchan_list_empty_def
      nchan_list_next_def nchan_list_prev_def free_elements.simps)

definition sample_hlist :: nchan_list where
  "sample_hlist = \<lparr>ls_head = None, ls_tail = None, ls_n = 0, data_sz = 8, ls_pool = False, pool_sz = 0\<rparr>"

theorem hlist_traverse_rep_witness:
  "\<exists>l' m'. nchan_list_traverse_and_empty (sample_hlist\<lparr>ls_head := Some 5, ls_tail := Some 6, ls_n := 2\<rparr>)
       \<lparr>lm_links = wr (wr (\<lambda>_ _. None) 5 el_next (Some 6)) 6 el_prev (Some 5), lm_heap = {5, 6, 7}, lm_pool = {}\<rparr> (#) [] = Some (l', m', [6, 5])
     \<and> hlist_rep l' m' [] \<and> lm_heap m' = {7}"
  using hlist_traverse_rep [of "sample_hlist\<lparr>ls_head := Some 5, ls_tail := Some 6, ls_n := 2\<rparr>"
      "\<lparr>lm_links = wr (wr (\<lambda>_ _. None) 5 el_next (Some 6)) 6 el_prev (Some 5), lm_heap = {5, 6, 7}, lm_pool = {}\<rparr>" "[5, 6]" "(#)" "[]"]
  by (auto simp: hlist_rep_def dll_def last_of_def sample_hlist_def)

end
