(* ===== verification/Reuse_Queue.thy ===== *)
theory Reuse_Queue
  imports Link_Heap
begin

text \<open>
  nchan\_reuse\_queue.c: a queue of preallocated things that keeps the ones popped off it on a
  reserve chain, to be handed out again by the next push.

  The links live in a \<open>link_mem\<close> as in \<open>Link_Heap\<close>.  \<^verbatim>\<open>rq->alloc\<close> is an argument of the push (the
  pointer it returned); the calls of \<^verbatim>\<open>rq->free\<close> are returned as the list of things it was called on.
\<close>

record nchan_reuse_queue =
  rq_size :: uint32  \<comment> \<open>an \<^verbatim>\<open>int\<close> in C\<close>
  next_ptr_offset :: off
  prev_ptr_offset :: off
  rq_first :: ptr
  rq_last :: ptr
  rq_reserve :: ptr
  rq_has_free :: bool

definition nchan_reuse_queue_init :: "nchan_reuse_queue \<Rightarrow> off \<Rightarrow> off \<Rightarrow> bool \<Rightarrow> nchan_reuse_queue" where
  "nchan_reuse_queue_init rq prev nxt has_free =
     rq\<lparr>rq_size := 0, prev_ptr_offset := prev, next_ptr_offset := nxt, rq_first := None,
        rq_last := None, rq_reserve := None, rq_has_free := has_free\<rparr>"

definition thing_next :: "nchan_reuse_queue \<Rightarrow> link_mem \<Rightarrow> addr \<Rightarrow> ptr" where
  "thing_next rq m thing = m thing (next_ptr_offset rq)"

text \<open>The result is the number of things, the things freed, and the queue.\<close>

definition nchan_reuse_queue_flush ::
  "nchan_reuse_queue \<Rightarrow> link_mem \<Rightarrow> (nat \<times> addr list \<times> nchan_reuse_queue) option" where
  "nchan_reuse_queue_flush rq m = do {
     things \<leftarrow> walk (thing_next rq m) (rq_first rq);
     Some (length things, if rq_has_free rq then things else [],
           rq\<lparr>rq_reserve := rq_first rq, rq_first := None, rq_last := None\<rparr>)
   }"

definition nchan_reuse_queue_shutdown ::
  "nchan_reuse_queue \<Rightarrow> link_mem \<Rightarrow> (ngx_rc \<times> addr list \<times> nchan_reuse_queue \<times> link_mem) option" where
  "nchan_reuse_queue_shutdown rq m = do {
     freed \<leftarrow> (if rq_has_free rq then do {
                 used \<leftarrow> walk (thing_next rq m) (rq_first rq);
                 idle \<leftarrow> walk (thing_next rq m) (rq_reserve rq);
                 Some (used @ idle)
               } else Some []);
     let m = (case rq_last rq of None \<Rightarrow> m
              | Some l \<Rightarrow> wr m l (next_ptr_offset rq) (rq_reserve rq));
     let rq = rq\<lparr>rq_first := None, rq_last := None\<rparr>;
     let rq = (if rq_first rq \<noteq> None then rq\<lparr>rq_reserve := rq_first rq\<rparr> else rq);
     Some (NGX_OK, freed, rq, m)
   }"

definition nchan_reuse_queue_push ::
  "nchan_reuse_queue \<Rightarrow> link_mem \<Rightarrow> ptr \<Rightarrow> (addr \<times> nchan_reuse_queue \<times> link_mem) option" where
  "nchan_reuse_queue_push rq m alloc = do {
     let (p, rq) = (case rq_reserve rq of
            Some q \<Rightarrow> (Some q, rq\<lparr>rq_reserve := thing_next rq m q\<rparr>)
          | None \<Rightarrow> (alloc, rq\<lparr>rq_size := rq_size rq + 1\<rparr>));
     q \<leftarrow> p;
     let m = wr m q (next_ptr_offset rq) None;
     let m = wr m q (prev_ptr_offset rq) (rq_last rq);
     let m = (case rq_last rq of None \<Rightarrow> m | Some l \<Rightarrow> wr m l (next_ptr_offset rq) (Some q));
     let rq = rq\<lparr>rq_last := Some q\<rparr>;
     let rq = (if rq_first rq = None then rq\<lparr>rq_first := Some q\<rparr> else rq);
     Some (q, rq, m)
   }"

definition nchan_reuse_queue_first :: "nchan_reuse_queue \<Rightarrow> ptr" where
  "nchan_reuse_queue_first rq = rq_first rq"

definition nchan_reuse_queue_each ::
  "nchan_reuse_queue \<Rightarrow> link_mem \<Rightarrow> (addr \<Rightarrow> 's \<Rightarrow> 's) \<Rightarrow> 's \<Rightarrow> 's option" where
  "nchan_reuse_queue_each rq m callback s =
     map_option (\<lambda>things. fold callback things s) (walk (thing_next rq m) (rq_first rq))"

definition nchan_reuse_queue_pop ::
  "nchan_reuse_queue \<Rightarrow> link_mem \<Rightarrow> nchan_reuse_queue \<times> link_mem" where
  "nchan_reuse_queue_pop rq m =
     (case rq_first rq of
        None \<Rightarrow> (rq, m)
      | Some q \<Rightarrow>
          let rq = rq\<lparr>rq_first := thing_next rq m q\<rparr>;
              m = (case rq_first rq of None \<Rightarrow> m | Some f \<Rightarrow> wr m f (prev_ptr_offset rq) None);
              rq = (if rq_last rq = Some q then rq\<lparr>rq_last := None\<rparr> else rq);
              m = wr m q (prev_ptr_offset rq) None;
              m = wr m q (next_ptr_offset rq) (rq_reserve rq)
          in (rq\<lparr>rq_reserve := Some q\<rparr>, m))"

subsection \<open>What a queue holds\<close>

text \<open>\<open>xs\<close> are the things in use, in order, \<open>rs\<close> the idle ones.\<close>

definition rq_rep :: "nchan_reuse_queue \<times> link_mem \<Rightarrow> addr list \<Rightarrow> addr list \<Rightarrow> bool" where
  "rq_rep s xs rs \<longleftrightarrow> (case s of (rq, m) \<Rightarrow>
     dll m (prev_ptr_offset rq) (next_ptr_offset rq) (rq_first rq) (rq_last rq) xs
     \<and> lseg (thing_next rq m) (rq_reserve rq) rs None \<and> distinct (xs @ rs)
     \<and> rq_size rq = of_nat (length xs + length rs))"

lemma thing_next_simps [simp]:
  "thing_next (rq\<lparr>rq_reserve := r\<rparr>) m = thing_next rq m"
  "thing_next (rq\<lparr>rq_first := r\<rparr>) m = thing_next rq m"
  "thing_next (rq\<lparr>rq_last := r\<rparr>) m = thing_next rq m"
  "thing_next (rq\<lparr>rq_size := n\<rparr>) m = thing_next rq m"
  by (simp_all add: thing_next_def fun_eq_iff)

lemma thing_next_wr [simp]:
  "a \<notin> set xs \<Longrightarrow> lseg (thing_next rq (wr m a f v)) p xs q = lseg (thing_next rq m) p xs q"
  by (rule lseg_cong) (auto simp: thing_next_def)

lemma rq_rep_init: "prev \<noteq> nxt \<Longrightarrow> rq_rep (nchan_reuse_queue_init rq prev nxt hf, m) [] []"
  by (simp add: rq_rep_def nchan_reuse_queue_init_def)

text \<open>The part of a push after a thing has been found: linking it in at the end.\<close>

lemma rq_link_last:
  assumes "dll m po no h t xs" and "q \<notin> set xs"
  shows "dll (case t of None \<Rightarrow> wr (wr m q no None) q po None
              | Some l \<Rightarrow> wr (wr (wr m q no None) q po (Some l)) l no (Some q))
           po no (if h = None then Some q else h) (Some q) (xs @ [q])"
proof -
  have tq: "t \<noteq> Some q" using assms by (auto simp: dll_def dest: last_of_in)
  have eq: "(case t of None \<Rightarrow> wr (wr m q no None) q po None
              | Some l \<Rightarrow> wr (wr (wr m q no None) q po (Some l)) l no (Some q))
        = wr (case t of None \<Rightarrow> wr m q po None
              | Some a \<Rightarrow> wr (wr m q po (Some a)) a no (Some q)) q no None"
    using assms(1) tq by (auto simp: fun_eq_iff dll_def split: option.splits)
  show ?thesis unfolding eq using dll_snoc [OF assms] by simp
qed

lemma rq_push_idle:
  assumes "rq_rep (rq, m) xs (r # rs)"
  shows "\<exists>s'. nchan_reuse_queue_push rq m a = Some (r, s') \<and> rq_rep s' (xs @ [r]) rs"
proof -
  from assms have d: "dll m (prev_ptr_offset rq) (next_ptr_offset rq) (rq_first rq) (rq_last rq) xs"
    and r: "rq_reserve rq = Some r" "lseg (thing_next rq m) (thing_next rq m r) rs None"
    and di: "distinct (xs @ r # rs)" and n: "rq_size rq = of_nat (length xs + length (r # rs))"
    by (auto simp: rq_rep_def)
  have l: "l \<notin> set rs" if "rq_last rq = Some l" for l
    using d di that by (auto simp: dll_def dest!: last_of_in [OF sym])
  from rq_link_last [OF d, of r] r di n l show ?thesis
    by (auto simp: nchan_reuse_queue_push_def Let_def rq_rep_def split: option.splits)
qed

lemma rq_push_fresh:
  assumes "rq_rep (rq, m) xs []" and "a \<notin> set xs"
  shows "\<exists>s'. nchan_reuse_queue_push rq m (Some a) = Some (a, s') \<and> rq_rep s' (xs @ [a]) []"
  using assms rq_link_last [of m "prev_ptr_offset rq" "next_ptr_offset rq" "rq_first rq" "rq_last rq" xs a]
  by (auto simp: nchan_reuse_queue_push_def Let_def rq_rep_def split: option.splits)

lemma rq_pop_used:
  assumes "rq_rep (rq, m) (x # xs) rs"
  shows "rq_rep (nchan_reuse_queue_pop rq m) xs (x # rs)"
proof -
  let ?p = "prev_ptr_offset rq" and ?n = "next_ptr_offset rq"
  from assms have d: "dll m ?p ?n (rq_first rq) (rq_last rq) (x # xs)"
    and r: "lseg (thing_next rq m) (rq_reserve rq) rs None"
    and di: "distinct (x # xs @ rs)" and sz: "rq_size rq = of_nat (length (x # xs) + length rs)"
    by (auto simp: rq_rep_def)
  have x: "m x ?p = None" "m x ?n = first_of xs None" "rq_first rq = Some x"
    using d by (auto simp: dll_def)
  have tl: "rq_last rq = Some x \<longleftrightarrow> xs = []"
    using d di by (auto simp: dll_def last_of_def)
  have u: "dll (unlink m ?p ?n None (first_of xs None)) ?p ?n (first_of xs None)
             (if rq_last rq = Some x then None else rq_last rq) xs"
    using dll_unlink [of m ?p ?n "rq_first rq" "rq_last rq" "[]" x xs] d x
    by (simp split: if_splits)
  show ?thesis
  proof (cases xs)
    case Nil
    with assms x tl r di sz show ?thesis
      by (auto simp: nchan_reuse_queue_pop_def Let_def rq_rep_def dll_def thing_next_def)
  next
    case (Cons y ys)
    with x tl r di sz u show ?thesis
      by (auto simp: nchan_reuse_queue_pop_def Let_def rq_rep_def unlink_def) 
        (auto simp: thing_next_def)
  qed
qed

lemma rq_pop_empty: "rq_rep (rq, m) [] rs \<Longrightarrow> nchan_reuse_queue_pop rq m = (rq, m)"
  by (simp add: rq_rep_def nchan_reuse_queue_pop_def)

subsection \<open>Recycling\<close>

text \<open>
  The contract of a pool that recycles: a released object is handed out before a new one is
  made.  The client lemma says what that buys: however acquires and releases are interleaved, the
  pool never owns more objects than were in use at the same time.
\<close>

datatype pool_op = Acquire addr | Release

fun high_water :: "pool_op list \<Rightarrow> nat \<Rightarrow> nat \<Rightarrow> nat" where
  "high_water [] used peak = peak"
| "high_water (Acquire a # ops) used peak = high_water ops (Suc used) (max peak (Suc used))"
| "high_water (Release # ops) used peak = high_water ops (used - 1) peak"

fun pool_run :: "('s \<Rightarrow> addr \<Rightarrow> (addr \<times> 's) option) \<Rightarrow> ('s \<Rightarrow> 's) \<Rightarrow> pool_op list \<Rightarrow> 's \<Rightarrow> 's option" where
  "pool_run acq rel [] s = Some s"
| "pool_run acq rel (Acquire a # ops) s = acq s a \<bind> (\<lambda>(_, s'). pool_run acq rel ops s')"
| "pool_run acq rel (Release # ops) s = pool_run acq rel ops (rel s)"

fun supplied :: "pool_op list \<Rightarrow> addr list" where
  "supplied [] = []"
| "supplied (Acquire a # ops) = a # supplied ops"
| "supplied (Release # ops) = supplied ops"

locale object_pool =
  fixes holds :: "'s \<Rightarrow> addr list \<Rightarrow> addr list \<Rightarrow> bool"
    and acquire :: "'s \<Rightarrow> addr \<Rightarrow> (addr \<times> 's) option"
    and release :: "'s \<Rightarrow> 's"
  assumes acquire_idle: "holds s us (r # rs) \<Longrightarrow> \<exists>s'. acquire s a = Some (r, s') \<and> holds s' (us @ [r]) rs"
    and acquire_fresh: "holds s us [] \<Longrightarrow> a \<notin> set us \<Longrightarrow>
           \<exists>s'. acquire s a = Some (a, s') \<and> holds s' (us @ [a]) []"
    and release_used: "holds s (u # us) rs \<Longrightarrow> holds (release s) us (u # rs)"
    and release_empty: "holds s [] rs \<Longrightarrow> holds (release s) [] rs"
begin

lemma run_bounded:
  "holds s us rs \<Longrightarrow> distinct (supplied ops) \<Longrightarrow> set (supplied ops) \<inter> set (us @ rs) = {} \<Longrightarrow>
     \<exists>s' us' rs'. pool_run acquire release ops s = Some s' \<and> holds s' us' rs'
       \<and> length us' + length rs' = high_water ops (length us) (length us + length rs)"
proof (induction ops arbitrary: s us rs)
  case Nil
  then show ?case by auto
next
  case (Cons p ops)
  show ?case
  proof (cases p)
    case (Acquire a)
    show ?thesis
    proof (cases rs)
      case Nil
      from acquire_fresh [of s us a] Cons.prems Nil Acquire obtain s'
        where "acquire s a = Some (a, s')" "holds s' (us @ [a]) []" by auto
      moreover from Cons.IH [OF this(2)] Cons.prems Acquire Nil show ?thesis
        using calculation by (auto simp: max_def)
    next
      case (Cons r rs')
      from acquire_idle [of s us r rs' a] Cons.prems(1) Cons obtain s'
        where "acquire s a = Some (r, s')" "holds s' (us @ [r]) rs'" by auto
      moreover from Cons.IH [OF this(2)] Cons.prems Acquire Cons show ?thesis
        using calculation by (auto simp: max_def)
    qed
  next
    case Release
    show ?thesis
    proof (cases us)
      case Nil
      from Cons.IH [OF release_empty] Cons.prems Nil Release show ?thesis by auto
    next
      case (Cons u us')
      with Cons.prems have "holds (release s) us' (u # rs)" using release_used by simp
      from Cons.IH [OF this] Cons.prems Cons Release show ?thesis by auto
    qed
  qed
qed

end

interpretation reuse_pool: object_pool rq_rep
  "\<lambda>(rq, m) a. nchan_reuse_queue_push rq m (Some a)"
  "\<lambda>(rq, m). nchan_reuse_queue_pop rq m"
proof
  fix s us r rs a
  assume "rq_rep s us (r # rs)"
  then show "\<exists>s'. (\<lambda>(rq, m) a. nchan_reuse_queue_push rq m (Some a)) s a = Some (r, s') \<and> rq_rep s' (us @ [r]) rs"
    using rq_push_idle by (cases s) auto
next
  fix s us a
  assume "rq_rep s us []" "a \<notin> set us"
  then show "\<exists>s'. (\<lambda>(rq, m) a. nchan_reuse_queue_push rq m (Some a)) s a = Some (a, s') \<and> rq_rep s' (us @ [a]) []"
    using rq_push_fresh by (cases s) auto
next
  fix s u us rs
  assume "rq_rep s (u # us) rs"
  then show "rq_rep ((\<lambda>(rq, m). nchan_reuse_queue_pop rq m) s) us (u # rs)"
    using rq_pop_used by (cases s) auto
next
  fix s rs
  assume "rq_rep s [] rs"
  then show "rq_rep ((\<lambda>(rq, m). nchan_reuse_queue_pop rq m) s) [] rs"
    using rq_pop_empty by (cases s) auto
qed

text \<open>
  A queue that is only pushed and popped allocates no more things than were ever in it at the same
  time: its size is the
  high-water mark of its use.  Flushing it, as the output of a request does, has no such bound
  (\<open>reuse_queue_flush_rep\<close>).
\<close>

lemma reuse_queue_high_water:
  assumes "prev \<noteq> nxt" and "distinct (supplied ops)"
  shows "\<exists>rq' m' xs rs. pool_run (\<lambda>(rq, m) a. nchan_reuse_queue_push rq m (Some a))
             (\<lambda>(rq, m). nchan_reuse_queue_pop rq m) ops (nchan_reuse_queue_init rq prev nxt hf, m)
               = Some (rq', m')
           \<and> rq_rep (rq', m') xs rs \<and> rq_size rq' = of_nat (high_water ops 0 0)"
  using reuse_pool.run_bounded [OF rq_rep_init [OF assms(1)] assms(2)]
  by (fastforce simp: rq_rep_def)

text \<open>
  Flushing makes the flushed things the new reserve: the things that were idle before are no
  longer reachable from the queue, although \<^verbatim>\<open>size\<close> still counts them.
\<close>

lemma rq_used_chain: "rq_rep (rq, m) xs rs \<Longrightarrow> lseg (thing_next rq m) (rq_first rq) xs None"
  using dlseg_lseg [of m "prev_ptr_offset rq" "next_ptr_offset rq" None xs None]
  by (auto simp: rq_rep_def dll_def thing_next_def [abs_def])

lemma reuse_queue_flush_rep:
  assumes "rq_rep (rq, m) xs rs"
  shows "\<exists>rq'. nchan_reuse_queue_flush rq m = Some (length xs, if rq_has_free rq then xs else [], rq')
           \<and> lseg (thing_next rq' m) (rq_reserve rq') xs None \<and> rq_first rq' = None
           \<and> rq_size rq' = of_nat (length xs + length rs)"
  using walk_lseg [OF rq_used_chain [OF assms]] rq_used_chain [OF assms] assms
  by (auto simp: nchan_reuse_queue_flush_def rq_rep_def)

lemma reuse_queue_each_rep:
  "rq_rep (rq, m) xs rs \<Longrightarrow> nchan_reuse_queue_each rq m cb s = Some (fold cb xs s)"
  by (simp add: nchan_reuse_queue_each_def walk_lseg [OF rq_used_chain])

text \<open>
  Shutting down frees every thing, used and idle, but leaves the reserve pointing at the idle
  ones (the assignment of \<^verbatim>\<open>reserve\<close> at the end is dead): a later push hands out a freed thing.
\<close>

lemma reuse_queue_shutdown_dangling:
  assumes "rq_rep (rq, m) xs (r # rs)" and "rq_has_free rq"
  shows "\<exists>rq' m'. nchan_reuse_queue_shutdown rq m = Some (NGX_OK, xs @ r # rs, rq', m')
           \<and> rq_first rq' = None \<and> (\<exists>s. nchan_reuse_queue_push rq' m' alloc = Some (r, s))"
proof -
  have "walk (thing_next rq m) (rq_reserve rq) = Some (r # rs)"
    by (rule walk_lseg) (use assms in \<open>simp add: rq_rep_def\<close>)
  moreover have "rq_reserve rq = Some r" using assms by (simp add: rq_rep_def)
  ultimately show ?thesis
    using assms(2) walk_lseg [OF rq_used_chain [OF assms(1)]]
    by (simp add: nchan_reuse_queue_shutdown_def nchan_reuse_queue_push_def Let_def)
qed

end
