(* ===== verification/Simulation.thy ===== *)
theory Simulation
  imports Nchan_Prelude
begin

text \<open>
  Refinement of a component by a simulation.  A component is a partial step function of the C code
  (\<open>None\<close> is a fault) and its specification a total step function on an abstract state.  The locale
  \<open>simulation\<close> asks for one step: related states, an operation whose precondition holds in the concrete
  state, give the same output and related states.  Its lemma is the statement clients want: over
  any sequence of operations the code does not fault and answers exactly like the specification.
\<close>

fun run :: "('op \<Rightarrow> 'c \<Rightarrow> ('o \<times> 'c) option) \<Rightarrow> 'op list \<Rightarrow> 'c \<Rightarrow> ('o list \<times> 'c) option" where
  "run step [] c = Some ([], c)"
| "run step (p # ps) c = do {
     (out, c) \<leftarrow> step p c;
     (outs, c) \<leftarrow> run step ps c;
     Some (out # outs, c)
   }"

fun spec_run :: "('op \<Rightarrow> 'a \<Rightarrow> 'o \<times> 'a) \<Rightarrow> 'op list \<Rightarrow> 'a \<Rightarrow> 'o list \<times> 'a" where
  "spec_run step [] a = ([], a)"
| "spec_run step (p # ps) a =
     (let (out, a) = step p a; (outs, a) = spec_run step ps a in (out # outs, a))"

text \<open>The precondition holds at every step of the run.\<close>

fun run_ok :: "('op \<Rightarrow> 'c \<Rightarrow> bool) \<Rightarrow> ('op \<Rightarrow> 'c \<Rightarrow> ('o \<times> 'c) option) \<Rightarrow> 'op list \<Rightarrow> 'c \<Rightarrow> bool" where
  "run_ok ok step [] c = True"
| "run_ok ok step (p # ps) c =
     (ok p c \<and> (case step p c of None \<Rightarrow> True | Some (_, c') \<Rightarrow> run_ok ok step ps c'))"

locale simulation =
  fixes rep :: "'c \<Rightarrow> 'a \<Rightarrow> bool"
    and ok :: "'op \<Rightarrow> 'c \<Rightarrow> bool"
    and cstep :: "'op \<Rightarrow> 'c \<Rightarrow> ('o \<times> 'c) option"
    and astep :: "'op \<Rightarrow> 'a \<Rightarrow> 'o \<times> 'a"
  assumes step: "rep c a \<Longrightarrow> ok p c \<Longrightarrow>
    \<exists>c'. cstep p c = Some (fst (astep p a), c') \<and> rep c' (snd (astep p a))"
begin

lemma run_refines:
  "rep c a \<Longrightarrow> run_ok ok cstep ps c \<Longrightarrow>
     \<exists>c'. run cstep ps c = Some (fst (spec_run astep ps a), c') \<and> rep c' (snd (spec_run astep ps a))"
proof (induction ps arbitrary: c a)
  case Nil
  then show ?case by simp
next
  case (Cons p ps)
  from step [OF Cons.prems(1), of p] Cons.prems(2) obtain c1
    where c1: "cstep p c = Some (fst (astep p a), c1)" "rep c1 (snd (astep p a))" by auto
  with Cons.IH [OF c1(2)] Cons.prems(2) show ?case by (auto split: prod.splits)
qed

lemma run_no_fault: "rep c a \<Longrightarrow> run_ok ok cstep ps c \<Longrightarrow> run cstep ps c \<noteq> None"
  using run_refines by fastforce

end

end
