(* ===== verification/Timequeue.thy ===== *)
theory Timequeue
  imports Link_Heap Simulation
begin

text \<open>
  nchan\_timequeue.c: the queue of (start time, tag) pairs the Redis store keeps for the commands
  in flight, stored in pages of \<^verbatim>\<open>items_per_page\<close> entries.  Drained pages go to a standby chain and are
  reused.  Pages live in a heap of records; \<^verbatim>\<open>ngx_alloc\<close> is an argument, the new page's address and
  the uninitialised contents of its data array.  \<^verbatim>\<open>start\<close> and \<^verbatim>\<open>end\<close> are 16 bits wide.
\<close>

record nchan_timequeue_time =
  time_start :: uint64
  tq_tag :: int

record nchan_timequeue_page =
  pg_next :: ptr
  pg_start :: uint16
  pg_end :: uint16
  pg_data :: "nchan_timequeue_time list"

type_synonym tq_heap = "addr \<Rightarrow> nchan_timequeue_page option"
type_synonym tq_alloc = "(addr \<times> nchan_timequeue_time list) option"

record nchan_timequeue =
  items_per_page :: nat
  anytag :: int
  tq_first :: ptr
  tq_last :: ptr
  tq_standby :: ptr

definition timequeue_page_reset :: "nchan_timequeue_page \<Rightarrow> nchan_timequeue_page" where
  "timequeue_page_reset page = page\<lparr>pg_next := None, pg_start := 0, pg_end := 0\<rparr>"

definition timequeue_page_alloc :: "tq_heap \<Rightarrow> tq_alloc \<Rightarrow> ptr \<times> tq_heap" where
  "timequeue_page_alloc h alloc =
     (case alloc of
        None \<Rightarrow> (None, h)
      | Some (a, junk) \<Rightarrow>
          (Some a, h(a \<mapsto> timequeue_page_reset \<lparr>pg_next = None, pg_start = 0, pg_end = 0, pg_data = junk\<rparr>)))"

definition timequeue_page_enqueue ::
  "nchan_timequeue \<Rightarrow> tq_heap \<Rightarrow> tq_alloc \<Rightarrow> (ptr \<times> nchan_timequeue \<times> tq_heap) option" where
  "timequeue_page_enqueue pq h alloc = do {
     (nextpage, pq, h) \<leftarrow> (case tq_standby pq of
          Some s \<Rightarrow> do { page \<leftarrow> h s; Some (Some s, pq\<lparr>tq_standby := pg_next page\<rparr>, h) }
        | None \<Rightarrow> (let (p, h) = timequeue_page_alloc h alloc in Some (p, pq, h)));
     case nextpage of
       None \<Rightarrow> Some (None, pq, h)
     | Some n \<Rightarrow> do {
         h \<leftarrow> (case tq_last pq of
                 None \<Rightarrow> Some h
               | Some l \<Rightarrow> do {
                   lp \<leftarrow> h l;
                   let h = h(l \<mapsto> lp\<lparr>pg_next := Some n\<rparr>);
                   np \<leftarrow> h n;
                   Some (h(n \<mapsto> np\<lparr>pg_next := None\<rparr>))
                 });
         let pq = (if tq_first pq = None then pq\<lparr>tq_first := Some n\<rparr> else pq);
         Some (Some n, pq\<lparr>tq_last := Some n\<rparr>, h)
       }
   }"

definition nchan_timequeue_init ::
  "nchan_timequeue \<Rightarrow> tq_heap \<Rightarrow> tq_alloc \<Rightarrow> nat \<Rightarrow> int \<Rightarrow> bool \<times> nchan_timequeue \<times> tq_heap" where
  "nchan_timequeue_init pq h alloc items any =
     (let pq = pq\<lparr>items_per_page := items\<rparr>;
          (p, h) = timequeue_page_alloc h alloc;
          pq = pq\<lparr>tq_first := p\<rparr>
      in if p = None then (False, pq, h)
         else (True, pq\<lparr>tq_last := p, tq_standby := None, anytag := any\<rparr>, h))"

definition timequeue_get_nonfull_page ::
  "nchan_timequeue \<Rightarrow> tq_heap \<Rightarrow> tq_alloc \<Rightarrow> (ptr \<times> nchan_timequeue \<times> tq_heap) option" where
  "timequeue_get_nonfull_page pq h alloc = do {
     a \<leftarrow> tq_last pq;
     page \<leftarrow> h a;
     if unat (pg_end page) \<ge> items_per_page pq then timequeue_page_enqueue pq h alloc
     else Some (Some a, pq, h)
   }"

definition nchan_timequeue_queue ::
  "nchan_timequeue \<Rightarrow> tq_heap \<Rightarrow> tq_alloc \<Rightarrow> uint64 \<Rightarrow> int \<Rightarrow> (bool \<times> nchan_timequeue \<times> tq_heap) option" where
  "nchan_timequeue_queue pq h alloc now tg = do {
     (p, pq, h) \<leftarrow> timequeue_get_nonfull_page pq h alloc;
     case p of
       None \<Rightarrow> Some (False, pq, h)
     | Some a \<Rightarrow> do {
         page \<leftarrow> h a;
         data \<leftarrow> arr_set (pg_data page) (unat (pg_end page)) \<lparr>time_start = now, tq_tag = tg\<rparr>;
         Some (True, pq, h(a \<mapsto> page\<lparr>pg_data := data, pg_end := pg_end page + 1\<rparr>))
       }
   }"

definition nchan_timequeue_dequeue ::
  "nchan_timequeue \<Rightarrow> tq_heap \<Rightarrow> int
     \<Rightarrow> (bool \<times> nchan_timequeue_time \<times> nchan_timequeue \<times> tq_heap) option" where
  "nchan_timequeue_dequeue pq h expected_tag =
     (let nothing = \<lparr>time_start = 0, tq_tag = anytag pq\<rparr>
      in case tq_first pq of
        None \<Rightarrow> Some (False, nothing, pq, h)
      | Some a \<Rightarrow> do {
          page \<leftarrow> h a;
          if pg_start page = pg_end page \<and> pg_start page = 0 then Some (False, nothing, pq, h)
          else do {
            data \<leftarrow> arr_get (pg_data page) (unat (pg_start page));
            if expected_tag \<noteq> tq_tag data \<and> expected_tag \<noteq> anytag pq then Some (False, data, pq, h)
            else do {
              let page = page\<lparr>pg_start := pg_start page + 1\<rparr>;
              let h = h(a \<mapsto> page);
              if pg_start page \<ge> pg_end page then
                if tq_last pq = Some a then do {
                  c_assert (pg_next page = None);
                  c_assert (tq_first pq = Some a);
                  Some (True, data, pq, h(a \<mapsto> timequeue_page_reset page))
                } else do {
                  c_assert (pg_next page \<noteq> None);
                  c_assert (tq_last pq \<noteq> Some a);
                  let pq = pq\<lparr>tq_first := pg_next page\<rparr>;
                  let page = (timequeue_page_reset page)\<lparr>pg_next := tq_standby pq\<rparr>;
                  Some (True, data, pq\<lparr>tq_standby := Some a\<rparr>, h(a \<mapsto> page))
                }
              else Some (True, data, pq, h)
            }
          }
        })"

definition pg_nxt :: "tq_heap \<Rightarrow> addr \<Rightarrow> ptr" where
  "pg_nxt h a = (case h a of None \<Rightarrow> None | Some page \<Rightarrow> pg_next page)"

text \<open>\<^verbatim>\<open>ngx_free\<close> of the pages of a chain; freeing what is not allocated is a fault.\<close>

partial_function (option) free_pages :: "tq_heap \<Rightarrow> ptr \<Rightarrow> tq_heap option" where
  "free_pages h p =
     (case p of None \<Rightarrow> Some h
      | Some a \<Rightarrow> do { page \<leftarrow> h a; free_pages (h(a := None)) (pg_next page) })"

definition nchan_timequeue_destroy ::
  "nchan_timequeue \<Rightarrow> tq_heap \<Rightarrow> (nchan_timequeue \<times> tq_heap) option" where
  "nchan_timequeue_destroy pq h = do {
     h \<leftarrow> free_pages h (tq_first pq);
     h \<leftarrow> free_pages h (tq_standby pq);
     Some (pq\<lparr>tq_first := None, tq_last := None, tq_standby := None\<rparr>, h)
   }"

subsection \<open>The queue a page chain denotes\<close>

definition page_items :: "nchan_timequeue_page \<Rightarrow> nchan_timequeue_time list" where
  "page_items page = drop (unat (pg_start page)) (take (unat (pg_end page)) (pg_data page))"

definition page_ok :: "nat \<Rightarrow> nchan_timequeue_page \<Rightarrow> bool" where
  "page_ok n page \<longleftrightarrow> pg_start page \<le> pg_end page \<and> unat (pg_end page) \<le> n \<and> length (pg_data page) = n"

definition items_at :: "tq_heap \<Rightarrow> addr \<Rightarrow> nchan_timequeue_time list" where
  "items_at h a = (case h a of None \<Rightarrow> [] | Some page \<Rightarrow> page_items page)"

definition live_page :: "tq_heap \<Rightarrow> nat \<Rightarrow> addr \<Rightarrow> bool" where
  "live_page h n a \<longleftrightarrow> (case h a of None \<Rightarrow> False
     | Some page \<Rightarrow> page_ok n page \<and> pg_start page < pg_end page)"

definition empty_page :: "tq_heap \<Rightarrow> nat \<Rightarrow> addr \<Rightarrow> bool" where
  "empty_page h n a \<longleftrightarrow> (case h a of None \<Rightarrow> False
     | Some page \<Rightarrow> length (pg_data page) = n \<and> pg_start page = 0 \<and> pg_end page = 0)"

text \<open>
  The pages in use are all non-empty, except that a queue of one page may be empty; the standby
  pages are empty.  \<open>ps\<close> are the pages in use, \<open>ss\<close> the standby ones.
\<close>

definition tq_pages :: "nchan_timequeue \<Rightarrow> tq_heap \<Rightarrow> addr list \<Rightarrow> addr list \<Rightarrow> bool" where
  "tq_pages pq h ps ss \<longleftrightarrow>
     0 < items_per_page pq \<and> items_per_page pq < 2 ^ 16
     \<and> ps \<noteq> [] \<and> distinct (ps @ ss)
     \<and> lseg (pg_nxt h) (tq_first pq) ps None \<and> tq_last pq = Some (last ps)
     \<and> lseg (pg_nxt h) (tq_standby pq) ss None
     \<and> (list_all (live_page h (items_per_page pq)) ps
        \<or> length ps = 1 \<and> empty_page h (items_per_page pq) (hd ps))
     \<and> list_all (empty_page h (items_per_page pq)) ss"

definition tq_rep :: "nchan_timequeue \<times> tq_heap \<Rightarrow> nchan_timequeue_time list \<times> int \<Rightarrow> bool" where
  "tq_rep c a \<longleftrightarrow> (case c of (pq, h) \<Rightarrow> \<exists>ps ss. tq_pages pq h ps ss
     \<and> fst a = concat (map (items_at h) ps) \<and> snd a = anytag pq)"

lemma tq_repI:
  "tq_pages pq h ps ss \<Longrightarrow> concat (map (items_at h) ps) = vs \<Longrightarrow> anytag pq = any \<Longrightarrow> tq_rep (pq, h) (vs, any)"
  by (auto simp: tq_rep_def)

lemma pg_nxt_upd [simp]: "pg_nxt (h(a \<mapsto> page)) = (pg_nxt h)(a := pg_next page)"
  by (simp add: pg_nxt_def fun_eq_iff)

lemma page_upd_other:
  "b \<noteq> a \<Longrightarrow> live_page (h(a \<mapsto> page)) n b = live_page h n b"
  "b \<noteq> a \<Longrightarrow> empty_page (h(a \<mapsto> page)) n b = empty_page h n b"
  "b \<noteq> a \<Longrightarrow> items_at (h(a \<mapsto> page)) b = items_at h b"
  by (simp_all add: live_page_def empty_page_def items_at_def)

lemma pages_upd_other [simp]:
  "a \<notin> set bs \<Longrightarrow> list_all (live_page (h(a \<mapsto> page)) n) bs = list_all (live_page h n) bs"
  "a \<notin> set bs \<Longrightarrow> list_all (empty_page (h(a \<mapsto> page)) n) bs = list_all (empty_page h n) bs"
  "a \<notin> set bs \<Longrightarrow> map (items_at (h(a \<mapsto> page))) bs = map (items_at h) bs"
  by (induction bs) (auto simp: page_upd_other)

text \<open>Writing one more entry into a page that is not full.\<close>

definition page_put :: "nchan_timequeue_page \<Rightarrow> nchan_timequeue_time \<Rightarrow> nchan_timequeue_page" where
  "page_put page v = page\<lparr>pg_data := (pg_data page)[unat (pg_end page) := v], pg_end := pg_end page + 1\<rparr>"

lemma page_put:
  assumes "page_ok n page" and "unat (pg_end page) < n" and "n < 2 ^ 16"
  shows "page_ok n (page_put page v)" "pg_start (page_put page v) < pg_end (page_put page v)"
    "page_items (page_put page v) = page_items page @ [v]" "pg_next (page_put page v) = pg_next page"
proof -
  have e: "unat (pg_end page + 1) = Suc (unat (pg_end page))"
    using assms(2,3) by (intro unat_plus_one) simp
  have se: "unat (pg_start page) \<le> unat (pg_end page)"
    using assms(1) by (simp add: page_ok_def word_le_nat_alt)
  show "page_ok n (page_put page v)" "pg_start (page_put page v) < pg_end (page_put page v)"
      "pg_next (page_put page v) = pg_next page"
    using assms(1,2) e se by (auto simp: page_put_def page_ok_def word_le_nat_alt word_less_nat_alt)
  show "page_items (page_put page v) = page_items page @ [v]"
    using assms(1,2) se by (simp add: page_put_def page_items_def e take_Suc_update page_ok_def)
qed

lemma empty_page_ok:
  "empty_page h n a \<Longrightarrow> \<exists>page. h a = Some page \<and> page_ok n page \<and> page_items page = [] \<and> pg_end page = 0"
  by (auto simp: empty_page_def page_ok_def page_items_def split: option.splits)

text \<open>The entry is stored in the last page.\<close>

lemma tq_put_last:
  assumes n: "0 < items_per_page pq" "items_per_page pq < 2 ^ 16"
    and d: "distinct ((ps @ [a]) @ ss)"
    and chain: "lseg (pg_nxt h) (tq_first pq) (ps @ [a]) None" "tq_last pq = Some a"
      "lseg (pg_nxt h) (tq_standby pq) ss None"
    and live: "list_all (live_page h (items_per_page pq)) ps"
    and ss: "list_all (empty_page h (items_per_page pq)) ss"
    and page: "h a = Some page" "page_ok (items_per_page pq) page" "unat (pg_end page) < items_per_page pq"
  shows "tq_pages pq (h(a \<mapsto> page_put page v)) (ps @ [a]) ss"
    and "concat (map (items_at (h(a \<mapsto> page_put page v))) (ps @ [a])) = concat (map (items_at h) (ps @ [a])) @ [v]"
proof -
  have same: "(pg_nxt h)(a := pg_next page) = pg_nxt h"
    using page(1) by (auto simp: pg_nxt_def fun_eq_iff)
  note put = page_put [OF page(2,3) n(2), of v]
  have "list_all (live_page (h(a \<mapsto> page_put page v)) (items_per_page pq)) (ps @ [a])"
    using live put d by (auto simp: live_page_def)
  with n d chain ss put(4) same show "tq_pages pq (h(a \<mapsto> page_put page v)) (ps @ [a]) ss"
    by (simp add: tq_pages_def)
  show "concat (map (items_at (h(a \<mapsto> page_put page v))) (ps @ [a])) = concat (map (items_at h) (ps @ [a])) @ [v]"
    using put(3) d page(1) by (simp add: items_at_def)
qed

text \<open>A full last page is followed by a standby page, or by a new one.\<close>

lemma tq_link_page:
  assumes chain: "lseg (pg_nxt h) p (qs @ [l]) None" "lseg (pg_nxt h) s ss None"
    and live: "list_all (live_page h k) (qs @ [l])" and ss: "list_all (empty_page h k) ss"
    and d: "distinct ((qs @ [l]) @ n # ss)" and h: "h l = Some lp" "h n = Some np" "empty_page h k n"
  defines "h' \<equiv> h(l \<mapsto> lp\<lparr>pg_next := Some n\<rparr>, n \<mapsto> np\<lparr>pg_next := None\<rparr>)"
  shows "lseg (pg_nxt h') p ((qs @ [l]) @ [n]) None" "lseg (pg_nxt h') s ss None"
    "list_all (live_page h' k) (qs @ [l])" "list_all (empty_page h' k) (n # ss)"
    "map (items_at h') (qs @ [l]) = map (items_at h) (qs @ [l])"
proof -
  show "lseg (pg_nxt h') p ((qs @ [l]) @ [n]) None"
    using lseg_snoc [OF chain(1), of n None] d by (simp add: h'_def)
  show "lseg (pg_nxt h') s ss None" using chain(2) d by (simp add: h'_def)
  show "list_all (live_page h' k) (qs @ [l])"
    using live d h by (simp add: h'_def) (simp add: live_page_def page_ok_def)
  show "list_all (empty_page h' k) (n # ss)"
    using ss d h by (simp add: h'_def) (simp add: empty_page_def)
  show "map (items_at h') (qs @ [l]) = map (items_at h) (qs @ [l])"
    using d h by (simp add: h'_def) (simp add: items_at_def page_items_def)
qed

lemma tq_enqueue_page:
  assumes rep: "tq_pages pq h ps ss" and live: "list_all (live_page h (items_per_page pq)) ps"
    and fresh: "h a = None" and junk: "length junk = items_per_page pq"
  shows "\<exists>n pq' h' ss'. timequeue_page_enqueue pq h (Some (a, junk)) = Some (Some n, pq', h')
     \<and> items_per_page pq' = items_per_page pq \<and> anytag pq' = anytag pq
     \<and> distinct (ps @ n # ss') \<and> lseg (pg_nxt h') (tq_first pq') (ps @ [n]) None \<and> tq_last pq' = Some n
     \<and> lseg (pg_nxt h') (tq_standby pq') ss' None
     \<and> list_all (live_page h' (items_per_page pq)) ps \<and> list_all (empty_page h' (items_per_page pq)) (n # ss')
     \<and> map (items_at h') ps = map (items_at h) ps"
proof -
  let ?k = "items_per_page pq"
  have r: "ps \<noteq> []" "distinct (ps @ ss)" "lseg (pg_nxt h) (tq_first pq) ps None" "tq_last pq = Some (last ps)"
     "lseg (pg_nxt h) (tq_standby pq) ss None" "list_all (empty_page h ?k) ss"
    using rep by (auto simp: tq_pages_def)
  then obtain qs l where ps: "ps = qs @ [l]" by (metis append_butlast_last_id)
  obtain lp where lp: "h l = Some lp" using live ps by (auto simp: live_page_def split: option.splits)
  have f: "tq_first pq \<noteq> None" using lseg_first [OF r(3)] r(1) by auto
  show ?thesis
  proof (cases ss)
    case Nil
    have out: "a \<notin> set ps" using live fresh by (auto simp: list_all_iff live_page_def split: option.splits)
    let ?np = "timequeue_page_reset \<lparr>pg_next = None, pg_start = 0, pg_end = 0, pg_data = junk\<rparr>"
    let ?h = "h(a \<mapsto> ?np)"
    have e: "empty_page ?h ?k a" using junk by (simp add: empty_page_def timequeue_page_reset_def)
    have c: "lseg (pg_nxt ?h) (tq_first pq) (qs @ [l]) None" "list_all (live_page ?h ?k) (qs @ [l])"
      using out r(3) live ps by (auto simp: page_upd_other)
    have la: "?h l = Some lp" "l \<noteq> a" using lp out ps by auto
    have "tq_standby pq = None" using r(5) Nil by simp
    with la ps r(4) f have step: "timequeue_page_enqueue pq h (Some (a, junk)) = Some (Some a, pq\<lparr>tq_last := Some a\<rparr>,
        ?h(l \<mapsto> lp\<lparr>pg_next := Some a\<rparr>, a \<mapsto> ?np\<lparr>pg_next := None\<rparr>))"
      by (simp add: timequeue_page_enqueue_def timequeue_page_alloc_def Let_def)
    define h' where "h' = ?h(l \<mapsto> lp\<lparr>pg_next := Some a\<rparr>, a \<mapsto> ?np\<lparr>pg_next := None\<rparr>)"
    have dd: "distinct ((qs @ [l]) @ a # [])" "lseg (pg_nxt ?h) None [] None" using r(2) ps out by auto
    note l = tq_link_page [OF c(1) dd(2) c(2) _ dd(1) la(1) _ e, of ?np, folded h'_def]
    have "map (items_at h') (qs @ [l]) = map (items_at ?h) (qs @ [l])" by (rule l(5)) simp_all
    also have "\<dots> = map (items_at h) (qs @ [l])" by (rule pages_upd_other(3)) (use out ps in simp)
    finally have "map (items_at h') (qs @ [l]) = map (items_at h) (qs @ [l])" .
    with l(1-4) show ?thesis
      unfolding step h'_def [symmetric] ps using dd \<open>tq_standby pq = None\<close>
      by (intro exI [of _ a] exI conjI exI [of _ "[]"]) (rule refl | simp)+
  next
    case (Cons n ss')
    obtain np where np: "h n = Some np" using r(6) Cons by (auto simp: empty_page_def split: option.splits)
    have sb: "tq_standby pq = Some n" "lseg (pg_nxt h) (pg_next np) ss' None"
      using r(5) Cons np by (auto simp: pg_nxt_def)
    have "l \<noteq> n" using r(2) ps Cons by auto
    with lp np ps r(4) f sb have step: "timequeue_page_enqueue pq h (Some (a, junk)) =
        Some (Some n, pq\<lparr>tq_standby := pg_next np, tq_last := Some n\<rparr>,
        h(l \<mapsto> lp\<lparr>pg_next := Some n\<rparr>, n \<mapsto> np\<lparr>pg_next := None\<rparr>))"
      by (simp add: timequeue_page_enqueue_def Let_def)
    define h' where "h' = h(l \<mapsto> lp\<lparr>pg_next := Some n\<rparr>, n \<mapsto> np\<lparr>pg_next := None\<rparr>)"
    have dd: "distinct ((qs @ [l]) @ n # ss')" "list_all (empty_page h ?k) ss'" "empty_page h ?k n"
      using r(2,6) ps Cons by auto
    note l = tq_link_page [OF r(3) [unfolded ps] sb(2) live [unfolded ps] dd(2,1) lp np dd(3), folded h'_def]
    show ?thesis
      unfolding step h'_def [symmetric] ps using dd l
      by (intro exI [of _ n] exI conjI exI [of _ ss']) (rule refl | simp)+
  qed
qed

lemma tq_queue_rep:
  assumes rep: "tq_rep (pq, h) (vs, any)"
    and fresh: "h a = None" and junk: "length junk = items_per_page pq"
  shows "\<exists>c'. nchan_timequeue_queue pq h (Some (a, junk)) now tg = Some (True, c')
           \<and> tq_rep c' (vs @ [\<lparr>time_start = now, tq_tag = tg\<rparr>], any)"
proof -
  let ?v = "\<lparr>time_start = now, tq_tag = tg\<rparr>" and ?k = "items_per_page pq"
  obtain ps ss where pg: "tq_pages pq h ps ss" and vs: "vs = concat (map (items_at h) ps)" "any = anytag pq"
    using rep by (auto simp: tq_rep_def)
  have n: "0 < ?k" "?k < 2 ^ 16" using pg by (simp_all add: tq_pages_def)
  obtain qs l where ps: "ps = qs @ [l]" using pg by (metis append_butlast_last_id tq_pages_def)
  obtain lp where lp: "h l = Some lp" "page_ok ?k lp"
    using pg ps by (auto simp: tq_pages_def live_page_def empty_page_def page_ok_def split: option.splits)
  have last: "tq_last pq = Some l" using pg ps by (simp add: tq_pages_def)
  show ?thesis
  proof (cases "unat (pg_end lp) < ?k")
    case True
    with lp last have "nchan_timequeue_queue pq h (Some (a, junk)) now tg = Some (True, pq, h(l \<mapsto> page_put lp ?v))"
      by (simp add: nchan_timequeue_queue_def timequeue_get_nonfull_page_def page_put_def page_ok_def)
    moreover have "list_all (live_page h ?k) qs" using pg ps by (auto simp: tq_pages_def)
    moreover have "lseg (pg_nxt h) (tq_first pq) (qs @ [l]) None" "lseg (pg_nxt h) (tq_standby pq) ss None"
        "distinct ((qs @ [l]) @ ss)" "list_all (empty_page h ?k) ss"
      using pg ps by (auto simp: tq_pages_def)
    ultimately show ?thesis
      using tq_put_last [of pq qs l ss h lp ?v] n last lp True vs ps tq_repI by simp
  next
    case False
    have live: "list_all (live_page h ?k) ps"
      using pg ps lp False n by (auto simp: tq_pages_def empty_page_def)
    from tq_enqueue_page [OF pg live fresh junk] obtain n pq' h' ss' where
      en: "timequeue_page_enqueue pq h (Some (a, junk)) = Some (Some n, pq', h')"
      and k: "items_per_page pq' = ?k" "anytag pq' = anytag pq"
      and r: "distinct (ps @ n # ss')" "lseg (pg_nxt h') (tq_first pq') (ps @ [n]) None" "tq_last pq' = Some n"
         "lseg (pg_nxt h') (tq_standby pq') ss' None" "list_all (live_page h' ?k) ps"
         "list_all (empty_page h' ?k) (n # ss')" "map (items_at h') ps = map (items_at h) ps"
      by blast
    from empty_page_ok [of h' ?k n] r(6) obtain np
      where np: "h' n = Some np" "page_ok ?k np" "page_items np = []" "pg_end np = 0" by auto
    have "nchan_timequeue_queue pq h (Some (a, junk)) now tg = Some (True, pq', h'(n \<mapsto> page_put np ?v))"
      using lp last False en np \<open>0 < ?k\<close>
      by (simp add: nchan_timequeue_queue_def timequeue_get_nonfull_page_def page_put_def page_ok_def)
    moreover have "concat (map (items_at h') (ps @ [n])) = vs"
      by (simp only: map_append concat_append r(7) vs(1)) (simp add: items_at_def np)
    moreover note put = tq_put_last [of pq' ps n ss' h' np ?v]
    have "tq_pages pq' (h'(n \<mapsto> page_put np ?v)) (ps @ [n]) ss'"
      by (rule put(1)) (use k r np \<open>0 < ?k\<close> \<open>?k < 2 ^ 16\<close> in simp_all)
    moreover have "concat (map (items_at (h'(n \<mapsto> page_put np ?v))) (ps @ [n])) =
        concat (map (items_at h') (ps @ [n])) @ [?v]"
      by (rule put(2)) (use k r np \<open>0 < ?k\<close> \<open>?k < 2 ^ 16\<close> in simp_all)
    ultimately show ?thesis using tq_repI k(2) vs(2) by metis
  qed
qed

subsection \<open>Dequeueing\<close>

lemma items_at_live:
  assumes "live_page h n a" and "h a = Some page"
  shows "items_at h a = pg_data page ! unat (pg_start page)
     # drop (Suc (unat (pg_start page))) (take (unat (pg_end page)) (pg_data page))"
    and "unat (pg_start page) < length (pg_data page)"
proof -
  have b: "unat (pg_start page) < unat (pg_end page)" "unat (pg_end page) \<le> length (pg_data page)"
    using assms by (auto simp: live_page_def page_ok_def word_less_nat_alt)
  then show "unat (pg_start page) < length (pg_data page)" by simp
  show "items_at h a = pg_data page ! unat (pg_start page)
     # drop (Suc (unat (pg_start page))) (take (unat (pg_end page)) (pg_data page))"
    using b assms(2) by (simp add: items_at_def page_items_def Cons_nth_drop_Suc [symmetric])
qed

text \<open>Taking the first entry of a page: what is left, and whether the page is drained.\<close>

lemma page_take:
  assumes "page_ok n page" and "pg_start page < pg_end page"
  shows "page_items (page\<lparr>pg_start := pg_start page + 1\<rparr>) =
       drop (Suc (unat (pg_start page))) (take (unat (pg_end page)) (pg_data page))"
    and "pg_start page + 1 \<ge> pg_end page \<longleftrightarrow> page_items (page\<lparr>pg_start := pg_start page + 1\<rparr>) = []"
    and "page_ok n (page\<lparr>pg_start := pg_start page + 1\<rparr>)"
proof -
  have "Suc (unat (pg_start page)) \<le> unat (pg_end page)" using assms(2) by (simp add: word_less_nat_alt)
  moreover have "unat (pg_end page) < 2 ^ LENGTH(16)" by (rule unsigned_less)
  ultimately have e: "unat (pg_start page + 1) = Suc (unat (pg_start page))"
    by (intro unat_plus_one) simp
  show "page_items (page\<lparr>pg_start := pg_start page + 1\<rparr>) =
       drop (Suc (unat (pg_start page))) (take (unat (pg_end page)) (pg_data page))"
    by (simp add: page_items_def e)
  then show "pg_start page + 1 \<ge> pg_end page \<longleftrightarrow> page_items (page\<lparr>pg_start := pg_start page + 1\<rparr>) = []"
    using assms by (auto simp: word_le_nat_alt e page_ok_def)
  show "page_ok n (page\<lparr>pg_start := pg_start page + 1\<rparr>)"
    using assms e by (auto simp: page_ok_def word_le_nat_alt word_less_nat_alt)
qed

lemma tq_dequeue_empty:
  assumes "tq_rep (pq, h) ([], any)"
  shows "nchan_timequeue_dequeue pq h expected = Some (False, \<lparr>time_start = 0, tq_tag = any\<rparr>, pq, h)"
proof -
  obtain ps ss where pg: "tq_pages pq h ps ss" and vs: "concat (map (items_at h) ps) = []" "any = anytag pq"
    using assms by (auto simp: tq_rep_def)
  have "\<not> list_all (live_page h (items_per_page pq)) ps"
  proof
    assume live: "list_all (live_page h (items_per_page pq)) ps"
    obtain a qs where ps: "ps = a # qs" using pg by (cases ps) (auto simp: tq_pages_def)
    with live obtain page where "h a = Some page" by (auto simp: live_page_def split: option.splits)
    with items_at_live [of h "items_per_page pq" a page] live ps vs show False by simp
  qed
  with pg vs show ?thesis
    by (cases ps) (auto simp: tq_pages_def nchan_timequeue_dequeue_def Let_def empty_page_def split: option.splits)
qed

text \<open>The three ways the chain changes when the first entry is taken.\<close>

lemma tq_keep_page:
  assumes pg: "tq_pages pq h (a # qs) ss" and live: "list_all (live_page h (items_per_page pq)) (a # qs)"
    and page: "h a = Some page" "page_items (page\<lparr>pg_start := pg_start page + 1\<rparr>) \<noteq> []"
  shows "tq_pages pq (h(a \<mapsto> page\<lparr>pg_start := pg_start page + 1\<rparr>)) (a # qs) ss"
proof -
  have p: "page_ok (items_per_page pq) page" "pg_start page < pg_end page"
    using live page(1) by (auto simp: live_page_def)
  have same: "(pg_nxt h)(a := pg_next page) = pg_nxt h"
    using page(1) by (auto simp: pg_nxt_def fun_eq_iff)
  have "pg_start page + 1 < pg_end page" using page_take(2) [OF p] page(2) by auto
  with pg live page_take(3) [OF p] same show ?thesis by (auto simp: tq_pages_def live_page_def)
qed

lemma tq_reset_page:
  assumes pg: "tq_pages pq h [a] ss" and page: "h a = Some page" "length (pg_data page) = items_per_page pq"
  shows "tq_pages pq (h(a \<mapsto> timequeue_page_reset page)) [a] ss"
  using assms by (auto simp: tq_pages_def timequeue_page_reset_def empty_page_def pg_nxt_def)

lemma tq_retire_page:
  assumes pg: "tq_pages pq h (a # b # qs) ss" and page: "h a = Some page" "length (pg_data page) = items_per_page pq"
  shows "tq_pages (pq\<lparr>tq_first := pg_next page, tq_standby := Some a\<rparr>)
     (h(a \<mapsto> (timequeue_page_reset page)\<lparr>pg_next := tq_standby pq\<rparr>)) (b # qs) (a # ss)"
proof -
  have "pg_next page = Some b" using pg page(1) by (auto simp: tq_pages_def pg_nxt_def)
  moreover have "list_all (live_page h (items_per_page pq)) (b # qs)" using pg by (auto simp: tq_pages_def)
  ultimately show ?thesis
    using pg page by (auto simp: tq_pages_def page_upd_other) (simp add: empty_page_def timequeue_page_reset_def)
qed

lemma tq_dequeue_rep:
  assumes rep: "tq_rep (pq, h) (v # vs, any)"
  shows "\<exists>c'. nchan_timequeue_dequeue pq h expected = Some (expected = tq_tag v \<or> expected = any, v, c')
           \<and> tq_rep c' (if expected = tq_tag v \<or> expected = any then vs else v # vs, any)"
proof -
  let ?k = "items_per_page pq"
  obtain ps ss where pg: "tq_pages pq h ps ss" and vs: "v # vs = concat (map (items_at h) ps)" "any = anytag pq"
    using rep by (auto simp: tq_rep_def)
  have live: "list_all (live_page h ?k) ps"
    using pg vs(1) empty_page_ok [of h ?k "hd ps"]
    by (cases ps) (auto simp: tq_pages_def items_at_def)
  obtain a qs where ps: "ps = a # qs" using pg by (cases ps) (auto simp: tq_pages_def)
  obtain page where page: "h a = Some page" "page_ok ?k page" "pg_start page < pg_end page"
    using live ps by (auto simp: live_page_def split: option.splits)
  define page' where "page' = page\<lparr>pg_start := pg_start page + 1\<rparr>"
  have it: "items_at h a = pg_data page ! unat (pg_start page) # page_items page'"
    "unat (pg_start page) < length (pg_data page)"
    using items_at_live [of h ?k a page] live ps page page_take(1) [OF page(2,3)] by (auto simp: page'_def)
  have v: "v = pg_data page ! unat (pg_start page)" "vs = page_items page' @ concat (map (items_at h) qs)"
    using vs(1) ps it by auto
  have first: "tq_first pq = Some a" "lseg (pg_nxt h) (pg_next page) qs None" and last: "tq_last pq = Some (last ps)"
    and out: "a \<notin> set qs" using pg ps page(1) by (auto simp: tq_pages_def pg_nxt_def)
  have ne: "\<not> (pg_start page = pg_end page \<and> pg_start page = 0)" using page(3) by auto
  note unf = nchan_timequeue_dequeue_def Let_def page'_def
  note head = first page it(2) ne v(1) vs(2)
  show ?thesis
  proof (cases "expected = tq_tag v \<or> expected = any")
    case False
    with head rep show ?thesis by (auto simp: unf)
  next
    case match: True
    consider "page_items page' \<noteq> []" | "page_items page' = []" "qs = []" | b qs' where "page_items page' = []" "qs = b # qs'"
      by (cases qs) auto
    then show ?thesis
    proof cases
      case 1
      then have "nchan_timequeue_dequeue pq h expected = Some (True, v, pq, h(a \<mapsto> page'))"
        using head match page_take(2) [OF page(2,3)] by (auto simp: unf)
      moreover have "tq_pages pq (h(a \<mapsto> page')) (a # qs) ss"
        using tq_keep_page [of pq h a qs ss page] pg live ps page 1 by (simp add: page'_def)
      ultimately show ?thesis using match v(2) vs(2) out tq_repI by (auto simp: items_at_def)
    next
      case 2
      then have "nchan_timequeue_dequeue pq h expected = Some (True, v, pq, h(a \<mapsto> timequeue_page_reset page))"
        using head match page_take(2) [OF page(2,3)] last ps by (auto simp: unf timequeue_page_reset_def)
      moreover have "tq_pages pq (h(a \<mapsto> timequeue_page_reset page)) [a] ss"
        using tq_reset_page pg ps page 2 by (auto simp: page_ok_def)
      ultimately show ?thesis
        using match v(2) vs(2) 2 tq_repI by (auto simp: items_at_def timequeue_page_reset_def page_items_def)
    next
      case 3
      let ?h = "h(a \<mapsto> (timequeue_page_reset page)\<lparr>pg_next := tq_standby pq\<rparr>)"
      have "tq_last pq \<noteq> Some a" "pg_next page \<noteq> None" using last ps 3 out first by auto
      then have "nchan_timequeue_dequeue pq h expected =
          Some (True, v, pq\<lparr>tq_first := pg_next page, tq_standby := Some a\<rparr>, ?h)"
        using head match page_take(2) [OF page(2,3)] 3 by (auto simp: unf timequeue_page_reset_def)
      moreover have "concat (map (items_at ?h) qs) = vs" using v(2) 3(1) out by simp
      moreover have "tq_pages (pq\<lparr>tq_first := pg_next page, tq_standby := Some a\<rparr>) ?h qs (a # ss)"
        using tq_retire_page [of pq h a b qs' ss page] pg ps page 3(2) by (simp add: page_ok_def)
      ultimately show ?thesis using match vs(2) tq_repI by fastforce
    qed
  qed
qed

subsection \<open>Destruction\<close>

lemma free_pages_seg:
  "lseg (pg_nxt h) p ps None \<Longrightarrow> distinct ps \<Longrightarrow> set ps \<subseteq> dom h \<Longrightarrow>
     free_pages h p = Some (h |` (- set ps))"
proof (induction ps arbitrary: h p)
  case Nil
  then show ?case by (subst free_pages.simps) (simp add: restrict_map_def)
next
  case (Cons a ps)
  then obtain page where page: "h a = Some page" by auto
  have "pg_nxt (h(a := None)) x = pg_nxt h x" if "x \<in> set ps" for x
    using that Cons.prems by (auto simp: pg_nxt_def)
  moreover have "pg_nxt h a = pg_next page" using page by (simp add: pg_nxt_def)
  with Cons.prems(1) have "lseg (pg_nxt h) (pg_next page) ps None" by simp
  ultimately have "lseg (pg_nxt (h(a := None))) (pg_next page) ps None"
    using lseg_cong [of ps "pg_nxt (h(a := None))" "pg_nxt h"] by blast
  then have "free_pages (h(a := None)) (pg_next page) = Some ((h(a := None)) |` (- set ps))"
    by (rule Cons.IH) (use Cons.prems in auto)
  moreover have "(h(a := None)) |` (- set ps) = h |` (- set (a # ps))"
    by (auto simp: restrict_map_def fun_eq_iff)
  ultimately show ?case using Cons.prems page by (subst free_pages.simps) simp
qed

lemma tq_destroy_frees_all:
  assumes "tq_pages pq h ps ss"
  shows "\<exists>pq'. nchan_timequeue_destroy pq h = Some (pq', h |` (- set (ps @ ss)))
           \<and> tq_first pq' = None \<and> tq_standby pq' = None"
proof -
  have d: "distinct ps" "distinct ss" "set ps \<inter> set ss = {}"
    and l: "lseg (pg_nxt h) (tq_first pq) ps None" "lseg (pg_nxt h) (tq_standby pq) ss None"
    using assms by (auto simp: tq_pages_def)
  have dom: "set ps \<subseteq> dom h" "set ss \<subseteq> dom h"
    using assms by (auto simp: tq_pages_def list_all_iff live_page_def empty_page_def length_Suc_conv split: option.splits)
  have "pg_nxt (h |` (- set ps)) x = pg_nxt h x" if "x \<in> set ss" for x
    using that d(3) by (auto simp: pg_nxt_def restrict_map_def)
  with l(2) lseg_cong [of ss "pg_nxt (h |` (- set ps))" "pg_nxt h"]
  have "lseg (pg_nxt (h |` (- set ps))) (tq_standby pq) ss None" by blast
  moreover have "set ss \<subseteq> dom (h |` (- set ps))" using dom d by auto
  ultimately show ?thesis
    using free_pages_seg [OF l(1) d(1) dom(1)] free_pages_seg [OF _ d(2)]
    by (simp add: nchan_timequeue_destroy_def Int_commute)
qed

subsection \<open>Refinement\<close>

datatype tq_op = Queue tq_alloc uint64 int | Dequeue int

type_synonym tq_out = "bool \<times> nchan_timequeue_time option"

fun tq_step :: "tq_op \<Rightarrow> nchan_timequeue \<times> tq_heap \<Rightarrow> (tq_out \<times> nchan_timequeue \<times> tq_heap) option" where
  "tq_step (Queue alloc now tg) (pq, h) = do {
     (b, pq, h) \<leftarrow> nchan_timequeue_queue pq h alloc now tg; Some ((b, None), pq, h) }"
| "tq_step (Dequeue expected) (pq, h) = do {
     (b, v, pq, h) \<leftarrow> nchan_timequeue_dequeue pq h expected; Some ((b, Some v), pq, h) }"

text \<open>The specification: a list of entries, and the tag that matches every entry.\<close>

fun tq_spec :: "tq_op \<Rightarrow> nchan_timequeue_time list \<times> int \<Rightarrow> tq_out \<times> nchan_timequeue_time list \<times> int" where
  "tq_spec (Queue _ now tg) (vs, any) = ((True, None), vs @ [\<lparr>time_start = now, tq_tag = tg\<rparr>], any)"
| "tq_spec (Dequeue expected) ([], any) = ((False, Some \<lparr>time_start = 0, tq_tag = any\<rparr>), [], any)"
| "tq_spec (Dequeue expected) (v # vs, any) =
     (if expected = tq_tag v \<or> expected = any then ((True, Some v), vs, any) else ((False, Some v), v # vs, any))"

text \<open>The allocator returns memory that is not in use and large enough for a page.\<close>

fun tq_alloc_ok :: "tq_op \<Rightarrow> nchan_timequeue \<times> tq_heap \<Rightarrow> bool" where
  "tq_alloc_ok (Queue (Some (a, junk)) now tg) (pq, h) = (h a = None \<and> length junk = items_per_page pq)"
| "tq_alloc_ok (Queue None now tg) (pq, h) = False"
| "tq_alloc_ok (Dequeue expected) (pq, h) = True"

lemma tq_init_rep:
  assumes "0 < n" "n < 2 ^ 16" "length junk = n" "h a = None"
  shows "\<exists>c. nchan_timequeue_init pq h (Some (a, junk)) n any = (True, c) \<and> tq_rep c ([], any)"
proof -
  let ?page = "timequeue_page_reset \<lparr>pg_next = None, pg_start = 0, pg_end = 0, pg_data = junk\<rparr>"
  let ?pq = "pq\<lparr>items_per_page := n, tq_first := Some a, tq_last := Some a, tq_standby := None, anytag := any\<rparr>"
  have "nchan_timequeue_init pq h (Some (a, junk)) n any = (True, ?pq, h(a \<mapsto> ?page))"
    by (simp add: nchan_timequeue_init_def timequeue_page_alloc_def Let_def)
  moreover have "tq_rep (?pq, h(a \<mapsto> ?page)) ([], any)"
    by (rule tq_repI [of _ _ "[a]" "[]"])
      (use assms in \<open>auto simp: tq_pages_def empty_page_def items_at_def page_items_def timequeue_page_reset_def\<close>)
  ultimately show ?thesis by blast
qed

interpretation timequeue_sim: simulation tq_rep tq_alloc_ok tq_step tq_spec
proof
  fix c a p
  assume r: "tq_rep c a" "tq_alloc_ok p c"
  obtain pq h where c: "c = (pq, h)" by (cases c)
  obtain vs any where a: "a = (vs, any)" by (cases a)
  show "\<exists>c'. tq_step p c = Some (fst (tq_spec p a), c') \<and> tq_rep c' (snd (tq_spec p a))"
  proof (cases p)
    case (Queue alloc now tg)
    with r c obtain b junk where "alloc = Some (b, junk)" "h b = None" "length junk = items_per_page pq"
      by (cases alloc) auto
    with r Queue tq_queue_rep [of pq h vs any b junk now tg] show ?thesis by (auto simp: c a)
  next
    case (Dequeue expected)
    with r c a tq_dequeue_empty [of pq h any expected] tq_dequeue_rep [of pq h "hd vs" "tl vs" any expected] show ?thesis
      by (cases vs) (auto simp: c a split: if_splits)
  qed
qed

text \<open>
  C6: the paged time queue is a first-in first-out queue: over any sequence of queueings and
  dequeueings it never faults, pages and standby reuse are invisible, and each dequeue returns what a plain list would.
\<close>

theorem timequeue_refines_list:
  assumes "0 < n" "n < 2 ^ 16" "length junk = n" "h a = None"
    and "nchan_timequeue_init pq h (Some (a, junk)) n any = (True, c)"
    and "run_ok tq_alloc_ok tq_step ops c"
  shows "\<exists>c'. run tq_step ops c = Some (fst (spec_run tq_spec ops ([], any)), c')
           \<and> tq_rep c' (snd (spec_run tq_spec ops ([], any)))"
  using tq_init_rep [of n junk h a pq any] assms(1-4) timequeue_sim.run_refines [of c "([], any)" ops] assms(5,6)
  by auto

theorem timequeue_refines_list_witness:
  "\<exists>c c'. nchan_timequeue_init \<lparr>items_per_page = 0, anytag = 0, tq_first = None, tq_last = None, tq_standby = None\<rparr>
       (\<lambda>_. None) (Some (1, [\<lparr>time_start = 0, tq_tag = 0\<rparr>])) 1 (-1) = (True, c)
     \<and> run tq_step [Queue (Some (2, [\<lparr>time_start = 0, tq_tag = 0\<rparr>])) 100 7,
          Queue (Some (3, [\<lparr>time_start = 0, tq_tag = 0\<rparr>])) 200 8, Dequeue 8, Dequeue 7, Dequeue (-1)] c
       = Some ([(True, None), (True, None), (False, Some \<lparr>time_start = 100, tq_tag = 7\<rparr>),
           (True, Some \<lparr>time_start = 100, tq_tag = 7\<rparr>), (True, Some \<lparr>time_start = 200, tq_tag = 8\<rparr>)], c')
     \<and> tq_rep c' ([], -1)"
proof -
  let ?pq = "\<lparr>items_per_page = 0, anytag = 0, tq_first = None, tq_last = None, tq_standby = None\<rparr>"
  let ?j = "[\<lparr>time_start = 0, tq_tag = 0\<rparr>]"
  let ?ops = "[Queue (Some (2, ?j)) 100 7, Queue (Some (3, ?j)) 200 8, Dequeue 8, Dequeue 7, Dequeue (-1)]"
  obtain c where c: "nchan_timequeue_init ?pq (\<lambda>_. None) (Some (1, ?j)) 1 (-1) = (True, c)"
    by (simp add: nchan_timequeue_init_def timequeue_page_alloc_def)
  have "run_ok tq_alloc_ok tq_step ?ops c"
    using c by (auto simp: nchan_timequeue_init_def timequeue_page_alloc_def timequeue_page_reset_def
        nchan_timequeue_queue_def timequeue_get_nonfull_page_def timequeue_page_enqueue_def nchan_timequeue_dequeue_def)
  from timequeue_refines_list [OF _ _ _ _ c this] c show ?thesis by auto
qed

end
