(* ===== verification/Reaper.thy ===== *)
theory Reaper
  imports Link_Heap
begin

text \<open>
  nchan\_reaper.c: the lists of things waiting to be garbage collected (messages, channels).

  The callbacks are arguments: \<open>ready thing force\<close> is whether \<^verbatim>\<open>rp->ready\<close> answers \<^verbatim>\<open>NGX_OK\<close>, and the
  things \<^verbatim>\<open>rp->reap\<close> is called on are returned in order.  The float \<^verbatim>\<open>max_notready_ratio\<close> enters only
  through the integer \<^verbatim>\<open>max_notready_ratio * count\<close>, so the record holds that function of the count.
  During one scan \<open>ready\<close> is a fixed predicate and \<^verbatim>\<open>rp->reap\<close> leaves the links and the fields of this reaper
  alone: a callback that adds to or withdraws from the reaper that is calling it is outside the model.
\<close>

datatype nchan_reaper_strategy = RESCAN | ROTATE | KEEP_PLACE

record nchan_reaper =
  rp_count :: int
  rp_next_ptr_offset :: off
  rp_prev_ptr_offset :: off
  rp_last :: ptr
  rp_first :: ptr
  rp_timer_set :: bool
  rp_strategy :: nchan_reaper_strategy
  rp_max_notready :: "int \<Rightarrow> int"
  rp_position :: ptr

type_synonym reaper_state = "nchan_reaper \<times> link_mem"
type_synonym ready_fn = "addr \<Rightarrow> bool \<Rightarrow> bool"

definition nchan_reaper_start :: "nchan_reaper \<Rightarrow> off \<Rightarrow> off \<Rightarrow> nchan_reaper" where
  "nchan_reaper_start rp prev nxt =
     rp\<lparr>rp_count := 0, rp_next_ptr_offset := nxt, rp_prev_ptr_offset := prev, rp_last := None,
        rp_first := None, rp_timer_set := False, rp_strategy := RESCAN,
        rp_max_notready := (\<lambda>_. 0), rp_position := None\<rparr>"

definition rp_next :: "nchan_reaper \<Rightarrow> link_mem \<Rightarrow> addr \<Rightarrow> ptr" where
  "rp_next rp m thing = m thing (rp_next_ptr_offset rp)"

definition rp_prev :: "nchan_reaper \<Rightarrow> link_mem \<Rightarrow> addr \<Rightarrow> ptr" where
  "rp_prev rp m thing = m thing (rp_prev_ptr_offset rp)"

definition wr_next :: "nchan_reaper \<Rightarrow> link_mem \<Rightarrow> ptr \<Rightarrow> ptr \<Rightarrow> link_mem" where
  "wr_next rp m p v = (case p of None \<Rightarrow> m | Some a \<Rightarrow> wr m a (rp_next_ptr_offset rp) v)"

definition wr_prev :: "nchan_reaper \<Rightarrow> link_mem \<Rightarrow> ptr \<Rightarrow> ptr \<Rightarrow> link_mem" where
  "wr_prev rp m p v = (case p of None \<Rightarrow> m | Some a \<Rightarrow> wr m a (rp_prev_ptr_offset rp) v)"

definition nchan_reaper_each :: "nchan_reaper \<Rightarrow> link_mem \<Rightarrow> (addr \<Rightarrow> 's \<Rightarrow> 's) \<Rightarrow> 's \<Rightarrow> 's option" where
  "nchan_reaper_each rp m cb pd = map_option (\<lambda>things. fold cb things pd) (walk (rp_next rp m) (rp_first rp))"

definition reaper_reset_timer :: "bool \<Rightarrow> nchan_reaper \<Rightarrow> nchan_reaper" where
  "reaper_reset_timer exiting rp =
     (if \<not> exiting \<and> rp_count rp > 0 \<and> \<not> rp_timer_set rp then rp\<lparr>rp_timer_set := True\<rparr> else rp)"

definition nchan_reaper_add ::
  "ready_fn \<Rightarrow> bool \<Rightarrow> nchan_reaper \<Rightarrow> link_mem \<Rightarrow> addr \<Rightarrow> (addr list \<times> reaper_state) option" where
  "nchan_reaper_add ready exiting rp m thing =
     (if ready thing False then Some ([thing], rp, m)
      else do {
        let m = wr_next rp m (rp_last rp) (Some thing);
        let m = wr m thing (rp_prev_ptr_offset rp) (rp_last rp);
        let m = wr m thing (rp_next_ptr_offset rp) None;
        let rp = rp\<lparr>rp_last := Some thing\<rparr>;
        let rp = (if rp_first rp = None then rp\<lparr>rp_first := Some thing\<rparr> else rp);
        c_assert (rp_count rp \<ge> 0);
        let rp = rp\<lparr>rp_count := rp_count rp + 1\<rparr>;
        Some ([], reaper_reset_timer exiting rp, m)
      })"

definition nchan_reaper_withdraw :: "nchan_reaper \<Rightarrow> link_mem \<Rightarrow> addr \<Rightarrow> reaper_state option" where
  "nchan_reaper_withdraw rp m thing = do {
     let prev = rp_prev rp m thing;
     let nxt = rp_next rp m thing;
     let m = wr_next rp m prev nxt;
     let m = wr_prev rp m nxt prev;
     let rp = (if rp_first rp = Some thing then rp\<lparr>rp_first := nxt\<rparr> else rp);
     let rp = (if rp_last rp = Some thing then rp\<lparr>rp_last := prev\<rparr> else rp);
     c_assert (rp_count rp > 0);
     let rp = rp\<lparr>rp_count := rp_count rp - 1\<rparr>;
     let rp = (if rp_strategy rp = KEEP_PLACE \<and> rp_position rp = Some thing
               then rp\<lparr>rp_position := nxt\<rparr> else rp);
     let m = wr m thing (rp_next_ptr_offset rp) None;
     let m = wr m thing (rp_prev_ptr_offset rp) None;
     Some (rp, m)
   }"

definition reap_ready_thing :: "nchan_reaper \<Rightarrow> link_mem \<Rightarrow> addr \<Rightarrow> ptr \<Rightarrow> reaper_state option" where
  "reap_ready_thing rp m cur nxt = do {
     let prev = rp_prev rp m cur;
     c_assert (prev \<noteq> None \<and> nxt \<noteq> None \<longrightarrow> prev \<noteq> nxt);
     c_assert (prev \<noteq> Some cur);
     c_assert (nxt \<noteq> Some cur);
     let m = wr_next rp m prev nxt;
     let m = wr_prev rp m nxt prev;
     let rp = (if rp_first rp = Some cur then rp\<lparr>rp_first := nxt\<rparr> else rp);
     let rp = (if rp_last rp = Some cur then rp\<lparr>rp_last := prev\<rparr> else rp);
     let rp = (if rp_strategy rp = KEEP_PLACE \<and> rp_position rp = Some cur
               then rp\<lparr>rp_position := nxt\<rparr> else rp);
     let rp = rp\<lparr>rp_count := rp_count rp - 1\<rparr>;
     c_assert (rp_count rp \<ge> 0);
     Some (rp, m)
   }"

text \<open>The three scans.  \<open>reaped\<close> accumulates the things given to \<^verbatim>\<open>rp->reap\<close>.\<close>

partial_function (option) reaping_loop ::
  "ready_fn \<Rightarrow> bool \<Rightarrow> int \<Rightarrow> ptr \<Rightarrow> int \<Rightarrow> addr list \<Rightarrow> nchan_reaper \<Rightarrow> link_mem
     \<Rightarrow> (addr list \<times> reaper_state) option" where
  "reaping_loop ready force max_notready p notready reaped rp m =
     (if p = None \<or> notready > max_notready then Some (reaped, rp, m)
      else do {
        cur \<leftarrow> p;
        let nxt = rp_next rp m cur;
        if ready cur force then do {
          (rp, m) \<leftarrow> reap_ready_thing rp m cur nxt;
          reaping_loop ready force max_notready nxt notready (reaped @ [cur]) rp m
        }
        else reaping_loop ready force max_notready nxt
               (if max_notready > 0 then notready + 1 else notready) reaped rp m
      })"

definition its_reaping_time ::
  "ready_fn \<Rightarrow> bool \<Rightarrow> nchan_reaper \<Rightarrow> link_mem \<Rightarrow> (addr list \<times> reaper_state) option" where
  "its_reaping_time ready force rp m =
     reaping_loop ready force (rp_max_notready rp (rp_count rp)) (rp_first rp) 0 [] rp m"

definition nchan_reaper_flush :: "ready_fn \<Rightarrow> nchan_reaper \<Rightarrow> link_mem \<Rightarrow> (addr list \<times> reaper_state) option" where
  "nchan_reaper_flush ready rp m = its_reaping_time ready True rp m"

definition nchan_reaper_stop :: "ready_fn \<Rightarrow> nchan_reaper \<Rightarrow> link_mem \<Rightarrow> (addr list \<times> reaper_state) option" where
  "nchan_reaper_stop ready rp m = do {
     (reaped, rp, m) \<leftarrow> nchan_reaper_flush ready rp m;
     Some (reaped, rp\<lparr>rp_timer_set := False\<rparr>, m)
   }"

partial_function (option) keep_place_loop ::
  "ready_fn \<Rightarrow> bool \<Rightarrow> int \<Rightarrow> ptr \<Rightarrow> int \<Rightarrow> int \<Rightarrow> addr list \<Rightarrow> nchan_reaper \<Rightarrow> link_mem
     \<Rightarrow> (addr list \<times> reaper_state) option" where
  "keep_place_loop ready force max_notready p n notready reaped rp m =
     (if n < rp_count rp \<and> notready \<le> max_notready then do {
        cur \<leftarrow> p;
        let nxt = rp_next rp m cur;
        (notready, reaped, rp, m) \<leftarrow>
          (if ready cur force then do {
             (rp, m) \<leftarrow> reap_ready_thing rp m cur nxt;
             Some (notready, reaped @ [cur], rp, m)
           }
           else Some (if max_notready > 0 then notready + 1 else notready, reaped, rp, m));
        keep_place_loop ready force max_notready (if nxt = None then rp_first rp else nxt)
          (n + 1) notready reaped rp m
      }
      else Some (reaped, rp\<lparr>rp_position := p\<rparr>, m))"

definition its_reaping_time_keep_place ::
  "ready_fn \<Rightarrow> bool \<Rightarrow> nchan_reaper \<Rightarrow> link_mem \<Rightarrow> (addr list \<times> reaper_state) option" where
  "its_reaping_time_keep_place ready force rp m =
     keep_place_loop ready force (rp_max_notready rp (rp_count rp))
       (if rp_position rp = None then rp_first rp else rp_position rp) 0 0 [] rp m"

definition move_to_end :: "nchan_reaper \<Rightarrow> link_mem \<Rightarrow> addr \<Rightarrow> ptr \<Rightarrow> reaper_state" where
  "move_to_end rp m cur nxt =
     (let prev = rp_prev rp m cur;
          m = wr_next rp m prev nxt;
          m = wr_prev rp m nxt prev;
          m = wr_next rp m (rp_last rp) (Some cur);
          m = wr m cur (rp_prev_ptr_offset rp) (rp_last rp);
          m = wr m cur (rp_next_ptr_offset rp) None;
          rp = rp\<lparr>rp_last := Some cur\<rparr>;
          rp = (if rp_first rp = None then rp\<lparr>rp_first := Some cur\<rparr>
                else if rp_first rp = Some cur then rp\<lparr>rp_first := nxt\<rparr> else rp)
      in (rp, m))"

partial_function (option) rotating_loop ::
  "ready_fn \<Rightarrow> bool \<Rightarrow> int \<Rightarrow> ptr \<Rightarrow> ptr \<Rightarrow> int \<Rightarrow> addr list \<Rightarrow> nchan_reaper \<Rightarrow> link_mem
     \<Rightarrow> (addr list \<times> reaper_state) option" where
  "rotating_loop ready force max_notready p firstmoved notready reaped rp m =
     (if p = None \<or> p = firstmoved \<or> notready > max_notready then Some (reaped, rp, m)
      else do {
        cur \<leftarrow> p;
        let nxt = rp_next rp m cur;
        if ready cur force then do {
          (rp, m) \<leftarrow> reap_ready_thing rp m cur nxt;
          rotating_loop ready force max_notready nxt firstmoved notready (reaped @ [cur]) rp m
        }
        else do {
          let notready = (if max_notready > 0 then notready + 1 else notready);
          let firstmoved = (if firstmoved = None then Some cur else firstmoved);
          let (rp, m) = (if rp_last rp \<noteq> Some cur then move_to_end rp m cur nxt else (rp, m));
          rotating_loop ready force max_notready nxt firstmoved notready reaped rp m
        }
      })"

definition its_reaping_rotating_time ::
  "ready_fn \<Rightarrow> bool \<Rightarrow> nchan_reaper \<Rightarrow> link_mem \<Rightarrow> (addr list \<times> reaper_state) option" where
  "its_reaping_rotating_time ready force rp m =
     rotating_loop ready force (rp_max_notready rp (rp_count rp)) (rp_first rp) None 0 [] rp m"

definition reaper_timer_handler ::
  "ready_fn \<Rightarrow> bool \<Rightarrow> nchan_reaper \<Rightarrow> link_mem \<Rightarrow> (addr list \<times> reaper_state) option" where
  "reaper_timer_handler ready exiting rp m = do {
     (reaped, rp, m) \<leftarrow> (case rp_strategy rp of
         RESCAN \<Rightarrow> its_reaping_time ready False rp m
       | ROTATE \<Rightarrow> its_reaping_rotating_time ready False rp m
       | KEEP_PLACE \<Rightarrow> its_reaping_time_keep_place ready False rp m);
     Some (reaped, reaper_reset_timer exiting rp, m)
   }"

subsection \<open>The list a reaper holds\<close>

definition reaper_rep :: "nchan_reaper \<Rightarrow> link_mem \<Rightarrow> addr list \<Rightarrow> bool" where
  "reaper_rep rp m xs \<longleftrightarrow>
     dll m (rp_prev_ptr_offset rp) (rp_next_ptr_offset rp) (rp_first rp) (rp_last rp) xs
     \<and> rp_count rp = int (length xs)"

lemma wr_both: "wr_prev rp (wr_next rp m p n) n p = unlink m (rp_prev_ptr_offset rp) (rp_next_ptr_offset rp) p n"
  by (simp add: wr_prev_def wr_next_def unlink_def Let_def)

lemma rp_neighbours:
  assumes "reaper_rep rp m (xs @ x # ys)"
  shows "rp_prev rp m x = last_of None xs" "rp_next rp m x = first_of ys None"
  using assms dlseg_member [of m "rp_prev_ptr_offset rp" "rp_next_ptr_offset rp" None xs x ys None]
  by (auto simp: reaper_rep_def dll_def rp_prev_def rp_next_def)

lemma reaper_start_rep: "prev \<noteq> nxt \<Longrightarrow> reaper_rep (nchan_reaper_start rp prev nxt) m []"
  by (simp add: reaper_rep_def nchan_reaper_start_def)

lemma reaper_rep_reset_timer [simp]: "reaper_rep (reaper_reset_timer e rp) m xs = reaper_rep rp m xs"
  by (simp add: reaper_reset_timer_def reaper_rep_def)

lemma rp_append_links:
  assumes d: "dll m (rp_prev_ptr_offset rp) (rp_next_ptr_offset rp) h t xs" and out: "x \<notin> set xs"
  shows "dll (wr (wr (wr_next rp m t (Some x)) x (rp_prev_ptr_offset rp) t) x (rp_next_ptr_offset rp) None)
     (rp_prev_ptr_offset rp) (rp_next_ptr_offset rp) (if h = None then Some x else h) (Some x) (xs @ [x])"
proof -
  let ?po = "rp_prev_ptr_offset rp" and ?no = "rp_next_ptr_offset rp"
  have t: "t \<noteq> Some x" using d out by (auto simp: dll_def dest: last_of_in)
  have "wr (wr (wr_next rp m t (Some x)) x ?po t) x ?no None
      = wr (case t of None \<Rightarrow> wr m x ?po None | Some a \<Rightarrow> wr (wr m x ?po (Some a)) a ?no (Some x)) x ?no None"
    using t d by (auto simp: wr_next_def fun_eq_iff dll_def split: option.splits)
  with dll_snoc [OF d out] show ?thesis by simp
qed

lemma reaper_add_rep:
  assumes "reaper_rep rp m xs" and "thing \<notin> set xs" and "\<not> ready thing False"
  shows "\<exists>rp' m'. nchan_reaper_add ready exiting rp m thing = Some ([], rp', m')
           \<and> reaper_rep rp' m' (xs @ [thing]) \<and> (exiting \<or> rp_timer_set rp')"
  using rp_append_links [of m rp "rp_first rp" "rp_last rp" xs thing] assms
  by (auto simp: nchan_reaper_add_def Let_def reaper_rep_def reaper_reset_timer_def)

text \<open>The record after \<open>x\<close>, with neighbours \<open>p\<close> and \<open>n\<close>, has been taken out.\<close>

definition rp_unlinked :: "nchan_reaper \<Rightarrow> addr \<Rightarrow> ptr \<Rightarrow> ptr \<Rightarrow> nchan_reaper" where
  "rp_unlinked rp x p n =
     rp\<lparr>rp_first := (if rp_first rp = Some x then n else rp_first rp),
        rp_last := (if rp_last rp = Some x then p else rp_last rp),
        rp_count := rp_count rp - 1,
        rp_position := (if rp_strategy rp = KEEP_PLACE \<and> rp_position rp = Some x then n else rp_position rp)\<rparr>"

lemma reaper_withdraw_rep:
  assumes "reaper_rep rp m (xs @ x # ys)"
  shows "\<exists>rp' m'. nchan_reaper_withdraw rp m x = Some (rp', m') \<and> reaper_rep rp' m' (xs @ ys)"
proof -
  have d: "dll m (rp_prev_ptr_offset rp) (rp_next_ptr_offset rp) (rp_first rp) (rp_last rp) (xs @ x # ys)"
    and x: "x \<notin> set (xs @ ys)" using assms by (auto simp: reaper_rep_def dll_def)
  let ?p = "m x (rp_prev_ptr_offset rp)" and ?n = "m x (rp_next_ptr_offset rp)"
  have "nchan_reaper_withdraw rp m x = Some (rp_unlinked rp x ?p ?n,
      wr (wr (unlink m (rp_prev_ptr_offset rp) (rp_next_ptr_offset rp) ?p ?n) x (rp_next_ptr_offset rp) None)
        x (rp_prev_ptr_offset rp) None)"
    using assms
    by (cases rp) (auto simp: nchan_reaper_withdraw_def Let_def reaper_rep_def wr_both rp_prev_def rp_next_def
        rp_unlinked_def)
  with dll_unlink [OF d] x assms show ?thesis
    by (simp add: reaper_rep_def rp_unlinked_def split del: if_split)
qed

lemma reap_ready_rep:
  assumes "reaper_rep rp m (xs @ x # ys)"
  shows "\<exists>rp' m'. reap_ready_thing rp m x (first_of ys None) = Some (rp', m')
           \<and> reaper_rep rp' m' (xs @ ys)
           \<and> rp_strategy rp' = rp_strategy rp \<and> rp_max_notready rp' = rp_max_notready rp
           \<and> rp_position rp' = (if rp_strategy rp = KEEP_PLACE \<and> rp_position rp = Some x
                                then first_of ys None else rp_position rp)"
proof -
  have d: "dll m (rp_prev_ptr_offset rp) (rp_next_ptr_offset rp) (rp_first rp) (rp_last rp) (xs @ x # ys)"
    and x: "distinct (xs @ x # ys)" using assms by (auto simp: reaper_rep_def dll_def)
  note nb = rp_neighbours [OF assms]
  have a: "last_of None xs \<noteq> Some x" "first_of ys None \<noteq> Some x"
    "last_of None xs \<noteq> None \<and> first_of ys None \<noteq> None \<longrightarrow> last_of None xs \<noteq> first_of ys None"
    using x by (auto dest: last_of_in first_of_in) (cases ys; auto dest: last_of_in)
  have e: "m x (rp_prev_ptr_offset rp) = last_of None xs" "m x (rp_next_ptr_offset rp) = first_of ys None"
    using nb by (auto simp: rp_prev_def rp_next_def)
  have u: "dll (unlink m (rp_prev_ptr_offset rp) (rp_next_ptr_offset rp) (last_of None xs) (first_of ys None))
      (rp_prev_ptr_offset rp) (rp_next_ptr_offset rp) (if rp_first rp = Some x then first_of ys None else rp_first rp)
      (if rp_last rp = Some x then last_of None xs else rp_last rp) (xs @ ys)"
    by (rule dll_unlink [OF d, unfolded e])
  have "reap_ready_thing rp m x (first_of ys None) = Some (rp_unlinked rp x (last_of None xs) (first_of ys None),
      unlink m (rp_prev_ptr_offset rp) (rp_next_ptr_offset rp) (last_of None xs) (first_of ys None))"
    using a assms nb
    by (cases rp) (auto simp: reap_ready_thing_def Let_def reaper_rep_def wr_both rp_unlinked_def)
  with u assms show ?thesis by (simp add: reaper_rep_def rp_unlinked_def split del: if_split)
qed

subsection \<open>The scans, on lists\<close>

text \<open>
  \<open>scan ready lim k xs\<close> is what a scan does to the list \<open>xs\<close> when \<open>k\<close> things were already found not
  ready: the things reaped and the things passed over, until more than \<open>lim\<close> were not ready.  With
  \<open>lim = 0\<close> nothing is counted and the whole list is scanned.
\<close>

fun scan :: "(addr \<Rightarrow> bool) \<Rightarrow> int \<Rightarrow> int \<Rightarrow> addr list \<Rightarrow> addr list \<times> addr list \<times> addr list" where
  "scan ready lim k [] = ([], [], [])"
| "scan ready lim k (x # xs) =
     (if k > lim then ([], [], x # xs)
      else if ready x then (let (r, s, t) = scan ready lim k xs in (x # r, s, t))
      else (let (r, s, t) = scan ready lim (if lim > 0 then k + 1 else k) xs in (r, x # s, t)))"

lemma scan_unlimited: "scan ready 0 0 xs = (filter ready xs, filter (\<lambda>x. \<not> ready x) xs, [])"
  by (induction xs) auto

text \<open>
  A scan covers a prefix \<open>us\<close> of the list, and stops before the end only at the thing that exceeds the limit.
\<close>

definition scanned :: "(addr \<Rightarrow> bool) \<Rightarrow> int \<Rightarrow> int \<Rightarrow> addr list \<Rightarrow> addr list \<Rightarrow> bool" where
  "scanned ready lim k us t \<longleftrightarrow>
     (let n = k + int (length (filter (\<lambda>x. \<not> ready x) us)) in
        (0 < lim \<longrightarrow> n \<le> lim + 1)
        \<and> (t \<noteq> [] \<longrightarrow> 0 < lim \<and> n = lim + 1 \<and> (us \<noteq> [] \<longrightarrow> \<not> ready (last us))))"

lemma scan_split:
  "scan ready lim k xs = (r, s, t) \<Longrightarrow> 0 \<le> lim \<Longrightarrow> 0 \<le> k \<Longrightarrow> k \<le> (if 0 < lim then lim + 1 else 0) \<Longrightarrow>
     \<exists>us. xs = us @ t \<and> r = filter ready us \<and> s = filter (\<lambda>x. \<not> ready x) us \<and> scanned ready lim k us t"
proof (induction ready lim k xs arbitrary: r s t rule: scan.induct)
  case (1 ready lim k)
  then show ?case by (auto simp: scanned_def)
next
  case (2 ready lim k x xs)
  consider "k > lim" | "k \<le> lim" "ready x" | "k \<le> lim" "\<not> ready x" by linarith
  then show ?case
  proof cases
    case 1
    with "2.prems" show ?thesis by (auto simp: scanned_def split: if_splits)
  next
    case c: 2
    with "2.prems" obtain r' where "scan ready lim k xs = (r', s, t)" "r = x # r'"
      by (auto split: prod.splits)
    with "2.IH"(1) [of r' s t] "2.prems" c obtain us where us: "xs = us @ t" "r' = filter ready us"
      "s = filter (\<lambda>x. \<not> ready x) us" "scanned ready lim k us t" by auto
    have "us = [] \<Longrightarrow> t = []" using us(4) c by (auto simp: scanned_def)
    with us c \<open>r = x # r'\<close> show ?thesis by (intro exI [of _ "x # us"]) (auto simp: scanned_def Let_def)
  next
    case c: 3
    let ?k = "if lim > 0 then k + 1 else k"
    from c "2.prems" obtain s' where "scan ready lim ?k xs = (r, s', t)" "s = x # s'"
      by (auto split: prod.splits)
    moreover have "0 \<le> ?k" "?k \<le> (if 0 < lim then lim + 1 else 0)" using c "2.prems" by auto
    ultimately obtain us where us: "xs = us @ t" "r = filter ready us"
      "s' = filter (\<lambda>x. \<not> ready x) us" "scanned ready lim ?k us t"
      using "2.IH"(2) [of r s' t] "2.prems"(2) c by (auto simp del: if_split)
    with c \<open>s = x # s'\<close> show ?thesis
      by (intro exI [of _ "x # us"]) (auto simp: scanned_def Let_def split: if_splits)
  qed
qed

lemma reaping_loop_scan:
  assumes "reaper_rep rp m (ks @ xs)"
  shows "\<exists>rp' m'. reaping_loop ready force lim (first_of xs None) k acc rp m
             = Some (acc @ fst (scan (\<lambda>x. ready x force) lim k xs), rp', m')
           \<and> (case scan (\<lambda>x. ready x force) lim k xs of (r, s, t) \<Rightarrow> reaper_rep rp' m' (ks @ s @ t))"
  using assms
proof (induction xs arbitrary: ks k acc rp m)
  case Nil
  then show ?case by (subst reaping_loop.simps) simp
next
  case (Cons x xs)
  note nb = rp_neighbours [OF Cons.prems]
  consider "k > lim" | "k \<le> lim" "ready x force" | "k \<le> lim" "\<not> ready x force" by linarith
  then show ?case
  proof cases
    case 1
    with Cons.prems show ?thesis by (subst reaping_loop.simps) simp
  next
    case 2
    from reap_ready_rep [OF Cons.prems] obtain rp1 m1
      where st: "reap_ready_thing rp m x (first_of xs None) = Some (rp1, m1)" "reaper_rep rp1 m1 (ks @ xs)" by blast
    from Cons.IH [OF st(2), of k "acc @ [x]"] 2 st(1) nb show ?thesis
      by (subst reaping_loop.simps) (auto split: prod.splits)
  next
    case 3
    with Cons.IH [of rp m "ks @ [x]" "if lim > 0 then k + 1 else k" acc] Cons.prems nb show ?thesis
      by (subst reaping_loop.simps) (auto split: prod.splits)
  qed
qed

lemma move_to_end_rep:
  assumes "reaper_rep rp m (x # y # zs)"
  shows "case move_to_end rp m x (Some y) of (rp', m') \<Rightarrow> reaper_rep rp' m' (y # zs @ [x])"
proof -
  let ?po = "rp_prev_ptr_offset rp" and ?no = "rp_next_ptr_offset rp"
  have d: "dll m ?po ?no (rp_first rp) (rp_last rp) ([] @ x # (y # zs))" and x: "x \<notin> set (y # zs)"
    using assms by (auto simp: reaper_rep_def dll_def)
  have e: "m x ?po = None" "m x ?no = Some y" "rp_first rp = Some x"
    and l: "rp_last rp \<noteq> Some x" "rp_prev rp m x = None"
    using assms x by (auto simp: reaper_rep_def dll_def last_of_def rp_prev_def split: if_splits)
  have "dll (unlink m ?po ?no None (Some y)) ?po ?no (Some y) (rp_last rp) (y # zs)"
    using dll_unlink [OF d, unfolded e] l by simp
  from rp_append_links [OF this x] e l assms show ?thesis
    by (simp add: move_to_end_def Let_def reaper_rep_def wr_both)
qed

lemma rotating_loop_None: "rotating_loop ready force lim None fm k acc rp m = Some (acc, rp, m)"
  by (subst rotating_loop.simps) simp

lemma rotating_loop_scan:
  assumes "reaper_rep rp m (xs @ ms)"
  shows "\<exists>rp' m'. rotating_loop ready force lim (first_of (xs @ ms) None) (first_of ms None) k acc rp m
             = Some (acc @ fst (scan (\<lambda>x. ready x force) lim k xs), rp', m')
           \<and> (case scan (\<lambda>x. ready x force) lim k xs of (r, s, t) \<Rightarrow> reaper_rep rp' m' (t @ ms @ s))"
  using assms
proof (induction xs arbitrary: ms k acc rp m)
  case Nil
  then show ?case by (subst rotating_loop.simps) simp
next
  case (Cons x xs)
  have rep: "reaper_rep rp m ([] @ x # xs @ ms)" using Cons.prems by simp
  note nb = rp_neighbours [OF rep]
  have fm: "first_of ms None \<noteq> Some x"
    using Cons.prems by (auto simp: reaper_rep_def dll_def dest: first_of_in)
  have last: "rp_last rp = Some x \<longleftrightarrow> xs @ ms = []"
    using Cons.prems last_in_set [of "xs @ ms"]
    by (auto simp: reaper_rep_def dll_def last_of_def split: if_splits)
  consider "k > lim" | "k \<le> lim" "ready x force" | "k \<le> lim" "\<not> ready x force" by linarith
  then show ?case
  proof cases
    case 1
    with Cons.prems show ?thesis by (subst rotating_loop.simps) simp
  next
    case 2
    from reap_ready_rep [OF rep] obtain rp1 m1
      where st: "reap_ready_thing rp m x (first_of (xs @ ms) None) = Some (rp1, m1)" "reaper_rep rp1 m1 (xs @ ms)"
      by auto
    from Cons.IH [OF st(2), of k "acc @ [x]"] 2 st(1) nb fm show ?thesis
      by (subst rotating_loop.simps) (auto split: prod.splits)
  next
    case 3
    let ?k = "if lim > 0 then k + 1 else k"
    show ?thesis
    proof (cases "xs @ ms")
      case Nil
      with 3 last nb Cons.prems show ?thesis
        by (subst rotating_loop.simps) (simp add: rotating_loop_None)
    next
      case c: (Cons y zs)
      obtain rp1 m1 where mv: "move_to_end rp m x (Some y) = (rp1, m1)" by fastforce
      from move_to_end_rep [of rp m x y zs] Cons.prems c mv have "reaper_rep rp1 m1 ((y # zs) @ [x])" by simp
      then have r1: "reaper_rep rp1 m1 (xs @ (ms @ [x]))" by (simp only: c [symmetric] append_assoc)
      have p': "first_of (xs @ ms @ [x]) None = Some y" using c by (cases xs; cases ms) auto
      have "rotating_loop ready force lim (first_of ((x # xs) @ ms) None) (first_of ms None) k acc rp m
          = rotating_loop ready force lim (first_of (xs @ ms @ [x]) None) (first_of (ms @ [x]) None) ?k acc rp1 m1"
        using 3 last nb fm c mv p'
        by (subst rotating_loop.simps) (cases ms; simp)
      with Cons.IH [OF r1, of ?k acc] 3 show ?thesis by (auto split: prod.splits)
    qed
  qed
qed

subsection \<open>The scan that keeps its place\<close>

text \<open>A position is valid when it is a member of the list, or none.\<close>

lemma keep_place_loop_inv:
  assumes "reaper_rep rp m xs" and "p = None \<longleftrightarrow> xs = []" and "set_option p \<subseteq> set xs" and "0 \<le> n"
  shows "\<exists>r rp' m'. keep_place_loop ready force lim p n k acc rp m = Some (acc @ r, rp', m')
           \<and> distinct r \<and> set r \<subseteq> {x \<in> set xs. ready x force}
           \<and> reaper_rep rp' m' (filter (\<lambda>x. x \<notin> set r) xs)
           \<and> set_option (rp_position rp') \<subseteq> set xs - set r"
  using assms
proof (induction "nat (rp_count rp - n)" arbitrary: xs p n k acc rp m rule: less_induct)
  case less
  show ?case
  proof (cases "n < rp_count rp \<and> k \<le> lim")
    case False
    with less.prems show ?thesis
      by (subst keep_place_loop.simps) (intro exI [of _ "[]"], auto simp: reaper_rep_def)
  next
    case run: True
    then obtain x where p: "p = Some x" "x \<in> set xs" 
      using less.prems by (cases p) (auto simp: reaper_rep_def)
    then obtain as bs where xs: "xs = as @ x # bs" by (meson split_list)
    have nx: "rp_next rp m x = first_of bs None" using rp_neighbours less.prems(1) xs by blast
    have dist: "distinct xs" and cnt: "rp_count rp = int (length xs)" and fst: "rp_first rp = first_of xs None"
      using less.prems(1) by (auto simp: reaper_rep_def dll_def)
    show ?thesis
    proof (cases "ready x force")
      case True
      from reap_ready_rep less.prems(1) xs obtain rp1 m1
        where st: "reap_ready_thing rp m x (first_of bs None) = Some (rp1, m1)" "reaper_rep rp1 m1 (as @ bs)"
        by blast
      let ?p = "if first_of bs None = None then rp_first rp1 else first_of bs None"
      have f1: "rp_first rp1 = first_of (as @ bs) None" and c1: "rp_count rp1 = rp_count rp - 1"
        using st(2) cnt xs by (auto simp: reaper_rep_def dll_def)
      have "?p = None \<longleftrightarrow> as @ bs = []" "set_option ?p \<subseteq> set (as @ bs)"
        using f1 by (cases bs; cases as; auto)+
      from less.hyps [OF _ st(2) this, of "n + 1" k "acc @ [x]"] run c1 less.prems(4) obtain r rp' m' where
        ih: "keep_place_loop ready force lim ?p (n + 1) k (acc @ [x]) rp1 m1 = Some ((acc @ [x]) @ r, rp', m')"
          "distinct r" "set r \<subseteq> {y \<in> set (as @ bs). ready y force}"
          "reaper_rep rp' m' (filter (\<lambda>y. y \<notin> set r) (as @ bs))" "set_option (rp_position rp') \<subseteq> set (as @ bs) - set r"
        by auto
      have "filter (\<lambda>y. y \<notin> set (x # r)) xs = filter (\<lambda>y. y \<notin> set r) (as @ bs)"
        using dist xs by (simp add: filter_neq)
      with ih dist xs True run p nx st(1) show ?thesis
        by (subst keep_place_loop.simps) (intro exI [of _ "x # r"], auto)
    next
      case False
      let ?p = "if first_of bs None = None then rp_first rp else first_of bs None"
      let ?k = "if lim > 0 then k + 1 else k"
      have "?p = None \<longleftrightarrow> xs = []" "set_option ?p \<subseteq> set xs"
        using fst xs by (cases bs; cases as; auto)+
      from less.hyps [OF _ less.prems(1) this, of "n + 1" ?k acc] run less.prems(4) obtain r rp' m' where
        ih: "keep_place_loop ready force lim ?p (n + 1) ?k acc rp m = Some (acc @ r, rp', m')"
          "distinct r" "set r \<subseteq> {y \<in> set xs. ready y force}"
          "reaper_rep rp' m' (filter (\<lambda>y. y \<notin> set r) xs)" "set_option (rp_position rp') \<subseteq> set xs - set r"
        by auto
      have "keep_place_loop ready force lim p n k acc rp m = keep_place_loop ready force lim ?p (n + 1) ?k acc rp m"
        using False run p nx by (subst keep_place_loop.simps) simp
      with ih show ?thesis by auto
    qed
  qed
qed

subsection \<open>What a tick of the timer does\<close>

text \<open>The result of a tick as a function on lists, per strategy.\<close>

lemma its_reaping_time_scan:
  assumes "reaper_rep rp m xs"
    and "scan (\<lambda>x. ready x force) (rp_max_notready rp (rp_count rp)) 0 xs = (r, s, t)"
  shows "\<exists>rp' m'. its_reaping_time ready force rp m = Some (r, rp', m') \<and> reaper_rep rp' m' (s @ t)"
proof -
  have "rp_first rp = first_of xs None" using assms(1) by (simp add: reaper_rep_def dll_def)
  with reaping_loop_scan [of rp m "[]" xs ready force "rp_max_notready rp (rp_count rp)" 0 "[]"] assms
  show ?thesis by (auto simp: its_reaping_time_def)
qed

lemma its_reaping_rotating_time_scan:
  assumes "reaper_rep rp m xs"
    and "scan (\<lambda>x. ready x force) (rp_max_notready rp (rp_count rp)) 0 xs = (r, s, t)"
  shows "\<exists>rp' m'. its_reaping_rotating_time ready force rp m = Some (r, rp', m') \<and> reaper_rep rp' m' (t @ s)"
proof -
  have "rp_first rp = first_of xs None" using assms(1) by (simp add: reaper_rep_def dll_def)
  with rotating_loop_scan [of rp m xs "[]" ready force "rp_max_notready rp (rp_count rp)" 0 "[]"] assms
  show ?thesis by (auto simp: its_reaping_rotating_time_def)
qed


definition sample_reaper :: "nchan_reaper_strategy \<Rightarrow> (int \<Rightarrow> int) \<Rightarrow> nchan_reaper" where
  "sample_reaper st lim = \<lparr>rp_count = 3, rp_next_ptr_offset = 8, rp_prev_ptr_offset = 0, rp_last = Some 30,
     rp_first = Some 10, rp_timer_set = True, rp_strategy = st, rp_max_notready = lim, rp_position = None\<rparr>"

definition sample_links :: link_mem where
  "sample_links a f = (if f = 8 then (if a = 10 then Some 20 else if a = 20 then Some 30 else None)
     else (if a = 30 then Some 20 else if a = 20 then Some 10 else None))"

lemma sample_reaper_rep: "reaper_rep (sample_reaper st lim) sample_links [10, 20, 30]"
  by (simp add: reaper_rep_def dll_def sample_reaper_def sample_links_def last_of_def)


text \<open>
  C27: a tick of a rescanning or rotating reaper covers a prefix of the list: it reaps exactly the ready things of
  the prefix, loses nothing, and keeps the order; the things it passed over stay in front of the rest, or go behind
  it when the reaper rotates.  The prefix ends before the list does only when a positive limit is exceeded, and then
  at the very thing that exceeds it: no tick passes over more than one thing beyond its limit.
\<close>

theorem reaper_tick_bounded:
  assumes "reaper_rep rp m xs" and "rp_strategy rp \<in> {RESCAN, ROTATE}" and "0 \<le> rp_max_notready rp (rp_count rp)"
  shows "\<exists>us t rp' m'. xs = us @ t
           \<and> reaper_timer_handler ready exiting rp m = Some (filter (\<lambda>x. ready x False) us, rp', m')
           \<and> reaper_rep rp' m' (if rp_strategy rp = ROTATE then t @ filter (\<lambda>x. \<not> ready x False) us
                                else filter (\<lambda>x. \<not> ready x False) us @ t)
           \<and> (0 < rp_max_notready rp (rp_count rp) \<longrightarrow>
                int (length (filter (\<lambda>x. \<not> ready x False) us)) \<le> rp_max_notready rp (rp_count rp) + 1)
           \<and> (t \<noteq> [] \<longrightarrow> 0 < rp_max_notready rp (rp_count rp) \<and> us \<noteq> [] \<and> \<not> ready (last us) False
                \<and> int (length (filter (\<lambda>x. \<not> ready x False) us)) = rp_max_notready rp (rp_count rp) + 1)"
proof -
  let ?lim = "rp_max_notready rp (rp_count rp)"
  obtain r s t where sc: "scan (\<lambda>x. ready x False) ?lim 0 xs = (r, s, t)" by (metis prod_cases3)
  have "0 \<le> (if 0 < ?lim then ?lim + 1 else 0)" by simp
  from scan_split [OF sc assms(3) order_refl this] obtain us where us: "xs = us @ t" "r = filter (\<lambda>x. ready x False) us"
    "s = filter (\<lambda>x. \<not> ready x False) us" "scanned (\<lambda>x. ready x False) ?lim 0 us t" by blast
  from its_reaping_rotating_time_scan [OF assms(1), of ready False, OF sc] its_reaping_time_scan [OF assms(1), of ready False, OF sc]
    assms(2) obtain rp1 m1 where
    tick: "reaper_timer_handler ready exiting rp m = Some (r, reaper_reset_timer exiting rp1, m1)"
      "reaper_rep (reaper_reset_timer exiting rp1) m1 (if rp_strategy rp = ROTATE then t @ s else s @ t)"
    by (auto simp: reaper_timer_handler_def)
  from us(4) have "(0 < ?lim \<longrightarrow> int (length s) \<le> ?lim + 1)
      \<and> (t \<noteq> [] \<longrightarrow> 0 < ?lim \<and> us \<noteq> [] \<and> \<not> ready (last us) False \<and> int (length s) = ?lim + 1)"
    by (auto simp: scanned_def Let_def us(3))
  with tick us(1-3) show ?thesis by blast
qed

theorem reaper_tick_bounded_witness:
  "\<exists>us t rp' m'. [10, 20, 30] = us @ t
     \<and> reaper_timer_handler (\<lambda>x f. False) False (sample_reaper ROTATE (\<lambda>_. 1)) sample_links = Some (filter (\<lambda>x. False) us, rp', m')
     \<and> reaper_rep rp' m' (t @ filter (\<lambda>x. True) us) \<and> int (length us) \<le> 2
     \<and> (t \<noteq> [] \<longrightarrow> us \<noteq> [] \<and> int (length us) = 2)"
  using reaper_tick_bounded [OF sample_reaper_rep [of ROTATE "\<lambda>_. 1"], of "\<lambda>x f. False" False]
  by (simp add: sample_reaper_def)

text \<open>
  C28: a tick of a reaper that keeps its place reaps each thing at most once and only when it is
  ready, keeps the others in order, and leaves its place on a thing that is still in the list.
\<close>

theorem reaper_keep_place_safe:
  assumes "reaper_rep rp m xs" and "rp_strategy rp = KEEP_PLACE" and "set_option (rp_position rp) \<subseteq> set xs"
  shows "\<exists>r rp' m'. reaper_timer_handler ready exiting rp m = Some (r, rp', m')
           \<and> distinct r \<and> set r \<subseteq> {x \<in> set xs. ready x False}
           \<and> reaper_rep rp' m' (filter (\<lambda>x. x \<notin> set r) xs)
           \<and> set_option (rp_position rp') \<subseteq> set xs - set r"
proof -
  let ?p = "if rp_position rp = None then rp_first rp else rp_position rp"
  have "rp_first rp = first_of xs None" using assms(1) by (simp add: reaper_rep_def dll_def)
  then have "?p = None \<longleftrightarrow> xs = []" "set_option ?p \<subseteq> set xs"
    using assms(3) by (cases xs; cases "rp_position rp"; auto)+
  from keep_place_loop_inv [OF assms(1) this, of 0 ready False "rp_max_notready rp (rp_count rp)" 0 "[]"] obtain r rp1 m1
    where "its_reaping_time_keep_place ready False rp m = Some (r, rp1, m1)" "distinct r"
      "set r \<subseteq> {x \<in> set xs. ready x False}" "reaper_rep rp1 m1 (filter (\<lambda>x. x \<notin> set r) xs)"
      "set_option (rp_position rp1) \<subseteq> set xs - set r"
    by (auto simp: its_reaping_time_keep_place_def)
  with assms(2) show ?thesis
    by (intro exI [of _ r] exI [of _ "reaper_reset_timer exiting rp1"] exI [of _ m1])
      (simp add: reaper_timer_handler_def, simp add: reaper_reset_timer_def)
qed

theorem reaper_keep_place_safe_witness:
  "\<exists>r rp' m'. reaper_timer_handler (\<lambda>x f. x = 10) False (sample_reaper KEEP_PLACE (\<lambda>_. 0)) sample_links = Some (r, rp', m')
     \<and> distinct r \<and> set r \<subseteq> {x \<in> set [10, 20, 30]. x = 10}
     \<and> reaper_rep rp' m' (filter (\<lambda>x. x \<notin> set r) [10, 20, 30])
     \<and> set_option (rp_position rp') \<subseteq> set [10, 20, 30] - set r"
  by (rule reaper_keep_place_safe [OF sample_reaper_rep]) (simp_all add: sample_reaper_def)

end
