(* ===== verification/Msg_Id.thy ===== *)
theory Msg_Id
  imports Nchan_Prelude
begin

text \<open>
  Message identifiers, \<^verbatim>\<open>nchan_msg_id_t\<close> of \<^verbatim>\<open>nchan_types.h\<close> and the identifier half of
  \<^verbatim>\<open>util/nchan_msg.c\<close>.

  An id carries a time and one \<^verbatim>\<open>int16_t\<close> tag per channel of a multiplexed subscription.  Up to
  four tags are stored in the id, more in a separately allocated array; the two share a C union.
  \<open>multitag\<close> records which member was written last.  Reading \<^verbatim>\<open>tag.fixed\<close> while the pointer is
  stored yields the bytes of the pointer, given by the parameter \<open>pb\<close>; reading \<^verbatim>\<open>tag.allocd\<close>
  while tags are stored is a fault.  The allocated arrays live in a \<open>tag_heap\<close>.
  The value returned by \<^verbatim>\<open>ngx_alloc\<close> in a call is an argument of the model (\<open>None\<close> for failure).
  \<^verbatim>\<open>time_t\<close> and the small counters are \<open>int\<close>; tags keep their 16 bits.
\<close>

definition NCHAN_OLDEST_MSGID_TIME :: int where "NCHAN_OLDEST_MSGID_TIME = 0"
definition NCHAN_NEWEST_MSGID_TIME :: int where "NCHAN_NEWEST_MSGID_TIME = -1"
definition NCHAN_NTH_MSGID_TIME :: int where "NCHAN_NTH_MSGID_TIME = -2"
definition NCHAN_MULTITAG_MAX :: nat where "NCHAN_MULTITAG_MAX = 255"
definition NCHAN_FIXED_MULTITAG_MAX :: nat where "NCHAN_FIXED_MULTITAG_MAX = 4"

lemmas msgid_consts [simp] =
  NCHAN_OLDEST_MSGID_TIME_def NCHAN_NEWEST_MSGID_TIME_def NCHAN_NTH_MSGID_TIME_def
  NCHAN_MULTITAG_MAX_def NCHAN_FIXED_MULTITAG_MAX_def

datatype multitag = Fixed "int16 list" | Allocd ptr

record nchan_msg_id =
  time :: int
  tag :: multitag
  tagactive :: int
  tagcount :: int

record nchan_msg_tiny_id =
  tiny_time :: int
  tiny_tag :: int16

type_synonym tag_heap = "addr \<Rightarrow> int16 list option"
type_synonym ptr_bytes = "ptr \<Rightarrow> int16 list"

definition NCHAN_ZERO_MSGID :: nchan_msg_id where
  "NCHAN_ZERO_MSGID = \<lparr>time = 0, tag = Fixed [0, 0, 0, 0], tagactive = 0, tagcount = 0\<rparr>"

definition NCHAN_OLDEST_MSGID :: nchan_msg_id where
  "NCHAN_OLDEST_MSGID =
     \<lparr>time = NCHAN_OLDEST_MSGID_TIME, tag = Fixed [0, 0, 0, 0], tagactive = 0, tagcount = 1\<rparr>"

definition NCHAN_NEWEST_MSGID :: nchan_msg_id where
  "NCHAN_NEWEST_MSGID =
     \<lparr>time = NCHAN_NEWEST_MSGID_TIME, tag = Fixed [0, 0, 0, 0], tagactive = 0, tagcount = 1\<rparr>"

definition NCHAN_NTH_MSGID :: nchan_msg_id where
  "NCHAN_NTH_MSGID =
     \<lparr>time = NCHAN_NTH_MSGID_TIME, tag = Fixed [0, 0, 0, 0], tagactive = 0, tagcount = 1\<rparr>"

text \<open>
  The idiom \<^verbatim>\<open>id->tagcount <= NCHAN_FIXED_MULTITAG_MAX ? id->tag.fixed : id->tag.allocd\<close>:
  the array it denotes, and a store through it.
\<close>

definition fixed_view :: "ptr_bytes \<Rightarrow> multitag \<Rightarrow> int16 list" where
  "fixed_view pb t = (case t of Fixed ts \<Rightarrow> ts | Allocd p \<Rightarrow> pb p)"

definition allocd_view :: "tag_heap \<Rightarrow> multitag \<Rightarrow> int16 list option" where
  "allocd_view h t = (case t of Allocd (Some a) \<Rightarrow> h a | _ \<Rightarrow> None)"

definition tags_by_count :: "ptr_bytes \<Rightarrow> tag_heap \<Rightarrow> int \<Rightarrow> multitag \<Rightarrow> int16 list option" where
  "tags_by_count pb h n t =
     (if n \<le> int NCHAN_FIXED_MULTITAG_MAX then Some (fixed_view pb t) else allocd_view h t)"

definition msgid_tags :: "ptr_bytes \<Rightarrow> tag_heap \<Rightarrow> nchan_msg_id \<Rightarrow> int16 list option" where
  "msgid_tags pb h i = tags_by_count pb h (tagcount i) (tag i)"

definition store_tags :: "tag_heap \<Rightarrow> int \<Rightarrow> nchan_msg_id \<Rightarrow> int16 list
    \<Rightarrow> (nchan_msg_id \<times> tag_heap) option" where
  "store_tags h n i ts =
     (if n \<le> int NCHAN_FIXED_MULTITAG_MAX then Some (i\<lparr>tag := Fixed ts\<rparr>, h)
      else case tag i of
             Allocd (Some a) \<Rightarrow> if h a \<noteq> None then Some (i, h(a := Some ts)) else None
           | _ \<Rightarrow> None)"

definition ngx_free_tags :: "tag_heap \<Rightarrow> ptr \<Rightarrow> tag_heap option" where
  "ngx_free_tags h p = (case p of None \<Rightarrow> Some h
     | Some a \<Rightarrow> if h a \<noteq> None then Some (h(a := None)) else None)"

definition free_allocd :: "tag_heap \<Rightarrow> multitag \<Rightarrow> tag_heap option" where
  "free_allocd h t = (case t of Allocd p \<Rightarrow> ngx_free_tags h p | Fixed _ \<Rightarrow> None)"

text \<open>\<^verbatim>\<open>memcpy(dst->tag.allocd, src->tag.allocd, n tags)\<close>.\<close>

definition memcpy_tags :: "tag_heap \<Rightarrow> addr \<Rightarrow> int16 list \<Rightarrow> nat \<Rightarrow> tag_heap option" where
  "memcpy_tags h a src n = do {
     cur \<leftarrow> h a;
     c_assert (n \<le> length cur \<and> n \<le> length src);
     Some (h(a := Some (take n src @ drop n cur)))
   }"

subsection \<open>Operations of nchan\_msg.c, in the order of the source\<close>

definition nchan_msgid_tagcount_match :: "nchan_msg_id \<Rightarrow> int \<Rightarrow> bool" where
  "nchan_msgid_tagcount_match i count =
     (if time i \<in> {NCHAN_OLDEST_MSGID_TIME, NCHAN_NEWEST_MSGID_TIME, NCHAN_NTH_MSGID_TIME}
      then tagcount i = 1 \<and> tagactive i = 0
      else tagcount i = count \<and> tagactive i \<ge> 0 \<and> tagactive i < count)"

text \<open>The loop counter is a \<^verbatim>\<open>uint8_t\<close>: with more than 255 tags the loop would not end.\<close>

definition nchan_expand_msg_id_multi_tag ::
  "ptr_bytes \<Rightarrow> tag_heap \<Rightarrow> nchan_msg_id \<Rightarrow> nat \<Rightarrow> nat \<Rightarrow> int16 \<Rightarrow> (nchan_msg_id \<times> tag_heap) option" where
  "nchan_expand_msg_id_multi_tag pb h i in_n out_n fill = do {
     let n = tagcount i;
     tags \<leftarrow> msgid_tags pb h i;
     c_assert (n > int in_n \<and> n > int out_n);
     v \<leftarrow> arr_get tags in_n;
     c_assert (n \<le> 255 \<and> n \<le> int (length tags));
     store_tags h n i (map (\<lambda>j. if j = out_n then v else fill) [0..<nat n] @ drop (nat n) tags)
   }"

definition nchan_expand_tiny_msgid ::
  "ptr_bytes \<Rightarrow> nchan_msg_tiny_id \<Rightarrow> nchan_msg_id \<Rightarrow> nchan_msg_id" where
  "nchan_expand_tiny_msgid pb t i =
     i\<lparr>time := tiny_time t, tag := Fixed ((fixed_view pb (tag i))[0 := tiny_tag t]),
       tagcount := 1, tagactive := 1\<rparr>"

definition nchan_shrink_normal_msgid ::
  "ptr_bytes \<Rightarrow> nchan_msg_id \<Rightarrow> nchan_msg_tiny_id option" where
  "nchan_shrink_normal_msgid pb i = do {
     c_assert (tagcount i \<le> 1);
     t \<leftarrow> arr_get (fixed_view pb (tag i)) 0;
     Some \<lparr>tiny_time = time i, tiny_tag = t\<rparr>
   }"

definition nchan_copy_new_msg_id ::
  "tag_heap \<Rightarrow> ptr \<Rightarrow> nchan_msg_id \<Rightarrow> (ngx_rc \<times> nchan_msg_id \<times> tag_heap) option" where
  "nchan_copy_new_msg_id h alloc src =
     (if tagcount src > int NCHAN_FIXED_MULTITAG_MAX then
        (case alloc of
           None \<Rightarrow> Some (NGX_ERROR, src\<lparr>tag := Allocd None\<rparr>, h)
         | Some a \<Rightarrow> do {
             stags \<leftarrow> allocd_view h (tag src);
             c_assert (nat (tagcount src) \<le> length stags);
             Some (NGX_OK, src\<lparr>tag := Allocd (Some a)\<rparr>, h(a := Some (take (nat (tagcount src)) stags)))
           })
      else Some (NGX_OK, src, h))"

definition nchan_copy_msg_id ::
  "tag_heap \<Rightarrow> ptr \<Rightarrow> nchan_msg_id \<Rightarrow> nchan_msg_id \<Rightarrow> ptr
     \<Rightarrow> (ngx_rc \<times> nchan_msg_id \<times> tag_heap) option" where
  "nchan_copy_msg_id h alloc dst src largetags = do {
     let dst_n = tagcount dst;
     let src_n = tagcount src;
     let dst = dst\<lparr>time := time src\<rparr>;
     (dst_n, h) \<leftarrow> (if dst_n > int NCHAN_FIXED_MULTITAG_MAX \<and> dst_n \<noteq> src_n
                   then map_option (\<lambda>h'. (int NCHAN_FIXED_MULTITAG_MAX, h')) (free_allocd h (tag dst))
                   else Some (dst_n, h));
     let dst = dst\<lparr>tagcount := tagcount src, tagactive := tagactive src\<rparr>;
     if src_n \<le> int NCHAN_FIXED_MULTITAG_MAX then Some (NGX_OK, dst\<lparr>tag := tag src\<rparr>, h)
     else if dst_n \<noteq> src_n \<and> largetags = None \<and> alloc = None then Some (NGX_ERROR, dst, h)
     else do {
       let (dst, h) =
         (if dst_n \<noteq> src_n then
            (case largetags of
               Some a \<Rightarrow> (dst\<lparr>tag := Allocd (Some a)\<rparr>, h)
             | None \<Rightarrow> (dst\<lparr>tag := Allocd alloc\<rparr>,
                        h(the alloc := Some (replicate (nat src_n) 0))))
          else (dst, h));
       stags \<leftarrow> allocd_view h (tag src);
       a \<leftarrow> (case tag dst of Allocd p \<Rightarrow> p | Fixed _ \<Rightarrow> None);
       h \<leftarrow> memcpy_tags h a stags (nat src_n);
       Some (NGX_OK, dst, h)
     }
   }"

definition nchan_free_msg_id :: "tag_heap \<Rightarrow> nchan_msg_id \<Rightarrow> (nchan_msg_id \<times> tag_heap) option" where
  "nchan_free_msg_id h i =
     (if tagcount i > int NCHAN_FIXED_MULTITAG_MAX
      then map_option (\<lambda>h'. (i\<lparr>tag := Allocd None\<rparr>, h')) (free_allocd h (tag i))
      else Some (i, h))"

text \<open>The diagnostics of \<^verbatim>\<open>verify_msg_id\<close>.\<close>

datatype verify_err =
  More_Than_One_Tag | Only_First_In_Second | Times_Dont_Match | Tags_Dont_Match | Multitag_Mismatch

text \<open>
  The scan for the one tag that is not -1.  The result is \<open>Inl\<close> when a second one is seen,
  otherwise the last value of the loop variable \<^verbatim>\<open>i\<close>, where \<open>None\<close> stands for the initial -1.
\<close>

fun find_only_tag :: "int16 list \<Rightarrow> nat \<Rightarrow> nat option \<Rightarrow> unit + nat option" where
  "find_only_tag [] j i = Inr i"
| "find_only_tag (t # ts) j i =
     (if t \<noteq> -1 then (if i \<noteq> None then Inl () else find_only_tag ts (Suc j) (Some j))
      else find_only_tag ts (Suc j) i)"

definition verify_msg_id ::
  "ptr_bytes \<Rightarrow> tag_heap \<Rightarrow> nchan_msg_id \<Rightarrow> nchan_msg_id \<Rightarrow> nchan_msg_id
     \<Rightarrow> (verify_err + unit) option" where
  "verify_msg_id pb h id1 id2 msgid =
     (if time id1 > 0 \<and> time id2 > 0 then
        if time id1 \<noteq> time id2 then
          if tagcount id2 > 1 then do {
            tags2 \<leftarrow> msgid_tags pb h id2;
            c_assert (nat (tagcount id2) \<le> length tags2);
            case find_only_tag (take (nat (tagcount id2)) tags2) 0 None of
              Inl _ \<Rightarrow> Some (Inl More_Than_One_Tag)
            | Inr j \<Rightarrow> do {
                msgidtags \<leftarrow> msgid_tags pb h msgid;
                i \<leftarrow> j;
                t \<leftarrow> arr_get msgidtags i;
                Some (if t \<noteq> 0 then Inl Only_First_In_Second else Inr ())
              }
          }
          else Some (Inl Times_Dont_Match)
        else do {
          tags1 \<leftarrow> msgid_tags pb h id1;
          tags2 \<leftarrow> msgid_tags pb h id2;
          if tagcount id1 = 1 then do {
            t1 \<leftarrow> arr_get tags1 0;
            t2 \<leftarrow> arr_get tags2 0;
            Some (if t1 \<noteq> t2 then Inl Tags_Dont_Match else Inr ())
          } else do {
            let max = nat (tagcount id1);
            c_assert (max \<le> length tags1 \<and> max \<le> length tags2);
            Some (if \<exists>i < max. tags2 ! i \<noteq> -1 \<and> tags1 ! i \<noteq> tags2 ! i
                  then Inl Multitag_Mismatch else Inr ())
          }
        }
      else Some (Inr ()))"

text \<open>
  \<^verbatim>\<open>nchan_update_multi_msgid\<close>.  When the old id has fewer tags than the new one needs, a larger array is
  put in place first; the old inline tags are then read through the union the new pointer has
  just been stored in.
\<close>

definition grow_old_tags ::
  "ptr_bytes \<Rightarrow> tag_heap \<Rightarrow> ptr \<Rightarrow> nchan_msg_id \<Rightarrow> int \<Rightarrow> ptr \<Rightarrow> (nchan_msg_id \<times> tag_heap) option" where
  "grow_old_tags pb h alloc oldid newcount largetags = do {
     let oldcount = tagcount oldid;
     let old_large = oldcount > int NCHAN_FIXED_MULTITAG_MAX;
     let fresh = (case largetags of None \<Rightarrow> alloc | Some a \<Rightarrow> Some a);
     a \<leftarrow> fresh;
     let h1 = (if largetags = None then h(a := Some (replicate (nat newcount) 0)) else h);
     oldtags \<leftarrow> (if old_large then allocd_view h1 (tag oldid) else Some (pb (Some a)));
     cur \<leftarrow> h1 a;
     c_assert (nat oldcount \<le> length oldtags \<and> nat newcount \<le> length cur);
     let h2 = h1(a := Some (map (\<lambda>j. if int j < oldcount then oldtags ! j else -1) [0..<nat newcount]
                            @ drop (nat newcount) cur));
     h3 \<leftarrow> (if old_large then free_allocd h2 (tag oldid) else Some h2);
     Some (oldid\<lparr>tag := Allocd (Some a), tagcount := newcount\<rparr>, h3)
   }"

fun merge_tags :: "int \<Rightarrow> nat \<Rightarrow> int16 list \<Rightarrow> int16 list \<Rightarrow> int16 list option" where
  "merge_tags act j [] ns = Some []"
| "merge_tags act j (t # ts) [] = None"
| "merge_tags act j (t # ts) (n # ns) = do {
     c_assert (act = int j \<and> n \<noteq> -1 \<and> t \<noteq> -1 \<longrightarrow> sint n > sint t);
     rest \<leftarrow> merge_tags act (Suc j) ts ns;
     Some ((if n \<noteq> -1 then n else t) # rest)
   }"

definition nchan_update_multi_msgid ::
  "ptr_bytes \<Rightarrow> tag_heap \<Rightarrow> ptr \<Rightarrow> ptr \<Rightarrow> nchan_msg_id \<Rightarrow> nchan_msg_id \<Rightarrow> ptr
     \<Rightarrow> (nchan_msg_id \<times> tag_heap) option" where
  "nchan_update_multi_msgid pb h alloc1 alloc2 oldid newid largetags =
     (if tagcount newid = 1 then Some (newid, h)
      else do {
        let newcount = tagcount newid;
        let oldcount = tagcount oldid;
        (oldid, h) \<leftarrow> (if newcount > int NCHAN_FIXED_MULTITAG_MAX \<and> oldcount < newcount
                      then grow_old_tags pb h alloc1 oldid newcount largetags
                      else Some (oldid, h));
        if time oldid \<noteq> time newid then do {
          (rc, oldid, h) \<leftarrow> nchan_copy_msg_id h alloc2 oldid newid None;
          Some (oldid, h)
        } else do {
          c_assert (newcount = oldcount);
          oldtags \<leftarrow> tags_by_count pb h oldcount (tag oldid);
          newtags \<leftarrow> tags_by_count pb h oldcount (tag newid);
          c_assert (nat newcount \<le> length oldtags);
          merged \<leftarrow> merge_tags (tagactive newid) 0 (take (nat newcount) oldtags) newtags;
          (oldid, h) \<leftarrow> store_tags h oldcount oldid (merged @ drop (nat newcount) oldtags);
          Some (oldid\<lparr>tagactive := tagactive newid\<rparr>, h)
        }
      })"

text \<open>
  \<^verbatim>\<open>update_subscriber_last_msg_id\<close>: a missed message is only reported (\<open>missed_msg_hint\<close> is the second
  half of the warning), the subscriber's position moves in any case.
\<close>

datatype missed_msg_hint = Probably_Expired | Increase_Buffer_Length

definition update_subscriber_last_msg_id ::
  "ptr_bytes \<Rightarrow> tag_heap \<Rightarrow> ptr \<Rightarrow> ptr \<Rightarrow> int \<Rightarrow> nchan_msg_id
     \<Rightarrow> (nchan_msg_id \<times> nchan_msg_id \<times> int) option
     \<Rightarrow> ((verify_err \<times> missed_msg_hint) option \<times> nchan_msg_id \<times> tag_heap) option" where
  "update_subscriber_last_msg_id pb h alloc1 alloc2 now last_msgid msg =
     (case msg of
        None \<Rightarrow> Some (None, last_msgid, h)
      | Some (mid, prev_id, expires) \<Rightarrow> do {
          v \<leftarrow> verify_msg_id pb h last_msgid prev_id mid;
          let warning = (case v of
             Inr _ \<Rightarrow> None
           | Inl err \<Rightarrow> Some (err, if time last_msgid + (expires - time mid) \<le> now
                                 then Probably_Expired else Increase_Buffer_Length));
          (last_msgid, h) \<leftarrow> nchan_update_multi_msgid pb h alloc1 alloc2 last_msgid mid None;
          Some (warning, last_msgid, h)
        })"

definition nchan_extract_from_multi_msgid ::
  "ptr_bytes \<Rightarrow> tag_heap \<Rightarrow> nchan_msg_id \<Rightarrow> nat \<Rightarrow> nchan_msg_id \<Rightarrow> (ngx_rc \<times> nchan_msg_id) option" where
  "nchan_extract_from_multi_msgid pb h src n dst =
     (let count = nat (tagcount src mod 256);
          put = (\<lambda>tm t. dst\<lparr>time := tm, tag := Fixed ((fixed_view pb (tag dst))[0 := t]),
                            tagcount := 1, tagactive := 0\<rparr>)
      in if time src = NCHAN_OLDEST_MSGID_TIME \<or> time src = NCHAN_NEWEST_MSGID_TIME
         then Some (NGX_OK, put (time src) 0)
         else if time src = NCHAN_NTH_MSGID_TIME then do {
           t \<leftarrow> arr_get (fixed_view pb (tag src)) 0;
           Some (NGX_OK, put (time src) t)
         }
         else if n \<ge> count then Some (NGX_ERROR, dst)
         else do {
           tags \<leftarrow> tags_by_count pb h (int count) (tag src);
           t \<leftarrow> arr_get tags n;
           Some (NGX_OK, if t = -1 then put (time src - 1) 32767 else put (time src) t)
         })"

definition nchan_compare_msgid_tags ::
  "ptr_bytes \<Rightarrow> tag_heap \<Rightarrow> nchan_msg_id \<Rightarrow> nchan_msg_id \<Rightarrow> int option" where
  "nchan_compare_msgid_tags pb h id1 id2 = do {
     let active = nat (tagactive id2 mod 256);
     tags1 \<leftarrow> msgid_tags pb h id1;
     tags2 \<leftarrow> msgid_tags pb h id2;
     c_assert (time id1 = time id2);
     c_assert (nat (tagcount id2) \<le> length tags2);
     c_assert (length (filter (\<lambda>t. sint t \<ge> 0) (take (nat (tagcount id2)) tags2)) = 1);
     if time id1 = 0 \<and> time id2 = 0 then Some 0
     else do {
       t1 \<leftarrow> (if int active < tagcount id1 then arr_get tags1 active else Some (-1));
       t2 \<leftarrow> arr_get tags2 active;
       Some (if sint t1 < sint t2 then -1 else if sint t1 > sint t2 then 1 else 0)
     }
   }"

definition nchan_compare_msgids ::
  "ptr_bytes \<Rightarrow> tag_heap \<Rightarrow> nchan_msg_id \<Rightarrow> nchan_msg_id \<Rightarrow> int option" where
  "nchan_compare_msgids pb h id1 id2 = do {
     c_assert (tagcount id1 = tagcount id2);
     if time id1 < time id2 then Some (-1)
     else if time id1 > time id2 then Some 1
     else if tagcount id1 = 1 then do {
       t1 \<leftarrow> arr_get (fixed_view pb (tag id1)) 0;
       t2 \<leftarrow> arr_get (fixed_view pb (tag id2)) 0;
       Some (if sint t1 < sint t2 then -1 else if sint t1 > sint t2 then 1 else 0)
     }
     else nchan_compare_msgid_tags pb h id1 id2
   }"

subsection \<open>Well-formed ids and the list of tags they denote\<close>

text \<open>
  An id is well formed when its union member fits its tag count and the array it points to is
  allocated and long enough.  \<open>tag_list\<close> is the list of tags it denotes, \<open>owned\<close> the array it owns.
\<close>

definition msgid_ok :: "tag_heap \<Rightarrow> nchan_msg_id \<Rightarrow> bool" where
  "msgid_ok h i \<longleftrightarrow> 0 \<le> tagcount i \<and> tagcount i \<le> int NCHAN_MULTITAG_MAX \<and>
     (case tag i of
        Fixed ts \<Rightarrow> tagcount i \<le> int NCHAN_FIXED_MULTITAG_MAX \<and> length ts = NCHAN_FIXED_MULTITAG_MAX
      | Allocd None \<Rightarrow> False
      | Allocd (Some a) \<Rightarrow> tagcount i > int NCHAN_FIXED_MULTITAG_MAX \<and>
          (case h a of None \<Rightarrow> False | Some ts \<Rightarrow> nat (tagcount i) \<le> length ts))"

definition tag_list :: "tag_heap \<Rightarrow> nchan_msg_id \<Rightarrow> int16 list" where
  "tag_list h i = take (nat (tagcount i))
     (case tag i of Fixed ts \<Rightarrow> ts
      | Allocd None \<Rightarrow> []
      | Allocd (Some a) \<Rightarrow> (case h a of None \<Rightarrow> [] | Some ts \<Rightarrow> ts))"

definition owned :: "nchan_msg_id \<Rightarrow> addr set" where
  "owned i = (case tag i of Allocd (Some a) \<Rightarrow> {a} | _ \<Rightarrow> {})"

lemma msgid_ok_cases [consumes 1, case_names inline allocated]:
  assumes "msgid_ok h i"
  obtains ts where "tag i = Fixed ts" "length ts = 4" "0 \<le> tagcount i" "tagcount i \<le> 4"
      "tag_list h i = take (nat (tagcount i)) ts" "owned i = {}"
    | a ts where "tag i = Allocd (Some a)" "h a = Some ts" "4 < tagcount i" "tagcount i \<le> 255"
      "nat (tagcount i) \<le> length ts" "tag_list h i = take (nat (tagcount i)) ts" "owned i = {a}"
  using assms
  by (auto simp: msgid_ok_def tag_list_def owned_def split: multitag.splits option.splits)

lemma length_tag_list: "msgid_ok h i \<Longrightarrow> length (tag_list h i) = nat (tagcount i)"
  by (erule msgid_ok_cases) auto

lemma copy_msg_id_ok:
  assumes dst: "msgid_ok h dst" and src: "msgid_ok h src"
    and sep: "owned dst \<inter> owned src = {}" and fresh: "h a = None"
  shows "\<exists>dst' h'. nchan_copy_msg_id h (Some a) dst src None = Some (NGX_OK, dst', h')
           \<and> msgid_ok h' dst' \<and> msgid_ok h' src
           \<and> time dst' = time src \<and> tagactive dst' = tagactive src \<and> tagcount dst' = tagcount src
           \<and> tag_list h' dst' = tag_list h src \<and> tag_list h' src = tag_list h src
           \<and> owned dst' \<inter> owned src = {}
           \<and> dom h' = (dom h - owned dst) \<union> owned dst'
           \<and> (\<forall>b. b \<notin> owned dst \<union> owned dst' \<longrightarrow> h' b = h b)"
  using src
proof (cases rule: msgid_ok_cases)
  case s: (inline sts)
  from dst show ?thesis
  proof (cases rule: msgid_ok_cases)
    case inline
    with s show ?thesis
      by (simp add: nchan_copy_msg_id_def Let_def msgid_ok_def tag_list_def owned_def)
  next
    case (allocated b dts)
    with s show ?thesis
      by (auto simp: nchan_copy_msg_id_def Let_def msgid_ok_def tag_list_def owned_def
            free_allocd_def ngx_free_tags_def dom_def)
  qed
next
  case s: (allocated b sts)
  from dst show ?thesis
  proof (cases rule: msgid_ok_cases)
    case inline
    with s fresh show ?thesis
      by (auto simp: nchan_copy_msg_id_def Let_def msgid_ok_def tag_list_def owned_def
            memcpy_tags_def allocd_view_def)
  next
    case (allocated c dts)
    with s fresh sep show ?thesis
      by (cases "tagcount dst = tagcount src")
        (auto simp: nchan_copy_msg_id_def Let_def msgid_ok_def tag_list_def owned_def
            memcpy_tags_def allocd_view_def free_allocd_def ngx_free_tags_def dom_def)
  qed
qed

text \<open>
  C29: copying a message id gives an id with the same time and the same tags, keeps the source unchanged, frees the tag
  array the destination owned, allocates one only when the source has more tags than fit inline, and never lets the two ids
  share an array.
\<close>

theorem nchan_copy_msg_id_ok:
  assumes dst: "msgid_ok h dst" and src: "msgid_ok h src"
    and sep: "owned dst \<inter> owned src = {}" and fresh: "h a = None"
  shows "\<exists>dst' h'. nchan_copy_msg_id h (Some a) dst src None = Some (NGX_OK, dst', h')
           \<and> msgid_ok h' dst' \<and> msgid_ok h' src
           \<and> time dst' = time src \<and> tagactive dst' = tagactive src \<and> tagcount dst' = tagcount src
           \<and> tag_list h' dst' = tag_list h src \<and> tag_list h' src = tag_list h src
           \<and> owned dst' \<inter> owned src = {}
           \<and> dom h' = (dom h - owned dst) \<union> owned dst'
           \<and> (\<forall>b. b \<notin> owned dst \<union> owned dst' \<longrightarrow> h' b = h b)"
  using copy_msg_id_ok [OF assms] .

lemma nchan_copy_new_msg_id_ok:
  assumes src: "msgid_ok h src" and fresh: "h a = None"
  shows "\<exists>dst h'. nchan_copy_new_msg_id h (Some a) src = Some (NGX_OK, dst, h')
           \<and> msgid_ok h' dst \<and> time dst = time src \<and> tagactive dst = tagactive src
           \<and> tagcount dst = tagcount src \<and> tag_list h' dst = tag_list h src
           \<and> owned dst \<inter> dom h = {} \<and> dom h' = dom h \<union> owned dst
           \<and> (\<forall>b. b \<notin> owned dst \<longrightarrow> h' b = h b)"
  using src
proof (cases rule: msgid_ok_cases)
  case inline
  with src show ?thesis by (simp add: nchan_copy_new_msg_id_def)
next
  case (allocated b ts)
  with fresh show ?thesis
    by (auto simp: nchan_copy_new_msg_id_def allocd_view_def msgid_ok_def tag_list_def owned_def)
qed

lemma merge_tags_Some:
  assumes "length ts \<le> length ns"
    and "\<And>k. k < length ts \<Longrightarrow> act = int (j + k) \<Longrightarrow> ns ! k \<noteq> -1 \<Longrightarrow> ts ! k \<noteq> -1 \<Longrightarrow>
           sint (ts ! k) < sint (ns ! k)"
  shows "merge_tags act j ts ns = Some (map2 (\<lambda>t n. if n \<noteq> -1 then n else t) ts ns)"
  using assms
proof (induction act j ts ns rule: merge_tags.induct)
  case (3 act j t ts n ns)
  have "sint t < sint n" if "act = int j" "n \<noteq> -1" "t \<noteq> -1"
    using "3.prems"(2) [of 0] that by simp
  moreover have "merge_tags act (Suc j) ts ns = Some (map2 (\<lambda>t n. if n \<noteq> -1 then n else t) ts ns)"
    if "act = int j \<and> n \<noteq> -1 \<and> t \<noteq> -1 \<longrightarrow> sint n > sint t"
  proof (rule "3.IH")
    fix k
    assume "k < length ts" "act = int (Suc j + k)" "ns ! k \<noteq> -1" "ts ! k \<noteq> -1"
    then show "sint (ts ! k) < sint (ns ! k)" using "3.prems"(2) [of "Suc k"] by simp
  qed (use "3.prems"(1) that in auto)
  ultimately show ?case by simp
qed auto

lemma msgid_tags_ok:
  assumes "msgid_ok h i"
  shows "\<exists>rest. msgid_tags pb h i = Some (tag_list h i @ rest)"
  using assms
proof (cases rule: msgid_ok_cases)
  case (inline ts)
  then have "msgid_tags pb h i = Some (tag_list h i @ drop (nat (tagcount i)) ts)"
    by (simp add: msgid_tags_def tags_by_count_def fixed_view_def)
  then show ?thesis ..
next
  case (allocated a ts)
  then have "msgid_tags pb h i = Some (tag_list h i @ drop (nat (tagcount i)) ts)"
    by (simp add: msgid_tags_def tags_by_count_def allocd_view_def)
  then show ?thesis ..
qed

text \<open>Position update within one second: every tag the message carries replaces the old one.\<close>

lemma nchan_update_multi_msgid_same_time:
  assumes old: "msgid_ok h oldid" and new: "msgid_ok h newid"
    and cnt: "tagcount oldid = tagcount newid" "tagcount newid \<noteq> 1"
    and tm: "time oldid = time newid"
    and mono: "\<And>k. k < length (tag_list h newid) \<Longrightarrow> tagactive newid = int k \<Longrightarrow>
        tag_list h newid ! k \<noteq> -1 \<Longrightarrow> tag_list h oldid ! k \<noteq> -1 \<Longrightarrow>
        sint (tag_list h oldid ! k) < sint (tag_list h newid ! k)"
  shows "\<exists>upd h'. nchan_update_multi_msgid pb h a1 a2 oldid newid lt = Some (upd, h')
           \<and> msgid_ok h' upd \<and> time upd = time newid \<and> tagactive upd = tagactive newid
           \<and> tagcount upd = tagcount newid
           \<and> tag_list h' upd =
               map2 (\<lambda>t n. if n \<noteq> -1 then n else t) (tag_list h oldid) (tag_list h newid)
           \<and> dom h' = dom h \<and> (\<forall>b. b \<notin> owned oldid \<longrightarrow> h' b = h b)"
proof -
  let ?n = "nat (tagcount newid)"
  let ?upd = "map2 (\<lambda>t n. if n \<noteq> -1 then n else t) (tag_list h oldid) (tag_list h newid)"
  obtain ro where ro: "tags_by_count pb h (tagcount newid) (tag oldid) = Some (tag_list h oldid @ ro)"
    using msgid_tags_ok [OF old, of pb] cnt by (auto simp: msgid_tags_def)
  obtain rn where rn: "tags_by_count pb h (tagcount newid) (tag newid) = Some (tag_list h newid @ rn)"
    using msgid_tags_ok [OF new, of pb] by (auto simp: msgid_tags_def)
  have len: "length (tag_list h oldid) = ?n" "length (tag_list h newid) = ?n"
    using length_tag_list old new cnt by simp_all
  have "merge_tags (tagactive newid) 0 (tag_list h oldid) (tag_list h newid @ rn) =
      Some (map2 (\<lambda>t n. if n \<noteq> -1 then n else t) (tag_list h oldid) (tag_list h newid @ rn))"
    by (rule merge_tags_Some) (use len mono in \<open>auto simp: nth_append\<close>)
  moreover have "map2 (\<lambda>t n. if n \<noteq> -1 then n else t) (tag_list h oldid) (tag_list h newid @ rn) = ?upd"
    using len by (simp add: zip_append2)
  ultimately have merge: "merge_tags (tagactive newid) 0 (tag_list h oldid) (tag_list h newid @ rn) = Some ?upd"
    by simp
  have step: "nchan_update_multi_msgid pb h a1 a2 oldid newid lt =
      (store_tags h (tagcount newid) oldid (?upd @ ro)
         \<bind> (\<lambda>(i, h'). Some (i\<lparr>tagactive := tagactive newid\<rparr>, h')))"
    using cnt tm ro rn len merge by (simp add: nchan_update_multi_msgid_def)
  from old show ?thesis
  proof (cases rule: msgid_ok_cases)
    case (inline ts)
    have "ts = tag_list h oldid @ ro"
      using ro inline(1,4) cnt by (simp add: tags_by_count_def fixed_view_def)
    then have "length ts = length (?upd @ ro)" using len by simp
    then have "length (?upd @ ro) = 4" using inline(2) by simp
    with inline len cnt tm show ?thesis
      unfolding step by (auto simp: store_tags_def msgid_ok_def tag_list_def owned_def)
  next
    case (allocated a ts)
    with len cnt tm show ?thesis
      unfolding step by (auto simp: store_tags_def msgid_ok_def tag_list_def owned_def)
  qed
qed

lemma int16_le: "sint (t :: int16) \<le> 32767"
  using sint_lt [of t] by simp

definition cmp_int :: "int \<Rightarrow> int \<Rightarrow> int" where
  "cmp_int a b = (if a < b then -1 else if a > b then 1 else 0)"

definition single_tag :: "nchan_msg_id \<Rightarrow> bool" where
  "single_tag i \<longleftrightarrow> tagcount i = 1 \<and> (\<exists>ts. tag i = Fixed ts \<and> length ts = NCHAN_FIXED_MULTITAG_MAX)"

definition the_tag :: "nchan_msg_id \<Rightarrow> int" where
  "the_tag i = (case tag i of Fixed (t # _) \<Rightarrow> sint t | _ \<Rightarrow> 0)"

lemma compare_single:
  assumes "single_tag x" and "single_tag y"
  shows "nchan_compare_msgids pb h x y =
     Some (if time x = time y then cmp_int (the_tag x) (the_tag y) else cmp_int (time x) (time y))"
  using assms
  by (auto simp: single_tag_def the_tag_def nchan_compare_msgids_def fixed_view_def cmp_int_def
      numeral_eq_Suc length_Suc_conv)

text \<open>An array put in place for more tags belongs to the id alone; its contents are about to be overwritten.\<close>

lemma grow_old_tags_ok:
  assumes old: "msgid_ok h i" and n: "tagcount i < n" "4 < n" "n \<le> 255"
    and a: "h a = None" and pb: "length (pb (Some a)) = 4"
  shows "\<exists>i' h'. grow_old_tags pb h (Some a) i n None = Some (i', h') \<and> msgid_ok h' i' \<and> time i' = time i
           \<and> tagcount i' = n \<and> owned i' = {a} \<and> (\<forall>b. b \<notin> owned i \<union> {a} \<longrightarrow> h' b = h b)"
  using old
proof (cases rule: msgid_ok_cases)
  case (inline ts)
  with n a pb show ?thesis by (auto simp: grow_old_tags_def Let_def msgid_ok_def owned_def)
next
  case (allocated c ts)
  with a have "c \<noteq> a" by auto
  with allocated n a show ?thesis
    by (auto simp: grow_old_tags_def Let_def msgid_ok_def owned_def allocd_view_def free_allocd_def ngx_free_tags_def)
qed

text \<open>An id whose array is left alone denotes the same tags.\<close>

lemma msgid_ok_frame:
  assumes "msgid_ok h i" and "\<And>b. b \<in> owned i \<Longrightarrow> h' b = h b"
  shows "msgid_ok h' i \<and> tag_list h' i = tag_list h i"
  using assms by (cases rule: msgid_ok_cases) (auto simp: msgid_ok_def tag_list_def owned_def)

lemma nchan_update_multi_msgid_other_time:
  assumes old: "msgid_ok h oldid" and new: "msgid_ok h newid"
    and cnt: "tagcount newid \<noteq> 1" and tm: "time oldid \<noteq> time newid"
    and sep: "owned oldid \<inter> owned newid = {}"
    and fresh: "h a1 = None" "h a2 = None" "a1 \<noteq> a2" and pb: "length (pb (Some a1)) = 4"
  shows "\<exists>upd h'. nchan_update_multi_msgid pb h (Some a1) (Some a2) oldid newid None = Some (upd, h')
           \<and> msgid_ok h' upd \<and> time upd = time newid \<and> tagactive upd = tagactive newid
           \<and> tagcount upd = tagcount newid \<and> tag_list h' upd = tag_list h newid
           \<and> msgid_ok h' newid \<and> tag_list h' newid = tag_list h newid"
proof (cases "tagcount newid > 4 \<and> tagcount oldid < tagcount newid")
  case False
  with copy_msg_id_ok [OF old new sep fresh(2)] cnt tm show ?thesis
    by (auto simp: nchan_update_multi_msgid_def Let_def)
next
  case True
  moreover have le: "tagcount newid \<le> 255" and o: "a1 \<notin> owned newid"
    using new fresh(1) by (auto simp: msgid_ok_def owned_def split: multitag.splits option.splits)
  ultimately obtain g h1 where g: "grow_old_tags pb h (Some a1) oldid (tagcount newid) None = Some (g, h1)"
      "msgid_ok h1 g" "time g = time oldid" "tagcount g = tagcount newid" "owned g = {a1}"
      "\<forall>b. b \<notin> owned oldid \<union> {a1} \<longrightarrow> h1 b = h b"
    using grow_old_tags_ok [OF old, of "tagcount newid" a1 pb] fresh pb by auto
  have new1: "msgid_ok h1 newid \<and> tag_list h1 newid = tag_list h newid"
    by (rule msgid_ok_frame [OF new]) (use g(6) sep o in auto)
  have "a2 \<notin> owned oldid" using old fresh(2) by (cases rule: msgid_ok_cases) auto
  then have "h1 a2 = None" using g(6) fresh by auto
  with copy_msg_id_ok [OF g(2) conjunct1 [OF new1], of a2] g o True cnt tm new1 show ?thesis
    by (auto simp: nchan_update_multi_msgid_def Let_def)
qed

text \<open>Two ids with the same tag at the place the second one is active in compare equal.\<close>

lemma compare_same_active:
  assumes x: "msgid_ok h x" and y: "msgid_ok h y" and cnt: "tagcount x = tagcount y" "tagcount y \<ge> 1"
    and tm: "time x = time y" and act: "tagactive y = int k" "k < nat (tagcount y)"
    and one: "filter (\<lambda>t. sint t \<ge> 0) (tag_list h y) = [tag_list h y ! k]"
    and eq: "tag_list h x ! k = tag_list h y ! k"
  shows "nchan_compare_msgids pb h x y = Some 0"
proof -
  obtain r1 r2 where r: "msgid_tags pb h x = Some (tag_list h x @ r1)" "msgid_tags pb h y = Some (tag_list h y @ r2)"
    using msgid_tags_ok [OF x] msgid_tags_ok [OF y] by metis
  have len: "length (tag_list h x) = nat (tagcount y)" "length (tag_list h y) = nat (tagcount y)"
    using length_tag_list x y cnt by simp_all
  have k: "nat (tagactive y mod 256) = k" "int k < tagcount y"
    using act y by (auto simp: msgid_ok_def)
  show ?thesis
  proof (cases "tagcount y = 1")
    case True
    then have "fixed_view pb (tag x) = tag_list h x @ r1" "fixed_view pb (tag y) = tag_list h y @ r2"
      using r cnt by (simp_all add: msgid_tags_def tags_by_count_def)
    with True act len eq tm cnt show ?thesis by (simp add: nchan_compare_msgids_def nth_append)
  next
    case False
    with r k act(2) len eq tm cnt one show ?thesis
      by (simp add: nchan_compare_msgids_def nchan_compare_msgid_tags_def nth_append)
  qed
qed

text \<open>
  C30: after a subscriber receives a message, its updated position compares equal to that message, whatever channel it
  came from, whatever second the position was in, and however many tags either has: so the message is not delivered
  again.  A message of the same second keeps the tags of the other channels; a message of another
  second replaces all of them by its own.  Within a second the message must be newer than the position in its channel
  and have as many tags, which the code asserts.
\<close>

theorem compare_after_update:
  assumes old: "msgid_ok h oldid" and new: "msgid_ok h newid" and cnt: "tagcount newid \<ge> 1"
    and act: "tagactive newid = int k" "k < nat (tagcount newid)"
    and one: "filter (\<lambda>t. sint t \<ge> 0) (tag_list h newid) = [tag_list h newid ! k]"
    and same: "tagcount newid \<noteq> 1 \<Longrightarrow> time oldid = time newid \<Longrightarrow>
        tagcount oldid = tagcount newid \<and>
        (tag_list h oldid ! k \<noteq> -1 \<longrightarrow> sint (tag_list h oldid ! k) < sint (tag_list h newid ! k))"
    and sep: "owned oldid \<inter> owned newid = {}"
    and fresh: "h a1 = None" "h a2 = None" "a1 \<noteq> a2" and pb: "length (pb (Some a1)) = 4"
  shows "\<exists>upd h'. nchan_update_multi_msgid pb h (Some a1) (Some a2) oldid newid None = Some (upd, h')
           \<and> nchan_compare_msgids pb h' upd newid = Some 0
           \<and> msgid_ok h' upd \<and> time upd = time newid \<and> tagcount upd = tagcount newid
           \<and> tag_list h' upd =
               (if tagcount newid \<noteq> 1 \<and> time oldid = time newid
                then map2 (\<lambda>t n. if n \<noteq> -1 then n else t) (tag_list h oldid) (tag_list h newid)
                else tag_list h newid)"
proof -
  have "tag_list h newid ! k \<in> set (filter (\<lambda>t. sint t \<ge> 0) (tag_list h newid))" using one by simp
  then have pos: "tag_list h newid ! k \<noteq> -1" by auto
  note len = length_tag_list [OF old] length_tag_list [OF new]
  consider "tagcount newid = 1" | "tagcount newid \<noteq> 1" "time oldid = time newid"
    | "tagcount newid \<noteq> 1" "time oldid \<noteq> time newid" by blast
  then show ?thesis
  proof cases
    case 1
    with compare_same_active [OF new new refl cnt refl act one refl] new show ?thesis
      by (auto simp: nchan_update_multi_msgid_def)
  next
    case 2
    note st = same [OF 2]
    have "sint (tag_list h oldid ! j) < sint (tag_list h newid ! j)"
      if "tagactive newid = int j" "tag_list h oldid ! j \<noteq> -1" for j using that act st by simp
    from nchan_update_multi_msgid_same_time [OF old new conjunct1 [OF st] 2(1) 2(2) this, of pb "Some a1" "Some a2" None]
    obtain upd h' where u: "nchan_update_multi_msgid pb h (Some a1) (Some a2) oldid newid None = Some (upd, h')"
      "msgid_ok h' upd" "time upd = time newid" "tagcount upd = tagcount newid"
      "tag_list h' upd = map2 (\<lambda>t n. if n \<noteq> -1 then n else t) (tag_list h oldid) (tag_list h newid)"
      "\<forall>b. b \<notin> owned oldid \<longrightarrow> h' b = h b" by auto
    have new': "msgid_ok h' newid" "tag_list h' newid = tag_list h newid"
      using msgid_ok_frame [OF new, of h'] u(6) sep by auto
    have "tag_list h' upd ! k = tag_list h' newid ! k" using u(5) new'(2) pos len st act by simp
    with compare_same_active [OF u(2) new'(1) u(4) cnt u(3) act] one u new' 2 show ?thesis by auto
  next
    case 3
    from nchan_update_multi_msgid_other_time [where pb = pb, OF old new 3 sep fresh pb] obtain upd h' where
      u: "nchan_update_multi_msgid pb h (Some a1) (Some a2) oldid newid None = Some (upd, h')"
        "msgid_ok h' upd" "time upd = time newid" "tagcount upd = tagcount newid" "tag_list h' upd = tag_list h newid"
        "msgid_ok h' newid" "tag_list h' newid = tag_list h newid" by auto
    with compare_same_active [OF u(2) u(6) u(4) cnt u(3) act] one 3 show ?thesis by auto
  qed
qed

lemma extract_position:
  assumes src: "msgid_ok h src" and n: "n < nat (tagcount src)"
    and tm: "time src \<notin> {0, -1, -2}"
    and dst: "length (fixed_view pb (tag dst)) = NCHAN_FIXED_MULTITAG_MAX"
    and m: "single_tag m" "the_tag m \<ge> 0"
  shows "\<exists>e. nchan_extract_from_multi_msgid pb h src n dst = Some (NGX_OK, e) \<and> single_tag e
           \<and> (nchan_compare_msgids pb h e m = Some (-1) \<longleftrightarrow>
                time m > time src \<or>
                time m = time src \<and>
                  (tag_list h src ! n = -1 \<or> sint (tag_list h src ! n) < the_tag m))"
proof -
  obtain r where r: "msgid_tags pb h src = Some (tag_list h src @ r)"
    using msgid_tags_ok [OF src] by blast
  have c: "nat (tagcount src mod 256) = nat (tagcount src)" "int (nat (tagcount src)) = tagcount src"
    using src by (auto simp: msgid_ok_def)
  have len: "length (tag_list h src) = nat (tagcount src)" using src by (rule length_tag_list)
  let ?t = "tag_list h src ! n"
  let ?e = "\<lambda>tm t. dst\<lparr>time := tm, tag := Fixed ((fixed_view pb (tag dst))[0 := t]), tagcount := 1, tagactive := 0\<rparr>"
  have ex: "nchan_extract_from_multi_msgid pb h src n dst =
     Some (NGX_OK, if ?t = -1 then ?e (time src - 1) 32767 else ?e (time src) ?t)"
    using r n c len tm
    by (simp add: nchan_extract_from_multi_msgid_def Let_def msgid_tags_def nth_append arr_get_def)
  have single: "single_tag (?e tm t)" and tag: "the_tag (?e tm t) = sint t" for tm t
    using dst by (auto simp: single_tag_def the_tag_def numeral_eq_Suc length_Suc_conv)
  have big: "the_tag m \<le> 32767"
    using m(1) int16_le
    by (auto simp: single_tag_def the_tag_def numeral_eq_Suc length_Suc_conv)
  show ?thesis
    using m(2) big
    by (auto simp: ex single compare_single [OF single m(1)] tag cmp_int_def)
qed


lemma single_tag_ok: "single_tag i \<Longrightarrow> msgid_ok h i"
  by (auto simp: single_tag_def msgid_ok_def)

text \<open>Spreading a single tag over a multi-id, as the multiplexing subscriber does.\<close>

lemma nchan_expand_msg_id_multi_tag_ok:
  assumes ok: "msgid_ok h i" and n: "in_n < nat (tagcount i)" "out_n < nat (tagcount i)"
  shows "\<exists>i' h'. nchan_expand_msg_id_multi_tag pb h i in_n out_n fill = Some (i', h')
           \<and> msgid_ok h' i' \<and> tagcount i' = tagcount i \<and> tagactive i' = tagactive i
           \<and> time i' = time i \<and> owned i' = owned i \<and> dom h' = dom h \<and> (\<forall>b. b \<notin> owned i \<longrightarrow> h' b = h b)
           \<and> tag_list h' i' =
               (replicate (nat (tagcount i)) fill)[out_n := tag_list h i ! in_n]"
proof -
  obtain r where r: "msgid_tags pb h i = Some (tag_list h i @ r)"
    using msgid_tags_ok [OF ok] by blast
  have len: "length (tag_list h i) = nat (tagcount i)" using ok by (rule length_tag_list)
  let ?ts = "map (\<lambda>j. if j = out_n then tag_list h i ! in_n else fill) [0..<nat (tagcount i)]"
  have step: "nchan_expand_msg_id_multi_tag pb h i in_n out_n fill = store_tags h (tagcount i) i (?ts @ r)"
    using r len n ok
    by (simp add: nchan_expand_msg_id_multi_tag_def Let_def nth_append msgid_ok_def zless_nat_eq_int_zless)
  have ts: "?ts = (replicate (nat (tagcount i)) fill)[out_n := tag_list h i ! in_n]"
    by (rule nth_equalityI) (auto simp: nth_list_update)
  from ok show ?thesis
  proof (cases rule: msgid_ok_cases)
    case (inline ts)
    have "ts = tag_list h i @ r"
      using r inline(1,4) by (simp add: msgid_tags_def tags_by_count_def fixed_view_def)
    then have "length ts = length (?ts @ r)" using len by simp
    then have "length (?ts @ r) = 4" using inline(2) by simp
    with inline show ?thesis
      unfolding step ts [symmetric] by (auto simp: store_tags_def msgid_ok_def tag_list_def owned_def)
  next
    case (allocated a ts)
    then show ?thesis
      unfolding step ts [symmetric] by (auto simp: store_tags_def msgid_ok_def tag_list_def owned_def)
  qed
qed

lemma nchan_free_msg_id_ok:
  assumes "msgid_ok h i"
  shows "\<exists>i' h'. nchan_free_msg_id h i = Some (i', h') \<and> owned i' = {} \<and> dom h' = dom h - owned i"
  using assms
  by (cases rule: msgid_ok_cases)
    (auto simp: nchan_free_msg_id_def free_allocd_def ngx_free_tags_def owned_def)

text \<open>Growing inline tags: the old tags are not what the new array receives.\<close>

lemma grow_old_tags_inline:
  assumes "0 \<le> tagcount i" "tagcount i \<le> 4" "n > 4" and pb: "length (pb (Some a)) = 4"
  shows "\<exists>i' h'. grow_old_tags pb h (Some a) i n None = Some (i', h') \<and> tagcount i' = n
           \<and> tag_list h' i' = take (nat (tagcount i)) (pb (Some a)) @ replicate (nat (n - tagcount i)) (-1)"
proof -
  have "map (\<lambda>j. if int j < tagcount i then pb (Some a) ! j else -1) [0..<nat n]
        = take (nat (tagcount i)) (pb (Some a)) @ replicate (nat (n - tagcount i)) (-1)"
    using assms by (intro nth_equalityI) (auto simp: nth_append min_def)
  with assms show ?thesis
    by (auto simp: grow_old_tags_def Let_def tag_list_def nat_diff_distrib)
qed

text \<open>
  C31: the position of one channel extracted from a position in several channels comes before a message of that channel
  exactly when the message is newer than the subscriber's time, or of the same second with a greater tag (or no tag of that
  channel seen in that second): no message of a channel is skipped or repeated.
\<close>

theorem extract_multi_position:
  assumes src: "msgid_ok h src" and n: "n < nat (tagcount src)"
    and tm: "time src \<notin> {0, -1, -2}"
    and dst: "length (fixed_view pb (tag dst)) = NCHAN_FIXED_MULTITAG_MAX"
    and m: "single_tag m" "the_tag m \<ge> 0"
  shows "\<exists>e. nchan_extract_from_multi_msgid pb h src n dst = Some (NGX_OK, e) \<and> single_tag e
           \<and> (nchan_compare_msgids pb h e m = Some (-1) \<longleftrightarrow>
                time m > time src \<or>
                time m = time src \<and>
                  (tag_list h src ! n = -1 \<or> sint (tag_list h src ! n) < the_tag m))"
  using extract_position [OF assms] .

definition sample_two :: "int16 \<Rightarrow> int16 \<Rightarrow> nchan_msg_id" where
  "sample_two s t = \<lparr>time = 100, tag = Fixed [s, t, 0, 0], tagactive = 1, tagcount = 2\<rparr>"

lemma sample_two_ok: "msgid_ok h (sample_two s t)" "tag_list h (sample_two s t) = [s, t]" "owned (sample_two s t) = {}"
  "time (sample_two s t) = 100" "tagcount (sample_two s t) = 2" "tagactive (sample_two s t) = 1"
  by (simp_all add: sample_two_def msgid_ok_def tag_list_def owned_def)

definition sample_five :: nchan_msg_id where
  "sample_five = \<lparr>time = 100, tag = Allocd (Some 50), tagactive = 2, tagcount = 5\<rparr>"

lemma sample_five_ok: "msgid_ok [50 \<mapsto> [1, 2, 3, 4, 5]] sample_five" "tag_list [50 \<mapsto> [1, 2, 3, 4, 5]] sample_five = [1, 2, 3, 4, 5]"
  "tagcount sample_five = 5"
  by (simp_all add: sample_five_def msgid_ok_def tag_list_def)

theorem nchan_copy_msg_id_ok_witness:
  "\<exists>dst' h'. nchan_copy_msg_id [50 \<mapsto> [1, 2, 3, 4, 5]] (Some 51) (sample_two 3 4) sample_five None = Some (NGX_OK, dst', h')
     \<and> tag_list h' dst' = [1, 2, 3, 4, 5] \<and> tagcount dst' = 5"
  using nchan_copy_msg_id_ok [OF sample_two_ok(1) sample_five_ok(1), of 3 4 51] unfolding sample_two_ok sample_five_ok by auto

theorem compare_after_update_witness:
  "\<exists>upd h'. nchan_update_multi_msgid (\<lambda>_. [0, 0, 0, 0]) Map.empty (Some 1) (Some 2) (sample_two 3 4) (sample_two (-1) 5) None = Some (upd, h')
     \<and> nchan_compare_msgids (\<lambda>_. [0, 0, 0, 0]) h' upd (sample_two (-1) 5) = Some 0 \<and> tag_list h' upd = [3, 5]"
  using compare_after_update [of Map.empty "sample_two 3 4" "sample_two (-1) 5" 1 1 2 "\<lambda>_. [0, 0, 0, 0]"]
  by (auto simp: sample_two_ok)

theorem extract_multi_position_witness:
  "\<exists>e. nchan_extract_from_multi_msgid (\<lambda>_. []) Map.empty (sample_two 3 4) 1 (sample_two 0 0) = Some (NGX_OK, e) \<and> single_tag e
     \<and> nchan_compare_msgids (\<lambda>_. []) Map.empty e \<lparr>time = 100, tag = Fixed [5, 0, 0, 0], tagactive = 0, tagcount = 1\<rparr> = Some (-1)"
  using extract_multi_position [of Map.empty "sample_two 3 4" 1 "\<lambda>_. []" "sample_two 0 0"
      "\<lparr>time = 100, tag = Fixed [5, 0, 0, 0], tagactive = 0, tagcount = 1\<rparr>"]
  by (auto simp: sample_two_ok single_tag_def the_tag_def) (auto simp: sample_two_def fixed_view_def)

end
