(* ===== verification/Msg_Text.thy ===== *)
theory Msg_Text
  imports Msg_Id
begin

text \<open>
  The textual form of message ids: \<^verbatim>\<open>nchan_parse_msg_tag\<close>, \<^verbatim>\<open>nchan_parse_compound_msgid\<close> and
  \<^verbatim>\<open>nchan_subscriber_get_msg_id\<close> of \<^verbatim>\<open>util/nchan_msg.c\<close>, which read ids from request headers, and
  \<^verbatim>\<open>msgtag_to_strptr\<close> and \<^verbatim>\<open>msgid_to_str\<close> of \<^verbatim>\<open>util/nchan_output.c\<close>, which print them.

  The parser collects tags in a \<^verbatim>\<open>static\<close> array of 255 entries that keeps its contents from call to
  call.  It is the cell \<open>sa\<close> of the tag heap: an id with more than four tags points to it after
  parsing.  nginx's string helpers are the fields of \<open>ngx_env\<close>; \<open>ngx_env_ok\<close> states what they are
  documented to do.
\<close>

subsection \<open>Decimal output, as \<^verbatim>\<open>sprintf\<close> does for \<^verbatim>\<open>%i\<close> and \<^verbatim>\<open>%li\<close>\<close>

definition digit_char :: "nat \<Rightarrow> char" where
  "digit_char d = char_of (48 + d)"

fun dec_nat :: "nat \<Rightarrow> string" where
  "dec_nat n = (if n < 10 then [digit_char n] else dec_nat (n div 10) @ [digit_char (n mod 10)])"

declare dec_nat.simps [simp del]

definition dec_int :: "int \<Rightarrow> string" where
  "dec_int i = (if i < 0 then CHR ''-'' # dec_nat (nat (- i)) else dec_nat (nat i))"

record ngx_env =
  ngx_strlchr :: "string \<Rightarrow> char \<Rightarrow> nat option"  \<comment> \<open>offset of the first occurrence\<close>
  ngx_atoi :: "string \<Rightarrow> int option"             \<comment> \<open>\<open>None\<close> for \<^verbatim>\<open>NGX_ERROR\<close>\<close>
  ngx_http_parse_time :: "string \<Rightarrow> int"
  ngx_unescape :: "string \<Rightarrow> string"

definition ngx_env_ok :: "ngx_env \<Rightarrow> bool" where
  "ngx_env_ok e \<longleftrightarrow>
     (\<forall>s c. ngx_strlchr e s c =
        (if c \<in> set s then Some (length (takeWhile (\<lambda>x. x \<noteq> c) s)) else None))
     \<and> (\<forall>n. n < 2 ^ 63 \<longrightarrow> ngx_atoi e (dec_nat n) = Some (int n))"

subsection \<open>Parsing\<close>

record tag_parser =
  tp_i :: nat
  tp_sign :: int
  tp_val :: int16
  tp_tags :: "int16 list"
  tp_open :: nat
  tp_close :: nat
  tp_active :: int  \<comment> \<open>\<^verbatim>\<open>NGX_ERROR\<close>, that is -1, until a brace is seen\<close>

definition emit_tag :: "tag_parser \<Rightarrow> tag_parser" where
  "emit_tag p = p\<lparr>tp_tags := (tp_tags p)[tp_i p :=
     (if tp_val p = 0 \<and> tp_sign p = -1 then -1 else tp_val p * of_int (tp_sign p))]\<rparr>"

text \<open>One iteration of the loop body on the character \<^verbatim>\<open>c\<close>; \<open>Inl\<close> is \<^verbatim>\<open>return NGX_ERROR\<close>.\<close>

definition parse_tag_char :: "char \<Rightarrow> tag_parser \<Rightarrow> tag_parser + tag_parser" where
  "parse_tag_char c p =
     (if c = CHR ''-'' then Inr (p\<lparr>tp_sign := -1\<rparr>)
      else if of_char c \<ge> (48::nat) \<and> of_char c \<le> (57::nat)
        then Inr (p\<lparr>tp_val := 10 * tp_val p + of_nat (of_char c - 48)\<rparr>)
      else if c = CHR ''['' then
        (let p = p\<lparr>tp_open := tp_open p + 1\<rparr>
         in if tp_open p > 1 then Inl p else Inr (p\<lparr>tp_active := int (tp_i p)\<rparr>))
      else if c = CHR '']'' then
        (let p = p\<lparr>tp_close := tp_close p + 1\<rparr>
         in if tp_close p > 1 \<or> tp_open p \<noteq> tp_close p then Inl p else Inr p)
      else if c = CHR '','' then
        Inr ((emit_tag p)\<lparr>tp_sign := 1, tp_val := 0, tp_i := tp_i p + 1\<rparr>)
      else Inr p)"

fun parse_tag_loop :: "string \<Rightarrow> tag_parser \<Rightarrow> tag_parser + tag_parser" where
  "parse_tag_loop [] p =
     (if tp_i p < NCHAN_MULTITAG_MAX then Inr ((emit_tag p)\<lparr>tp_i := tp_i p + 1\<rparr>) else Inr p)"
| "parse_tag_loop (c # cs) p =
     (if tp_i p < NCHAN_MULTITAG_MAX
      then (case parse_tag_char c p of Inl q \<Rightarrow> Inl q | Inr q \<Rightarrow> parse_tag_loop cs q)
      else Inr p)"

definition tag_parser_start :: "int16 list \<Rightarrow> tag_parser" where
  "tag_parser_start tags = \<lparr>tp_i = 0, tp_sign = 1, tp_val = 0, tp_tags = tags,
     tp_open = 0, tp_close = 0, tp_active = -1\<rparr>"

definition nchan_parse_msg_tag ::
  "tag_heap \<Rightarrow> addr \<Rightarrow> string option \<Rightarrow> nchan_msg_id \<Rightarrow> int
     \<Rightarrow> (ngx_rc \<times> nchan_msg_id \<times> tag_heap) option" where
  "nchan_parse_msg_tag h sa txt mid expected = do {
     arr \<leftarrow> h sa;
     case (case txt of None \<Rightarrow> Inr (tag_parser_start arr)
                     | Some s \<Rightarrow> parse_tag_loop s (tag_parser_start arr)) of
       Inl p \<Rightarrow> Some (NGX_ERROR, mid, h(sa := Some (tp_tags p)))
     | Inr p \<Rightarrow> do {
         let i = tp_i p;
         let mid = (if i = 0 then mid\<lparr>tagactive := -1\<rparr> else mid);
         if tp_active p = -1 \<and> i \<noteq> 1 then Some (NGX_ERROR, mid, h(sa := Some (tp_tags p)))
         else do {
           let mid = (if tp_active p = -1 then mid\<lparr>tagactive := 0\<rparr>
                      else mid\<lparr>tagactive := tp_active p\<rparr>);
           c_assert (expected \<le> int (length (tp_tags p)));
           let j = max i (nat expected);
           let tags = take i (tp_tags p) @ replicate (j - i) (-1) @ drop j (tp_tags p);
           let mid = mid\<lparr>tagcount := int j\<rparr>;
           Some (NGX_OK,
                 (if j \<le> NCHAN_FIXED_MULTITAG_MAX
                  then mid\<lparr>tag := Fixed (take NCHAN_FIXED_MULTITAG_MAX tags)\<rparr>
                  else mid\<lparr>tag := Allocd (Some sa)\<rparr>),
                 h(sa := Some tags))
         }
       }
   }"

definition nchan_urldecode_str :: "ngx_env \<Rightarrow> string \<Rightarrow> string" where
  "nchan_urldecode_str e s = (if CHR ''%'' \<in> set s then ngx_unescape e s else s)"

definition nchan_parse_compound_msgid ::
  "ngx_env \<Rightarrow> tag_heap \<Rightarrow> addr \<Rightarrow> nchan_msg_id \<Rightarrow> string \<Rightarrow> int
     \<Rightarrow> (ngx_rc \<times> nchan_msg_id \<times> tag_heap) option" where
  "nchan_parse_compound_msgid e h sa mid str expected =
     (case ngx_strlchr e str (CHR '':'') of
        None \<Rightarrow> Some (NGX_DECLINED, mid, h)
      | Some k \<Rightarrow>
          (case ngx_atoi e (take k str) of
             None \<Rightarrow> Some (NGX_ERROR, mid, h)
           | Some tm \<Rightarrow> nchan_parse_msg_tag h sa (Some (drop (Suc k) str)) (mid\<lparr>time := tm\<rparr>) expected))"

subsection \<open>The id a subscriber's request asks for\<close>

definition set_default_id :: "int \<Rightarrow> nchan_msg_id" where
  "set_default_id first_message =
     (if first_message = 1 then NCHAN_OLDEST_MSGID
      else if first_message = 0 then NCHAN_NEWEST_MSGID
      else NCHAN_NTH_MSGID\<lparr>tag := Fixed [of_int first_message, 0, 0, 0]\<rparr>)"

record msgid_request =
  rq_msg_in_etag_only :: bool
  rq_first_message :: int
  rq_if_modified_since :: "string option"
  rq_if_none_match :: "string option"
  rq_last_message_id :: "(ngx_rc \<times> string) list"  \<comment> \<open>the evaluated complex values\<close>
  rq_channel_id_count :: int

text \<open>
  The loop over the configured alternative sources of an id.  The outer option is the fault
  discipline; \<open>Inl\<close> carries the value the function returns (\<open>None\<close> is \<^verbatim>\<open>NULL\<close>), \<open>Inr\<close> falls through.
\<close>

fun try_alt_msgids ::
  "ngx_env \<Rightarrow> addr \<Rightarrow> int \<Rightarrow> (ngx_rc \<times> string) list \<Rightarrow> nchan_msg_id \<Rightarrow> tag_heap
     \<Rightarrow> (nchan_msg_id option + unit) option \<times> nchan_msg_id \<times> tag_heap" where
  "try_alt_msgids e sa n [] i h = (Some (Inr ()), i, h)"
| "try_alt_msgids e sa n ((rc, s) # rest) i h =
     (if length s > 0 \<and> rc = NGX_OK then
        (case nchan_parse_compound_msgid e h sa i (nchan_urldecode_str e s) n of
           None \<Rightarrow> (None, i, h)
         | Some (rc2, i, h) \<Rightarrow>
             if rc2 = NGX_OK then (Some (Inl (Some i)), i, h)
             else if rc2 = NGX_ERROR then (Some (Inl None), i, h)
             else try_alt_msgids e sa n rest i h)
      else try_alt_msgids e sa n rest i h)"

definition nchan_subscriber_get_msg_id ::
  "ngx_env \<Rightarrow> tag_heap \<Rightarrow> addr \<Rightarrow> nchan_msg_id \<Rightarrow> msgid_request
     \<Rightarrow> (nchan_msg_id option \<times> tag_heap) option" where
  "nchan_subscriber_get_msg_id e h sa i r =
     (let dflt = set_default_id (rq_first_message r)
      in if \<not> rq_msg_in_etag_only r \<and> rq_if_modified_since r \<noteq> None then
           (let tm = ngx_http_parse_time e (the (rq_if_modified_since r))
            in if tm \<le> 0 then Some (Some dflt, h)
               else do {
                 (rc, i, h) \<leftarrow> nchan_parse_msg_tag h sa (rq_if_none_match r) (i\<lparr>time := tm\<rparr>)
                                (rq_channel_id_count r);
                 Some (if rc = NGX_ERROR then None else Some i, h)
               })
         else case rq_if_none_match r of
           Some etag \<Rightarrow> do {
             (rc, i, h) \<leftarrow> nchan_parse_compound_msgid e h sa i etag (rq_channel_id_count r);
             Some (if rc = NGX_OK then Some i else if rc = NGX_ERROR then None else Some dflt, h)
           }
         | None \<Rightarrow>
           (case try_alt_msgids e sa (rq_channel_id_count r) (rq_last_message_id r) i h of
              (None, _, _) \<Rightarrow> None
            | (Some (Inl res), _, h) \<Rightarrow> Some (res, h)
            | (Some (Inr _), _, h) \<Rightarrow> Some (Some dflt, h)))"

subsection \<open>Printing\<close>

fun print_tags :: "int \<Rightarrow> nat \<Rightarrow> int16 list \<Rightarrow> string option" where
  "print_tags act i [] = Some []"
| "print_tags act i (t # ts) = do {
     c_assert (sint t \<ge> -2);
     s \<leftarrow> (if t \<noteq> -1 then
             Some (if act \<noteq> int i then dec_int (sint t) @ '',''
                   else CHR ''['' # dec_int (sint t) @ ''],'')
           else do { c_assert (act \<noteq> int i); Some ''-,'' });
     rest \<leftarrow> print_tags act (Suc i) ts;
     Some (s @ rest)
   }"

text \<open>With no tags the final \<^verbatim>\<open>cur[-1]='\0'\<close> writes before the buffer.\<close>

definition msgtag_to_strptr :: "ptr_bytes \<Rightarrow> tag_heap \<Rightarrow> nchan_msg_id \<Rightarrow> string option" where
  "msgtag_to_strptr pb h i = do {
     let max = nat (tagcount i mod 256);
     t \<leftarrow> tags_by_count pb h (int max) (tag i);
     if max = 1 then do { t0 \<leftarrow> arr_get t 0; Some (dec_int (sint t0)) }
     else do {
       c_assert (max \<noteq> 0 \<and> max \<le> length t);
       s \<leftarrow> print_tags (tagactive i) 0 (take max t);
       Some (butlast s)
     }
   }"

definition msgid_to_str :: "ptr_bytes \<Rightarrow> tag_heap \<Rightarrow> nchan_msg_id \<Rightarrow> string option" where
  "msgid_to_str pb h i = do {
     s \<leftarrow> msgtag_to_strptr pb h i;
     Some (dec_int (time i) @ '':'' @ s)
   }"

subsection \<open>Reading back what was printed\<close>

lemma of_digit_char: "d < 10 \<Longrightarrow> of_char (digit_char d) = 48 + d"
  by (simp add: digit_char_def)

lemma digit_char_neq:
  assumes "d < 10"
  shows "digit_char d \<noteq> CHR ''-''" "digit_char d \<noteq> CHR '':''"
proof -
  have "of_char (digit_char d) \<noteq> (45::nat)" "of_char (digit_char d) \<noteq> (58::nat)"
    using assms by (simp_all add: of_digit_char)
  then show "digit_char d \<noteq> CHR ''-''" "digit_char d \<noteq> CHR '':''" by auto
qed

lemma parse_digit:
  "d < 10 \<Longrightarrow> parse_tag_char (digit_char d) p = Inr (p\<lparr>tp_val := 10 * tp_val p + of_nat d\<rparr>)"
  by (simp add: parse_tag_char_def digit_char_neq of_digit_char)

lemma parse_dec_nat:
  assumes "tp_i p < 255" and "tp_val p = 0"
  shows "parse_tag_loop (dec_nat n @ rest) p = parse_tag_loop rest (p\<lparr>tp_val := of_nat n\<rparr>)"
  using assms
proof (induction n arbitrary: rest rule: dec_nat.induct)
  case (1 n)
  show ?case
  proof (cases "n < 10")
    case True
    with 1 show ?thesis by (subst dec_nat.simps) (simp add: parse_digit)
  next
    case False
    have "10 * of_nat (n div 10) + of_nat (n mod 10) = (of_nat n :: int16)"
      by (metis mult_div_mod_eq of_nat_add of_nat_mult of_nat_numeral)
    with False 1 show ?thesis
      by (subst dec_nat.simps) (simp add: parse_digit)
  qed
qed

lemma parse_dec_int:
  assumes "tp_i p < 255" and "tp_val p = 0" and "tp_sign p = 1"
  shows "parse_tag_loop (dec_int t @ rest) p =
     parse_tag_loop rest (p\<lparr>tp_sign := if t < 0 then -1 else 1, tp_val := of_nat (nat \<bar>t\<bar>)\<rparr>)"
proof (cases "t < 0")
  case True
  have "parse_tag_loop (dec_int t @ rest) p = parse_tag_loop (dec_nat (nat (- t)) @ rest) (p\<lparr>tp_sign := -1\<rparr>)"
    using True assms by (simp add: dec_int_def parse_tag_char_def)
  with True assms show ?thesis by (simp add: parse_dec_nat)
next
  case False
  with assms show ?thesis by (cases p) (simp add: dec_int_def parse_dec_nat)
qed

lemma emitted_value:
  fixes w :: int16
  shows "(if (of_nat (nat \<bar>sint w\<bar>) :: int16) = 0 \<and> (if sint w < 0 then -1 else 1) = (-1::int) then -1
          else of_nat (nat \<bar>sint w\<bar>) * of_int (if sint w < 0 then -1 else 1)) = w"
proof -
  have r: "- 32768 \<le> sint w" "sint w < 32768"
    using sint_ge [of w] sint_lt [of w] by simp_all
  have v: "(of_nat (nat \<bar>sint w\<bar>) :: int16) * of_int (if sint w < 0 then -1 else 1) = w"
    by (simp add: of_nat_nat flip: of_int_mult)
  have "(of_nat (nat \<bar>sint w\<bar>) :: int16) \<noteq> 0" if "sint w < 0"
    using that r of_nat_word_eq_0 [of "nat \<bar>sint w\<bar>", where 'a = 16] by simp
  with v show ?thesis by auto
qed

lemma emit_tag_int:
  assumes "tp_val q = of_nat (nat \<bar>sint w\<bar>)" and "tp_sign q = (if sint w < 0 then -1 else 1)"
  shows "tp_tags (emit_tag q) = (tp_tags q)[tp_i q := w]"
  unfolding emit_tag_def assms emitted_value by simp

definition tag_text :: "int \<Rightarrow> nat \<Rightarrow> int16 \<Rightarrow> string" where
  "tag_text act i t =
     (if t \<noteq> -1 then if act \<noteq> int i then dec_int (sint t) else CHR ''['' # dec_int (sint t) @ '']''
      else ''-'')"

lemma print_tags_Cons:
  assumes "print_tags act i (t # ts) = Some s"
  shows "\<exists>s'. print_tags act (Suc i) ts = Some s' \<and> s = tag_text act i t @ '','' @ s'
           \<and> (t = -1 \<longrightarrow> act \<noteq> int i)"
  using assms by (auto simp: tag_text_def split: if_splits Option.bind_splits)

lemma parse_tag_text:
  assumes p: "tp_i p < 255" "tp_val p = 0" "tp_sign p = 1" "tp_i p < length (tp_tags p)"
    and act: "act = int (tp_i p) \<Longrightarrow> t \<noteq> -1 \<and> tp_open p = 0 \<and> tp_close p = 0"
  shows "\<exists>q. (\<forall>rest. parse_tag_loop (tag_text act (tp_i p) t @ rest) p = parse_tag_loop rest q)
           \<and> tp_i q = tp_i p \<and> tp_tags (emit_tag q) = (tp_tags p)[tp_i p := t]
           \<and> tp_open (emit_tag q) = (if act = int (tp_i p) then 1 else tp_open p)
           \<and> tp_close (emit_tag q) = (if act = int (tp_i p) then 1 else tp_close p)
           \<and> tp_active (emit_tag q) = (if act = int (tp_i p) then act else tp_active p)"
proof -
  consider "t = -1" | "t \<noteq> -1" "act \<noteq> int (tp_i p)" | "t \<noteq> -1" "act = int (tp_i p)" by blast
  then show ?thesis
  proof cases
    case 1
    with p act show ?thesis
      by (intro exI [of _ "p\<lparr>tp_sign := -1\<rparr>"]) (auto simp: tag_text_def parse_tag_char_def emit_tag_def)
  next
    case 2
    let ?q = "p\<lparr>tp_sign := if sint t < 0 then -1 else 1, tp_val := of_nat (nat \<bar>sint t\<bar>)\<rparr>"
    have "tp_tags (emit_tag ?q) = (tp_tags p)[tp_i p := t]"
      by (subst emit_tag_int [of _ t]) simp_all
    with 2 p show ?thesis
      by (intro exI [of _ ?q]) (simp add: tag_text_def parse_dec_int, simp add: emit_tag_def)
  next
    case 3
    let ?r = "p\<lparr>tp_open := 1, tp_active := act\<rparr>"
    let ?q = "?r\<lparr>tp_sign := if sint t < 0 then -1 else 1, tp_val := of_nat (nat \<bar>sint t\<bar>), tp_close := 1\<rparr>"
    have tags: "tp_tags (emit_tag ?q) = (tp_tags p)[tp_i p := t]"
      by (subst emit_tag_int [of _ t]) simp_all
    have "parse_tag_loop (tag_text act (tp_i p) t @ rest) p = parse_tag_loop rest ?q" for rest
    proof -
      have "parse_tag_loop (tag_text act (tp_i p) t @ rest) p
            = parse_tag_loop (dec_int (sint t) @ CHR '']'' # rest) ?r"
        using 3 p act by (simp add: tag_text_def parse_tag_char_def)
      also have "\<dots> = parse_tag_loop (CHR '']'' # rest)
          (?r\<lparr>tp_sign := if sint t < 0 then -1 else 1, tp_val := of_nat (nat \<bar>sint t\<bar>)\<rparr>)"
        by (rule parse_dec_int) (use p in simp_all)
      also have "\<dots> = parse_tag_loop rest ?q"
        using 3 p act by (simp add: parse_tag_char_def)
      finally show ?thesis .
    qed
    with 3 tags show ?thesis by (intro exI [of _ ?q]) (simp add: emit_tag_def)
  qed
qed

lemma print_tags_nonempty: "print_tags act i ts = Some s \<Longrightarrow> ts \<noteq> [] \<Longrightarrow> s \<noteq> []"
  using print_tags_Cons by (cases ts) fastforce+

lemma parse_printed_tags:
  assumes "print_tags act (tp_i p) ts = Some s" and "ts \<noteq> []"
    and "tp_i p + length ts \<le> 255" and "length (tp_tags p) = 255"
    and "tp_val p = 0" and "tp_sign p = 1"
    and "int (tp_i p) \<le> act \<Longrightarrow> tp_open p = 0 \<and> tp_close p = 0"
  shows "\<exists>q. parse_tag_loop (butlast s) p = Inr q \<and> tp_i q = tp_i p + length ts
           \<and> tp_tags q = take (tp_i p) (tp_tags p) @ ts @ drop (tp_i p + length ts) (tp_tags p)
           \<and> tp_active q = (if int (tp_i p) \<le> act \<and> act < int (tp_i p + length ts) then act
                           else tp_active p)"
  using assms
proof (induction ts arbitrary: p s)
  case Nil
  then show ?case by simp
next
  case (Cons t ts)
  obtain s' where s': "print_tags act (Suc (tp_i p)) ts = Some s'"
    "s = tag_text act (tp_i p) t @ '','' @ s'" "t = -1 \<longrightarrow> act \<noteq> int (tp_i p)"
    using print_tags_Cons [OF Cons.prems(1)] by blast
  obtain q where q: "\<And>rest. parse_tag_loop (tag_text act (tp_i p) t @ rest) p = parse_tag_loop rest q"
      "tp_i q = tp_i p" "tp_tags (emit_tag q) = (tp_tags p)[tp_i p := t]"
      "tp_open (emit_tag q) = (if act = int (tp_i p) then 1 else tp_open p)"
      "tp_close (emit_tag q) = (if act = int (tp_i p) then 1 else tp_close p)"
      "tp_active (emit_tag q) = (if act = int (tp_i p) then act else tp_active p)"
    using parse_tag_text [of p act t] Cons.prems s'(3) by auto
  have i: "tp_i p < 255" "tp_i p < length (tp_tags p)" using Cons.prems by auto
  show ?case
  proof (cases "ts = []")
    case True
    with s' have "butlast s = tag_text act (tp_i p) t" by (simp add: butlast_append)
    with q(1) [of "[]"] q(2) i True show ?thesis
      by (auto simp: q(3,6) upd_conv_take_nth_drop)
  next
    case False
    let ?r = "(emit_tag q)\<lparr>tp_sign := 1, tp_val := 0, tp_i := tp_i q + 1\<rparr>"
    have bl: "butlast s = tag_text act (tp_i p) t @ CHR '','' # butlast s'"
      using s' print_tags_nonempty [OF s'(1) False] by (simp add: butlast_append)
    have step: "parse_tag_loop (butlast s) p = parse_tag_loop (butlast s') ?r"
      unfolding bl q(1) using q(2) i by (simp add: parse_tag_char_def)
    have "\<exists>w. parse_tag_loop (butlast s') ?r = Inr w \<and> tp_i w = tp_i ?r + length ts
           \<and> tp_tags w = take (tp_i ?r) (tp_tags ?r) @ ts @ drop (tp_i ?r + length ts) (tp_tags ?r)
           \<and> tp_active w = (if int (tp_i ?r) \<le> act \<and> act < int (tp_i ?r + length ts) then act
                           else tp_active ?r)"
      by (rule Cons.IH) (use Cons.prems s' q False in auto)
    then show ?thesis
      unfolding step using q i by (auto simp: take_Suc_update drop_update_cancel)
  qed
qed

lemma colon_notin_dec_nat: "CHR '':'' \<notin> set (dec_nat n)"
proof (induction n rule: dec_nat.induct)
  case (1 n)
  then show ?case
    using digit_char_neq(2) [of n] digit_char_neq(2) [of "n mod 10"]
    by (subst dec_nat.simps) auto
qed

lemma print_tags_Some:
  assumes "\<And>k. k < length ts \<Longrightarrow> sint (ts ! k) \<ge> -2"
    and "\<And>k. k < length ts \<Longrightarrow> act = int (i + k) \<Longrightarrow> ts ! k \<noteq> -1"
  shows "\<exists>s. print_tags act i ts = Some s"
  using assms
proof (induction ts arbitrary: i)
  case Nil
  then show ?case by simp
next
  case (Cons t ts)
  have "\<exists>s. print_tags act (Suc i) ts = Some s"
  proof (rule Cons.IH)
    fix k assume "k < length ts"
    then show "sint (ts ! k) \<ge> -2" using Cons.prems(1) [of "Suc k"] by simp
    assume "act = int (Suc i + k)"
    with \<open>k < length ts\<close> show "ts ! k \<noteq> -1" using Cons.prems(2) [of "Suc k"] by simp
  qed
  then show ?case using Cons.prems(1) [of 0] Cons.prems(2) [of 0] by auto
qed

text \<open>What the parser makes of the printed tags of an id.\<close>

definition printable :: "tag_heap \<Rightarrow> nchan_msg_id \<Rightarrow> bool" where
  "printable h i \<longleftrightarrow> msgid_ok h i \<and> 1 \<le> tagcount i \<and> 0 \<le> tagactive i \<and> tagactive i < tagcount i
     \<and> (tagcount i > 1 \<longrightarrow> (\<forall>t \<in> set (tag_list h i). sint t \<ge> -2)
          \<and> tag_list h i ! nat (tagactive i) \<noteq> -1)"

lemma parse_print_tag:
  assumes pr: "printable h i" and sa: "h sa = Some arr" "length arr = NCHAN_MULTITAG_MAX" "sa \<notin> owned i"
    and ex: "expected \<le> tagcount i"
  shows "\<exists>s j h'. msgtag_to_strptr pb h i = Some s
           \<and> nchan_parse_msg_tag h sa (Some s) mid expected = Some (NGX_OK, j, h')
           \<and> time j = time mid \<and> tagcount j = tagcount i \<and> tagactive j = tagactive i
           \<and> tag_list h' j = tag_list h i \<and> (\<forall>b. b \<noteq> sa \<longrightarrow> h' b = h b)"
proof -
  let ?ts = "tag_list h i" and ?p = "tag_parser_start arr"
  have ok: "msgid_ok h i" and cnt: "1 \<le> tagcount i" "tagcount i \<le> 255" "nat (tagcount i mod 256) = nat (tagcount i)"
      "int (nat (tagcount i)) = tagcount i"
    using pr by (auto simp: printable_def msgid_ok_def)
  have len: "length ?ts = nat (tagcount i)" using ok by (rule length_tag_list)
  obtain r where r: "tags_by_count pb h (tagcount i) (tag i) = Some (?ts @ r)"
    using msgid_tags_ok [OF ok, of pb] by (auto simp: msgid_tags_def)
  obtain s q where s: "msgtag_to_strptr pb h i = Some s" and q: "parse_tag_loop s ?p = Inr q"
    "tp_i q = nat (tagcount i)" "tp_tags q = ?ts @ drop (nat (tagcount i)) arr"
    "tp_active q = (if tagcount i = 1 then -1 else tagactive i)"
  proof (cases "tagcount i = 1")
    case True
    then obtain t where t: "?ts = [t]" using len by (auto simp: length_Suc_conv)
    let ?q = "?p\<lparr>tp_sign := if sint t < 0 then -1 else 1, tp_val := of_nat (nat \<bar>sint t\<bar>)\<rparr>"
    have "parse_tag_loop (dec_int (sint t)) ?p = Inr ((emit_tag ?q)\<lparr>tp_i := 1\<rparr>)"
      using parse_dec_int [of ?p "sint t" "[]"] by (simp add: tag_parser_start_def)
    moreover have "tp_tags (emit_tag ?q) = [t] @ drop 1 arr"
      using sa(2) by (subst emit_tag_int [of _ t]) (auto simp: tag_parser_start_def upd_conv_take_nth_drop)
    moreover have "tp_active (emit_tag ?q) = -1" by (simp add: emit_tag_def tag_parser_start_def)
    ultimately show thesis
      using that [of "dec_int (sint t)" "(emit_tag ?q)\<lparr>tp_i := 1\<rparr>"] True t r
      by (simp add: msgtag_to_strptr_def Let_def)
  next
    case False
    have "\<exists>s. print_tags (tagactive i) 0 ?ts = Some s"
      by (rule print_tags_Some) (use pr False len cnt in \<open>auto simp: printable_def\<close>)
    then obtain s where s: "print_tags (tagactive i) 0 ?ts = Some s" by blast
    have "nat (tagcount i) \<noteq> Suc 0" using False cnt(1) by linarith
    then have "msgtag_to_strptr pb h i = Some (butlast s)"
      using False cnt r s len by (auto simp: msgtag_to_strptr_def Let_def)
    moreover have "\<exists>q. parse_tag_loop (butlast s) ?p = Inr q \<and> tp_i q = tp_i ?p + length ?ts
           \<and> tp_tags q = take (tp_i ?p) (tp_tags ?p) @ ?ts @ drop (tp_i ?p + length ?ts) (tp_tags ?p)
           \<and> tp_active q = (if int (tp_i ?p) \<le> tagactive i \<and> tagactive i < int (tp_i ?p + length ?ts)
                 then tagactive i else tp_active ?p)"
      by (rule parse_printed_tags) (use s len cnt sa in \<open>auto simp: tag_parser_start_def\<close>)
    ultimately show thesis
      using that False len cnt pr by (auto simp: tag_parser_start_def printable_def)
  qed
  let ?h = "h(sa := Some (?ts @ drop (nat (tagcount i)) arr))"
  let ?j = "mid\<lparr>tagactive := tagactive i, tagcount := tagcount i,
      tag := if tagcount i \<le> 4 then Fixed (take 4 (?ts @ drop (nat (tagcount i)) arr)) else Allocd (Some sa)\<rparr>"
  have mx: "max (nat (tagcount i)) (nat expected) = nat (tagcount i)" using ex by auto
  have a0: "tagcount i = 1 \<Longrightarrow> tagactive i = 0" using pr by (auto simp: printable_def)
  have ex': "expected \<le> int (length (tp_tags q))" using ex q(3) len sa(2) cnt by simp
  have a1: "tp_active q = -1 \<longleftrightarrow> tagcount i = 1" using q(4) pr by (auto simp: printable_def)
  have "nchan_parse_msg_tag h sa (Some s) mid expected = Some (NGX_OK, ?j, ?h)"
  proof (cases "tagcount i = 1")
    case True
    with sa(1) q mx ex' a0 len show ?thesis by (simp add: nchan_parse_msg_tag_def Let_def)
  next
    case False
    then have "tp_active q = tagactive i" "tagactive i \<noteq> -1" "nat (tagcount i) \<noteq> 0"
        "nat (tagcount i) \<le> 4 \<longleftrightarrow> tagcount i \<le> 4"
      using q(4) a1 cnt by auto
    with False sa(1) q(1,2,3) mx ex' cnt len show ?thesis by (simp add: nchan_parse_msg_tag_def Let_def)
  qed
  moreover have "tag_list ?h ?j = ?ts"
    using len cnt sa(2) by (auto simp: tag_list_def)
  ultimately show ?thesis using s by auto
qed

text \<open>
  C4: reading back the text of a message id gives the id: the same time, tags, number of tags and active tag, for any
  number of channels up to the limit.
\<close>

theorem msgid_roundtrip:
  assumes e: "ngx_env_ok e" and pr: "printable h i" and tm: "0 \<le> time i" "time i < 2 ^ 63"
    and sa: "h sa = Some arr" "length arr = NCHAN_MULTITAG_MAX" "sa \<notin> owned i"
    and ex: "expected \<le> tagcount i"
  shows "\<exists>s j h'. msgid_to_str pb h i = Some s
           \<and> nchan_parse_compound_msgid e h sa mid s expected = Some (NGX_OK, j, h')
           \<and> time j = time i \<and> tagcount j = tagcount i \<and> tagactive j = tagactive i
           \<and> tag_list h' j = tag_list h i"
proof -
  let ?n = "nat (time i)"
  obtain s j h' where s: "msgtag_to_strptr pb h i = Some s"
    "nchan_parse_msg_tag h sa (Some s) (mid\<lparr>time := time i\<rparr>) expected = Some (NGX_OK, j, h')"
    "time j = time i" "tagcount j = tagcount i" "tagactive j = tagactive i" "tag_list h' j = tag_list h i"
    using parse_print_tag [OF pr sa ex, of pb "mid\<lparr>time := time i\<rparr>"] by auto
  let ?str = "dec_nat ?n @ '':'' @ s"
  have tw: "takeWhile (\<lambda>x. x \<noteq> CHR '':'') ?str = dec_nat ?n"
    using colon_notin_dec_nat [of ?n] by (subst takeWhile_append2) auto
  have "ngx_strlchr e ?str (CHR '':'') = Some (length (dec_nat ?n))"
    using e tw by (simp add: ngx_env_ok_def)
  moreover have "ngx_atoi e (dec_nat ?n) = Some (time i)"
    using e tm by (auto simp: ngx_env_ok_def nat_less_iff)
  moreover have "msgid_to_str pb h i = Some ?str"
    using s(1) tm by (simp add: msgid_to_str_def dec_int_def)
  ultimately show ?thesis using s by (auto simp: nchan_parse_compound_msgid_def)
qed

subsection \<open>Bounds of the text and well-formedness of what is parsed\<close>

lemma length_dec_nat: "n < 10 ^ k \<Longrightarrow> 0 < k \<Longrightarrow> length (dec_nat n) \<le> k"
proof (induction n arbitrary: k rule: dec_nat.induct)
  case (1 n)
  show ?case
  proof (cases "n < 10")
    case True
    with 1 show ?thesis by (subst dec_nat.simps) simp
  next
    case False
    with "1.prems" obtain m where m: "k = Suc m" "0 < m" by (cases k; cases "k - 1") auto
    have "n div 10 < 10 ^ m" using "1.prems"(1) m by (simp add: less_mult_imp_div_less mult.commute)
    with 1(1) False m have "length (dec_nat (n div 10)) \<le> m" by blast
    with False m show ?thesis by (subst dec_nat.simps) simp
  qed
qed

lemma length_dec_int:
  assumes "\<bar>i\<bar> < 10 ^ k" and "0 < k"
  shows "length (dec_int i) \<le> (if i < 0 then Suc k else k)"
proof -
  have "nat i < 10 ^ k" "nat (- i) < 10 ^ k" using assms(1) by (auto simp: nat_less_iff)
  with assms(2) show ?thesis by (simp add: dec_int_def length_dec_nat)
qed

lemma length_dec_tag: "-2 \<le> sint t \<Longrightarrow> length (dec_int (sint (t :: int16))) \<le> 5"
  using length_dec_int [of "sint t" 5] length_dec_int [of "sint t" 1] int16_le [of t]
  by (cases "sint t < 0") auto

lemma length_print_tags: "print_tags act i ts = Some s \<Longrightarrow> length s \<le> 8 * length ts"
proof (induction ts arbitrary: i s)
  case Nil
  then show ?case by simp
next
  case (Cons t ts)
  from print_tags_Cons [OF Cons.prems] obtain s'
    where s': "print_tags act (Suc i) ts = Some s'" "s = tag_text act i t @ '','' @ s'" by blast
  have "sint t \<ge> -2" using Cons.prems by (simp split: if_splits)
  then have "length (tag_text act i t) \<le> 7" using length_dec_tag [of t] by (simp add: tag_text_def)
  with s' Cons.IH [OF s'(1)] show ?case by simp
qed

lemma length_msgtag:
  assumes "msgtag_to_strptr pb h i = Some s"
  shows "length s \<le> 2040"
proof -
  let ?max = "nat (tagcount i mod 256)"
  obtain t where t: "tags_by_count pb h (int ?max) (tag i) = Some t"
    using assms by (auto simp: msgtag_to_strptr_def Let_def split: Option.bind_splits)
  show ?thesis
  proof (cases "?max = 1")
    case True
    then obtain w :: int16 where s: "s = dec_int (sint w)"
      using assms t by (auto simp: msgtag_to_strptr_def Let_def arr_get_def split: if_splits)
    have "\<bar>sint w\<bar> < 10 ^ 5" using int16_le [of w] sint_ge [of w] by simp
    from length_dec_int [OF this] s show ?thesis by (simp split: if_splits)
  next
    case False
    with assms t obtain s' where "print_tags (tagactive i) 0 (take ?max t) = Some s'" "s = butlast s'"
      by (auto simp: msgtag_to_strptr_def Let_def split: Option.bind_splits if_splits)
    moreover have "?max \<le> 255" using pos_mod_bound [of 256 "tagcount i"] by linarith
    ultimately show ?thesis using length_print_tags [of "tagactive i" 0 "take ?max t" s'] by simp
  qed
qed

text \<open>The static buffer \<^verbatim>\<open>msgtag_str_buf\<close> has \<open>10 * 255 + 30\<close> bytes, one of them for the terminator.\<close>

text \<open>
  C32: the text of a message id, of however many channels and whatever tags, is shorter than the buffer of
  \<^verbatim>\<open>10 * NCHAN_MULTITAG_MAX + 30\<close> characters that the code writes it to.
\<close>

theorem length_msgid:
  assumes "msgid_to_str pb h i = Some s" and "\<bar>time i\<bar> < 2 ^ 63"
  shows "length s < 10 * 255 + 30"
proof -
  obtain t where t: "msgtag_to_strptr pb h i = Some t" "s = dec_int (time i) @ '':'' @ t"
    using assms(1) by (auto simp: msgid_to_str_def split: Option.bind_splits)
  have "length (dec_int (time i)) \<le> 20"
    using assms(2) length_dec_int [of "time i" 19] by (simp split: if_splits)
  with t length_msgtag [OF t(1)] show ?thesis by simp
qed

text \<open>Whatever the header says, an accepted id is well formed and its active tag exists.\<close>

lemma parse_tag_char_inv:
  assumes "parse_tag_char c p = Inl q \<or> parse_tag_char c p = Inr q"
  shows "length (tp_tags q) = length (tp_tags p)" "tp_i p \<le> tp_i q" "tp_i q \<le> Suc (tp_i p)"
    "tp_active p \<le> int (tp_i p) \<Longrightarrow> tp_active q \<le> int (tp_i p)"
    "-1 \<le> tp_active p \<Longrightarrow> -1 \<le> tp_active q"
  using assms by (auto simp: parse_tag_char_def emit_tag_def Let_def split: if_splits)

lemma parse_tag_loop_inv:
  "parse_tag_loop cs p = Inr q \<Longrightarrow> tp_i p \<le> 255 \<Longrightarrow>
     tp_active p \<le> min (int (tp_i p)) 254 \<Longrightarrow> -1 \<le> tp_active p \<Longrightarrow>
     length (tp_tags q) = length (tp_tags p) \<and> 1 \<le> tp_i q \<and> tp_i q \<le> 255
     \<and> -1 \<le> tp_active q \<and> tp_active q < int (tp_i q)"
proof (induction cs arbitrary: p)
  case Nil
  then show ?case by (auto simp: emit_tag_def split: if_splits)
next
  case (Cons c cs)
  show ?case
  proof (cases "tp_i p < 255")
    case True
    with Cons.prems(1) obtain r where r: "parse_tag_char c p = Inr r" "parse_tag_loop cs r = Inr q"
      by (auto split: sum.splits)
    have "tp_active r \<le> min (int (tp_i r)) 254"
      using parse_tag_char_inv [of c p r] r(1) Cons.prems True by auto
    with parse_tag_char_inv [of c p r] r Cons.prems True show ?thesis
      using Cons.IH [OF r(2)] by auto
  next
    case False
    with Cons.prems show ?thesis by auto
  qed
qed

text \<open>
  C33: whatever a client sends as the tag of a message id, when it is accepted the parsed id is well formed: its active tag
  is one of its tags, and it has at least as many tags as channels were asked for.
\<close>

theorem parse_msg_tag_wf:
  assumes "h sa = Some arr" "length arr = 255"
    and "nchan_parse_msg_tag h sa (Some s) i n = Some (NGX_OK, j, h')"
  shows "msgid_ok h' j \<and> 0 \<le> tagactive j \<and> tagactive j < tagcount j \<and> n \<le> tagcount j
    \<and> time j = time i"
proof -
  obtain q where q: "parse_tag_loop s (tag_parser_start arr) = Inr q"
    using assms by (auto simp: nchan_parse_msg_tag_def split: sum.splits)
  note inv = parse_tag_loop_inv [OF q]
  have "length (tp_tags q) = 255" "1 \<le> tp_i q" "tp_i q \<le> 255" "-1 \<le> tp_active q"
    "tp_active q < int (tp_i q)"
    using inv assms(2) by (auto simp: tag_parser_start_def)
  with assms q show ?thesis
    by (auto simp: nchan_parse_msg_tag_def Let_def c_assert_def msgid_ok_def split: if_splits)
qed

definition sample_env :: ngx_env where
  "sample_env = \<lparr>ngx_strlchr = (\<lambda>s c. if c \<in> set s then Some (length (takeWhile (\<lambda>x. x \<noteq> c) s)) else None),
     ngx_atoi = (\<lambda>s. if s \<noteq> [] \<and> list_all (\<lambda>c. 48 \<le> (of_char c :: nat) \<and> (of_char c :: nat) \<le> 57) s
                      then Some (int (foldl (\<lambda>v c. 10 * v + (of_char c - 48)) 0 s)) else None),
     ngx_http_parse_time = (\<lambda>s. -1), ngx_unescape = id\<rparr>"

lemma sample_atoi:
  "dec_nat n \<noteq> [] \<and> list_all (\<lambda>c. 48 \<le> (of_char c :: nat) \<and> (of_char c :: nat) \<le> 57) (dec_nat n)
     \<and> foldl (\<lambda>v c. 10 * v + (of_char c - 48)) 0 (dec_nat n) = n"
proof (induction n rule: dec_nat.induct)
  case (1 n)
  show ?case
  proof (cases "n < 10")
    case True
    then show ?thesis by (subst (1 2 3) dec_nat.simps) (simp add: of_digit_char)
  next
    case False
    with 1 show ?thesis by (subst (1 2 3) dec_nat.simps) (simp add: of_digit_char)
  qed
qed

lemma sample_env_ok: "ngx_env_ok sample_env"
  by (simp add: ngx_env_ok_def sample_env_def sample_atoi)

lemma sample_two_printable: "printable h (sample_two 3 4)"
  by (simp add: printable_def sample_two_ok)

theorem length_msgid_witness: "\<exists>s. msgid_to_str (\<lambda>_. []) Map.empty (sample_two 3 4) = Some s \<and> length s < 10 * 255 + 30"
proof -
  obtain s where "msgid_to_str (\<lambda>_. []) Map.empty (sample_two 3 4) = Some s"
    by (simp add: msgid_to_str_def msgtag_to_strptr_def tags_by_count_def sample_two_def fixed_view_def)
  from length_msgid [OF this] this show ?thesis by (simp add: sample_two_ok)
qed

theorem msgid_roundtrip_witness:
  "\<exists>s j h'. msgid_to_str (\<lambda>_. []) [60 \<mapsto> replicate 255 0] (sample_two 3 4) = Some s
     \<and> nchan_parse_compound_msgid sample_env [60 \<mapsto> replicate 255 0] 60 NCHAN_ZERO_MSGID s 2 = Some (NGX_OK, j, h')
     \<and> time j = 100 \<and> tag_list h' j = [3, 4]"
  using msgid_roundtrip [OF sample_env_ok sample_two_printable, of "[60 \<mapsto> replicate 255 0]" 60 "replicate 255 0" 2]
  unfolding sample_two_ok by simp blast

theorem parse_msg_tag_wf_witness:
  "\<exists>s j h'. nchan_parse_msg_tag [60 \<mapsto> replicate 255 0] 60 (Some s) NCHAN_ZERO_MSGID 2 = Some (NGX_OK, j, h')
     \<and> msgid_ok h' j \<and> tagactive j < tagcount j"
proof -
  obtain s j h' where p: "nchan_parse_msg_tag [60 \<mapsto> replicate 255 0] 60 (Some s) NCHAN_ZERO_MSGID 2 = Some (NGX_OK, j, h')"
    using parse_print_tag [OF sample_two_printable, of "[60 \<mapsto> replicate 255 0]" 60 "replicate 255 0" 2]
    unfolding sample_two_ok by simp blast
  have "[60 \<mapsto> replicate 255 0] 60 = Some (replicate 255 (0 :: int16))" by simp
  from parse_msg_tag_wf [OF this _ p] p show ?thesis by auto
qed

end
