(* ===== verification/Message.thy ===== *)
theory Message
  imports Msg_Id
begin

text \<open>
  Messages: \<^verbatim>\<open>nchan_msg_t\<close>, its reference counts (nchan\_msg.c), and the copy into one block of shared
  memory that every published message gets (memstore.c).

  Messages live in a heap of records.  A message derived from a shared one (another id, the same
  contents) points to it by \<open>m_parent\<close>; reserving or releasing it does the same to the parent.
\<close>

subsection \<open>Data\<close>

datatype nchan_msg_storage = NCHAN_MSG_SHARED | NCHAN_MSG_HEAP | NCHAN_MSG_POOL | NCHAN_MSG_STACK

datatype nchan_msg_compression_type =
  NCHAN_MSG_COMPRESSION_INVALID | NCHAN_MSG_NO_COMPRESSION | NCHAN_MSG_COMPRESSION_WEBSOCKET_PERMESSAGE_DEFLATE

text \<open>
  Of an \<^verbatim>\<open>ngx_buf_t\<close> the model keeps what the code reads: the results of the nginx macros
  \<^verbatim>\<open>ngx_buf_in_memory_only\<close> and \<^verbatim>\<open>ngx_buf_size\<close>, the flag \<^verbatim>\<open>in_file\<close>, and the name of the file if there is one.
\<close>

record ngx_buf =
  in_memory_only :: bool
  buf_size :: nat
  in_file :: bool
  buf_file :: "string option"

record nchan_compressed_msg =
  cm_buf :: ngx_buf
  cm_compression :: nchan_msg_compression_type

record nchan_msg =
  m_id :: nchan_msg_id
  m_prev_id :: nchan_msg_id
  m_content_type :: "string option"
  m_eventsource_event :: "string option"
  m_buf :: ngx_buf
  m_expires :: int
  m_refcount :: int
  m_parent :: ptr
  m_compressed :: "nchan_compressed_msg option"
  m_storage :: nchan_msg_storage

type_synonym msg_heap = "addr \<Rightarrow> nchan_msg option"

definition MSG_REFCOUNT_INVALID :: int where "MSG_REFCOUNT_INVALID = -9000"

subsection \<open>Reference counts\<close>

definition msg_refcount_valid :: "nchan_msg \<Rightarrow> bool" where
  "msg_refcount_valid msg \<longleftrightarrow> m_refcount msg \<ge> 0"

definition msg_refcount_invalidate_if_zero :: "nchan_msg \<Rightarrow> bool \<times> nchan_msg" where
  "msg_refcount_invalidate_if_zero msg =
     (if m_refcount msg = 0 then (True, msg\<lparr>m_refcount := MSG_REFCOUNT_INVALID\<rparr>) else (False, msg))"

definition msg_refcount_invalidate :: "nchan_msg \<Rightarrow> nchan_msg" where
  "msg_refcount_invalidate msg = msg\<lparr>m_refcount := MSG_REFCOUNT_INVALID\<rparr>"

partial_function (option) msg_reserve :: "msg_heap \<Rightarrow> addr \<Rightarrow> (ngx_rc \<times> msg_heap) option" where
  "msg_reserve h a = do {
     msg \<leftarrow> h a;
     case m_parent msg of
       Some p \<Rightarrow> do {
         c_assert (m_storage msg \<noteq> NCHAN_MSG_SHARED);
         msg_reserve (h(a \<mapsto> msg\<lparr>m_refcount := m_refcount msg + 1\<rparr>)) p
       }
     | None \<Rightarrow> do {
         let msg = msg\<lparr>m_refcount := m_refcount msg + 1\<rparr>;
         c_assert (m_refcount msg \<ge> 0);
         Some (NGX_OK, h(a \<mapsto> msg))
       }
   }"

text \<open>
  Releasing the last reference to a derived message frees its id and, on the heap, the message;
  \<open>th\<close> is the heap of tag arrays.
\<close>

partial_function (option) msg_release ::
  "msg_heap \<Rightarrow> tag_heap \<Rightarrow> addr \<Rightarrow> (ngx_rc \<times> msg_heap \<times> tag_heap) option" where
  "msg_release h th a = do {
     msg \<leftarrow> h a;
     case m_parent msg of
       Some p \<Rightarrow> do {
         c_assert (m_storage msg \<noteq> NCHAN_MSG_SHARED);
         let msg = msg\<lparr>m_refcount := m_refcount msg - 1\<rparr>;
         c_assert (m_refcount msg \<ge> 0);
         (h, th) \<leftarrow> (if m_refcount msg = 0 then
             (case m_storage msg of
                NCHAN_MSG_POOL \<Rightarrow> do {
                  (i, th) \<leftarrow> nchan_free_msg_id th (m_id msg);
                  Some (h(a \<mapsto> msg\<lparr>m_id := i\<rparr>), th)
                }
              | NCHAN_MSG_HEAP \<Rightarrow> do {
                  (i, th) \<leftarrow> nchan_free_msg_id th (m_id msg);
                  Some (h(a := None), th)
                }
              | _ \<Rightarrow> Some (h(a \<mapsto> msg), th))
           else Some (h(a \<mapsto> msg), th));
         msg_release h th p
       }
     | None \<Rightarrow> do {
         c_assert (m_refcount msg > 0);
         Some (NGX_OK, h(a \<mapsto> msg\<lparr>m_refcount := m_refcount msg - 1\<rparr>), th)
       }
   }"

subsection \<open>Derived messages\<close>

definition get_shared_msg :: "msg_heap \<Rightarrow> addr \<Rightarrow> addr option" where
  "get_shared_msg h a = do {
     msg \<leftarrow> h a;
     if m_storage msg = NCHAN_MSG_SHARED then do { c_assert (m_parent msg = None); Some a }
     else do {
       p \<leftarrow> m_parent msg;
       par \<leftarrow> h p;
       c_assert (m_storage par = NCHAN_MSG_SHARED);
       Some p
     }
   }"

definition msg_derive_init ::
  "msg_heap \<Rightarrow> addr \<Rightarrow> ptr \<Rightarrow> nchan_msg_storage \<Rightarrow> (ptr \<times> msg_heap) option" where
  "msg_derive_init h parent msg storage_type = do {
     sh \<leftarrow> get_shared_msg h parent;
     case msg of
       None \<Rightarrow> Some (None, h)
     | Some a \<Rightarrow> do {
         s \<leftarrow> h sh;
         Some (Some a, h(a \<mapsto> s\<lparr>m_id := (m_id s)\<lparr>tagcount := 1\<rparr>, m_parent := Some sh,
                               m_storage := storage_type, m_refcount := 0\<rparr>))
       }
   }"

text \<open>\<^verbatim>\<open>ngx_free(msg)\<close> on the failure path is reached with \<^verbatim>\<open>NULL\<close> as well, which it accepts.\<close>

definition nchan_msg_derive_alloc ::
  "msg_heap \<Rightarrow> tag_heap \<Rightarrow> addr \<Rightarrow> ptr \<Rightarrow> ptr \<Rightarrow> (ptr \<times> msg_heap \<times> tag_heap) option" where
  "nchan_msg_derive_alloc h th parent msg_alloc tags_alloc = do {
     (p, h) \<leftarrow> msg_derive_init h parent msg_alloc NCHAN_MSG_HEAP;
     case p of
       None \<Rightarrow> Some (None, h, th)
     | Some a \<Rightarrow> do {
         par \<leftarrow> h parent;
         (rc, i, th) \<leftarrow> nchan_copy_new_msg_id th tags_alloc (m_id par);
         msg \<leftarrow> h a;
         if rc = NGX_OK then Some (Some a, h(a \<mapsto> msg\<lparr>m_id := i\<rparr>), th)
         else Some (None, h(a := None), th)
       }
   }"

definition nchan_msg_derive_palloc ::
  "msg_heap \<Rightarrow> tag_heap \<Rightarrow> addr \<Rightarrow> ptr \<Rightarrow> ptr \<Rightarrow> (ptr \<times> msg_heap \<times> tag_heap) option" where
  "nchan_msg_derive_palloc h th parent msg_alloc tags_alloc = do {
     (p, h) \<leftarrow> msg_derive_init h parent msg_alloc NCHAN_MSG_POOL;
     case p of
       None \<Rightarrow> Some (None, h, th)
     | Some a \<Rightarrow> do {
         par \<leftarrow> h parent;
         (rc, i, th) \<leftarrow> nchan_copy_new_msg_id th tags_alloc (m_id par);
         msg \<leftarrow> h a;
         Some (if rc = NGX_OK then Some a else None, h(a \<mapsto> msg\<lparr>m_id := i\<rparr>), th)
       }
   }"

definition nchan_msg_derive_stack ::
  "msg_heap \<Rightarrow> tag_heap \<Rightarrow> addr \<Rightarrow> addr \<Rightarrow> ptr \<Rightarrow> ptr \<Rightarrow> (ptr \<times> msg_heap \<times> tag_heap) option" where
  "nchan_msg_derive_stack h th parent child tags_alloc largetags = do {
     (p, h) \<leftarrow> msg_derive_init h parent (Some child) NCHAN_MSG_STACK;
     par \<leftarrow> h parent;
     msg \<leftarrow> h child;
     (rc, i, th) \<leftarrow> nchan_copy_msg_id th tags_alloc (m_id msg) (m_id par) largetags;
     Some (if rc = NGX_OK then Some child else None, h(child \<mapsto> msg\<lparr>m_id := i\<rparr>), th)
   }"

subsection \<open>The copy in shared memory\<close>

text \<open>Sizes of the C structures, which depend on the platform and on nginx.\<close>

record abi_sizes =
  sz_nchan_msg :: nat
  sz_ngx_str :: nat
  sz_ngx_file :: nat
  sz_compressed :: nat

definition memstore_buf_memsize :: "abi_sizes \<Rightarrow> ngx_buf \<Rightarrow> nat" where
  "memstore_buf_memsize z buf =
     (let n = (if in_memory_only buf then buf_size buf else 0)
      in case buf_file buf of
           Some name \<Rightarrow> if in_file buf then sz_ngx_file z + length name + 1 else n
         | None \<Rightarrow> n)"

definition memstore_msg_memsize :: "abi_sizes \<Rightarrow> nchan_msg \<Rightarrow> nat" where
  "memstore_msg_memsize z m =
     (let es = (case m_eventsource_event m of None \<Rightarrow> 0 | Some s \<Rightarrow> length s + sz_ngx_str z);
          ct = (case m_content_type m of None \<Rightarrow> 0 | Some s \<Rightarrow> length s + sz_ngx_str z);
          b = memstore_buf_memsize z (m_buf m);
          c = (case m_compressed m of None \<Rightarrow> 0
               | Some c \<Rightarrow> sz_compressed z + memstore_buf_memsize z (cm_buf c))
      in sz_nchan_msg z + (b + ct + es + c))"

text \<open>
  The copy advances a cursor through the block.  Each function returns the new cursor and, where
  it places something, the offset it places it at; these offsets are the pointers of the copy.
\<close>

definition copy_preallocated_str_to_cur :: "string \<Rightarrow> nat \<Rightarrow> nat option \<times> nat" where
  "copy_preallocated_str_to_cur src cur =
     (if length src > 0 then (Some cur, cur + length src) else (None, cur))"

definition copy_buf_contents :: "abi_sizes \<Rightarrow> ngx_buf \<Rightarrow> nat \<Rightarrow> nat" where
  "copy_buf_contents z buf rest =
     (let rest = (case buf_file buf of
            None \<Rightarrow> rest
          | Some name \<Rightarrow> snd (copy_preallocated_str_to_cur name (rest + sz_ngx_file z)) + 1);
          body = (if in_memory_only buf then buf_size buf else 0)
      in if body > 0 then rest + body else rest)"

text \<open>The block the allocator returned has \<open>memsize\<close> bytes; the result is the copy and the end of the cursor.\<close>

definition create_shm_msg :: "abi_sizes \<Rightarrow> bool \<Rightarrow> nchan_msg \<Rightarrow> ((nchan_msg \<times> nat) option) option" where
  "create_shm_msg z alloc_ok m =
     (if \<not> alloc_ok then Some None
      else do {
        let cur = sz_nchan_msg z;
        c_assert (tagcount (m_id m) = 1);
        let cur = (case m_content_type m of None \<Rightarrow> cur
                   | Some s \<Rightarrow> snd (copy_preallocated_str_to_cur s (cur + sz_ngx_str z)));
        let cur = (case m_eventsource_event m of None \<Rightarrow> cur
                   | Some s \<Rightarrow> snd (copy_preallocated_str_to_cur s (cur + sz_ngx_str z)));
        let cur = copy_buf_contents z (m_buf m) cur;
        let cur = (case m_compressed m of None \<Rightarrow> cur
                   | Some c \<Rightarrow> copy_buf_contents z (cm_buf c) (cur + sz_compressed z));
        Some (Some (m\<lparr>m_storage := NCHAN_MSG_SHARED, m_parent := None\<rparr>, cur))
      })"

subsection \<open>Results\<close>

text \<open>
  What nginx guarantees of its buffers (memory only excludes a file), and what nchan's publishers set
  up (a buffer with a file is flagged \<^verbatim>\<open>in_file\<close>).
\<close>

definition buf_ok :: "ngx_buf \<Rightarrow> bool" where
  "buf_ok b \<longleftrightarrow> (in_memory_only b \<longrightarrow> \<not> in_file b) \<and> (buf_file b \<noteq> None \<longrightarrow> in_file b)"

lemma copy_str_end [simp]: "snd (copy_preallocated_str_to_cur s cur) = cur + length s"
  by (simp add: copy_preallocated_str_to_cur_def)

lemma copy_buf_end: "buf_ok b \<Longrightarrow> copy_buf_contents z b cur = cur + memstore_buf_memsize z b"
  by (auto simp: buf_ok_def copy_buf_contents_def memstore_buf_memsize_def Let_def split: option.splits)

text \<open>
  C34: the copy of a message fills the block of shared memory allocated for it exactly: the size
  computed beforehand is where the copying cursor ends, for every combination of content type, event
  name, body in memory or in a file, and compressed body.
\<close>

theorem create_shm_msg_fits:
  assumes "tagcount (m_id m) = 1" and "buf_ok (m_buf m)"
    and "\<And>c. m_compressed m = Some c \<Longrightarrow> buf_ok (cm_buf c)"
  shows "\<exists>copy. create_shm_msg z True m = Some (Some (copy, memstore_msg_memsize z m))
           \<and> m_id copy = m_id m \<and> m_storage copy = NCHAN_MSG_SHARED \<and> m_parent copy = None"
  using assms
  by (auto simp: create_shm_msg_def memstore_msg_memsize_def copy_buf_end Let_def split: option.splits)

definition sample_buf :: ngx_buf where
  "sample_buf = \<lparr>in_memory_only = True, buf_size = 5, in_file = False, buf_file = None\<rparr>"

definition sample_msg :: nchan_msg where
  "sample_msg = \<lparr>m_id = NCHAN_ZERO_MSGID\<lparr>time := 100, tagcount := 1\<rparr>, m_prev_id = NCHAN_ZERO_MSGID,
     m_content_type = Some ''text/plain'', m_eventsource_event = None, m_buf = sample_buf, m_expires = 0,
     m_refcount = 0, m_parent = None,
     m_compressed = Some \<lparr>cm_buf = sample_buf\<lparr>in_memory_only := False, in_file := True, buf_file := Some ''/tmp/x''\<rparr>,
       cm_compression = NCHAN_MSG_NO_COMPRESSION\<rparr>, m_storage = NCHAN_MSG_SHARED\<rparr>"

theorem create_shm_msg_fits_witness:
  "\<exists>copy. create_shm_msg \<lparr>sz_nchan_msg = 288, sz_ngx_str = 16, sz_ngx_file = 200, sz_compressed = 96\<rparr> True sample_msg
     = Some (Some (copy, 288 + 5 + 26 + (96 + 207)))
     \<and> m_id copy = m_id sample_msg \<and> m_storage copy = NCHAN_MSG_SHARED \<and> m_parent copy = None"
  using create_shm_msg_fits [of sample_msg "\<lparr>sz_nchan_msg = 288, sz_ngx_str = 16, sz_ngx_file = 200, sz_compressed = 96\<rparr>"]
  by (simp add: sample_msg_def sample_buf_def buf_ok_def memstore_msg_memsize_def memstore_buf_memsize_def)

lemma get_shared_msg_Some:
  assumes "get_shared_msg h a = Some sh"
  shows "\<exists>s. h sh = Some s \<and> m_storage s = NCHAN_MSG_SHARED"
  using assms by (auto simp: get_shared_msg_def c_assert_def split: Option.bind_splits if_splits)

lemma copy_new_free:
  assumes "msgid_ok th i" and "th ta = None" and "nchan_copy_new_msg_id th (Some ta) i = Some (NGX_OK, j, th1)"
  shows "\<exists>k. nchan_free_msg_id th1 j = Some (k, th)"
  using assms(1)
proof (cases rule: msgid_ok_cases)
  case (inline ts)
  with assms show ?thesis by (simp add: nchan_copy_new_msg_id_def nchan_free_msg_id_def)
next
  case (allocated a ts)
  with assms show ?thesis
    by (auto simp: nchan_copy_new_msg_id_def nchan_free_msg_id_def allocd_view_def free_allocd_def
        ngx_free_tags_def fun_upd_idem)
qed

text \<open>
  C35: deriving a message, reserving it and releasing it again leaves no trace: the derived message
  and its tags are freed and the shared message has its old reference count.
\<close>

theorem derive_reserve_release:
  assumes parent: "h parent = Some par" "get_shared_msg h parent = Some sh"
    and shared: "h sh = Some s" "m_parent s = None" "m_refcount s \<ge> 0"
    and fresh: "h a = None" "th ta = None" and ok: "msgid_ok th (m_id par)"
  shows "do { (p, h1, th1) \<leftarrow> nchan_msg_derive_alloc h th parent (Some a) (Some ta);
              (rc, h2) \<leftarrow> msg_reserve h1 a;
              msg_release h2 th1 a } = Some (NGX_OK, h, th)"
proof -
  have ne: "a \<noteq> parent" "a \<noteq> sh" using parent shared fresh by auto
  obtain i th1 where i: "nchan_copy_new_msg_id th (Some ta) (m_id par) = Some (NGX_OK, i, th1)"
    using nchan_copy_new_msg_id_ok [OF ok fresh(2)] by blast
  obtain k where k: "nchan_free_msg_id th1 i = Some (k, th)" using copy_new_free [OF ok fresh(2) i] by blast
  define d where "d = s\<lparr>m_parent := Some sh, m_storage := NCHAN_MSG_HEAP, m_refcount := 0, m_id := i\<rparr>"
  have derive: "nchan_msg_derive_alloc h th parent (Some a) (Some ta) = Some (Some a, h(a \<mapsto> d), th1)"
    using parent shared ne i by (simp add: nchan_msg_derive_alloc_def msg_derive_init_def d_def)
  have reserve: "msg_reserve (h(a \<mapsto> d)) a =
      Some (NGX_OK, h(a \<mapsto> d\<lparr>m_refcount := 1\<rparr>, sh \<mapsto> s\<lparr>m_refcount := m_refcount s + 1\<rparr>))"
    using shared ne by (subst msg_reserve.simps) (simp add: d_def msg_reserve.simps)
  have "msg_release (h(a \<mapsto> d\<lparr>m_refcount := 1\<rparr>, sh \<mapsto> s\<lparr>m_refcount := m_refcount s + 1\<rparr>)) th1 a
      = Some (NGX_OK, h(a := None, sh \<mapsto> s), th)"
    using shared ne k
    by (subst msg_release.simps) (simp add: d_def msg_release.simps fun_upd_twist)
  moreover have "h(a := None, sh \<mapsto> s) = h" using fresh shared by auto
  ultimately show ?thesis using derive reserve by simp
qed

definition sample_wide_id :: nchan_msg_id where
  "sample_wide_id = \<lparr>time = 100, tag = Allocd (Some 50), tagactive = 2, tagcount = 5\<rparr>"

theorem derive_reserve_release_witness:
  "do { (p, h1, th1) \<leftarrow> nchan_msg_derive_alloc [7 \<mapsto> sample_msg\<lparr>m_id := sample_wide_id\<rparr>] [50 \<mapsto> [1, 2, 3, 4, 5]] 7 (Some 8) (Some 51);
        (rc, h2) \<leftarrow> msg_reserve h1 8;
        msg_release h2 th1 8 } = Some (NGX_OK, [7 \<mapsto> sample_msg\<lparr>m_id := sample_wide_id\<rparr>], [50 \<mapsto> [1, 2, 3, 4, 5]])"
  by (rule derive_reserve_release [where sh = 7 and s = "sample_msg\<lparr>m_id := sample_wide_id\<rparr>" and par = "sample_msg\<lparr>m_id := sample_wide_id\<rparr>"])
    (simp_all add: sample_msg_def sample_wide_id_def get_shared_msg_def msgid_ok_def)

end
