(* ===== verification/Channel_Groups.thy ===== *)
theory Channel_Groups
  imports Message Link_Heap "HOL-Library.Multiset"
begin

text \<open>
  groups.c and the limit checks of memstore.c: channel groups, their counters in shared memory, and the
  limits placed on them.

  A worker keeps a tree of group nodes by name (the map \<open>gs_tree\<close>).  A node of a group this worker does
  not own starts without the shared record and asks the owner for it; accounting done in
  the meantime is queued on the node (\<open>when_ready\<close>, a linked list in C, a list here) and run when the
  record arrives.  The counters are 64 bits wide and updated by atomic additions, so they wrap.
\<close>

record nchan_group_limits =
  lim_channels :: uint64
  lim_subscribers :: uint64
  lim_messages :: uint64
  lim_messages_shmem_bytes :: uint64
  lim_messages_file_bytes :: uint64

record nchan_group =
  g_channels :: uint64
  g_multiplexed_channels :: uint64
  g_subscribers :: uint64
  g_messages :: uint64
  g_messages_shmem_bytes :: uint64
  g_messages_file_bytes :: uint64
  g_limit :: nchan_group_limits
  g_name :: string

text \<open>The callbacks a node queues; \<open>Client_cb\<close> is a caller's continuation.\<close>

datatype group_callback =
    Add_channel_cb int bool bool  \<comment> \<open>n, multi, self owned\<close>
  | Add_message_cb int nat nat    \<comment> \<open>n, bytes in memory, bytes in a file\<close>
  | Add_subscribers_cb int
  | Client_cb nat

record group_tree_node =
  gtn_name :: string
  gtn_group :: ptr
  when_ready :: "group_callback list"
  owned_chanhead_head :: ptr
  getting_group :: int

datatype group_ipc = Get_group int string | Broadcast_group addr | Broadcast_group_delete addr

type_synonym shm_groups = "addr \<Rightarrow> nchan_group option"
type_synonym client_calls = "(nat \<times> ngx_rc \<times> ptr) list"

subsection \<open>Counters\<close>

definition group_add_channel_internal :: "bool \<Rightarrow> bool \<Rightarrow> int \<Rightarrow> nchan_group \<Rightarrow> nchan_group" where
  "group_add_channel_internal multi self_owned n g =
     (if multi then g\<lparr>g_multiplexed_channels := g_multiplexed_channels g + of_int n\<rparr>
      else if self_owned then g\<lparr>g_channels := g_channels g + of_int n\<rparr> else g)"

definition group_add_message_internal :: "nat \<Rightarrow> nat \<Rightarrow> int \<Rightarrow> nchan_group \<Rightarrow> nchan_group" where
  "group_add_message_internal mem_sz file_sz n g =
     (let g = g\<lparr>g_messages := g_messages g + of_int n\<rparr>;
          g = g\<lparr>g_messages_shmem_bytes := g_messages_shmem_bytes g + of_int n * of_nat mem_sz\<rparr>
      in if file_sz > 0
         then g\<lparr>g_messages_file_bytes := g_messages_file_bytes g + of_int n * of_nat file_sz\<rparr> else g)"

definition group_add_subscribers_internal :: "int \<Rightarrow> nchan_group \<Rightarrow> nchan_group" where
  "group_add_subscribers_internal n g = g\<lparr>g_subscribers := g_subscribers g + of_int n\<rparr>"

text \<open>Each \<^verbatim>\<open>..._internal\<close> does nothing when the group is \<^verbatim>\<open>NULL\<close>.\<close>

definition on_group :: "ptr \<Rightarrow> (nchan_group \<Rightarrow> nchan_group) \<Rightarrow> shm_groups \<Rightarrow> shm_groups option" where
  "on_group p f shm = (case p of None \<Rightarrow> Some shm | Some a \<Rightarrow> do { g \<leftarrow> shm a; Some (shm(a \<mapsto> f g)) })"

fun run_callback ::
  "group_callback \<Rightarrow> ptr \<Rightarrow> shm_groups \<times> client_calls \<Rightarrow> (shm_groups \<times> client_calls) option" where
  "run_callback (Add_channel_cb n multi self_owned) p (shm, calls) = do {
     shm \<leftarrow> on_group p (group_add_channel_internal multi self_owned n) shm; Some (shm, calls) }"
| "run_callback (Add_message_cb n mem_sz file_sz) p (shm, calls) = do {
     shm \<leftarrow> on_group p (group_add_message_internal mem_sz file_sz n) shm; Some (shm, calls) }"
| "run_callback (Add_subscribers_cb n) p (shm, calls) = do {
     shm \<leftarrow> on_group p (group_add_subscribers_internal n) shm; Some (shm, calls) }"
| "run_callback (Client_cb k) p (shm, calls) =
     Some (shm, calls @ [(k, if p \<noteq> None then NGX_OK else NGX_ERROR, p)])"

text \<open>
  Queueing a callback.  When the list cell cannot be allocated the callback is called at once with an
  error; a request for the group is repeated after five seconds.
\<close>

definition add_whenready_callback ::
  "bool \<Rightarrow> int \<Rightarrow> int \<Rightarrow> group_tree_node \<Rightarrow> group_callback \<Rightarrow> shm_groups \<times> client_calls
     \<Rightarrow> (ngx_rc \<times> group_tree_node \<times> (shm_groups \<times> client_calls) \<times> group_ipc list) option" where
  "add_whenready_callback alloc_ok now owner gtn cb s =
     (if \<not> alloc_ok then do { s \<leftarrow> run_callback cb None s; Some (NGX_ERROR, gtn, s, []) }
      else
        let gtn = gtn\<lparr>when_ready := when_ready gtn @ [cb]\<rparr>
        in if now - getting_group gtn > 5
           then Some (NGX_OK, gtn\<lparr>getting_group := now\<rparr>, s, [Get_group owner (gtn_name gtn)])
           else Some (NGX_OK, gtn, s, []))"

fun run_callbacks ::
  "group_callback list \<Rightarrow> ptr \<Rightarrow> shm_groups \<times> client_calls \<Rightarrow> (shm_groups \<times> client_calls) option" where
  "run_callbacks [] p s = Some s"
| "run_callbacks (cb # cbs) p s = do { s \<leftarrow> run_callback cb p s; run_callbacks cbs p s }"

definition call_whenready_callbacks ::
  "group_tree_node \<Rightarrow> ptr \<Rightarrow> shm_groups \<times> client_calls
     \<Rightarrow> (group_tree_node \<times> shm_groups \<times> client_calls) option" where
  "call_whenready_callbacks gtn shm_group s = do {
     s \<leftarrow> run_callbacks (when_ready gtn) shm_group s;
     Some (gtn\<lparr>when_ready := []\<rparr>, s)
   }"

subsection \<open>Finding and receiving groups\<close>

definition memstore_group_find_from_groupnode ::
  "bool \<Rightarrow> int \<Rightarrow> int \<Rightarrow> group_tree_node option \<Rightarrow> nat \<Rightarrow> shm_groups \<times> client_calls
     \<Rightarrow> (ngx_rc \<times> group_tree_node option \<times> (shm_groups \<times> client_calls) \<times> group_ipc list) option" where
  "memstore_group_find_from_groupnode alloc_ok now owner node k s =
     (case node of
        None \<Rightarrow> (case s of (shm, calls) \<Rightarrow> Some (NGX_ERROR, None, (shm, calls @ [(k, NGX_ERROR, None)]), []))
      | Some gtn \<Rightarrow>
          (if gtn_group gtn \<noteq> None
           then (case s of (shm, calls) \<Rightarrow> Some (NGX_OK, Some gtn, (shm, calls @ [(k, NGX_OK, gtn_group gtn)]), []))
           else do {
             (rc, gtn, s, ipc) \<leftarrow> add_whenready_callback alloc_ok now owner gtn (Client_cb k) s;
             Some (NGX_OK, Some gtn, s, ipc)
           }))"

definition group_create_node :: "bool \<Rightarrow> string \<Rightarrow> ptr \<Rightarrow> group_tree_node option" where
  "group_create_node alloc_ok name shm_group =
     (if alloc_ok then Some \<lparr>gtn_name = name, gtn_group = shm_group, when_ready = [],
        owned_chanhead_head = None, getting_group = 0\<rparr> else None)"

definition empty_group :: "string \<Rightarrow> nchan_group" where
  "empty_group name = \<lparr>g_channels = 0, g_multiplexed_channels = 0, g_subscribers = 0, g_messages = 0,
     g_messages_shmem_bytes = 0, g_messages_file_bytes = 0,
     g_limit = \<lparr>lim_channels = 0, lim_subscribers = 0, lim_messages = 0, lim_messages_shmem_bytes = 0,
       lim_messages_file_bytes = 0\<rparr>, g_name = name\<rparr>"

definition group_owner_create_node ::
  "ptr \<Rightarrow> bool \<Rightarrow> string \<Rightarrow> shm_groups \<Rightarrow> group_tree_node option \<times> shm_groups \<times> group_ipc list" where
  "group_owner_create_node shm_alloc alloc_ok name shm =
     (case shm_alloc of
        None \<Rightarrow> (None, shm, [])
      | Some a \<Rightarrow>
          (case group_create_node alloc_ok name (Some a) of
             None \<Rightarrow> (None, shm(a := None), [])
           | Some gtn \<Rightarrow> (Some gtn, shm(a \<mapsto> empty_group name), [Broadcast_group a])))"

record groups_state =
  gs_tree :: "string \<Rightarrow> group_tree_node option"
  gs_shm :: shm_groups

definition memstore_groupnode_get ::
  "(string \<Rightarrow> int) \<Rightarrow> int \<Rightarrow> ptr \<Rightarrow> bool \<Rightarrow> string \<Rightarrow> groups_state
     \<Rightarrow> group_tree_node option \<times> groups_state \<times> group_ipc list" where
  "memstore_groupnode_get owner_of myslot shm_alloc alloc_ok name st =
     (case gs_tree st name of
        Some gtn \<Rightarrow> (Some gtn, st, [])
      | None \<Rightarrow>
          if owner_of name = myslot then
            (case group_owner_create_node shm_alloc alloc_ok name (gs_shm st) of
               (None, shm, ipc) \<Rightarrow> (None, st\<lparr>gs_shm := shm\<rparr>, ipc)
             | (Some gtn, shm, ipc) \<Rightarrow> (Some gtn, \<lparr>gs_tree = (gs_tree st)(name \<mapsto> gtn), gs_shm = shm\<rparr>, ipc))
          else
            (case group_create_node alloc_ok name None of
               None \<Rightarrow> (None, st, [])
             | Some gtn \<Rightarrow>
                 let gtn = gtn\<lparr>getting_group := 1\<rparr>
                 in (Some gtn, st\<lparr>gs_tree := (gs_tree st)(name \<mapsto> gtn)\<rparr>, [Get_group (owner_of name) name])))"

definition memstore_group_owner_find ::
  "(string \<Rightarrow> int) \<Rightarrow> int \<Rightarrow> ptr \<Rightarrow> bool \<Rightarrow> string \<Rightarrow> groups_state
     \<Rightarrow> (ptr \<times> bool \<times> groups_state \<times> group_ipc list) option" where
  "memstore_group_owner_find owner_of myslot shm_alloc alloc_ok name st = do {
     c_assert (owner_of name = myslot);
     Some (case gs_tree st name of
         Some gtn \<Rightarrow> (gtn_group gtn, False, st, [])
       | None \<Rightarrow>
           (case group_owner_create_node shm_alloc alloc_ok name (gs_shm st) of
              (None, shm, ipc) \<Rightarrow> (None, True, st\<lparr>gs_shm := shm\<rparr>, ipc)
            | (Some gtn, shm, ipc) \<Rightarrow>
                (gtn_group gtn, True, \<lparr>gs_tree = (gs_tree st)(name \<mapsto> gtn), gs_shm = shm\<rparr>, ipc)))
   }"

definition memstore_group_receive ::
  "(string \<Rightarrow> int) \<Rightarrow> int \<Rightarrow> bool \<Rightarrow> addr \<Rightarrow> groups_state \<Rightarrow> client_calls \<Rightarrow> (groups_state \<times> client_calls) option" where
  "memstore_group_receive owner_of myslot alloc_ok shm_group st calls = do {
     g \<leftarrow> gs_shm st shm_group;
     let name = g_name g;
     c_assert (owner_of name \<noteq> myslot);
     case gs_tree st name of
       Some gtn \<Rightarrow> do {
         let gtn = gtn\<lparr>gtn_group := Some shm_group, getting_group := 0\<rparr>;
         (gtn, shm, calls) \<leftarrow> call_whenready_callbacks gtn (Some shm_group) (gs_shm st, calls);
         Some (\<lparr>gs_tree = (gs_tree st)(name \<mapsto> gtn), gs_shm = shm\<rparr>, calls)
       }
     | None \<Rightarrow>
         Some (case group_create_node alloc_ok name (Some shm_group) of
                 None \<Rightarrow> st
               | Some gtn \<Rightarrow> st\<lparr>gs_tree := (gs_tree st)(name \<mapsto> gtn)\<rparr>, calls)
   }"

subsection \<open>Accounting\<close>

definition memstore_group_add_channel_generic ::
  "bool \<Rightarrow> bool \<Rightarrow> int \<Rightarrow> int \<Rightarrow> bool \<Rightarrow> bool \<Rightarrow> int \<Rightarrow> group_tree_node \<Rightarrow> shm_groups
     \<Rightarrow> (ngx_rc \<times> group_tree_node \<times> shm_groups) option" where
  "memstore_group_add_channel_generic alloc_d alloc_ok now owner multi self_owned n gtn shm =
     (if gtn_group gtn \<noteq> None
      then do { shm \<leftarrow> on_group (gtn_group gtn) (group_add_channel_internal multi self_owned n) shm; Some (NGX_OK, gtn, shm) }
      else if \<not> alloc_d then Some (NGX_ERROR, gtn, shm)
      else do {
        (rc, gtn, (shm, calls), ipc) \<leftarrow>
          add_whenready_callback alloc_ok now owner gtn (Add_channel_cb n multi self_owned) (shm, []);
        Some (NGX_OK, gtn, shm)
      })"

definition memstore_group_add_message_generic ::
  "bool \<Rightarrow> bool \<Rightarrow> int \<Rightarrow> int \<Rightarrow> abi_sizes \<Rightarrow> nchan_msg \<Rightarrow> int \<Rightarrow> group_tree_node \<Rightarrow> shm_groups
     \<Rightarrow> (ngx_rc \<times> group_tree_node \<times> shm_groups) option" where
  "memstore_group_add_message_generic alloc_d alloc_ok now owner z msg n gtn shm = do {
     let mem_sz = memstore_msg_memsize z msg;
     let file_sz = (if in_memory_only (m_buf msg) then 0 else buf_size (m_buf msg));
     if gtn_group gtn \<noteq> None
     then do { shm \<leftarrow> on_group (gtn_group gtn) (group_add_message_internal mem_sz file_sz n) shm; Some (NGX_OK, gtn, shm) }
     else if \<not> alloc_d then Some (NGX_ERROR, gtn, shm)
     else do {
       (rc, gtn, (shm, calls), ipc) \<leftarrow>
         add_whenready_callback alloc_ok now owner gtn (Add_message_cb n mem_sz file_sz) (shm, []);
       Some (NGX_OK, gtn, shm)
     }
   }"

definition memstore_group_add_subscribers ::
  "bool \<Rightarrow> int \<Rightarrow> int \<Rightarrow> int \<Rightarrow> group_tree_node \<Rightarrow> shm_groups \<Rightarrow> (ngx_rc \<times> group_tree_node \<times> shm_groups) option" where
  "memstore_group_add_subscribers alloc_ok now owner n gtn shm =
     (if gtn_group gtn \<noteq> None
      then do { shm \<leftarrow> on_group (gtn_group gtn) (group_add_subscribers_internal n) shm; Some (NGX_OK, gtn, shm) }
      else do {
        (rc, gtn, (shm, calls), ipc) \<leftarrow>
          add_whenready_callback alloc_ok now owner gtn (Add_subscribers_cb n) (shm, []);
        Some (NGX_OK, gtn, shm)
      })"

definition memstore_group_add_channel where
  "memstore_group_add_channel alloc_d alloc_ok now owner multi self_owned gtn shm =
     memstore_group_add_channel_generic alloc_d alloc_ok now owner multi self_owned 1 gtn shm"

definition memstore_group_remove_channel where
  "memstore_group_remove_channel alloc_d alloc_ok now owner multi self_owned gtn shm =
     memstore_group_add_channel_generic alloc_d alloc_ok now owner multi self_owned (-1) gtn shm"

definition memstore_group_add_message where
  "memstore_group_add_message alloc_d alloc_ok now owner z msg gtn shm =
     memstore_group_add_message_generic alloc_d alloc_ok now owner z msg 1 gtn shm"

definition memstore_group_remove_message where
  "memstore_group_remove_message alloc_d alloc_ok now owner z msg gtn shm =
     memstore_group_add_message_generic alloc_d alloc_ok now owner z msg (-1) gtn shm"

subsection \<open>The channels of a group\<close>

text \<open>
  The channels a worker owns in a group form a list through the channel heads; \<open>gn_prev\<close> and \<open>gn_next\<close> are
  the fields \<^verbatim>\<open>groupnode_prev\<close> and \<^verbatim>\<open>groupnode_next\<close>.
\<close>

definition gn_prev :: off where "gn_prev = 0"
definition gn_next :: off where "gn_next = 8"

definition memstore_group_associate_own_channel ::
  "bool \<Rightarrow> bool \<Rightarrow> group_tree_node \<Rightarrow> link_mem \<Rightarrow> addr \<Rightarrow> (group_tree_node \<times> link_mem) option" where
  "memstore_group_associate_own_channel self_owned multi gtn m ch = do {
     c_assert self_owned;
     if multi then Some (gtn, m)
     else do {
       let m = wr m ch gn_next (owned_chanhead_head gtn);
       let m = (case owned_chanhead_head gtn of None \<Rightarrow> m | Some h \<Rightarrow> wr m h gn_prev (Some ch));
       Some (gtn\<lparr>owned_chanhead_head := Some ch\<rparr>, m)
     }
   }"

definition memstore_group_dissociate_own_channel ::
  "bool \<Rightarrow> bool \<Rightarrow> group_tree_node \<Rightarrow> link_mem \<Rightarrow> addr \<Rightarrow> (group_tree_node \<times> link_mem) option" where
  "memstore_group_dissociate_own_channel self_owned multi gtn m ch = do {
     c_assert self_owned;
     (gtn, m) \<leftarrow> (if multi then Some (gtn, m)
       else do {
         let gtn = (if owned_chanhead_head gtn = Some ch then gtn\<lparr>owned_chanhead_head := m ch gn_next\<rparr> else gtn);
         m \<leftarrow> (case m ch gn_prev of None \<Rightarrow> Some m
               | Some p \<Rightarrow> do { c_assert (m p gn_next = Some ch); Some (wr m p gn_next (m ch gn_next)) });
         m \<leftarrow> (case m ch gn_next of None \<Rightarrow> Some m
               | Some n \<Rightarrow> do { c_assert (m n gn_prev = Some ch); Some (wr m n gn_prev (m ch gn_prev)) });
         Some (gtn, wr (wr m ch gn_prev None) ch gn_next None)
       });
     c_assert (owned_chanhead_head gtn \<noteq> Some ch);
     Some (gtn, m)
   }"

text \<open>
  Deleting a group: every channel of the list is dissociated and handed to \<^verbatim>\<open>delete_channel\<close>, in order; which channels those are is
  the result.  Only channels of this worker that are not multiplexed are ever linked into the list.
\<close>

partial_function (option) delete_owned_channels ::
  "group_tree_node \<Rightarrow> link_mem \<Rightarrow> addr list \<Rightarrow> (addr list \<times> group_tree_node \<times> link_mem) option" where
  "delete_owned_channels gtn m deleted =
     (case owned_chanhead_head gtn of
        None \<Rightarrow> Some (deleted, gtn, m)
      | Some ch \<Rightarrow> do {
          (gtn, m) \<leftarrow> memstore_group_dissociate_own_channel True False gtn m ch;
          delete_owned_channels gtn m (deleted @ [ch])
        })"

definition memstore_group_receive_delete ::
  "group_tree_node option \<Rightarrow> link_mem \<Rightarrow> shm_groups \<times> client_calls
     \<Rightarrow> (addr list \<times> group_tree_node option \<times> link_mem \<times> shm_groups \<times> client_calls) option" where
  "memstore_group_receive_delete node m s =
     (case node of
        None \<Rightarrow> Some ([], None, m, s)
      | Some gtn \<Rightarrow> do {
          (gtn, s) \<leftarrow> call_whenready_callbacks gtn None s;
          (deleted, gtn, m) \<leftarrow> delete_owned_channels gtn m [];
          Some (deleted, Some gtn, m, s)
        })"

subsection \<open>Limits\<close>

datatype limit_err = Messages_limit | Shmem_limit | File_limit | Channels_limit

datatype publish_decision =
    Publish                      \<comment> \<open>\<^verbatim>\<open>nchan_store_publish_message_generic\<close>\<close>
  | Internal_server_error
  | Forbidden limit_err

text \<open>
  \<open>local_chan\<close>: whether this worker has the channel; \<open>found_chan\<close>: what the asynchronous
  \<^verbatim>\<open>nchan_store_find_channel\<close> will report; \<open>n\<close>: the number of ids in the channel id; the comparisons are on signed
  64-bit numbers.
\<close>

definition group_publish_accounting_channelcheck :: "bool \<Rightarrow> publish_decision" where
  "group_publish_accounting_channelcheck found_chan = (if found_chan then Publish else Forbidden Channels_limit)"

definition group_publish_accounting_check ::
  "nchan_group option \<Rightarrow> abi_sizes \<Rightarrow> nat \<Rightarrow> nchan_msg \<Rightarrow> bool \<Rightarrow> bool \<Rightarrow> publish_decision" where
  "group_publish_accounting_check grp z n msg local_chan found_chan =
     (case grp of
        None \<Rightarrow> Internal_server_error
      | Some g \<Rightarrow>
          let lim = g_limit g in
          if \<not> (lim_messages lim = 0 \<or> sint (g_messages g) < sint (lim_messages lim)) then Forbidden Messages_limit
          else if lim_messages_shmem_bytes lim \<noteq> 0
               \<and> \<not> sint (g_messages_shmem_bytes g + of_nat n * of_nat (memstore_msg_memsize z msg))
                    \<le> sint (lim_messages_shmem_bytes lim) then Forbidden Shmem_limit
          else if lim_messages_file_bytes lim \<noteq> 0
               \<and> \<not> sint (g_messages_file_bytes g + of_nat (buf_size (m_buf msg))) \<le> sint (lim_messages_file_bytes lim)
               then Forbidden File_limit
          else if lim_channels lim \<noteq> 0 then
            if g_channels g + 1 = lim_channels lim then
              (if \<not> local_chan then group_publish_accounting_channelcheck found_chan else Publish)
            else if sint (g_channels g) \<ge> sint (lim_channels lim) then Forbidden Channels_limit
            else Publish
          else Publish)"

datatype subscribe_decision = Subscribe | Refuse

definition group_subscribe_accounting_check :: "nchan_group option \<Rightarrow> subscribe_decision" where
  "group_subscribe_accounting_check grp =
     (case grp of
        None \<Rightarrow> Refuse
      | Some g \<Rightarrow> if lim_subscribers (g_limit g) = 0 \<or> sint (g_subscribers g) < sint (lim_subscribers (g_limit g))
                  then Subscribe else Refuse)"

definition group_subscribe_channel_limit_check :: "nchan_group option \<Rightarrow> bool \<Rightarrow> subscribe_decision" where
  "group_subscribe_channel_limit_check grp found_chan =
     (case grp of
        None \<Rightarrow> Refuse
      | Some g \<Rightarrow>
          if lim_channels (g_limit g) = 0 \<or> sint (g_channels g) < sint (lim_channels (g_limit g)) then Subscribe
          else if lim_channels (g_limit g) \<noteq> 0 \<and> g_channels g = lim_channels (g_limit g)
               then (if found_chan then Subscribe else Refuse)
          else Refuse)"

subsection \<open>Deferred accounting is exact\<close>

datatype acct = Acct_channel bool bool int | Acct_message nchan_msg int | Acct_subscribers int

definition file_size :: "nchan_msg \<Rightarrow> nat" where
  "file_size msg = (if in_memory_only (m_buf msg) then 0 else buf_size (m_buf msg))"

fun acct_effect :: "abi_sizes \<Rightarrow> acct \<Rightarrow> nchan_group \<Rightarrow> nchan_group" where
  "acct_effect z (Acct_channel multi own n) = group_add_channel_internal multi own n"
| "acct_effect z (Acct_message msg n) = group_add_message_internal (memstore_msg_memsize z msg) (file_size msg) n"
| "acct_effect z (Acct_subscribers n) = group_add_subscribers_internal n"

fun acct_step :: "abi_sizes \<Rightarrow> int \<Rightarrow> int \<Rightarrow> acct \<Rightarrow> group_tree_node \<times> shm_groups \<Rightarrow> (group_tree_node \<times> shm_groups) option" where
  "acct_step z now owner (Acct_channel multi own n) (gtn, shm) =
     map_option snd (memstore_group_add_channel_generic True True now owner multi own n gtn shm)"
| "acct_step z now owner (Acct_message msg n) (gtn, shm) =
     map_option snd (memstore_group_add_message_generic True True now owner z msg n gtn shm)"
| "acct_step z now owner (Acct_subscribers n) (gtn, shm) =
     map_option snd (memstore_group_add_subscribers True now owner n gtn shm)"

fun acct_run :: "abi_sizes \<Rightarrow> int \<Rightarrow> int \<Rightarrow> acct list \<Rightarrow> group_tree_node \<times> shm_groups \<Rightarrow> (group_tree_node \<times> shm_groups) option" where
  "acct_run z now owner [] s = Some s"
| "acct_run z now owner (op # ops) s = do { s \<leftarrow> acct_step z now owner op s; acct_run z now owner ops s }"

fun acct_cb :: "abi_sizes \<Rightarrow> acct \<Rightarrow> group_callback" where
  "acct_cb z (Acct_channel multi own n) = Add_channel_cb n multi own"
| "acct_cb z (Acct_message msg n) = Add_message_cb n (memstore_msg_memsize z msg) (file_size msg)"
| "acct_cb z (Acct_subscribers n) = Add_subscribers_cb n"

lemma acct_step_queued:
  assumes "gtn_group gtn = None"
  shows "\<exists>gtn'. acct_step z now owner op (gtn, shm) = Some (gtn', shm) \<and> gtn_group gtn' = None
           \<and> when_ready gtn' = when_ready gtn @ [acct_cb z op]"
  using assms
  by (cases op) (auto simp: memstore_group_add_channel_generic_def memstore_group_add_message_generic_def
      memstore_group_add_subscribers_def add_whenready_callback_def Let_def file_size_def)

lemma acct_run_queued:
  "gtn_group gtn = None \<Longrightarrow>
     \<exists>gtn'. acct_run z now owner ops (gtn, shm) = Some (gtn', shm) \<and> gtn_group gtn' = None
       \<and> when_ready gtn' = when_ready gtn @ map (acct_cb z) ops"
proof (induction ops arbitrary: gtn)
  case Nil
  then show ?case by simp
next
  case (Cons op ops)
  from acct_step_queued [OF Cons.prems] obtain g1 where g1: "acct_step z now owner op (gtn, shm) = Some (g1, shm)"
    "gtn_group g1 = None" "when_ready g1 = when_ready gtn @ [acct_cb z op]" by blast
  from Cons.IH [OF g1(2)] g1 show ?case by auto
qed

lemma run_callbacks_acct:
  "shm a = Some g \<Longrightarrow>
     run_callbacks (map (acct_cb z) ops) (Some a) (shm, calls) = Some (shm(a \<mapsto> fold (acct_effect z) ops g), calls)"
proof (induction ops arbitrary: shm g)
  case Nil
  then show ?case by (simp add: map_upd_triv)
next
  case (Cons op ops)
  have "run_callback (acct_cb z op) (Some a) (shm, calls) = Some (shm(a \<mapsto> acct_effect z op g), calls)"
    using Cons.prems by (cases op) (auto simp: on_group_def)
  moreover have "run_callbacks (map (acct_cb z) ops) (Some a) (shm(a \<mapsto> acct_effect z op g), calls)
      = Some ((shm(a \<mapsto> acct_effect z op g))(a \<mapsto> fold (acct_effect z) ops (acct_effect z op g)), calls)"
    by (rule Cons.IH) simp
  ultimately show ?case by (simp add: fun_eq_iff)
qed

lemma acct_run_direct:
  "gtn_group gtn = Some a \<Longrightarrow> shm a = Some g \<Longrightarrow>
     acct_run z now owner ops (gtn, shm) = Some (gtn, shm(a \<mapsto> fold (acct_effect z) ops g))"
proof (induction ops arbitrary: shm g)
  case Nil
  then show ?case by (simp add: map_upd_triv)
next
  case (Cons op ops)
  have "acct_step z now owner op (gtn, shm) = Some (gtn, shm(a \<mapsto> acct_effect z op g))"
    using Cons.prems
    by (cases op) (auto simp: memstore_group_add_channel_generic_def memstore_group_add_message_generic_def
        memstore_group_add_subscribers_def on_group_def file_size_def Let_def)
  moreover have "acct_run z now owner ops (gtn, shm(a \<mapsto> acct_effect z op g))
      = Some (gtn, (shm(a \<mapsto> acct_effect z op g))(a \<mapsto> fold (acct_effect z) ops (acct_effect z op g)))"
    by (rule Cons.IH) (use Cons.prems in simp_all)
  ultimately show ?case by (simp add: fun_eq_iff)
qed

text \<open>
  C22: accounting done before a worker has received the shared record of a group is not lost: when the
  record arrives, the counters end up exactly as if every operation, early or late, had been
  applied to it directly and in order.
\<close>

theorem group_accounting_deferred_exact:
  assumes node: "gs_tree st (g_name g) = Some gtn" "gtn_group gtn = None" "when_ready gtn = []"
    and shm: "gs_shm st a = Some g" and foreign: "owner_of (g_name g) \<noteq> myslot"
  shows "\<exists>gtn1 st2 gtn2 gtn3.
     acct_run z now owner before (gtn, gs_shm st) = Some (gtn1, gs_shm st)
     \<and> memstore_group_receive owner_of myslot ok a (st\<lparr>gs_tree := (gs_tree st)(g_name g \<mapsto> gtn1)\<rparr>) [] = Some (st2, [])
     \<and> gs_tree st2 (g_name g) = Some gtn2
     \<and> acct_run z now owner after (gtn2, gs_shm st2)
         = Some (gtn3, (gs_shm st)(a \<mapsto> fold (acct_effect z) (before @ after) g))"
proof -
  from acct_run_queued [OF node(2), of z now owner before "gs_shm st"] node(3) obtain g1
    where g1: "acct_run z now owner before (gtn, gs_shm st) = Some (g1, gs_shm st)" "when_ready g1 = map (acct_cb z) before"
    by auto
  let ?g2 = "g1\<lparr>gtn_group := Some a, getting_group := 0, when_ready := []\<rparr>"
  let ?g = "fold (acct_effect z) before g"
  have rec: "memstore_group_receive owner_of myslot ok a (st\<lparr>gs_tree := (gs_tree st)(g_name g \<mapsto> g1)\<rparr>) []
      = Some (\<lparr>gs_tree = (gs_tree st)(g_name g \<mapsto> ?g2), gs_shm = (gs_shm st)(a \<mapsto> ?g)\<rparr>, [])"
    using shm foreign g1(2) run_callbacks_acct [of "gs_shm st" a g z before "[]"]
    by (simp add: memstore_group_receive_def call_whenready_callbacks_def Let_def)
  have "acct_run z now owner after (?g2, (gs_shm st)(a \<mapsto> ?g)) = Some (?g2, (gs_shm st)(a \<mapsto> fold (acct_effect z) after ?g))"
    using acct_run_direct [of ?g2 a "(gs_shm st)(a \<mapsto> ?g)" ?g z now owner after] by simp
  with g1 rec show ?thesis
    by (intro exI [of _ g1] exI [of _ ?g2] exI [of _ "\<lparr>gs_tree = (gs_tree st)(g_name g \<mapsto> ?g2), gs_shm = (gs_shm st)(a \<mapsto> ?g)\<rparr>"]) simp
qed

definition sample_node :: group_tree_node where
  "sample_node = \<lparr>gtn_name = ''g'', gtn_group = None, when_ready = [], owned_chanhead_head = None, getting_group = 1\<rparr>"

definition sample_abi :: abi_sizes where
  "sample_abi = \<lparr>sz_nchan_msg = 288, sz_ngx_str = 16, sz_ngx_file = 200, sz_compressed = 96\<rparr>"

theorem group_accounting_deferred_exact_witness:
  "\<exists>gtn1 st2 gtn2 gtn3.
     acct_run sample_abi 3 1 [Acct_subscribers 2] (sample_node, [5 \<mapsto> empty_group ''g'']) = Some (gtn1, [5 \<mapsto> empty_group ''g''])
     \<and> memstore_group_receive (\<lambda>_. 1) 0 True 5 (\<lparr>gs_tree = [''g'' \<mapsto> gtn1], gs_shm = [5 \<mapsto> empty_group ''g'']\<rparr>) [] = Some (st2, [])
     \<and> gs_tree st2 ''g'' = Some gtn2
     \<and> acct_run sample_abi 3 1 [Acct_subscribers (-1)] (gtn2, gs_shm st2)
         = Some (gtn3, [5 \<mapsto> (empty_group ''g'')\<lparr>g_subscribers := 1\<rparr>])"
  using group_accounting_deferred_exact [of "\<lparr>gs_tree = [''g'' \<mapsto> sample_node], gs_shm = [5 \<mapsto> empty_group ''g'']\<rparr>"
      "empty_group ''g''" sample_node 5 "\<lambda>_. 1" 0 sample_abi 3 1 "[Acct_subscribers 2]" True "[Acct_subscribers (-1)]"]
  by (simp add: sample_node_def empty_group_def group_add_subscribers_internal_def)

subsection \<open>The counters balance\<close>

text \<open>What the stores of the channels of a group report: a message was added to a channel, or removed from one.\<close>

datatype msg_event = Added nchan_msg | Removed nchan_msg

fun account_msgs :: "abi_sizes \<Rightarrow> int \<Rightarrow> int \<Rightarrow> msg_event list \<Rightarrow> group_tree_node \<times> shm_groups \<Rightarrow> (group_tree_node \<times> shm_groups) option" where
  "account_msgs z now owner [] s = Some s"
| "account_msgs z now owner (Added msg # es) (gtn, shm) = do {
     (rc, gtn, shm) \<leftarrow> memstore_group_add_message True True now owner z msg gtn shm;
     account_msgs z now owner es (gtn, shm)
   }"
| "account_msgs z now owner (Removed msg # es) (gtn, shm) = do {
     (rc, gtn, shm) \<leftarrow> memstore_group_remove_message True True now owner z msg gtn shm;
     account_msgs z now owner es (gtn, shm)
   }"

definition msgs_added :: "msg_event list \<Rightarrow> nchan_msg multiset" where
  "msgs_added es = mset (concat (map (\<lambda>e. case e of Added m \<Rightarrow> [m] | Removed m \<Rightarrow> []) es))"

definition msgs_removed :: "msg_event list \<Rightarrow> nchan_msg multiset" where
  "msgs_removed es = mset (concat (map (\<lambda>e. case e of Added m \<Rightarrow> [] | Removed m \<Rightarrow> [m]) es))"

text \<open>The sum of a size over what was added, less that over what was removed, in 64 bits.\<close>

definition net :: "(nchan_msg \<Rightarrow> nat) \<Rightarrow> msg_event list \<Rightarrow> uint64" where
  "net f es = of_nat (sum_mset (image_mset f (msgs_added es))) - of_nat (sum_mset (image_mset f (msgs_removed es)))"

lemma net_simps [simp]:
  "net f [] = 0" "net f (Added m # es) = of_nat (f m) + net f es" "net f (Removed m # es) = net f es - of_nat (f m)"
  by (simp_all add: net_def msgs_added_def msgs_removed_def)

definition add_net :: "abi_sizes \<Rightarrow> msg_event list \<Rightarrow> nchan_group \<Rightarrow> nchan_group" where
  "add_net z es g = g\<lparr>g_messages := g_messages g + net (\<lambda>m. 1) es,
     g_messages_shmem_bytes := g_messages_shmem_bytes g + net (memstore_msg_memsize z) es,
     g_messages_file_bytes := g_messages_file_bytes g + net file_size es\<rparr>"

lemma account_msgs_net:
  "\<lbrakk>gtn_group gtn = Some a; shm a = Some g\<rbrakk> \<Longrightarrow> account_msgs z now owner es (gtn, shm) = Some (gtn, shm(a \<mapsto> add_net z es g))"
proof (induction es arbitrary: shm g)
  case Nil
  then show ?case by (simp add: map_upd_triv add_net_def)
next
  case (Cons e es)
  show ?case
  proof (cases e)
    case (Added m)
    let ?g = "group_add_message_internal (memstore_msg_memsize z m) (file_size m) 1 g"
    have "add_net z es ?g = add_net z (e # es) g"
      by (cases g) (simp add: Added add_net_def group_add_message_internal_def Let_def add.assoc)
    moreover have "account_msgs z now owner es (gtn, shm(a \<mapsto> ?g)) = Some (gtn, (shm(a \<mapsto> ?g))(a \<mapsto> add_net z es ?g))"
      by (rule Cons.IH) (use Cons.prems in simp_all)
    ultimately have "account_msgs z now owner es (gtn, shm(a \<mapsto> ?g)) = Some (gtn, shm(a \<mapsto> add_net z (e # es) g))"
      by (simp only: fun_upd_upd)
    then show ?thesis using Cons.prems
      by (simp only: Added account_msgs.simps) (simp add: memstore_group_add_message_def memstore_group_add_message_generic_def on_group_def file_size_def [symmetric] Let_def fun_eq_iff)
  next
    case (Removed m)
    let ?g = "group_add_message_internal (memstore_msg_memsize z m) (file_size m) (-1) g"
    have "add_net z es ?g = add_net z (e # es) g"
      by (cases g) (simp add: Removed add_net_def group_add_message_internal_def Let_def algebra_simps)
    moreover have "account_msgs z now owner es (gtn, shm(a \<mapsto> ?g)) = Some (gtn, (shm(a \<mapsto> ?g))(a \<mapsto> add_net z es ?g))"
      by (rule Cons.IH) (use Cons.prems in simp_all)
    ultimately have "account_msgs z now owner es (gtn, shm(a \<mapsto> ?g)) = Some (gtn, shm(a \<mapsto> add_net z (e # es) g))"
      by (simp only: fun_upd_upd)
    then show ?thesis using Cons.prems
      by (simp only: Removed account_msgs.simps) (simp add: memstore_group_remove_message_def memstore_group_add_message_generic_def on_group_def file_size_def [symmetric] Let_def fun_eq_iff)
  qed
qed


definition sample_ready :: group_tree_node where
  "sample_ready = sample_node\<lparr>gtn_group := Some 5\<rparr>"


subsection \<open>The limits\<close>

lemma net_replicate: "net f (replicate n (Added m)) = of_nat (n * f m)"
  by (induction n) simp_all

lemma sint_add_small:
  assumes "0 \<le> sint (x :: uint64)" and "sint x + int k < 2 ^ 63"
  shows "sint (x + of_nat k) = sint x + int k"
proof -
  have "sint (of_nat k :: uint64) = int k" using assms by (simp add: signed_of_nat signed_take_bit_int_eq_self)
  then show ?thesis using assms by (simp add: sint_word_ariths signed_take_bit_int_eq_self)
qed

text \<open>
  C24: what the check of a publisher promises.  When a message is accepted and then added to the \<open>n\<close> channels it is for, the bytes in
  shared memory are within their limit, and the number of messages is past its limit by at most \<open>n - 1\<close>, since the check counts one
  message for all channels.  For a single channel nothing is past a limit that is set: not the messages, not the bytes in shared
  memory or in files, and not the channels if this message makes the channel.
\<close>

theorem group_publish_within_limits:
  assumes ok: "group_publish_accounting_check (Some g) z n msg loc found = Publish"
    and node: "gtn_group gtn = Some a" "shm a = Some g" and n: "0 < n"
    and msgs: "0 \<le> sint (g_messages g)" "sint (g_messages g) + int n < 2 ^ 63"
    and files: "0 \<le> sint (g_messages_file_bytes g)" "sint (g_messages_file_bytes g) + int (buf_size (m_buf msg)) < 2 ^ 63"
    and chans: "0 \<le> sint (g_channels g)"
  shows "\<exists>g'. account_msgs z now owner (replicate n (Added msg)) (gtn, shm) = Some (gtn, shm(a \<mapsto> g')) \<and>
     (lim_messages (g_limit g) = 0 \<or> sint (g_messages g') \<le> sint (lim_messages (g_limit g)) + int (n - 1)) \<and>
     (lim_messages_shmem_bytes (g_limit g) = 0 \<or> sint (g_messages_shmem_bytes g') \<le> sint (lim_messages_shmem_bytes (g_limit g))) \<and>
     (n = 1 \<longrightarrow> lim_messages_file_bytes (g_limit g) = 0 \<or> sint (g_messages_file_bytes g') \<le> sint (lim_messages_file_bytes (g_limit g))) \<and>
     (n = 1 \<and> \<not> loc \<and> \<not> found \<longrightarrow> lim_channels (g_limit g) = 0
        \<or> sint (g_channels (group_add_channel_internal False True 1 g')) \<le> sint (lim_channels (g_limit g)))"
proof -
  let ?l = "g_limit g" and ?g = "add_net z (replicate n (Added msg)) g"
  have run: "account_msgs z now owner (replicate n (Added msg)) (gtn, shm) = Some (gtn, shm(a \<mapsto> ?g))" by (rule account_msgs_net [of gtn a shm, OF node])
  note ok' = ok [unfolded group_publish_accounting_check_def group_publish_accounting_channelcheck_def Let_def]
  have "lim_messages ?l = 0 \<or> sint (g_messages ?g) \<le> sint (lim_messages ?l) + int (n - 1)"
    using ok' n sint_add_small [OF msgs] by (auto simp: add_net_def net_replicate of_nat_diff split: if_splits)
  moreover have "lim_messages_shmem_bytes ?l = 0 \<or> sint (g_messages_shmem_bytes ?g) \<le> sint (lim_messages_shmem_bytes ?l)"
    using ok' by (auto simp: add_net_def net_replicate split: if_splits)
  moreover have "lim_messages_file_bytes ?l = 0 \<or> sint (g_messages_file_bytes ?g) \<le> sint (lim_messages_file_bytes ?l)" if "n = 1"
    using ok' that sint_add_small [OF files] by (auto simp: add_net_def file_size_def split: if_splits)
  moreover have "lim_channels ?l = 0 \<or> sint (g_channels (group_add_channel_internal False True 1 ?g)) \<le> sint (lim_channels ?l)" if "\<not> loc" "\<not> found"
  proof -
    have "sint (g_channels g) < sint (lim_channels ?l)" if "lim_channels ?l \<noteq> 0" using ok' that \<open>\<not> loc\<close> \<open>\<not> found\<close> by (auto split: if_splits)
    moreover have "sint (lim_channels ?l) < 2 ^ 63" using sint_lt [of "lim_channels ?l"] by simp
    ultimately show ?thesis using sint_add_small [OF chans, of 1]
      by (cases "lim_channels ?l = 0") (simp_all add: add_net_def group_add_channel_internal_def)
  qed
  ultimately show ?thesis using run by blast
qed

text \<open>
  C37: the channel limit is enforced one channel too early for publishers: when one more
  channel would exactly reach the limit, publishing to a new channel is refused, although
  subscribing to it is accepted.
\<close>

theorem group_publish_channel_limit_off_by_one:
  assumes "lim_channels (g_limit g) = g_channels g + 1" and "lim_channels (g_limit g) \<noteq> 0"
    and "lim_messages (g_limit g) = 0" "lim_messages_shmem_bytes (g_limit g) = 0" "lim_messages_file_bytes (g_limit g) = 0"
    and "sint (g_channels g) < sint (g_channels g + 1)"
  shows "group_publish_accounting_check (Some g) z n msg False False = Forbidden Channels_limit
         \<and> group_subscribe_channel_limit_check (Some g) False = Subscribe"
  using assms
  by (simp add: group_publish_accounting_check_def group_publish_accounting_channelcheck_def
      group_subscribe_channel_limit_check_def)

definition one_channel_group :: nchan_group where
  "one_channel_group = (empty_group ''g'')\<lparr>g_limit := (g_limit (empty_group ''g''))\<lparr>lim_channels := 1\<rparr>\<rparr>"

theorem group_publish_channel_limit_off_by_one_witness:
  "group_publish_accounting_check (Some one_channel_group) sample_abi 1 sample_msg False False = Forbidden Channels_limit
   \<and> group_subscribe_channel_limit_check (Some one_channel_group) False = Subscribe"
  by (rule group_publish_channel_limit_off_by_one) (simp_all add: one_channel_group_def empty_group_def)

definition limited_group :: nchan_group where
  "limited_group = one_channel_group\<lparr>g_limit := (g_limit one_channel_group)\<lparr>lim_channels := 2, lim_messages := 1\<rparr>\<rparr>"

theorem group_publish_within_limits_witness:
  "\<exists>g'. account_msgs sample_abi 3 1 (replicate 2 (Added sample_msg)) (sample_ready, [5 \<mapsto> limited_group]) = Some (sample_ready, [5 \<mapsto> g'])
     \<and> sint (g_messages g') \<le> 2"
proof -
  have c: "group_publish_accounting_check (Some limited_group) sample_abi 2 sample_msg False True = Publish"
    by (simp add: limited_group_def one_channel_group_def empty_group_def group_publish_accounting_check_def)
  have lim: "lim_messages (g_limit limited_group) = 1" by (simp add: limited_group_def)
  have h: "gtn_group sample_ready = Some 5" "[5 \<mapsto> limited_group] 5 = Some limited_group" "0 < (2 :: nat)"
      "0 \<le> sint (g_messages limited_group)" "sint (g_messages limited_group) + int 2 < 2 ^ 63"
      "0 \<le> sint (g_messages_file_bytes limited_group)" "sint (g_messages_file_bytes limited_group) + int (buf_size (m_buf sample_msg)) < 2 ^ 63"
      "0 \<le> sint (g_channels limited_group)"
    by (simp_all add: sample_ready_def limited_group_def one_channel_group_def empty_group_def sample_msg_def sample_buf_def)
  show ?thesis using group_publish_within_limits [of limited_group sample_abi 2 sample_msg False True sample_ready 5 "[5 \<mapsto> limited_group]", OF c h]
    unfolding lim by (auto simp: fun_upd_upd)
qed

subsection \<open>The list of owned channels\<close>

definition owned_rep :: "group_tree_node \<Rightarrow> link_mem \<Rightarrow> addr list \<Rightarrow> bool" where
  "owned_rep gtn m xs \<longleftrightarrow>
     owned_chanhead_head gtn = first_of xs None \<and> distinct xs \<and> dlseg m gn_prev gn_next None xs None"

lemma gn_offsets [simp]: "gn_prev \<noteq> gn_next" "gn_next \<noteq> gn_prev"
  by (simp_all add: gn_prev_def gn_next_def)

lemma owned_rep_dll: "owned_rep gtn m xs \<longleftrightarrow> dll m gn_prev gn_next (owned_chanhead_head gtn) (last_of None xs) xs"
  by (auto simp: owned_rep_def dll_def)

lemma associate_rep:
  assumes "owned_rep gtn m xs" and "ch \<notin> set xs" and "m ch gn_prev = None"
  shows "\<exists>gtn' m'. memstore_group_associate_own_channel True False gtn m ch = Some (gtn', m') \<and> owned_rep gtn' m' (ch # xs)"
  using assms
  by (cases xs) (auto simp: memstore_group_associate_own_channel_def Let_def owned_rep_def)

lemma dissociate_rep:
  assumes "owned_rep gtn m (xs @ ch # ys)"
  shows "\<exists>gtn' m'. memstore_group_dissociate_own_channel True False gtn m ch = Some (gtn', m')
           \<and> owned_rep gtn' m' (xs @ ys) \<and> m' ch gn_prev = None \<and> m' ch gn_next = None
           \<and> when_ready gtn' = when_ready gtn"
proof -
  let ?m = "unlink m gn_prev gn_next (m ch gn_prev) (m ch gn_next)"
  have d: "dll m gn_prev gn_next (owned_chanhead_head gtn) (last_of None (xs @ ch # ys)) (xs @ ch # ys)"
    using assms by (simp add: owned_rep_dll)
  have nb: "m ch gn_prev = last_of None xs" "m ch gn_next = first_of ys None"
    and dist: "distinct (xs @ ch # ys)" using d dlseg_member by (auto simp: dll_def)
  have u: "dll ?m gn_prev gn_next (if owned_chanhead_head gtn = Some ch then m ch gn_next else owned_chanhead_head gtn)
      (if last_of None (xs @ ch # ys) = Some ch then m ch gn_prev else last_of None (xs @ ch # ys)) (xs @ ys)"
    by (rule dll_unlink [OF d])
  have p: "m p gn_next = Some ch" "p \<noteq> ch" if "m ch gn_prev = Some p" for p
  proof -
    from that nb obtain zs where zs: "xs = zs @ [p]" using last_of_eq_SomeD by metis
    with d dlseg_member(2) [of m gn_prev gn_next None zs p "ch # ys" None] show "m p gn_next = Some ch"
      by (simp add: dll_def)
    show "p \<noteq> ch" using zs dist by auto
  qed
  have n: "m n gn_prev = Some ch" "n \<noteq> ch" if "m ch gn_next = Some n" for n
  proof -
    from that nb obtain zs where zs: "ys = n # zs" using first_of_eq_SomeD by metis
    with d dlseg_member(1) [of m gn_prev gn_next None "xs @ [ch]" n zs None] show "m n gn_prev = Some ch"
      by (simp add: dll_def)
    show "n \<noteq> ch" using zs dist by auto
  qed
  let ?g = "if owned_chanhead_head gtn = Some ch then gtn\<lparr>owned_chanhead_head := m ch gn_next\<rparr> else gtn"
  have hd: "owned_chanhead_head ?g = first_of (xs @ ys) None" using u by (auto simp: dll_def split: if_splits)
  then have ne: "owned_chanhead_head ?g \<noteq> Some ch" using dist by (auto dest: first_of_in)
  have "memstore_group_dissociate_own_channel True False gtn m ch = Some (?g, wr (wr ?m ch gn_prev None) ch gn_next None)"
    using p n ne
    by (auto simp: memstore_group_dissociate_own_channel_def Let_def unlink_def split: option.splits)
  moreover have "owned_rep ?g (wr (wr ?m ch gn_prev None) ch gn_next None) (xs @ ys)"
    unfolding owned_rep_def using hd u dist by (simp add: dll_def)
  ultimately show ?thesis by auto
qed

lemma delete_owned_channels_rep:
  "owned_rep gtn m xs \<Longrightarrow>
     \<exists>gtn' m'. delete_owned_channels gtn m acc = Some (acc @ xs, gtn', m') \<and> owned_rep gtn' m' []
       \<and> when_ready gtn' = when_ready gtn"
proof (induction xs arbitrary: gtn m acc)
  case Nil
  then show ?case by (subst delete_owned_channels.simps) (auto simp: owned_rep_def)
next
  case (Cons ch ys)
  from dissociate_rep [of gtn m "[]" ch ys] Cons.prems obtain g1 m1 where
    "memstore_group_dissociate_own_channel True False gtn m ch = Some (g1, m1)" "owned_rep g1 m1 ys"
    "when_ready g1 = when_ready gtn" by auto
  moreover from Cons.IH [OF this(2), of "acc @ [ch]"] obtain g2 m2 where
    "delete_owned_channels g1 m1 (acc @ [ch]) = Some (acc @ ch # ys, g2, m2)" "owned_rep g2 m2 []"
    "when_ready g2 = when_ready g1" by auto
  moreover have "owned_chanhead_head gtn = Some ch" using Cons.prems by (simp add: owned_rep_def)
  ultimately show ?case by (subst delete_owned_channels.simps) simp
qed

text \<open>
  C25: deleting a group deletes every channel the worker owns in it, each exactly once, and leaves
  the group without channels; callers waiting for the group are told that there is none.
\<close>

theorem group_delete_deletes_all_channels:
  assumes "owned_rep gtn m xs" and "when_ready gtn = map Client_cb ks"
  shows "\<exists>gtn' m'. memstore_group_receive_delete (Some gtn) m (shm, calls)
             = Some (xs, Some gtn', m', shm, calls @ map (\<lambda>k. (k, NGX_ERROR, None)) ks)
           \<and> owned_rep gtn' m' [] \<and> when_ready gtn' = []"
proof -
  have "run_callbacks (map Client_cb ks) None (shm, calls) = Some (shm, calls @ map (\<lambda>k. (k, NGX_ERROR, None)) ks)"
    by (induction ks arbitrary: calls) auto
  moreover have "owned_rep (gtn\<lparr>when_ready := []\<rparr>) m xs" using assms(1) by (simp add: owned_rep_def)
  from delete_owned_channels_rep [OF this, of "[]"] obtain g1 m1
    where "delete_owned_channels (gtn\<lparr>when_ready := []\<rparr>) m [] = Some (xs, g1, m1)" "owned_rep g1 m1 []"
      "when_ready g1 = []" by auto
  ultimately show ?thesis
    using assms(2) by (simp add: memstore_group_receive_delete_def call_whenready_callbacks_def)
qed

theorem group_delete_deletes_all_channels_witness:
  "\<exists>gtn' m'. memstore_group_receive_delete (Some (sample_node\<lparr>owned_chanhead_head := Some 10, when_ready := [Client_cb 3]\<rparr>))
       (\<lambda>a f. if a = 10 \<and> f = gn_next then Some 20 else if a = 20 \<and> f = gn_prev then Some 10 else None) ((\<lambda>_. None), [])
     = Some ([10, 20], Some gtn', m', (\<lambda>_. None), [(3, NGX_ERROR, None)])
     \<and> owned_rep gtn' m' [] \<and> when_ready gtn' = []"
  using group_delete_deletes_all_channels [of "sample_node\<lparr>owned_chanhead_head := Some 10, when_ready := [Client_cb 3]\<rparr>"
      "\<lambda>a f. if a = 10 \<and> f = gn_next then Some 20 else if a = 20 \<and> f = gn_prev then Some 10 else None" "[10, 20]" "[3]" "\<lambda>_. None" "[]"]
  by (simp add: owned_rep_def)

end
