(* ===== verification/Chan_Messages.thy ===== *)
theory Chan_Messages
  imports Channel_Groups "HOL-Library.Product_Lexorder"
begin

text \<open>
  memstore.c: the message buffer of a channel, in the worker that owns the channel.

  Messages are linked oldest first through \<^verbatim>\<open>store_message_t\<close> cells.  The links of the cells are a
  \<open>link_mem\<close> (fields \<open>sm_prev\<close>, \<open>sm_next\<close>), \<open>bm_msgs\<close> gives the message of a cell.  Cells handed to
  \<^verbatim>\<open>nchan_reaper_add(&mpt->msg_reaper, ...)\<close> and calls of the group accounting are recorded in order in
  \<open>bm_reaped\<close> and \<open>bm_group\<close> (\<open>Reaper\<close> and \<open>Channel_Groups\<close> say what they do).  \<open>slot\<close> is \<^verbatim>\<open>memstore_slot()\<close>
  and \<open>now\<close> is \<^verbatim>\<open>ngx_time()\<close>.

  The reaper links the cells it keeps through the same \<^verbatim>\<open>prev\<close> and \<^verbatim>\<open>next\<close> fields and later frees cell and message.
  A deleted cell is no member of the buffer, so neither touches the cells the buffer holds; the model leaves the
  links and the message of a deleted cell as they were, and no operation reads them again.
\<close>

definition sm_prev :: off where "sm_prev = 8"
definition sm_next :: off where "sm_next = 16"

record chanhead =
  ch_owner :: int
  ch_max_messages :: uint64
  ch_msg_first :: ptr
  ch_msg_last :: ptr
  ch_stored_message_count :: uint64
  ch_total_message_count :: uint64
  ch_latest_msgid :: nchan_msg_id
  ch_msg_buffer_complete :: bool
  ch_groupnode :: bool

record buf_mem =
  bm_links :: link_mem
  bm_msgs :: "addr \<Rightarrow> nchan_msg option"
  bm_reaped :: "addr list"
  bm_group :: "acct list"

type_synonym chan_state = "chanhead \<times> buf_mem"

subsection \<open>Deleting and collecting\<close>

definition chanhead_delete_message :: "chanhead \<Rightarrow> buf_mem \<Rightarrow> addr \<Rightarrow> chan_state option" where
  "chanhead_delete_message ch m a = do {
     msg \<leftarrow> bm_msgs m a;
     let nxt = bm_links m a sm_next;
     let prev = bm_links m a sm_prev;
     let ch = (if ch_msg_first ch = Some a then ch\<lparr>ch_msg_first := nxt\<rparr> else ch);
     let ch = (if ch_msg_last ch = Some a then ch\<lparr>ch_msg_last := prev\<rparr> else ch);
     let m = (case nxt of None \<Rightarrow> m | Some n \<Rightarrow> m\<lparr>bm_links := wr (bm_links m) n sm_prev prev\<rparr>);
     c_assert (prev = None);
     let ch = ch\<lparr>ch_stored_message_count := ch_stored_message_count ch - 1\<rparr>;
     let m = (if ch_groupnode ch then m\<lparr>bm_group := bm_group m @ [Acct_message msg (-1)]\<rparr> else m);
     Some (ch, m\<lparr>bm_reaped := bm_reaped m @ [a]\<rparr>)
   }"

partial_function (option) gc_overflow :: "int \<Rightarrow> ptr \<Rightarrow> chanhead \<Rightarrow> buf_mem \<Rightarrow> (ptr \<times> chan_state) option" where
  "gc_overflow max_messages cur ch m =
     (if cur \<noteq> None \<and> max_messages \<ge> 0 \<and> ch_stored_message_count ch > of_int max_messages then do {
        a \<leftarrow> cur;
        let nxt = bm_links m a sm_next;
        (ch, m) \<leftarrow> chanhead_delete_message ch m a;
        gc_overflow max_messages nxt ch m
      }
      else Some (cur, ch, m))"

partial_function (option) gc_expired :: "int \<Rightarrow> ptr \<Rightarrow> chanhead \<Rightarrow> buf_mem \<Rightarrow> chan_state option" where
  "gc_expired now cur ch m =
     (case cur of
        None \<Rightarrow> Some (ch, m)
      | Some a \<Rightarrow> do {
          msg \<leftarrow> bm_msgs m a;
          if now > m_expires msg then do {
            let nxt = bm_links m a sm_next;
            (ch, m) \<leftarrow> chanhead_delete_message ch m a;
            gc_expired now nxt ch m
          }
          else Some (ch, m)
        })"

definition chanhead_messages_gc_custom ::
  "int \<Rightarrow> int \<Rightarrow> chanhead \<Rightarrow> buf_mem \<Rightarrow> int \<Rightarrow> chan_state option" where
  "chanhead_messages_gc_custom slot now ch m max_messages =
     (if ch_owner ch \<noteq> slot then do {
        c_assert (ch_msg_first ch = None);
        c_assert (ch_msg_last ch = None);
        Some (ch, m)
      }
      else do {
        (cur, ch, m) \<leftarrow> gc_overflow max_messages (ch_msg_first ch) ch m;
        gc_expired now cur ch m
      })"

definition memstore_chanhead_messages_gc :: "int \<Rightarrow> int \<Rightarrow> chanhead \<Rightarrow> buf_mem \<Rightarrow> chan_state option" where
  "memstore_chanhead_messages_gc slot now ch m =
     chanhead_messages_gc_custom slot now ch m (sint (ch_max_messages ch))"

definition chanhead_messages_delete :: "int \<Rightarrow> int \<Rightarrow> chanhead \<Rightarrow> buf_mem \<Rightarrow> chan_state option" where
  "chanhead_messages_delete slot now ch m = chanhead_messages_gc_custom slot now ch m 0"

subsection \<open>Finding the next message\<close>

datatype nchan_msg_status =
  MSG_ERROR | MSG_CHANNEL_NOTREADY | MSG_INVALID | MSG_PENDING | MSG_NOTFOUND | MSG_FOUND | MSG_EXPECTED | MSG_EXPIRED

text \<open>The first tag of a message whose id has its tags inline.\<close>

definition tag0 :: "nchan_msg_id \<Rightarrow> int option" where
  "tag0 i = (case tag i of Fixed (t # _) \<Rightarrow> Some (sint t) | _ \<Rightarrow> None)"

partial_function (option) nth_loop :: "(addr \<Rightarrow> ptr) \<Rightarrow> int \<Rightarrow> ptr \<Rightarrow> ptr \<Rightarrow> ptr option" where
  "nth_loop step n prev cur =
     (if cur \<noteq> None \<and> n > 1 then nth_loop step (n - 1) cur (step (the cur))
      else Some (if cur \<noteq> None then cur else prev))"

definition found_or_expected :: "ptr \<Rightarrow> nchan_msg_status \<times> ptr" where
  "found_or_expected nxt = (if nxt \<noteq> None then MSG_FOUND else MSG_EXPECTED, nxt)"

partial_function (option) search_back ::
  "int \<Rightarrow> int \<Rightarrow> ptr \<Rightarrow> buf_mem \<Rightarrow> (nchan_msg_status \<times> ptr) option" where
  "search_back mid_time mid_tag cur m =
     (case cur of
        None \<Rightarrow> Some (MSG_NOTFOUND, None)
      | Some a \<Rightarrow> do {
          msg \<leftarrow> bm_msgs m a;
          t \<leftarrow> tag0 (m_id msg);
          if mid_time > time (m_id msg) \<or> mid_time = time (m_id msg) \<and> mid_tag \<ge> t
          then Some (found_or_expected (bm_links m a sm_next))
          else search_back mid_time mid_tag (bm_links m a sm_prev) m
        })"

definition chanhead_find_next_message ::
  "int \<Rightarrow> int \<Rightarrow> chan_state option \<Rightarrow> nchan_msg_id \<Rightarrow> (nchan_msg_status \<times> ptr \<times> chan_state option) option" where
  "chanhead_find_next_message slot now st msgid =
     (case st of
        None \<Rightarrow> Some (MSG_NOTFOUND, None, None)
      | Some (ch, m) \<Rightarrow> do {
          c_assert (ch_msg_buffer_complete ch);
          c_assert (ch_owner ch = slot);
          (ch, m) \<leftarrow> memstore_chanhead_messages_gc slot now ch m;
          case ch_msg_last ch of
            None \<Rightarrow>
              Some (if time msgid = NCHAN_OLDEST_MSGID_TIME \<or> ch_max_messages ch = 0 then MSG_EXPECTED
                    else MSG_NOTFOUND, None, Some (ch, m))
          | Some l \<Rightarrow>
              if time msgid = NCHAN_NEWEST_MSGID_TIME then Some (MSG_EXPECTED, None, Some (ch, m))
              else do {
                let mid_time = time msgid;
                mid_tag \<leftarrow> tag0 msgid;
                if mid_time = NCHAN_NTH_MSGID_TIME then do {
                  let direction = (if mid_tag > 0 then 1 else -1);
                  c_assert (mid_tag \<noteq> 0);
                  found \<leftarrow> nth_loop (\<lambda>a. bm_links m a (if direction > 0 then sm_next else sm_prev))
                    (mid_tag * direction) None (if direction > 0 then ch_msg_first ch else ch_msg_last ch);
                  Some (if found \<noteq> None then MSG_FOUND else MSG_EXPECTED, found, Some (ch, m))
                }
                else do {
                  f \<leftarrow> ch_msg_first ch;
                  fmsg \<leftarrow> bm_msgs m f;
                  c_assert (tagcount msgid = 1 \<and> tagcount (m_id fmsg) = 1);
                  ft \<leftarrow> tag0 (m_id fmsg);
                  if mid_time < time (m_id fmsg) \<or> mid_time = time (m_id fmsg) \<and> mid_tag < ft
                  then Some (MSG_FOUND, Some f, Some (ch, m))
                  else do {
                    (status, p) \<leftarrow> search_back mid_time mid_tag (Some l) m;
                    Some (status, p, Some (ch, m))
                  }
                }
              }
        })"

subsection \<open>Publishing\<close>

text \<open>Writing \<^verbatim>\<open>id.tag.fixed[0]\<close> of an id with inline tags.\<close>

definition set_tag0 :: "nchan_msg_id \<Rightarrow> int16 \<Rightarrow> nchan_msg_id option" where
  "set_tag0 i t = (case tag i of Fixed ts \<Rightarrow> map_option (\<lambda>ts'. i\<lparr>tag := Fixed ts'\<rparr>) (arr_set ts 0 t) | Allocd _ \<Rightarrow> None)"

definition tag0w :: "nchan_msg_id \<Rightarrow> int16 option" where
  "tag0w i = (case tag i of Fixed (t # _) \<Rightarrow> Some t | _ \<Rightarrow> None)"

text \<open>
  \<open>distributed\<close> is \<^verbatim>\<open>redis.enabled && redis.storage_mode >= REDIS_MODE_DISTRIBUTED\<close>.  The tag is 16 bits wide: the
  increment wraps.
\<close>

definition chanhead_push_message ::
  "int \<Rightarrow> int \<Rightarrow> bool \<Rightarrow> chanhead \<Rightarrow> buf_mem \<Rightarrow> addr \<Rightarrow> (ngx_rc \<times> chan_state) option" where
  "chanhead_push_message slot now distributed ch m a = do {
     msg \<leftarrow> bm_msgs m a;
     let prev = ch_msg_last ch;
     let links = wr (wr (bm_links m) a sm_next None) a sm_prev prev;
     c_assert (tagcount (m_id msg) = 1);
     (links, pid) \<leftarrow> (case prev of
         Some l \<Rightarrow> do { lmsg \<leftarrow> bm_msgs m l; Some (wr links l sm_next (Some a), m_id lmsg) }
       | None \<Rightarrow> do {
           pid \<leftarrow> set_tag0 ((m_prev_id msg)\<lparr>time := 0\<rparr>) 0;
           Some (links, pid\<lparr>tagcount := 1\<rparr>)
         });
     let msg = msg\<lparr>m_prev_id := pid\<rparr>;
     let msg = (if time (m_id msg) = 0 then msg\<lparr>m_id := (m_id msg)\<lparr>time := now\<rparr>\<rparr> else msg);
     last_same \<leftarrow> (case prev of
         None \<Rightarrow> Some None
       | Some l \<Rightarrow> do {
           lmsg \<leftarrow> bm_msgs m l;
           if time (m_id lmsg) = time (m_id msg) then map_option Some (tag0w (m_id lmsg)) else Some None
         });
     i \<leftarrow> (case last_same of
         Some t \<Rightarrow> set_tag0 (m_id msg) (t + 1)
       | None \<Rightarrow> if \<not> distributed then set_tag0 (m_id msg) 0 else Some (m_id msg));
     let msg = msg\<lparr>m_id := i\<rparr>;
     let ch = (if ch_msg_first ch = None then ch\<lparr>ch_msg_first := Some a\<rparr> else ch);
     let ch = ch\<lparr>ch_stored_message_count := ch_stored_message_count ch + 1,
                 ch_total_message_count := ch_total_message_count ch + 1\<rparr>;
     let m = m\<lparr>bm_links := links, bm_msgs := (bm_msgs m)(a \<mapsto> msg)\<rparr>;
     let m = (if ch_groupnode ch then m\<lparr>bm_group := bm_group m @ [Acct_message msg 1]\<rparr> else m);
     let ch = ch\<lparr>ch_msg_last := Some a\<rparr>;
     (ch, m) \<leftarrow> memstore_chanhead_messages_gc slot now ch m;
     Some (if ch_msg_last ch = Some a then NGX_OK else NGX_ERROR, ch, m)
   }"

subsection \<open>The messages a buffer holds\<close>

definition buf_rep :: "chanhead \<Rightarrow> buf_mem \<Rightarrow> addr list \<Rightarrow> bool" where
  "buf_rep ch m xs \<longleftrightarrow>
     dll (bm_links m) sm_prev sm_next (ch_msg_first ch) (ch_msg_last ch) xs
     \<and> ch_stored_message_count ch = of_nat (length xs) \<and> length xs < 2 ^ 63
     \<and> (\<forall>x \<in> set xs. bm_msgs m x \<noteq> None)"

definition msg_at :: "buf_mem \<Rightarrow> addr \<Rightarrow> nchan_msg" where
  "msg_at m a = the (bm_msgs m a)"

text \<open>\<open>removed ch m ds ch' m'\<close>: the messages \<open>ds\<close> were handed to the reaper and their accounting undone, nothing else happened.\<close>

definition removed :: "chanhead \<Rightarrow> buf_mem \<Rightarrow> addr list \<Rightarrow> chanhead \<Rightarrow> buf_mem \<Rightarrow> bool" where
  "removed ch m ds ch' m' \<longleftrightarrow>
     bm_msgs m' = bm_msgs m \<and> bm_reaped m' = bm_reaped m @ ds
     \<and> bm_group m' = bm_group m @ (if ch_groupnode ch then map (\<lambda>d. Acct_message (msg_at m d) (-1)) ds else [])
     \<and> ch_owner ch' = ch_owner ch \<and> ch_max_messages ch' = ch_max_messages ch
     \<and> ch_total_message_count ch' = ch_total_message_count ch \<and> ch_latest_msgid ch' = ch_latest_msgid ch
     \<and> ch_msg_buffer_complete ch' = ch_msg_buffer_complete ch \<and> ch_groupnode ch' = ch_groupnode ch"

lemma sm_offsets [simp]: "sm_prev \<noteq> sm_next" "sm_next \<noteq> sm_prev"
  by (simp_all add: sm_prev_def sm_next_def)

lemma removed_Nil [simp]: "removed ch m [] ch m"
  by (simp add: removed_def)

lemma removed_trans:
  "removed ch m ds ch1 m1 \<Longrightarrow> removed ch1 m1 es ch2 m2 \<Longrightarrow> removed ch m (ds @ es) ch2 m2"
  by (auto simp: removed_def msg_at_def)

lemma removed_msg_at: "removed ch m ds ch' m' \<Longrightarrow> msg_at m' = msg_at m"
  by (auto simp: removed_def msg_at_def)

lemma buf_rep_ends:
  "buf_rep ch m xs \<Longrightarrow> ch_msg_first ch = first_of xs None \<and> ch_msg_last ch = last_of None xs \<and> distinct xs"
  by (simp add: buf_rep_def dll_def)

lemma buf_rep_links:
  assumes "buf_rep ch m (xs @ x # ys)"
  shows "bm_links m x sm_prev = last_of None xs" "bm_links m x sm_next = first_of ys None"
  using assms dlseg_member [of "bm_links m" sm_prev sm_next None xs x ys None]
  by (auto simp: buf_rep_def dll_def)

lemma delete_head:
  assumes "buf_rep ch m (x # xs)"
  shows "\<exists>ch' m'. chanhead_delete_message ch m x = Some (ch', m') \<and> buf_rep ch' m' xs \<and> removed ch m [x] ch' m'"
proof -
  let ?u = "unlink (bm_links m) sm_prev sm_next None (first_of xs None)"
  have d: "dll (bm_links m) sm_prev sm_next (ch_msg_first ch) (ch_msg_last ch) ([] @ x # xs)"
    using assms by (simp add: buf_rep_def)
  have l: "bm_links m x sm_prev = None" "bm_links m x sm_next = first_of xs None"
    using buf_rep_links [of ch m "[]" x xs] assms by simp_all
  have e: "ch_msg_first ch = Some x" using buf_rep_ends [OF assms] by simp
  have u: "dll ?u sm_prev sm_next (first_of xs None) (if ch_msg_last ch = Some x then None else ch_msg_last ch) xs"
    using dll_unlink [OF d, unfolded l e] by simp
  obtain msg where msg: "bm_msgs m x = Some msg" using assms by (auto simp: buf_rep_def)
  let ?ch = "ch\<lparr>ch_msg_first := first_of xs None, ch_msg_last := (if ch_msg_last ch = Some x then None else ch_msg_last ch),
     ch_stored_message_count := ch_stored_message_count ch - 1\<rparr>"
  let ?m = "m\<lparr>bm_links := ?u, bm_group := bm_group m @ (if ch_groupnode ch then [Acct_message msg (-1)] else []),
     bm_reaped := bm_reaped m @ [x]\<rparr>"
  have "chanhead_delete_message ch m x = Some (?ch, ?m)"
    using msg l e
    by (cases m) (auto simp: chanhead_delete_message_def Let_def unlink_def split: option.splits)
  moreover have "buf_rep ?ch ?m xs" using u assms by (simp add: buf_rep_def split del: if_split)
  moreover have "removed ch m [x] ?ch ?m" using msg by (simp add: removed_def msg_at_def)
  ultimately show ?thesis by blast
qed

lemma count_gt:
  assumes "n < 2 ^ 63" and "0 \<le> lim"  and "lim < 2 ^ 63"
  shows "(of_nat n :: uint64) > of_int lim \<longleftrightarrow> n > nat lim"
proof -
  obtain k where k: "lim = int k" using assms(2) nonneg_int_cases by blast
  have "unat (of_nat n :: uint64) = n" "unat (of_nat k :: uint64) = k"
    using assms k by (simp_all add: unat_of_nat)
  then show ?thesis by (simp add: word_less_nat_alt k)
qed

lemma gc_overflow_rep:
  assumes "buf_rep ch m xs" and "lim < 2 ^ 63"
  shows "\<exists>ch' m'. gc_overflow lim (first_of xs None) ch m =
             Some (first_of (if lim < 0 then xs else drop (length xs - nat lim) xs) None, ch', m')
           \<and> buf_rep ch' m' (if lim < 0 then xs else drop (length xs - nat lim) xs)
           \<and> removed ch m (if lim < 0 then [] else take (length xs - nat lim) xs) ch' m'"
  using assms
proof (induction xs arbitrary: ch m)
  case Nil
  then show ?case by (subst gc_overflow.simps) simp
next
  case (Cons x xs)
  have cnt: "ch_stored_message_count ch = of_nat (length (x # xs))" "length (x # xs) < 2 ^ 63"
    using Cons.prems(1) by (simp_all add: buf_rep_def)
  consider "lim < 0" | "0 \<le> lim" "length (x # xs) \<le> nat lim" | "0 \<le> lim" "length (x # xs) > nat lim" by linarith
  then show ?case
  proof cases
    case 1
    with Cons.prems show ?thesis by (subst gc_overflow.simps) simp
  next
    case 2
    have "\<not> ch_stored_message_count ch > of_int lim"
      unfolding cnt(1) count_gt [OF cnt(2) 2(1) Cons.prems(2)] using 2(2) by simp
    with 2 Cons.prems(1) show ?thesis by (subst gc_overflow.simps) simp
  next
    case 3
    have gt: "ch_stored_message_count ch > of_int lim"
      unfolding cnt(1) count_gt [OF cnt(2) 3(1) Cons.prems(2)] using 3(2) by simp
    obtain ch1 m1 where st: "chanhead_delete_message ch m x = Some (ch1, m1)" "buf_rep ch1 m1 xs" "removed ch m [x] ch1 m1"
      using delete_head [OF Cons.prems(1)] by blast
    obtain ch2 m2 where ih: "gc_overflow lim (first_of xs None) ch1 m1 = Some (first_of (drop (length xs - nat lim) xs) None, ch2, m2)"
        "buf_rep ch2 m2 (drop (length xs - nat lim) xs)" "removed ch1 m1 (take (length xs - nat lim) xs) ch2 m2"
      using Cons.IH [OF st(2) Cons.prems(2)] 3(1) by auto
    have l: "bm_links m x sm_next = first_of xs None" using buf_rep_links [of ch m "[]" x xs] Cons.prems(1) by simp
    have "gc_overflow lim (first_of (x # xs) None) ch m = gc_overflow lim (first_of xs None) ch1 m1"
      using 3(1) gt st(1) l by (subst gc_overflow.simps) simp
    moreover have "length (x # xs) - nat lim = Suc (length xs - nat lim)" using 3(2) by simp
    ultimately show ?thesis using ih removed_trans [OF st(3) ih(3)] 3(1) by simp
  qed
qed

lemma gc_expired_rep:
  "buf_rep ch m xs \<Longrightarrow>
     \<exists>ch' m'. gc_expired now (first_of xs None) ch m = Some (ch', m')
       \<and> buf_rep ch' m' (dropWhile (\<lambda>x. now > m_expires (msg_at m x)) xs)
       \<and> removed ch m (takeWhile (\<lambda>x. now > m_expires (msg_at m x)) xs) ch' m'"
proof (induction xs arbitrary: ch m)
  case Nil
  then show ?case by (subst gc_expired.simps) simp
next
  case (Cons x xs)
  obtain msg where msg: "bm_msgs m x = Some msg" using Cons.prems by (auto simp: buf_rep_def)
  show ?case
  proof (cases "now > m_expires msg")
    case False
    with msg Cons.prems show ?thesis by (subst gc_expired.simps) (simp add: msg_at_def)
  next
    case True
    obtain ch1 m1 where st: "chanhead_delete_message ch m x = Some (ch1, m1)" "buf_rep ch1 m1 xs" "removed ch m [x] ch1 m1"
      using delete_head [OF Cons.prems] by blast
    have l: "bm_links m x sm_next = first_of xs None" using buf_rep_links [of ch m "[]" x xs] Cons.prems by simp
    from Cons.IH [OF st(2)] obtain ch2 m2 where ih: "gc_expired now (first_of xs None) ch1 m1 = Some (ch2, m2)"
      "buf_rep ch2 m2 (dropWhile (\<lambda>x. now > m_expires (msg_at m x)) xs)"
      "removed ch1 m1 (takeWhile (\<lambda>x. now > m_expires (msg_at m x)) xs) ch2 m2"
      unfolding removed_msg_at [OF st(3)] by blast
    have "gc_expired now (first_of (x # xs) None) ch m = gc_expired now (first_of xs None) ch1 m1"
      using True msg st(1) l by (subst gc_expired.simps) simp
    with ih removed_trans [OF st(3) ih(3)] True msg show ?thesis by (simp add: msg_at_def)
  qed
qed

definition gc_list :: "int \<Rightarrow> int \<Rightarrow> buf_mem \<Rightarrow> addr list \<Rightarrow> addr list" where
  "gc_list now lim m xs =
     dropWhile (\<lambda>x. now > m_expires (msg_at m x)) (if lim < 0 then xs else drop (length xs - nat lim) xs)"

lemma gc_custom_rep:
  assumes "buf_rep ch m xs" and "ch_owner ch = slot" and "lim < 2 ^ 63"
  shows "\<exists>ds ch' m'. chanhead_messages_gc_custom slot now ch m lim = Some (ch', m')
           \<and> xs = ds @ gc_list now lim m xs \<and> buf_rep ch' m' (gc_list now lim m xs) \<and> removed ch m ds ch' m'"
proof -
  let ?ys = "if lim < 0 then xs else drop (length xs - nat lim) xs"
  let ?zs = "if lim < 0 then [] else take (length xs - nat lim) xs"
  obtain ch1 m1 where o: "gc_overflow lim (first_of xs None) ch m = Some (first_of ?ys None, ch1, m1)"
     "buf_rep ch1 m1 ?ys" "removed ch m ?zs ch1 m1"
    using gc_overflow_rep [OF assms(1,3)] by blast
  obtain ch2 m2 where e: "gc_expired now (first_of ?ys None) ch1 m1 = Some (ch2, m2)"
      "buf_rep ch2 m2 (gc_list now lim m xs)"
      "removed ch1 m1 (takeWhile (\<lambda>x. now > m_expires (msg_at m x)) ?ys) ch2 m2"
    using gc_expired_rep [OF o(2), of now] unfolding removed_msg_at [OF o(3)] gc_list_def by blast
  have "xs = (?zs @ takeWhile (\<lambda>x. now > m_expires (msg_at m x)) ?ys) @ gc_list now lim m xs"
    by (simp add: gc_list_def)
  moreover have "ch_msg_first ch = first_of xs None" using buf_rep_ends [OF assms(1)] by simp
  ultimately show ?thesis
    using o(1) e(1,2) removed_trans [OF o(3) e(3)] assms(2)
    by (intro exI [of _ "?zs @ takeWhile (\<lambda>x. now > m_expires (msg_at m x)) ?ys"] exI [of _ ch2] exI [of _ m2])
      (simp add: chanhead_messages_gc_custom_def)
qed

lemma gc_rep:
  assumes "buf_rep ch m xs" and "ch_owner ch = slot"
  shows "\<exists>ds ch' m'. memstore_chanhead_messages_gc slot now ch m = Some (ch', m')
           \<and> xs = ds @ gc_list now (sint (ch_max_messages ch)) m xs
           \<and> buf_rep ch' m' (gc_list now (sint (ch_max_messages ch)) m xs) \<and> removed ch m ds ch' m'"
  unfolding memstore_chanhead_messages_gc_def
  by (rule gc_custom_rep [OF assms]) (use sint_lt [of "ch_max_messages ch"] in simp)

subsection \<open>Positions\<close>

text \<open>The position of an id with one tag: time and tag, compared lexicographically.\<close>

definition pos :: "nchan_msg_id \<Rightarrow> int \<times> int" where
  "pos i = (time i, the_tag i)"

lemma pos_less: "pos i < pos j \<longleftrightarrow> time i < time j \<or> time i = time j \<and> the_tag i < the_tag j"
  by (auto simp: pos_def)

lemma compare_pos:
  assumes "single_tag i" and "single_tag j"
  shows "nchan_compare_msgids pb h i j = Some (-1) \<longleftrightarrow> pos i < pos j"
  by (auto simp: compare_single [OF assms] cmp_int_def pos_def)

lemma tag0_single: "single_tag i \<Longrightarrow> tag0 i = Some (the_tag i)"
  by (auto simp: single_tag_def tag0_def the_tag_def numeral_eq_Suc length_Suc_conv)

definition msg_pos :: "buf_mem \<Rightarrow> addr \<Rightarrow> int \<times> int" where
  "msg_pos m a = pos (m_id (msg_at m a))"

text \<open>
  The invariant of a channel's buffer: single tags that are not negative, times that are not one of the special
  values, and strictly increasing ids.
\<close>

definition chan_inv :: "chanhead \<Rightarrow> buf_mem \<Rightarrow> addr list \<Rightarrow> bool" where
  "chan_inv ch m xs \<longleftrightarrow> buf_rep ch m xs \<and> sorted_wrt (\<lambda>x y. msg_pos m x < msg_pos m y) xs
     \<and> (\<forall>x \<in> set xs. single_tag (m_id (msg_at m x)) \<and> the_tag (m_id (msg_at m x)) \<ge> 0
          \<and> time (m_id (msg_at m x)) > 0)"

lemma chan_inv_gc:
  assumes "chan_inv ch m xs" and "ch_owner ch = slot"
  shows "\<exists>ds ch' m'. memstore_chanhead_messages_gc slot now ch m = Some (ch', m')
           \<and> xs = ds @ gc_list now (sint (ch_max_messages ch)) m xs
           \<and> chan_inv ch' m' (gc_list now (sint (ch_max_messages ch)) m xs) \<and> removed ch m ds ch' m'"
proof -
  let ?ys = "gc_list now (sint (ch_max_messages ch)) m xs"
  from assms gc_rep [of ch m xs slot now] obtain ds ch' m' where
    g: "memstore_chanhead_messages_gc slot now ch m = Some (ch', m')" "xs = ds @ ?ys" "buf_rep ch' m' ?ys" "removed ch m ds ch' m'"
    by (auto simp: chan_inv_def)
  have "sorted_wrt (\<lambda>x y. msg_pos m x < msg_pos m y) (ds @ ?ys)" "\<forall>x \<in> set ?ys. x \<in> set xs"
    using assms(1) g(2) by (simp_all add: chan_inv_def) (metis UnCI set_append)
  with assms(1) g(3) have "chan_inv ch' m' ?ys"
    by (simp add: chan_inv_def msg_pos_def removed_msg_at [OF g(4)] sorted_wrt_append)
  with g show ?thesis by blast
qed

subsection \<open>Finding the next message\<close>

lemma search_back_correct:
  assumes "chan_inv ch m (as @ bs)" and "\<forall>x \<in> set bs. (t, g) < msg_pos m x"
    and "as \<noteq> []" and "msg_pos m (hd as) \<le> (t, g)"
  shows "search_back t g (last_of None as) m =
     Some (found_or_expected (first_of (filter (\<lambda>x. (t, g) < msg_pos m x) (as @ bs)) None))"
  using assms
proof (induction as arbitrary: bs rule: rev_induct)
  case Nil
  then show ?case by simp
next
  case (snoc a as)
  have rep: "buf_rep ch m (as @ a # bs)" using snoc.prems(1) by (simp add: chan_inv_def)
  obtain msg where msg: "bm_msgs m a = Some msg" using rep by (auto simp: buf_rep_def)
  have single: "single_tag (m_id msg)" using snoc.prems(1) msg by (auto simp: chan_inv_def msg_at_def)
  note links = buf_rep_links [OF rep]
  show ?case
  proof (cases "msg_pos m a \<le> (t, g)")
    case True
    have sorted: "\<forall>x \<in> set as. msg_pos m x < msg_pos m a" using snoc.prems(1) by (auto simp: chan_inv_def sorted_wrt_append)
    have "filter (\<lambda>x. (t, g) < msg_pos m x) ((as @ [a]) @ bs) = bs"
      using snoc.prems(2) True sorted by (auto simp: filter_id_conv filter_empty_conv)
    moreover have "t > time (m_id msg) \<or> t = time (m_id msg) \<and> g \<ge> the_tag (m_id msg)"
      using True msg by (auto simp: msg_pos_def pos_def msg_at_def)
    ultimately show ?thesis
      using msg single links by (subst search_back.simps) (simp add: tag0_single)
  next
    case False
    then have "as \<noteq> []" using snoc.prems(4) by (cases as) auto
    have gt: "(t, g) < msg_pos m a" using False by simp
    have "\<not> (t > time (m_id msg) \<or> t = time (m_id msg) \<and> g \<ge> the_tag (m_id msg))"
      using gt msg by (auto simp: msg_pos_def pos_def msg_at_def)
    then have "search_back t g (last_of None (as @ [a])) m = search_back t g (last_of None as) m"
      using msg single links by (subst search_back.simps) (auto simp: tag0_single)
    also have "\<dots> = Some (found_or_expected (first_of (filter (\<lambda>x. (t, g) < msg_pos m x) (as @ a # bs)) None))"
      using snoc.prems gt \<open>as \<noteq> []\<close> by (intro snoc.IH) auto
    finally show ?thesis by simp
  qed
qed

lemma nth_loop_lseg:
  "lseg step p xs None \<Longrightarrow> xs \<noteq> [] \<Longrightarrow> 1 \<le> n \<Longrightarrow>
     nth_loop step n prev p = Some (Some (xs ! (min (nat n) (length xs) - 1)))"
proof (induction xs arbitrary: n prev p)
  case Nil
  then show ?case by simp
next
  case (Cons x xs)
  show ?case
  proof (cases "n > 1")
    case False
    with Cons.prems have "n = 1" by simp
    with Cons.prems show ?thesis by (subst nth_loop.simps) simp
  next
    case True
    then have unf: "nth_loop step n prev p = nth_loop step (n - 1) (Some x) (step x)"
      using Cons.prems(1) by (subst nth_loop.simps) simp
    show ?thesis
    proof (cases xs)
      case Nil
      with Cons.prems(1) have "step x = None" by simp
      then have "nth_loop step (n - 1) (Some x) (step x) = Some (Some x)" by (subst nth_loop.simps) simp
      with unf Nil True show ?thesis by simp
    next
      case (Cons y ys)
      have "nth_loop step (n - 1) (Some x) (step x) = Some (Some (xs ! (min (nat (n - 1)) (length xs) - 1)))"
        using Cons.prems(1) True Cons by (intro Cons.IH) auto
      moreover obtain j where "nat n = Suc (Suc j)" "nat (n - 1) = Suc j"
        using True by (intro that [of "nat (n - 2)"]) auto
      ultimately show ?thesis using unf Cons by simp
    qed
  qed
qed

text \<open>
  What a request for the message after \<open>msgid\<close> is answered, given the list \<open>ys\<close> of buffered messages that
  survive the collection.
\<close>

definition next_spec :: "chanhead \<Rightarrow> buf_mem \<Rightarrow> addr list \<Rightarrow> nchan_msg_id \<Rightarrow> nchan_msg_status \<times> ptr" where
  "next_spec ch m ys msgid =
     (if ys = [] then (if time msgid = 0 \<or> ch_max_messages ch = 0 then MSG_EXPECTED else MSG_NOTFOUND, None)
      else if time msgid = -1 then (MSG_EXPECTED, None)
      else if time msgid = -2 then
        (let n = the_tag msgid; k = min (nat \<bar>n\<bar>) (length ys)
         in (MSG_FOUND, Some (if n > 0 then ys ! (k - 1) else rev ys ! (k - 1))))
      else found_or_expected (first_of (filter (\<lambda>x. pos msgid < msg_pos m x) ys) None))"

lemma find_next_correct:
  assumes inv: "chan_inv ch m xs" and own: "ch_owner ch = slot" "ch_msg_buffer_complete ch"
    and mid: "single_tag msgid" and nth: "time msgid = -2 \<Longrightarrow> the_tag msgid \<noteq> 0"
  shows "\<exists>ds ch' m'. chanhead_find_next_message slot now (Some (ch, m)) msgid =
           (case next_spec ch m (gc_list now (sint (ch_max_messages ch)) m xs) msgid of (st, p) \<Rightarrow> Some (st, p, Some (ch', m')))
         \<and> chan_inv ch' m' (gc_list now (sint (ch_max_messages ch)) m xs) \<and> removed ch m ds ch' m'"
proof -
  let ?ys = "gc_list now (sint (ch_max_messages ch)) m xs"
  obtain ds ch' m' where gc: "memstore_chanhead_messages_gc slot now ch m = Some (ch', m')"
    "chan_inv ch' m' ?ys" "removed ch m ds ch' m'"
    using chan_inv_gc [OF inv own(1)] by blast
  have same: "bm_msgs m' = bm_msgs m" "ch_max_messages ch' = ch_max_messages ch" "msg_pos m' = msg_pos m"
    using gc(3) by (auto simp: removed_def msg_pos_def msg_at_def)
  have ends: "ch_msg_first ch' = first_of ?ys None" "ch_msg_last ch' = last_of None ?ys"
    using gc(2) buf_rep_ends by (auto simp: chan_inv_def)
  have seg: "dlseg (bm_links m') sm_prev sm_next None ?ys None" using gc(2) by (simp add: chan_inv_def buf_rep_def dll_def)
  note unf = chanhead_find_next_message_def next_spec_def NCHAN_OLDEST_MSGID_TIME_def NCHAN_NEWEST_MSGID_TIME_def NCHAN_NTH_MSGID_TIME_def
  have "chanhead_find_next_message slot now (Some (ch, m)) msgid =
      (case next_spec ch m ?ys msgid of (st, p) \<Rightarrow> Some (st, p, Some (ch', m')))"
  proof (cases "?ys = [] \<or> time msgid = -1")
    case True
    then show ?thesis using gc(1) own ends same(2) by (cases ?ys) (auto simp: unf split: option.splits)
  next
    case False
    then obtain y zs where ys: "?ys = y # zs" by (cases ?ys) auto
    obtain l where l: "last_of None ?ys = Some l" using ys by (simp add: last_of_def)
    show ?thesis
    proof (cases "time msgid = -2")
      case True
      define st where "st = (\<lambda>a. bm_links m' a (if the_tag msgid > 0 then sm_next else sm_prev))"
      let ?zs = "if the_tag msgid > 0 then ?ys else rev ?ys"
      have "lseg st (if the_tag msgid > 0 then ch_msg_first ch' else ch_msg_last ch') ?zs None"
        using dlseg_lseg [OF seg] dlseg_rev_lseg [OF seg] ends by (simp add: st_def)
      moreover have "?zs \<noteq> []" "1 \<le> \<bar>the_tag msgid\<bar>" using ys nth [OF True] by auto
      ultimately have "nth_loop st \<bar>the_tag msgid\<bar> None (if the_tag msgid > 0 then ch_msg_first ch' else ch_msg_last ch')
          = Some (Some (?zs ! (min (nat \<bar>the_tag msgid\<bar>) (length ?zs) - 1)))"
        by (rule nth_loop_lseg)
      then show ?thesis
        using gc(1) own ends l ys True nth [OF True] tag0_single [OF mid]
        by (auto simp: unf Let_def st_def abs_if split: if_splits)
    next
      case ord: False
      obtain fm where fm: "bm_msgs m' y = Some fm" "single_tag (m_id fm)" "msg_pos m y = pos (m_id fm)"
        using gc(2) ys same by (auto simp: chan_inv_def buf_rep_def msg_pos_def msg_at_def)
      have tc: "tagcount msgid = 1" "tagcount (m_id fm) = 1" using mid fm by (auto simp: single_tag_def)
      show ?thesis
      proof (cases "pos msgid < msg_pos m y")
        case True
        then have c: "time msgid < time (m_id fm) \<or> time msgid = time (m_id fm) \<and> the_tag msgid < the_tag (m_id fm)"
          using fm(3) by (auto simp: pos_def)
        show ?thesis
          using gc(1) own ends l ys False ord fm tc True c tag0_single [OF mid] tag0_single [OF fm(2)]
          by (simp add: unf found_or_expected_def Let_def)
      next
        case le: False
        then have c: "\<not> (time msgid < time (m_id fm) \<or> time msgid = time (m_id fm) \<and> the_tag msgid < the_tag (m_id fm))"
          using fm(3) by (auto simp: pos_def)
        have "search_back (time msgid) (the_tag msgid) (Some l) m' =
            Some (found_or_expected (first_of (filter (\<lambda>x. pos msgid < msg_pos m x) ?ys) None))"
          using search_back_correct [of ch' m' ?ys "[]" "time msgid" "the_tag msgid"] gc(2) le ys same(3) l
          by (simp add: pos_def)
        then show ?thesis
          using gc(1) own ends l ys False ord fm(1) tc c tag0_single [OF mid] tag0_single [OF fm(2)]
          by (auto simp: unf Let_def split: prod.splits)
      qed
    qed
  qed
  with gc(2,3) show ?thesis by blast
qed

subsection \<open>Publishing keeps the buffer ordered\<close>

text \<open>
  A message about to be stored: its cell is new, its id has one inline tag.  \<open>push_time\<close> is the time it
  will have and \<open>push_tag\<close> its tag.
\<close>

definition push_ready :: "buf_mem \<Rightarrow> addr list \<Rightarrow> addr \<Rightarrow> bool" where
  "push_ready m xs a \<longleftrightarrow> a \<notin> set xs \<and> bm_msgs m a \<noteq> None \<and> single_tag (m_id (msg_at m a))
     \<and> (\<exists>ts. tag (m_prev_id (msg_at m a)) = Fixed ts \<and> length ts = NCHAN_FIXED_MULTITAG_MAX)"

definition push_time :: "int \<Rightarrow> nchan_msg \<Rightarrow> int" where
  "push_time now msg = (if time (m_id msg) = 0 then now else time (m_id msg))"

definition last_id :: "buf_mem \<Rightarrow> addr list \<Rightarrow> nchan_msg_id" where
  "last_id m xs = m_id (msg_at m (last xs))"

definition push_tag :: "buf_mem \<Rightarrow> addr list \<Rightarrow> int \<Rightarrow> int16" where
  "push_tag m xs t = (if xs \<noteq> [] \<and> time (last_id m xs) = t then of_int (the_tag (last_id m xs)) + 1 else 0)"

text \<open>Time does not run backwards and a second does not have more messages than a tag can number.\<close>

definition push_in_order :: "buf_mem \<Rightarrow> addr list \<Rightarrow> int \<Rightarrow> bool" where
  "push_in_order m xs t \<longleftrightarrow> xs = [] \<or> time (last_id m xs) < t
     \<or> time (last_id m xs) = t \<and> the_tag (last_id m xs) < 32767"

lemma single_tag_shape: "single_tag i \<Longrightarrow> \<exists>t u v w. tag i = Fixed [t, u, v, w] \<and> tagcount i = 1 \<and> the_tag i = sint t"
  by (auto simp: single_tag_def the_tag_def numeral_eq_Suc length_Suc_conv)

definition stamped :: "nchan_msg_id \<Rightarrow> int \<Rightarrow> int16 \<Rightarrow> nchan_msg_id" where
  "stamped i t g = (case tag i of Fixed (_ # ts) \<Rightarrow> i\<lparr>time := t, tag := Fixed (g # ts)\<rparr> | _ \<Rightarrow> i)"

lemma stamped_simps:
  assumes "single_tag i"
  shows "single_tag (stamped i t g)" "time (stamped i t g) = t" "the_tag (stamped i t g) = sint g"
  using single_tag_shape [OF assms] by (auto simp: stamped_def single_tag_def the_tag_def)

lemma sint_of_int16: "0 \<le> k \<Longrightarrow> k < 32768 \<Longrightarrow> sint (of_int k :: int16) = k"
  by (simp add: sint_sbintrunc' signed_take_bit_int_eq_self)

lemma push_tag_value:
  assumes "push_in_order m xs t" and "xs \<noteq> [] \<Longrightarrow> the_tag (last_id m xs) \<ge> 0"
  shows "sint (push_tag m xs t) = (if xs \<noteq> [] \<and> time (last_id m xs) = t then the_tag (last_id m xs) + 1 else 0)"
proof (cases "xs \<noteq> [] \<and> time (last_id m xs) = t")
  case True
  with assms have r: "0 \<le> the_tag (last_id m xs)" "the_tag (last_id m xs) < 32767" by (auto simp: push_in_order_def)
  have "of_int (the_tag (last_id m xs)) + 1 = (of_int (the_tag (last_id m xs) + 1) :: int16)" by simp
  then have "sint (push_tag m xs t) = sint (of_int (the_tag (last_id m xs) + 1) :: int16)"
    using True by (simp add: push_tag_def)
  also have "\<dots> = the_tag (last_id m xs) + 1"
    by (rule sint_of_int16) (use r in auto)
  finally show ?thesis using True by simp
next
  case False
  then show ?thesis by (auto simp: push_tag_def)
qed

lemma links_snoc:
  assumes "dll k po no h t xs" and "a \<notin> set xs"
  shows "dll (case t of None \<Rightarrow> wr (wr k a no None) a po None
              | Some l \<Rightarrow> wr (wr (wr k a no None) a po (Some l)) l no (Some a))
           po no (if h = None then Some a else h) (Some a) (xs @ [a])"
proof -
  have tq: "t \<noteq> Some a" using assms by (auto simp: dll_def dest: last_of_in)
  have eq: "(case t of None \<Rightarrow> wr (wr k a no None) a po None
              | Some l \<Rightarrow> wr (wr (wr k a no None) a po (Some l)) l no (Some a))
        = wr (case t of None \<Rightarrow> wr k a po None
              | Some b \<Rightarrow> wr (wr k a po (Some b)) b no (Some a)) a no None"
    using assms(1) tq by (auto simp: fun_eq_iff dll_def split: option.splits)
  show ?thesis unfolding eq using dll_snoc [OF assms] by simp
qed

text \<open>The state in which \<^verbatim>\<open>chanhead_push_message\<close> starts to collect.\<close>

definition push_prev_id :: "buf_mem \<Rightarrow> addr list \<Rightarrow> nchan_msg \<Rightarrow> nchan_msg_id" where
  "push_prev_id m xs msg =
     (if xs = [] then (m_prev_id msg)\<lparr>time := 0,
         tag := (case tag (m_prev_id msg) of Fixed (_ # ts) \<Rightarrow> Fixed (0 # ts) | x \<Rightarrow> x), tagcount := 1\<rparr>
      else last_id m xs)"

definition pushed_msg :: "buf_mem \<Rightarrow> addr list \<Rightarrow> int \<Rightarrow> nchan_msg \<Rightarrow> nchan_msg" where
  "pushed_msg m xs t msg = msg\<lparr>m_prev_id := push_prev_id m xs msg, m_id := stamped (m_id msg) t (push_tag m xs t)\<rparr>"

definition pushed_ch :: "chanhead \<Rightarrow> addr \<Rightarrow> chanhead" where
  "pushed_ch ch a = (if ch_msg_first ch = None then ch\<lparr>ch_msg_first := Some a\<rparr> else ch)\<lparr>
     ch_stored_message_count := ch_stored_message_count ch + 1,
     ch_total_message_count := ch_total_message_count ch + 1, ch_msg_last := Some a\<rparr>"

definition pushed_mem :: "chanhead \<Rightarrow> buf_mem \<Rightarrow> addr list \<Rightarrow> int \<Rightarrow> addr \<Rightarrow> buf_mem" where
  "pushed_mem ch m xs t a = m\<lparr>
     bm_links := (case ch_msg_last ch of None \<Rightarrow> wr (wr (bm_links m) a sm_next None) a sm_prev None
        | Some l \<Rightarrow> wr (wr (wr (bm_links m) a sm_next None) a sm_prev (Some l)) l sm_next (Some a)),
     bm_msgs := (bm_msgs m)(a \<mapsto> pushed_msg m xs t (msg_at m a)),
     bm_group := bm_group m @ (if ch_groupnode ch then [Acct_message (pushed_msg m xs t (msg_at m a)) 1] else [])\<rparr>"

lemma push_unfold:
  assumes inv: "chan_inv ch m xs" and pr: "push_ready m xs a" and t: "t = push_time now (msg_at m a)"
  shows "chanhead_push_message slot now False ch m a =
     memstore_chanhead_messages_gc slot now (pushed_ch ch a) (pushed_mem ch m xs t a) \<bind>
        (\<lambda>(ch', m'). Some (if ch_msg_last ch' = Some a then NGX_OK else NGX_ERROR, ch', m'))"
proof -
  obtain msg where msg: "bm_msgs m a = Some msg" "msg_at m a = msg" using pr by (auto simp: push_ready_def msg_at_def)
  obtain g u v w where g: "tag (m_id msg) = Fixed [g, u, v, w]" "tagcount (m_id msg) = 1"
    using single_tag_shape [of "m_id msg"] pr msg by (auto simp: push_ready_def)
  obtain p q r s where p: "tag (m_prev_id msg) = Fixed [p, q, r, s]"
    using pr msg by (auto simp: push_ready_def numeral_eq_Suc length_Suc_conv)
  have idt: "(m_id msg)\<lparr>time := t\<rparr> = (if time (m_id msg) = 0 then (m_id msg)\<lparr>time := now\<rparr> else m_id msg)"
    using t msg by (auto simp: push_time_def)
  note unf = chanhead_push_message_def Let_def set_tag0_def tag0w_def pushed_msg_def pushed_ch_def push_prev_id_def stamped_def
  show ?thesis
  proof (cases xs rule: rev_cases)
    case Nil
    then have e: "ch_msg_first ch = None" "ch_msg_last ch = None" using inv buf_rep_ends [of ch m xs] by (auto simp: chan_inv_def)
    have "pushed_msg m xs t msg = msg\<lparr>m_prev_id := (m_prev_id msg)\<lparr>time := 0, tag := Fixed [0, q, r, s], tagcount := 1\<rparr>,
        m_id := (m_id msg)\<lparr>time := t, tag := Fixed [0, u, v, w]\<rparr>\<rparr>"
      using g p Nil by (simp add: pushed_msg_def push_prev_id_def stamped_def push_tag_def)
    then show ?thesis
      using msg g p e t
      by (cases "time (m_id msg) = 0"; cases "ch_groupnode ch")
        (simp_all add: chanhead_push_message_def Let_def set_tag0_def pushed_ch_def pushed_mem_def push_time_def)
  next
    case (snoc ys l)
    then obtain f where e: "ch_msg_first ch = Some f" "ch_msg_last ch = Some l"
      using inv buf_rep_ends [of ch m xs] by (cases ys) (auto simp: chan_inv_def last_of_def)
    obtain lm where lm: "bm_msgs m l = Some lm" "single_tag (m_id lm)" "last_id m xs = m_id lm"
      using inv snoc by (auto simp: chan_inv_def buf_rep_def last_id_def msg_at_def)
    obtain lt where lt: "tag0w (m_id lm) = Some lt" "the_tag (m_id lm) = sint lt"
      using single_tag_shape [OF lm(2)] by (auto simp: tag0w_def)
    have pm: "pushed_msg m xs t msg = msg\<lparr>m_prev_id := m_id lm,
        m_id := (m_id msg)\<lparr>time := t, tag := Fixed [if time (m_id lm) = t then lt + 1 else 0, u, v, w]\<rparr>\<rparr>"
      using g snoc lm lt by (simp add: pushed_msg_def push_prev_id_def stamped_def push_tag_def)
    show ?thesis
      using msg g e t lm(1) lt(1) pm
      by (cases "time (m_id msg) = 0"; cases "ch_groupnode ch"; cases "time (m_id lm) = t")
        (simp_all add: chanhead_push_message_def Let_def set_tag0_def pushed_ch_def pushed_mem_def push_time_def)
  qed
qed

text \<open>Storing a message in order keeps the invariant, and the new id is after all others.\<close>

lemma push_keeps_inv:
  assumes inv: "chan_inv ch m xs" and pr: "push_ready m xs a" and t: "t = push_time now (msg_at m a)"
    and ord: "push_in_order m xs t" "0 < t" and len: "length xs + 1 < 2 ^ 63"
  shows "chan_inv (pushed_ch ch a) (pushed_mem ch m xs t a) (xs @ [a])"
proof -
  let ?m = "pushed_mem ch m xs t a"
  have out: "a \<notin> set xs" and sg: "single_tag (m_id (msg_at m a))" using pr by (auto simp: push_ready_def)
  have d: "dll (bm_links m) sm_prev sm_next (ch_msg_first ch) (ch_msg_last ch) xs" using inv by (simp add: chan_inv_def buf_rep_def)
  have old: "msg_at ?m x = msg_at m x" if "x \<in> set xs" for x
    using that out by (auto simp: pushed_mem_def msg_at_def)
  have id: "m_id (msg_at ?m a) = stamped (m_id (msg_at m a)) t (push_tag m xs t)"
    by (simp add: pushed_mem_def msg_at_def pushed_msg_def)
  have lt: "the_tag (last_id m xs) \<ge> 0" if "xs \<noteq> []" using inv that by (simp add: chan_inv_def last_id_def)
  note val = push_tag_value [OF ord(1) lt]
  have pa: "msg_pos ?m a = (t, sint (push_tag m xs t))"
    using stamped_simps [OF sg] by (simp add: msg_pos_def pos_def id)
  have "msg_pos ?m x < msg_pos ?m a" if "x \<in> set xs" for x
  proof -
    have ne: "xs \<noteq> []" using that by auto
    have "msg_pos m x \<le> pos (last_id m xs)"
      using inv that ne by (cases xs rule: rev_cases) (auto simp: chan_inv_def sorted_wrt_append last_id_def msg_pos_def intro: less_imp_le)
    also have "\<dots> < msg_pos ?m a" using ord val ne by (auto simp: pa pos_def push_in_order_def)
    finally show ?thesis by (simp add: msg_pos_def old [OF that])
  qed
  moreover have "sorted_wrt (\<lambda>x y. msg_pos ?m x < msg_pos ?m y) xs"
    by (rule sorted_wrt_mono_rel [of xs "\<lambda>x y. msg_pos m x < msg_pos m y"])
      (use inv old in \<open>auto simp: chan_inv_def msg_pos_def\<close>)
  moreover have "buf_rep (pushed_ch ch a) ?m (xs @ [a])"
    using links_snoc [OF d out] inv len
    by (auto simp: chan_inv_def buf_rep_def pushed_ch_def pushed_mem_def)
  moreover have "the_tag (m_id (msg_at ?m a)) \<ge> 0" "single_tag (m_id (msg_at ?m a))" "time (m_id (msg_at ?m a)) > 0"
    using stamped_simps [OF sg] val lt ord(2) by (auto simp: id)
  ultimately show ?thesis using inv old by (auto simp: chan_inv_def sorted_wrt_append)
qed

lemma gc_list_idem: "gc_list now lim m (gc_list now lim m xs) = gc_list now lim m xs"
proof -
  have "0 \<le> lim \<Longrightarrow> length (gc_list now lim m xs) \<le> nat lim"
    using length_dropWhile_le [of "\<lambda>x. now > m_expires (msg_at m x)" "drop (length xs - nat lim) xs"]
    by (simp add: gc_list_def)
  then show ?thesis by (cases "lim < 0") (simp_all add: gc_list_def dropWhile_idem)
qed

text \<open>
  A subscriber that asks for the message after the one it got last, again and again.  \<open>k\<close> bounds the number of
  requests; running out of it gives \<open>None\<close>.
\<close>

fun deliver ::
  "nat \<Rightarrow> int \<Rightarrow> int \<Rightarrow> chan_state \<Rightarrow> nchan_msg_id \<Rightarrow> (addr list \<times> nchan_msg_status \<times> chan_state) option" where
  "deliver 0 slot now st i = None"
| "deliver (Suc k) slot now st i = do {
     (status, p, st') \<leftarrow> chanhead_find_next_message slot now (Some st) i;
     st' \<leftarrow> st';
     case p of
       None \<Rightarrow> Some ([], status, st')
     | Some a \<Rightarrow> do {
         msg \<leftarrow> bm_msgs (snd st') a;
         (as, status, st') \<leftarrow> deliver k slot now st' (m_id msg);
         Some (a # as, status, st')
       }
   }"

lemma filter_after:
  assumes "sorted_wrt (\<lambda>x y. f x < f y) ys" and "filter (\<lambda>x. c < f x) ys = y # zs"
  shows "filter (\<lambda>x. f y < (f x :: 'a :: linorder)) ys = zs" and "y \<in> set ys"
proof -
  from assms(2) show "y \<in> set ys" by (metis filter_eq_ConsD in_set_conv_decomp)
  from assms(2) obtain us vs where u: "ys = us @ y # vs" "\<forall>u \<in> set us. \<not> c < f u" "c < f y" "zs = filter (\<lambda>x. c < f x) vs"
    by (metis filter_eq_ConsD)
  have "\<forall>u \<in> set us. f u < f y" "\<forall>v \<in> set vs. f y < f v" using assms(1) u(1) by (auto simp: sorted_wrt_append)
  then have "filter (\<lambda>x. f y < f x) us = []" "filter (\<lambda>x. f y < f x) vs = vs" "filter (\<lambda>x. c < f x) vs = vs"
    using u(3) by (auto simp: filter_empty_conv filter_id_conv)
  with u(1,4) show "filter (\<lambda>x. f y < f x) ys = zs" by simp
qed

text \<open>
  C3: a subscriber that starts after any id and keeps asking for the message after the last one it got is given exactly
  the buffered messages after that id that are not collected, each once and in the order of publication, and is then
  told to wait for the next one.
\<close>

theorem deliver_all:
  assumes "chan_inv ch m xs" and "ch_owner ch = slot" "ch_msg_buffer_complete ch"
    and "gc_list now (sint (ch_max_messages ch)) m xs = ys" "ys \<noteq> []"
    and "single_tag i" "time i \<ge> 0" and "length (filter (\<lambda>x. pos i < msg_pos m x) ys) < k"
  shows "\<exists>st'. deliver k slot now (ch, m) i = Some (filter (\<lambda>x. pos i < msg_pos m x) ys, MSG_EXPECTED, st')"
  using assms
proof (induction k arbitrary: ch m xs i)
  case 0
  then show ?case by simp
next
  case (Suc k)
  let ?f = "filter (\<lambda>x. pos i < msg_pos m x) ys"
  have spec: "next_spec ch m ys i = found_or_expected (first_of ?f None)"
    using Suc.prems(5,7) by (simp add: next_spec_def)
  obtain ds ch' m' where fn: "chanhead_find_next_message slot now (Some (ch, m)) i
        = Some (if ?f = [] then MSG_EXPECTED else MSG_FOUND, first_of ?f None, Some (ch', m'))"
      "chan_inv ch' m' ys" "removed ch m ds ch' m'"
    using find_next_correct [OF Suc.prems(1,2,3,6), of now] Suc.prems(4,7)
    by (auto simp: spec found_or_expected_def)
  have same: "ch_owner ch' = ch_owner ch" "ch_max_messages ch' = ch_max_messages ch"
      "ch_msg_buffer_complete ch' = ch_msg_buffer_complete ch" "bm_msgs m' = bm_msgs m"
    using fn(3) by (auto simp: removed_def)
  have pos': "msg_pos m' = msg_pos m" "msg_at m' = msg_at m" using same(4) by (auto simp: msg_pos_def msg_at_def)
  have gc': "gc_list now (sint (ch_max_messages ch')) m' ys = ys"
    using gc_list_idem Suc.prems(4) same(2) by (metis gc_list_def pos'(2))
  show ?case
  proof (cases ?f)
    case Nil
    with fn show ?thesis by simp
  next
    case (Cons y zs)
    have sorted: "sorted_wrt (\<lambda>x y. msg_pos m x < msg_pos m y) ys" using fn(2) pos' by (simp add: chan_inv_def)
    note after = filter_after [OF sorted Cons]
    obtain msg where m0: "bm_msgs m y = Some msg" using fn(2) after(2) by (auto simp: chan_inv_def buf_rep_def same(4))
    have msg: "bm_msgs m' y = Some msg" "msg_pos m y = pos (m_id msg)" "single_tag (m_id msg)" "time (m_id msg) > 0"
      using fn(2) after(2) m0 by (auto simp: chan_inv_def msg_pos_def msg_at_def same(4))
    have rest: "filter (\<lambda>x. pos (m_id msg) < msg_pos m' x) ys = zs" using after(1) msg(2) pos' by simp
    have "length zs < k" using Suc.prems(8) Cons by simp
    with Suc.IH [OF fn(2) _ _ gc' Suc.prems(5) msg(3)] same Suc.prems(2,3) msg(4) rest obtain st'
      where "deliver k slot now (ch', m') (m_id msg) = Some (zs, MSG_EXPECTED, st')" by auto
    with fn(1) Cons msg(1) show ?thesis by simp
  qed
qed

text \<open>A channel with two messages, published in the same second.\<close>

definition sample_stored :: "int \<Rightarrow> int16 \<Rightarrow> nchan_msg" where
  "sample_stored t g = sample_msg\<lparr>m_id := \<lparr>time = t, tag = Fixed [g, 0, 0, 0], tagactive = 0, tagcount = 1\<rparr>, m_expires := t + 100\<rparr>"

definition sample_chan :: chanhead where
  "sample_chan = \<lparr>ch_owner = 0, ch_max_messages = 2, ch_msg_first = Some 7, ch_msg_last = Some 8, ch_stored_message_count = 2,
     ch_total_message_count = 2, ch_latest_msgid = m_id (sample_stored 100 1), ch_msg_buffer_complete = True, ch_groupnode = True\<rparr>"

definition sample_buffer :: buf_mem where
  "sample_buffer = \<lparr>bm_links = wr (wr (\<lambda>_ _. None) 7 sm_next (Some 8)) 8 sm_prev (Some 7),
     bm_msgs = [7 \<mapsto> sample_stored 100 0, 8 \<mapsto> sample_stored 100 1], bm_reaped = [], bm_group = []\<rparr>"

lemma sample_msgs:
  "msg_at sample_buffer 7 = sample_stored 100 0" "msg_at sample_buffer 8 = sample_stored 100 1"
  "msg_pos sample_buffer 7 = (100, 0)" "msg_pos sample_buffer 8 = (100, 1)"
  "single_tag (m_id (sample_stored t g))" "time (m_id (sample_stored t g)) = t" "the_tag (m_id (sample_stored t g)) = sint g"
  "m_expires (sample_stored t g) = t + 100"
  by (simp_all add: sample_buffer_def msg_at_def msg_pos_def pos_def sample_stored_def single_tag_def the_tag_def)

lemma sample_fields:
  "ch_owner sample_chan = 0" "ch_max_messages sample_chan = 2" "ch_msg_buffer_complete sample_chan" "ch_groupnode sample_chan"
  "ch_latest_msgid sample_chan = m_id (sample_stored 100 1)"
  by (simp_all add: sample_chan_def)

lemma sample_inv: "chan_inv sample_chan sample_buffer [7, 8]"
  by (simp add: chan_inv_def buf_rep_def dll_def sample_msgs)
    (simp add: sample_chan_def sample_buffer_def last_of_def)

theorem deliver_all_witness:
  "\<exists>st'. deliver 2 0 150 (sample_chan, sample_buffer) (m_id (sample_stored 100 0)) = Some ([8], MSG_EXPECTED, st')"
  using deliver_all [OF sample_inv, of 0 150 "[7, 8]" "m_id (sample_stored 100 0)" 2]
  by (simp add: sample_msgs sample_fields gc_list_def pos_def)

lemma drop_prefix:
  assumes "xs = ds @ ys" and "drop k xs = ts @ ys" and "k \<le> length xs"
  shows "drop k ds = ts"
proof -
  have "length ts + length ys = length xs - k" using arg_cong [OF assms(2), of length] by simp
  then have "k \<le> length ds" using assms(1,3) by simp
  with assms(1,2) show ?thesis by simp
qed

text \<open>
  C7: collecting keeps a channel's buffer valid and removes only messages at its old end: those beyond the configured
  number of messages and, after them, those that have expired.  The oldest message that is kept has not expired.
  Every removed message is handed to the reaper, in order, and taken off the channel's group.
\<close>

theorem gc_removes_old:
  assumes inv: "chan_inv ch m xs" and own: "ch_owner ch = slot"
  defines "lim \<equiv> sint (ch_max_messages ch)"
  shows "\<exists>ds ys ch' m'. memstore_chanhead_messages_gc slot now ch m = Some (ch', m') \<and> xs = ds @ ys \<and> chan_inv ch' m' ys
     \<and> removed ch m ds ch' m' \<and> (lim \<ge> 0 \<longrightarrow> int (length ys) \<le> lim)
     \<and> (ys \<noteq> [] \<longrightarrow> now \<le> m_expires (msg_at m (hd ys)))
     \<and> (\<forall>d \<in> set (if lim < 0 then ds else drop (length xs - nat lim) ds). m_expires (msg_at m d) < now)"
proof -
  let ?ys = "gc_list now lim m xs" and ?zs = "if lim < 0 then xs else drop (length xs - nat lim) xs"
  let ?P = "\<lambda>x. now > m_expires (msg_at m x)"
  obtain ds ch' m' where g: "memstore_chanhead_messages_gc slot now ch m = Some (ch', m')" "xs = ds @ ?ys" "chan_inv ch' m' ?ys"
      "removed ch m ds ch' m'"
    using chan_inv_gc [OF inv own, of now] unfolding lim_def by blast
  have "drop (if lim < 0 then 0 else length xs - nat lim) xs = takeWhile ?P ?zs @ ?ys" by (simp add: gc_list_def)
  from drop_prefix [OF g(2) this]
  have "(if lim < 0 then ds else drop (length xs - nat lim) ds) = takeWhile ?P ?zs" by (cases "lim < 0") simp_all
  then have "\<forall>d \<in> set (if lim < 0 then ds else drop (length xs - nat lim) ds). m_expires (msg_at m d) < now"
    by (simp only:) (blast dest: set_takeWhileD)
  moreover have "?ys \<noteq> [] \<longrightarrow> now \<le> m_expires (msg_at m (hd ?ys))"
    using hd_dropWhile [of ?P ?zs] by (auto simp: gc_list_def not_less)
  moreover have "lim \<ge> 0 \<longrightarrow> int (length ?ys) \<le> lim"
    using length_dropWhile_le [of ?P ?zs] by (auto simp: gc_list_def)
  ultimately show ?thesis using g by blast
qed

theorem gc_removes_old_witness:
  "\<exists>ds ys ch' m'. memstore_chanhead_messages_gc 0 300 sample_chan sample_buffer = Some (ch', m') \<and> [7, 8] = ds @ ys
     \<and> chan_inv ch' m' ys \<and> removed sample_chan sample_buffer ds ch' m'"
proof -
  have "ch_owner sample_chan = 0" by (simp add: sample_fields)
  from gc_removes_old [OF sample_inv this, of 300] show ?thesis by blast
qed

end
