(* ===== verification/Chan_Publish.thy ===== *)
theory Chan_Publish
  imports Chan_Messages Channel_Groups
begin

text \<open>
  memstore.c: publishing a message to a channel, and what publishers and subscribers may rely on.

  The configuration of the location is a record; \<open>shm_ok\<close> is whether shared memory for the copy of the message is
  available, \<open>cell\<close> the list cell \<^verbatim>\<open>ngx_alloc\<close> returned.  The delivery to the subscribers waiting
  on the channel is the business of the spooler: the outcome names the message it is given.
\<close>

datatype nchan_redis_storage_mode =
  REDIS_MODE_CONF_UNSET | REDIS_MODE_BACKUP | REDIS_MODE_DISTRIBUTED | REDIS_MODE_DISTRIBUTED_NOSTORE

record pub_conf =
  cf_message_timeout :: int
  cf_max_messages :: uint64
  cf_redis_enabled :: bool
  cf_redis_storage_mode :: nchan_redis_storage_mode

definition NCHAN_NOBUFFER_MSG_EXPIRE_SEC :: int where "NCHAN_NOBUFFER_MSG_EXPIRE_SEC = 10"

definition fill_message_timedata :: "int \<Rightarrow> int \<Rightarrow> nchan_msg \<Rightarrow> nchan_msg" where
  "fill_message_timedata now timeout msg =
     (let msg = (if time (m_id msg) = 0 then msg\<lparr>m_id := (m_id msg)\<lparr>time := now\<rparr>\<rparr> else msg)
      in if m_expires msg = 0 then msg\<lparr>m_expires := time (m_id msg) + timeout\<rparr> else msg)"

text \<open>The outer option is a fault, the inner one \<^verbatim>\<open>NULL\<close>.  When only the cell cannot be allocated, the copy is leaked.\<close>

definition create_shared_message ::
  "abi_sizes \<Rightarrow> bool \<Rightarrow> ptr \<Rightarrow> nchan_msg \<Rightarrow> bool \<Rightarrow> buf_mem \<Rightarrow> (addr \<times> buf_mem) option option" where
  "create_shared_message z shm_ok cell msg msg_already_in_shm m = do {
     copy \<leftarrow> (if msg_already_in_shm then Some (Some msg)
              else map_option (map_option fst) (create_shm_msg z shm_ok msg));
     case copy of
       None \<Rightarrow> Some None
     | Some c \<Rightarrow>
         Some (case cell of
           None \<Rightarrow> None
         | Some a \<Rightarrow> Some (a, m\<lparr>bm_msgs := (bm_msgs m)(a \<mapsto> c),
               bm_links := wr (wr (bm_links m) a sm_prev None) a sm_next None\<rparr>))
   }"

datatype publish_out =
    Pub_insufficient_storage
  | Pub_internal_error
  | Pub_forwarded nchan_msg        \<comment> \<open>sent to the worker that owns the channel\<close>
  | Pub_unbuffered addr nchan_msg  \<comment> \<open>delivered, and given to \<^verbatim>\<open>nobuffer_msg_reaper\<close>\<close>
  | Pub_buffered addr nchan_msg    \<comment> \<open>delivered and stored\<close>

definition ids_differ :: "nchan_msg \<Rightarrow> bool" where
  "ids_differ msg \<longleftrightarrow> time (m_id msg) \<noteq> time (m_prev_id msg)
     \<or> time (m_id msg) = time (m_prev_id msg) \<and> tag0 (m_id msg) \<noteq> tag0 (m_prev_id msg)"

definition set_latest :: "chanhead \<Rightarrow> nchan_msg_id \<Rightarrow> chanhead option" where
  "set_latest ch i = do {
     (rc, latest, _) \<leftarrow> nchan_copy_msg_id (\<lambda>_. None) None (ch_latest_msgid ch) i None;
     Some (ch\<lparr>ch_latest_msgid := latest\<rparr>)
   }"

text \<open>
  \<open>cf\<close> is the configuration of the publisher's location.  The channel keeps the one it was created with, \<^verbatim>\<open>ch->cf\<close>;
  \<open>distributed\<close> is whether that one keeps messages in Redis, which \<open>chanhead_push_message\<close> asks.
\<close>

definition nchan_store_chanhead_publish_message_generic ::
  "abi_sizes \<Rightarrow> int \<Rightarrow> int \<Rightarrow> pub_conf \<Rightarrow> bool \<Rightarrow> bool \<Rightarrow> ptr \<Rightarrow> nchan_msg \<Rightarrow> bool \<Rightarrow> chanhead \<Rightarrow> buf_mem
     \<Rightarrow> (publish_out \<times> chan_state) option" where
  "nchan_store_chanhead_publish_message_generic z slot now cf distributed shm_ok cell msg msg_in_shm ch m = do {
     c_assert (tagcount (m_id msg) = 1);
     c_assert (\<not> cf_redis_enabled cf \<or> cf_redis_storage_mode cf = REDIS_MODE_BACKUP);
     if slot \<noteq> ch_owner ch then do {
       r \<leftarrow> create_shm_msg z shm_ok msg;
       Some (case r of None \<Rightarrow> Pub_insufficient_storage | Some (copy, _) \<Rightarrow> Pub_forwarded copy, ch, m)
     }
     else do {
       let msg = fill_message_timedata now (cf_message_timeout cf) msg;
       let ch = ch\<lparr>ch_max_messages := cf_max_messages cf\<rparr>;
       (ch, m) \<leftarrow> memstore_chanhead_messages_gc slot now ch m;
       sh \<leftarrow> create_shared_message z shm_ok cell msg msg_in_shm m;
       case sh of
         None \<Rightarrow> Some (Pub_internal_error, ch, m)
       | Some (a, m) \<Rightarrow>
           if ch_max_messages ch = 0 then do {
             pm \<leftarrow> bm_msgs m a;
             pid \<leftarrow> set_tag0 ((m_prev_id pm)\<lparr>time := 0\<rparr>) 0;
             let pm = pm\<lparr>m_expires := now + NCHAN_NOBUFFER_MSG_EXPIRE_SEC, m_prev_id := pid\<lparr>tagcount := 1\<rparr>\<rparr>;
             i \<leftarrow> (if time (ch_latest_msgid ch) = time (m_id pm)
                   then do { t \<leftarrow> tag0w (ch_latest_msgid ch); set_tag0 (m_id pm) (t + 1) }
                   else Some (m_id pm));
             let pm = pm\<lparr>m_id := i\<rparr>;
             let m = m\<lparr>bm_msgs := (bm_msgs m)(a \<mapsto> pm)\<rparr>;
             ch \<leftarrow> set_latest ch (m_id pm);
             c_assert (ids_differ pm);
             Some (Pub_unbuffered a pm, ch, m)
           }
           else do {
             (rc, ch, m) \<leftarrow> chanhead_push_message slot now distributed ch m a;
             if rc \<noteq> NGX_OK then Some (Pub_internal_error, ch, m)
             else do {
               c_assert (ch_msg_last ch = Some a);
               pm \<leftarrow> bm_msgs m a;
               ch \<leftarrow> set_latest ch (m_id pm);
               c_assert (ids_differ pm);
               Some (Pub_buffered a pm, ch, m)
             }
           }
     }
   }"

subsection \<open>Publishing to a buffered channel\<close>

lemma push_correct:
  assumes inv: "chan_inv ch m xs" and own: "ch_owner ch = slot" and pr: "push_ready m xs a"
    and t: "t = push_time now (msg_at m a)" and ord: "push_in_order m xs t" "0 < t" and len: "length xs + 1 < 2 ^ 63"
    and lim: "sint (ch_max_messages ch) \<noteq> 0" and live: "now \<le> m_expires (msg_at m a)"
  shows "\<exists>ds ch' m'. chanhead_push_message slot now False ch m a = Some (NGX_OK, ch', m')
     \<and> xs = ds @ gc_list now (if sint (ch_max_messages ch) < 0 then -1 else sint (ch_max_messages ch) - 1) m xs
     \<and> chan_inv ch' m' (gc_list now (if sint (ch_max_messages ch) < 0 then -1 else sint (ch_max_messages ch) - 1) m xs @ [a])
     \<and> removed (pushed_ch ch a) (pushed_mem ch m xs t a) ds ch' m'"
proof -
  let ?lim = "sint (ch_max_messages ch)"
  let ?ch = "pushed_ch ch a" and ?m = "pushed_mem ch m xs t a"
  let ?k = "if ?lim < 0 then -1 else ?lim - 1"
  have inv1: "chan_inv ?ch ?m (xs @ [a])" by (rule push_keeps_inv [OF inv pr t ord len])
  have own1: "ch_owner ?ch = slot" "ch_max_messages ?ch = ch_max_messages ch" using own by (simp_all add: pushed_ch_def)
  have at: "msg_at ?m x = msg_at m x" if "x \<in> set xs" for x
    using that pr by (auto simp: pushed_mem_def msg_at_def push_ready_def)
  have ea: "now \<le> m_expires (msg_at ?m a)" using live by (simp add: pushed_mem_def msg_at_def pushed_msg_def)
  have dw: "dropWhile (\<lambda>x. now > m_expires (msg_at ?m x)) (zs @ [a]) = dropWhile (\<lambda>x. now > m_expires (msg_at m x)) zs @ [a]"
    if "set zs \<subseteq> set xs" for zs
    using that ea by (induction zs) (auto simp: at)
  have gl: "gc_list now ?lim ?m (xs @ [a]) = gc_list now ?k m xs @ [a]"
  proof (cases "?lim < 0")
    case True
    then show ?thesis using dw [of xs] by (simp add: gc_list_def)
  next
    case False
    then have "drop (length (xs @ [a]) - nat ?lim) (xs @ [a]) = drop (length xs - nat (?lim - 1)) xs @ [a]"
      using lim by (auto simp: nat_diff_distrib)
    with False lim dw [of "drop (length xs - nat (?lim - 1)) xs"] show ?thesis
      by (simp add: gc_list_def set_drop_subset)
  qed
  obtain ds ch' m' where g: "memstore_chanhead_messages_gc slot now ?ch ?m = Some (ch', m')"
    "xs @ [a] = ds @ gc_list now ?k m xs @ [a]" "chan_inv ch' m' (gc_list now ?k m xs @ [a])" "removed ?ch ?m ds ch' m'"
    using chan_inv_gc [OF inv1 own1(1), of now] unfolding own1(2) gl by blast
  have "ch_msg_last ch' = Some a" using g(3) buf_rep_ends [of ch' m'] by (auto simp: chan_inv_def)
  then have "chanhead_push_message slot now False ch m a = Some (NGX_OK, ch', m')"
    unfolding push_unfold [OF inv pr t] using g(1) by simp
  with g show ?thesis by auto
qed

lemma set_latest_single:
  assumes "single_tag (ch_latest_msgid ch)" and "single_tag i"
  shows "set_latest ch i = Some (ch\<lparr>ch_latest_msgid := i\<rparr>)"
  using assms
  by (cases i; cases "ch_latest_msgid ch") (auto simp: set_latest_def nchan_copy_msg_id_def single_tag_def)

lemma gc_list_length: "0 \<le> lim \<Longrightarrow> int (length (gc_list now lim m xs)) \<le> lim"
  using length_dropWhile_le [of "\<lambda>x. now > m_expires (msg_at m x)" "drop (length xs - nat lim) xs"]
  by (simp add: gc_list_def)

lemma gc_list_cong:
  "(\<And>x. x \<in> set xs \<Longrightarrow> msg_at m x = msg_at m' x) \<Longrightarrow> gc_list now lim m xs = gc_list now lim m' xs"
  by (auto simp: gc_list_def intro!: dropWhile_cong dest: in_set_dropD)

text \<open>If the collection leaves nothing although the limit is positive, the newest message has expired.\<close>

lemma gc_list_empty:
  assumes "gc_list now lim m xs = []" and "xs \<noteq> []" and "0 < lim"
  shows "now > m_expires (msg_at m (last xs))"
proof -
  let ?ys = "drop (length xs - nat lim) xs"
  have "length xs - nat lim < length xs" using assms(2,3) by (intro diff_less) auto
  then have "?ys \<noteq> []" by simp
  then have "last xs \<in> set ?ys" by (metis last_drop last_in_set drop_eq_Nil not_le)
  moreover have "dropWhile (\<lambda>x. now > m_expires (msg_at m x)) ?ys = []" using assms by (simp add: gc_list_def)
  ultimately show ?thesis by (auto simp: dropWhile_eq_Nil_conv)
qed

lemma chan_inv_upd:
  assumes "chan_inv ch m xs" and "a \<notin> set xs"
  shows "chan_inv ch (m\<lparr>bm_msgs := (bm_msgs m)(a \<mapsto> c), bm_links := wr (wr (bm_links m) a f p) a g q\<rparr>) xs"
proof -
  let ?m = "m\<lparr>bm_msgs := (bm_msgs m)(a \<mapsto> c), bm_links := wr (wr (bm_links m) a f p) a g q\<rparr>"
  have at: "msg_at ?m x = msg_at m x" if "x \<in> set xs" for x using that assms(2) by (auto simp: msg_at_def)
  have "sorted_wrt (\<lambda>x y. msg_pos ?m x < msg_pos ?m y) xs"
    by (rule sorted_wrt_mono_rel [of xs "\<lambda>x y. msg_pos m x < msg_pos m y"])
      (use assms at in \<open>auto simp: chan_inv_def msg_pos_def\<close>)
  with assms at show ?thesis by (auto simp: chan_inv_def buf_rep_def)
qed

text \<open>The conditions under which a worker stores a new message: see \<open>publish_buffered\<close>.\<close>

definition storable :: "int \<Rightarrow> pub_conf \<Rightarrow> nchan_msg \<Rightarrow> bool" where
  "storable now cf msg \<longleftrightarrow> \<not> cf_redis_enabled cf \<and> 0 < sint (cf_max_messages cf) \<and> 0 \<le> cf_message_timeout cf
     \<and> single_tag (m_id msg) \<and> time (m_id msg) = 0 \<and> m_expires msg = 0
     \<and> (\<exists>ts. tag (m_prev_id msg) = Fixed ts \<and> length ts = NCHAN_FIXED_MULTITAG_MAX)"

definition after_push :: "addr \<Rightarrow> ngx_rc \<times> chan_state \<Rightarrow> (publish_out \<times> chan_state) option" where
  "after_push a r = (case r of (rc, ch, m) \<Rightarrow>
     if rc \<noteq> NGX_OK then Some (Pub_internal_error, ch, m)
     else do {
       c_assert (ch_msg_last ch = Some a);
       pm \<leftarrow> bm_msgs m a;
       ch \<leftarrow> set_latest ch (m_id pm);
       c_assert (ids_differ pm);
       Some (Pub_buffered a pm, ch, m)
     })"

lemma publish_reduces:
  assumes inv: "chan_inv ch m xs" and own: "ch_owner ch = slot" and st: "storable now cf msg" and fresh: "a \<notin> set xs"
  defines "ys \<equiv> gc_list now (sint (cf_max_messages cf)) m xs"
  shows "\<exists>ds ch1 m2. nchan_store_chanhead_publish_message_generic z slot now cf False True (Some a) msg False ch m =
        chanhead_push_message slot now False ch1 m2 a \<bind> after_push a
     \<and> xs = ds @ ys \<and> chan_inv ch1 m2 ys \<and> push_ready m2 ys a \<and> (\<forall>x \<in> set xs. msg_at m2 x = msg_at m x)
     \<and> ch_owner ch1 = slot \<and> ch_max_messages ch1 = cf_max_messages cf \<and> ch_latest_msgid ch1 = ch_latest_msgid ch
     \<and> push_time now (msg_at m2 a) = now \<and> now \<le> m_expires (msg_at m2 a)"
proof -
  let ?ch = "ch\<lparr>ch_max_messages := cf_max_messages cf\<rparr>"
  define msg1 where "msg1 = msg\<lparr>m_id := (m_id msg)\<lparr>time := now\<rparr>, m_expires := now + cf_message_timeout cf\<rparr>"
  define c where "c = msg1\<lparr>m_storage := NCHAN_MSG_SHARED, m_parent := None\<rparr>"
  have fill: "fill_message_timedata now (cf_message_timeout cf) msg = msg1"
    using st by (simp add: fill_message_timedata_def msg1_def storable_def)
  have tc: "tagcount (m_id msg) = 1" "tagcount (m_id msg1) = 1" using st by (auto simp: storable_def single_tag_def msg1_def)
  have inv0: "chan_inv ?ch m xs" using inv by (simp add: chan_inv_def buf_rep_def)
  obtain ds ch1 m1 where g: "memstore_chanhead_messages_gc slot now ?ch m = Some (ch1, m1)"
    "xs = ds @ ys" "chan_inv ch1 m1 ys" "removed ?ch m ds ch1 m1"
    using chan_inv_gc [OF inv0, of slot now] own unfolding ys_def by auto
  have ch1: "ch_owner ch1 = slot" "ch_max_messages ch1 = cf_max_messages cf" "ch_latest_msgid ch1 = ch_latest_msgid ch" "msg_at m1 = msg_at m"
    using g(4) own by (auto simp: removed_def msg_at_def)
  define m2 where "m2 = m1\<lparr>bm_msgs := (bm_msgs m1)(a \<mapsto> c), bm_links := wr (wr (bm_links m1) a sm_prev None) a sm_next None\<rparr>"
  have sh: "create_shared_message z True (Some a) msg1 False m1 = Some (Some (a, m2))"
    using tc by (simp add: create_shared_message_def create_shm_msg_def Let_def m2_def c_def)
  have out: "a \<notin> set ys" using fresh g(2) by auto
  have a2: "msg_at m2 a = c" "msg_at m2 x = msg_at m x" if "x \<in> set xs" for x
    using that fresh ch1(4) by (auto simp: m2_def msg_at_def fun_eq_iff)
  have "cf_max_messages cf \<noteq> 0" using st by (auto simp: storable_def)
  then have "nchan_store_chanhead_publish_message_generic z slot now cf False True (Some a) msg False ch m =
      chanhead_push_message slot now False ch1 m2 a \<bind> after_push a"
    using tc st own fill g(1) sh ch1(2)
    by (simp add: nchan_store_chanhead_publish_message_generic_def Let_def storable_def after_push_def [abs_def])
  moreover have "chan_inv ch1 m2 ys" unfolding m2_def by (rule chan_inv_upd [OF g(3) out])
  moreover have "push_ready m2 ys a" "push_time now (msg_at m2 a) = now" "now \<le> m_expires (msg_at m2 a)"
    using st out by (auto simp: push_ready_def m2_def msg_at_def c_def msg1_def storable_def single_tag_def push_time_def)
  ultimately show ?thesis using g(2) ch1 a2(2) by blast
qed

lemma in_order_after_gc:
  assumes ord: "push_in_order m xs now" and xs: "xs = ds @ gc_list now lim m xs" and lim: "0 < lim"
    and alive: "\<And>x. x \<in> set xs \<Longrightarrow> time (m_id (msg_at m x)) \<le> m_expires (msg_at m x)"
  shows "push_in_order m (gc_list now lim m xs) now"
    and "gc_list now lim m xs = [] \<Longrightarrow> xs = [] \<or> time (last_id m xs) < now"
proof -
  show "xs = [] \<or> time (last_id m xs) < now" if "gc_list now lim m xs = []"
  proof (cases "xs = []")
    case False
    with alive [of "last xs"] gc_list_empty [OF that False lim] show ?thesis by (simp add: last_id_def)
  qed simp
  have "gc_list now lim m xs \<noteq> [] \<Longrightarrow> last (gc_list now lim m xs) = last xs" using xs by (metis last_appendR)
  with ord xs show "push_in_order m (gc_list now lim m xs) now"
    by (cases "gc_list now lim m xs = []") (auto simp: push_in_order_def last_id_def)
qed

lemma pushed_after:
  assumes inv: "chan_inv ch m xs" and x: "x \<in> set xs" and xs: "xs = ds @ ys"
    and ord: "push_in_order m ys now" and em: "ys = [] \<Longrightarrow> time (last_id m xs) < now"
  shows "msg_pos m x < (now, sint (push_tag m ys now))"
proof -
  have ne: "xs \<noteq> []" using x by auto
  then have l: "msg_pos m x \<le> pos (last_id m xs)"
    using inv x by (cases xs rule: rev_cases) (auto simp: chan_inv_def last_id_def msg_pos_def sorted_wrt_append intro: less_imp_le)
  have "the_tag (last_id m xs) \<ge> 0" using inv ne by (simp add: chan_inv_def last_id_def)
  moreover have "ys \<noteq> [] \<Longrightarrow> last_id m ys = last_id m xs" using xs by (simp add: last_id_def)
  ultimately have "pos (last_id m xs) < (now, sint (push_tag m ys now))"
    using ord em push_tag_value [OF ord] by (cases "ys = []") (auto simp: pos_def push_in_order_def)
  with l show ?thesis by simp
qed

lemma after_push_ok:
  assumes "ch_msg_last ch = Some a" "bm_msgs m a = Some pm" "single_tag (ch_latest_msgid ch)" "single_tag (m_id pm)" "ids_differ pm"
  shows "after_push a (NGX_OK, ch, m) = Some (Pub_buffered a pm, ch\<lparr>ch_latest_msgid := m_id pm\<rparr>, m)"
  using assms by (simp add: after_push_def set_latest_single)

lemma pushed_ids_differ:
  assumes inv: "chan_inv ch m xs" and pr: "push_ready m xs a" and ord: "push_in_order m xs t" "0 < t"
  shows "ids_differ (pushed_msg m xs t (msg_at m a))"
proof (cases "xs = []")
  case True
  then show ?thesis using pr ord stamped_simps [of "m_id (msg_at m a)"]
    by (simp add: ids_differ_def pushed_msg_def push_prev_id_def push_ready_def)
next
  case False
  let ?i = "stamped (m_id (msg_at m a)) t (push_tag m xs t)"
  have l: "single_tag (last_id m xs)" "the_tag (last_id m xs) \<ge> 0" using inv False by (auto simp: chan_inv_def last_id_def)
  have s: "single_tag ?i" "time ?i = t" "the_tag ?i = sint (push_tag m xs t)"
    using pr stamped_simps [of "m_id (msg_at m a)"] by (simp_all add: push_ready_def)
  show ?thesis using False l s push_tag_value [OF ord(1)] tag0_single [OF l(1)] tag0_single [OF s(1)]
    by (auto simp: ids_differ_def pushed_msg_def push_prev_id_def)
qed

text \<open>
  C2: publishing a new message to a channel that keeps messages (on the worker that owns the channel, with memory
  available, the channel not created by a location that keeps its messages in Redis) stores it.  The call does not fault, the message becomes the newest one of the buffer, its id has the time
  of publication and comes after the id of every message that was in the buffer, the buffer keeps its invariant and
  loses only messages at its old end, never holds more than the configured number of messages, and the channel's
  latest id is the id of the message.
\<close>

theorem publish_buffered:
  assumes inv: "chan_inv ch m xs" and own: "ch_owner ch = slot" and st: "storable now cf msg" and fresh: "a \<notin> set xs"
    and now: "0 < now" "push_in_order m xs now" and len: "length xs + 1 < 2 ^ 63" and lat: "single_tag (ch_latest_msgid ch)"
    and alive: "\<And>x. x \<in> set xs \<Longrightarrow> time (m_id (msg_at m x)) \<le> m_expires (msg_at m x)"
  shows "\<exists>ds zs pm ch' m'. nchan_store_chanhead_publish_message_generic z slot now cf False True (Some a) msg False ch m
        = Some (Pub_buffered a pm, ch', m')
     \<and> xs = ds @ zs \<and> chan_inv ch' m' (zs @ [a]) \<and> int (length (zs @ [a])) \<le> sint (cf_max_messages cf)
     \<and> msg_at m' a = pm \<and> time (m_id pm) = now \<and> ch_latest_msgid ch' = m_id pm
     \<and> (\<forall>x \<in> set xs. msg_pos m x < pos (m_id pm))"
proof -
  let ?lim = "sint (cf_max_messages cf)"
  let ?ys = "gc_list now ?lim m xs"
  have lim: "0 < ?lim" using st by (simp add: storable_def)
  obtain ds1 ch1 m2 where r: "nchan_store_chanhead_publish_message_generic z slot now cf False True (Some a) msg False ch m =
        chanhead_push_message slot now False ch1 m2 a \<bind> after_push a"
      "xs = ds1 @ ?ys" "chan_inv ch1 m2 ?ys" "push_ready m2 ?ys a" "\<forall>x \<in> set xs. msg_at m2 x = msg_at m x"
      "ch_owner ch1 = slot" "ch_max_messages ch1 = cf_max_messages cf" "ch_latest_msgid ch1 = ch_latest_msgid ch"
      "push_time now (msg_at m2 a) = now" "now \<le> m_expires (msg_at m2 a)"
    using publish_reduces [OF inv own st fresh] by blast
  have sub: "set ?ys \<subseteq> set xs" "length ?ys \<le> length xs"
    using arg_cong [OF r(2), of set] arg_cong [OF r(2), of length] by auto
  have li: "?ys \<noteq> [] \<Longrightarrow> last_id m2 ?ys = last_id m ?ys"
    using r(5) subsetD [OF sub(1) last_in_set] by (simp add: last_id_def)
  note ord = in_order_after_gc [OF now(2) r(2) lim alive]
  have ord2: "push_in_order m2 ?ys now" using ord(1) li by (auto simp: push_in_order_def)
  have tg: "push_tag m2 ?ys now = push_tag m ?ys now" using li by (auto simp: push_tag_def)
  let ?zs = "gc_list now (?lim - 1) m2 ?ys" and ?pm = "pushed_msg m2 ?ys now (msg_at m2 a)"
  obtain ds2 ch' m' where p: "chanhead_push_message slot now False ch1 m2 a = Some (NGX_OK, ch', m')"
      "?ys = ds2 @ ?zs" "chan_inv ch' m' (?zs @ [a])" "removed (pushed_ch ch1 a) (pushed_mem ch1 m2 ?ys now a) ds2 ch' m'"
    using push_correct [OF r(3,6,4) r(9) [symmetric] ord2 now(1)] sub(2) len lim r(7,10) by auto
  have pm: "bm_msgs m' a = Some ?pm" "ch_latest_msgid ch' = ch_latest_msgid ch"
    using p(4) r(8) by (auto simp: removed_def pushed_mem_def pushed_ch_def)
  have id: "single_tag (m_id ?pm)" "pos (m_id ?pm) = (now, sint (push_tag m ?ys now))" "time (m_id ?pm) = now"
    using stamped_simps [of "m_id (msg_at m2 a)"] r(4) tg by (simp_all add: pushed_msg_def push_ready_def pos_def)
  have "ch_msg_last ch' = Some a" using p(3) buf_rep_ends [of ch' m'] by (auto simp: chan_inv_def)
  with r(1) p(1) pm id(1) lat pushed_ids_differ [OF r(3,4) ord2 now(1)]
  have out: "nchan_store_chanhead_publish_message_generic z slot now cf False True (Some a) msg False ch m
      = Some (Pub_buffered a ?pm, ch'\<lparr>ch_latest_msgid := m_id ?pm\<rparr>, m')" by (simp add: after_push_ok)
  have inv': "chan_inv (ch'\<lparr>ch_latest_msgid := m_id ?pm\<rparr>) m' (?zs @ [a])" using p(3) by (simp add: chan_inv_def buf_rep_def)
  have le: "int (length (?zs @ [a])) \<le> ?lim" using gc_list_length [of "?lim - 1" now m2 ?ys] lim by simp
  have gt: "\<forall>x \<in> set xs. msg_pos m x < pos (m_id ?pm)"
    unfolding id(2) using pushed_after [OF inv _ r(2) ord(1)] ord(2) by (metis empty_iff list.set(1))
  have "xs = (ds1 @ ds2) @ ?zs" using r(2) p(2) by (metis append.assoc)
  moreover have "msg_at m' a = ?pm" using pm(1) by (simp add: msg_at_def)
  ultimately show ?thesis using out inv' le gt id(3) by (intro exI conjI) (assumption | simp)+
qed

definition sample_conf :: pub_conf where
  "sample_conf = \<lparr>cf_message_timeout = 60, cf_max_messages = 2, cf_redis_enabled = False, cf_redis_storage_mode = REDIS_MODE_CONF_UNSET\<rparr>"

theorem publish_buffered_witness:
  "\<exists>ds zs pm ch' m'. nchan_store_chanhead_publish_message_generic sample_abi 0 100 sample_conf False True (Some 9)
        (sample_stored 0 0 \<lparr>m_expires := 0\<rparr>) False sample_chan sample_buffer = Some (Pub_buffered 9 pm, ch', m')
     \<and> [7, 8] = ds @ zs \<and> chan_inv ch' m' (zs @ [9]) \<and> (100, 1) < pos (m_id pm)"
proof -
  have own: "ch_owner sample_chan = 0" by (simp add: sample_fields)
  have st: "storable 100 sample_conf (sample_stored 0 0 \<lparr>m_expires := 0\<rparr>)"
    by (simp add: storable_def sample_conf_def sample_stored_def sample_msg_def single_tag_def NCHAN_ZERO_MSGID_def)
  have ord: "push_in_order sample_buffer [7, 8] 100" by (simp add: push_in_order_def last_id_def sample_msgs)
  have lat: "single_tag (ch_latest_msgid sample_chan)" by (simp add: sample_fields sample_msgs)
  have al: "time (m_id (msg_at sample_buffer x)) \<le> m_expires (msg_at sample_buffer x)" if "x \<in> set [7, 8]" for x
    using that by (auto simp: sample_msgs)
  have "\<exists>x \<in> set [7, 8]. msg_pos sample_buffer x = (100, 1)" by (simp add: sample_msgs)
  with publish_buffered [OF sample_inv own st, of 9 sample_abi, OF _ _ ord _ lat al] show ?thesis by fastforce
qed

end
