(* ===== verification/Multi_Get.thy ===== *)
theory Multi_Get
  imports Chan_Messages
begin

text \<open>
  memstore.c: getting a message for a subscriber of several channels at once.

  \<^verbatim>\<open>nchan_store_async_get_multi_message\<close> asks every channel that may have one for its next message;
  \<^verbatim>\<open>nchan_store_async_get_multi_message_callback\<close> collects the answers, which arrive in any order, keeps the best
  one, and replies when all are there.  Messages are cells of a \<open>msg_heap\<close>; the two static arrays for large tags are the
  cells \<open>la\<close> and \<open>pla\<close> of the heap of tags, and \<open>sa\<close> is the stack slot of the reply.  A request that was freed is \<open>None\<close>;
  the calls it makes are recorded in order, a reply together with the tags as they are when it is given.
\<close>

record multi_get =
  mg_status :: nchan_msg_status
  mg_msg :: ptr
  mg_n :: int
  mg_wanted :: nchan_msg_id
  mg_getting :: int
  mg_multi_count :: int
  mg_timer_set :: bool
  mg_expired :: int

datatype mg_event = Release_chanhead | Reply nchan_msg_status "nchan_msg option" tag_heap

definition set_multimsg_msg ::
  "multi_get \<Rightarrow> int \<Rightarrow> ptr \<Rightarrow> nchan_msg_status \<Rightarrow> msg_heap \<Rightarrow> tag_heap \<Rightarrow> (multi_get \<times> msg_heap \<times> tag_heap) option" where
  "set_multimsg_msg d n msg status h th = do {
     (h, th) \<leftarrow> (case mg_msg d of
         None \<Rightarrow> Some (h, th)
       | Some a \<Rightarrow> do { (_, h, th) \<leftarrow> msg_release h th a; Some (h, th) });
     h \<leftarrow> (case msg of
         None \<Rightarrow> Some h
       | Some a \<Rightarrow> do { (rc, h) \<leftarrow> msg_reserve h a; c_assert (rc = NGX_OK); Some h });
     Some (d\<lparr>mg_status := status, mg_msg := msg, mg_n := n\<rparr>, h, th)
   }"

definition nchan_store_async_get_multi_message_callback_cleanup ::
  "multi_get \<Rightarrow> tag_heap \<Rightarrow> (multi_get option \<times> tag_heap) option" where
  "nchan_store_async_get_multi_message_callback_cleanup d th =
     (if mg_getting d = 0 then do { (_, th) \<leftarrow> nchan_free_msg_id th (mg_wanted d); Some (None, th) }
      else Some (Some d, th))"

text \<open>Keeping the better of the answer that just arrived and the best one so far.\<close>

definition keep_best ::
  "multi_get \<Rightarrow> int \<Rightarrow> nchan_msg_status \<Rightarrow> ptr \<Rightarrow> msg_heap \<Rightarrow> tag_heap \<Rightarrow> (multi_get \<times> msg_heap \<times> tag_heap) option" where
  "keep_best d n status msg h th =
     (if mg_status d = MSG_PENDING then set_multimsg_msg d n msg status h th
      else case msg of
        Some a \<Rightarrow>
          (case mg_msg d of
             None \<Rightarrow> set_multimsg_msg d n msg status h th
           | Some b \<Rightarrow> do {
               ma \<leftarrow> h a;
               mb \<leftarrow> h b;
               c_assert (time (mg_wanted d) \<le> time (m_id ma));
               ta \<leftarrow> tag0 (m_id ma);
               tb \<leftarrow> tag0 (m_id mb);
               if time (m_id ma) < time (m_id mb) then set_multimsg_msg d n msg status h th
               else if time (m_id ma) = time (m_id mb) \<and> ta < tb
                  \<or> time (m_id ma) = time (m_id mb) \<and> ta = tb \<and> n < mg_n d
                 then set_multimsg_msg d n msg status h th
               else Some (d, h, th)
             })
      | None \<Rightarrow>
          Some (if mg_msg d = None \<and> mg_status d \<noteq> MSG_EXPECTED then d\<lparr>mg_status := status\<rparr> else d, h, th))"

text \<open>The reply: the best message with an id that has one tag per channel.\<close>

definition spread_id :: "ptr_bytes \<Rightarrow> addr \<Rightarrow> int \<Rightarrow> int \<Rightarrow> nchan_msg_id \<Rightarrow> int16 \<Rightarrow> tag_heap \<Rightarrow> (nchan_msg_id \<times> tag_heap) option" where
  "spread_id pb la multi_count n i t0 th = do {
     (i, th) \<leftarrow> (if multi_count > int NCHAN_FIXED_MULTITAG_MAX then do {
         cur \<leftarrow> th la;
         cur \<leftarrow> arr_set cur 0 t0;
         Some (i\<lparr>tag := Allocd (Some la)\<rparr>, th(la \<mapsto> cur))
       } else Some (i, th));
     nchan_expand_msg_id_multi_tag pb th (i\<lparr>tagcount := multi_count\<rparr>) 0 (nat n) (-1)
   }"

definition multi_reply_id ::
  "ptr_bytes \<Rightarrow> addr \<Rightarrow> multi_get \<Rightarrow> nchan_msg_id \<Rightarrow> nchan_msg_id \<Rightarrow> tag_heap \<Rightarrow> (nchan_msg_id \<times> tag_heap) option" where
  "multi_reply_id pb la d ret_id best_id th = do {
     t0 \<leftarrow> tag0w best_id;
     (i, th) \<leftarrow>
       (if time (mg_wanted d) \<noteq> time best_id then do {
          (_, i, th) \<leftarrow> nchan_copy_msg_id th None ret_id best_id None;
          spread_id pb la (mg_multi_count d) (mg_n d) i t0 th
        }
        else do {
          (_, i, th) \<leftarrow> nchan_copy_msg_id th None ret_id (mg_wanted d) (Some la);
          Some (i, th)
        });
     muhtags \<leftarrow> tags_by_count pb th (mg_multi_count d) (tag i);
     muhtags \<leftarrow> arr_set muhtags (nat (mg_n d)) t0;
     (i, th) \<leftarrow> store_tags th (mg_multi_count d) i muhtags;
     Some (i\<lparr>tagactive := mg_n d\<rparr>, th)
   }"

definition multi_reply ::
  "ptr_bytes \<Rightarrow> addr \<Rightarrow> addr \<Rightarrow> addr \<Rightarrow> multi_get \<Rightarrow> addr \<Rightarrow> msg_heap \<Rightarrow> tag_heap \<Rightarrow> (nchan_msg \<times> tag_heap) option" where
  "multi_reply pb sa la pla d b h th = do {
     bm \<leftarrow> h b;
     c_assert (tagcount (m_id bm) = 1);
     (_, h, th) \<leftarrow> nchan_msg_derive_stack h th b sa None None;
     ret \<leftarrow> h sa;
     (_, prev, th) \<leftarrow> nchan_copy_msg_id th None (m_prev_id ret) (mg_wanted d) (Some pla);
     (i, th) \<leftarrow> multi_reply_id pb la d (m_id ret) (m_id bm) th;
     Some (ret\<lparr>m_prev_id := prev, m_id := i\<rparr>, th)
   }"

definition nchan_store_async_get_multi_message_callback ::
  "ptr_bytes \<Rightarrow> addr \<Rightarrow> addr \<Rightarrow> addr \<Rightarrow> nchan_msg_status \<Rightarrow> ptr \<Rightarrow> int \<Rightarrow> multi_get \<Rightarrow> msg_heap \<Rightarrow> tag_heap
     \<Rightarrow> (mg_event list \<times> multi_get option \<times> msg_heap \<times> tag_heap) option" where
  "nchan_store_async_get_multi_message_callback pb sa la pla status msg n d h th =
     (if mg_expired d \<noteq> 0 then do {
        (d, th) \<leftarrow> nchan_store_async_get_multi_message_callback_cleanup (d\<lparr>mg_getting := mg_getting d - 1\<rparr>) th;
        Some ([], d, h, th)
      }
      else do {
        (d, h, th) \<leftarrow> keep_best (d\<lparr>mg_getting := mg_getting d - 1\<rparr>) n status msg h th;
        (ev, h, th) \<leftarrow>
          (if mg_getting d = 0 then
             (case mg_msg d of
                None \<Rightarrow> Some ([Release_chanhead, Reply (mg_status d) None th], h, th)
              | Some b \<Rightarrow> do {
                  (ret, th) \<leftarrow> multi_reply pb sa la pla d b h th;
                  (_, h, th') \<leftarrow> msg_release h th b;
                  Some ([Release_chanhead, Reply (mg_status d) (Some ret) th], h, th')
                })
           else Some ([], h, th));
        (d, th) \<leftarrow> nchan_store_async_get_multi_message_callback_cleanup d th;
        Some (ev, d, h, th)
      })"

definition get_multimsg_timeout :: "int \<Rightarrow> multi_get \<Rightarrow> mg_event list \<times> multi_get" where
  "get_multimsg_timeout now d = ([Release_chanhead], d\<lparr>mg_expired := now, mg_timer_set := False\<rparr>)"

text \<open>
  Starting a request.  \<open>last_ids\<close> are the positions of the internal subscribers of the channels; the channel head could
  not be allocated when it is \<open>None\<close>.  The result is the reply that is given at once, or the request with the
  questions to the channels: the index of the channel and the id after which a message is wanted.
\<close>

definition extract_all :: "ptr_bytes \<Rightarrow> tag_heap \<Rightarrow> nchan_msg_id \<Rightarrow> nat \<Rightarrow> nchan_msg_id list option" where
  "extract_all pb th msg_id n =
     those (map (\<lambda>i. do {
        (rc, req) \<leftarrow> nchan_extract_from_multi_msgid pb th msg_id i NCHAN_ZERO_MSGID;
        c_assert (rc = NGX_OK);
        Some req }) [0..<n])"

definition want_msg :: "nchan_msg_id \<Rightarrow> nchan_msg_id \<Rightarrow> bool option" where
  "want_msg lastid req = do {
     tl \<leftarrow> tag0 lastid;
     tr \<leftarrow> tag0 req;
     Some (time lastid = 0 \<or> time lastid = -1 \<or> time lastid > time req \<or> time lastid = time req \<and> tl \<ge> tr)
   }"

definition nchan_store_async_get_multi_message ::
  "ptr_bytes \<Rightarrow> ptr \<Rightarrow> nchan_msg_id list option \<Rightarrow> nchan_msg_id \<Rightarrow> tag_heap
     \<Rightarrow> (ngx_rc \<times> mg_event list \<times> (multi_get \<times> (nat \<times> nchan_msg_id) list) option \<times> tag_heap) option" where
  "nchan_store_async_get_multi_message pb tags_alloc last_ids msg_id th =
     (case last_ids of
        None \<Rightarrow> Some (NGX_ERROR, [Reply MSG_EXPECTED None th], None, th)
      | Some lasts \<Rightarrow> do {
          let n = length lasts;
          reqs \<leftarrow> extract_all pb th msg_id n;
          want \<leftarrow> (if time msg_id = 0 then Some (replicate n True)
                   else those (map2 want_msg lasts reqs));
          let asked = filter (\<lambda>(i, req). want ! i) (enumerate 0 reqs);
          let getting = length asked;
          if getting = 0 then Some (NGX_OK, [Reply MSG_EXPECTED None th], None, th)
          else do {
            (_, wanted, th) \<leftarrow> nchan_copy_new_msg_id th tags_alloc msg_id;
            Some (NGX_OK, [], Some (\<lparr>mg_status = (if getting = n then MSG_PENDING else MSG_EXPECTED), mg_msg = None, mg_n = -1,
               mg_wanted = wanted, mg_getting = int getting, mg_multi_count = int n, mg_timer_set = True, mg_expired = 0\<rparr>, asked), th)
          }
        })"

subsection \<open>References to the best message\<close>

definition hold :: "msg_heap \<Rightarrow> ptr \<Rightarrow> msg_heap" where
  "hold h p = (case p of None \<Rightarrow> h | Some a \<Rightarrow> h(a := map_option (\<lambda>m. m\<lparr>m_refcount := m_refcount m + 1\<rparr>) (h a)))"

text \<open>A message of a channel's buffer, in shared memory.\<close>

definition stored_msg :: "msg_heap \<Rightarrow> addr \<Rightarrow> bool" where
  "stored_msg h a \<longleftrightarrow> (case h a of None \<Rightarrow> False
     | Some m \<Rightarrow> m_parent m = None \<and> m_refcount m \<ge> 0 \<and> m_storage m = NCHAN_MSG_SHARED
         \<and> single_tag (m_id m) \<and> tagcount (m_prev_id m) \<le> 4)"

definition id_of :: "msg_heap \<Rightarrow> addr \<Rightarrow> nchan_msg_id" where
  "id_of h a = m_id (the (h a))"

lemma hold_id: "stored_msg h a \<Longrightarrow> \<exists>m. hold h p a = Some m \<and> m_id m = id_of h a"
  by (auto simp: hold_def stored_msg_def id_of_def split: option.splits)

lemma reserve_hold: "stored_msg h a \<Longrightarrow> msg_reserve h a = Some (NGX_OK, hold h (Some a))"
  by (subst msg_reserve.simps) (auto simp: stored_msg_def hold_def split: option.splits)

lemma release_hold: "stored_msg h a \<Longrightarrow> msg_release (hold h (Some a)) th a = Some (NGX_OK, h, th)"
  by (subst msg_release.simps) (auto simp: stored_msg_def hold_def fun_upd_idem split: option.splits)

lemma set_multimsg_hold:
  assumes "\<And>b. mg_msg d = Some b \<Longrightarrow> stored_msg h b" and "\<And>b. q = Some b \<Longrightarrow> stored_msg h b"
  shows "set_multimsg_msg d n q s (hold h (mg_msg d)) th = Some (d\<lparr>mg_status := s, mg_msg := q, mg_n := n\<rparr>, hold h q, th)"
  using assms release_hold reserve_hold
  by (cases "mg_msg d"; cases q) (auto simp: set_multimsg_msg_def hold_def)

subsection \<open>The choice of the best answer\<close>

text \<open>An answer: the index of the channel, the status and the message.  Answers are ranked by time, tag and index.\<close>

type_synonym answer = "int \<times> nchan_msg_status \<times> ptr"

definition rank :: "msg_heap \<Rightarrow> int \<Rightarrow> addr \<Rightarrow> int \<times> int \<times> int" where
  "rank h n a = (time (id_of h a), the_tag (id_of h a), n)"

fun pick :: "msg_heap \<Rightarrow> nchan_msg_status \<times> ptr \<times> int \<Rightarrow> answer \<Rightarrow> nchan_msg_status \<times> ptr \<times> int" where
  "pick h (st, p, k) (n, s, q) =
     (if st = MSG_PENDING then (s, q, n)
      else case q of
        None \<Rightarrow> (if p = None \<and> st \<noteq> MSG_EXPECTED then s else st, p, k)
      | Some a \<Rightarrow> (case p of None \<Rightarrow> (s, q, n) | Some b \<Rightarrow> if rank h n a < rank h k b then (s, q, n) else (st, p, k)))"

definition chosen :: "multi_get \<Rightarrow> nchan_msg_status \<times> ptr \<times> int \<Rightarrow> multi_get" where
  "chosen d c = (case c of (st, p, k) \<Rightarrow> d\<lparr>mg_status := st, mg_msg := p, mg_n := k\<rparr>)"

definition choice :: "multi_get \<Rightarrow> nchan_msg_status \<times> ptr \<times> int" where
  "choice d = (mg_status d, mg_msg d, mg_n d)"

lemma chosen_simps [simp]:
  "mg_wanted (chosen d c) = mg_wanted d" "mg_getting (chosen d c) = mg_getting d" "mg_multi_count (chosen d c) = mg_multi_count d"
  "mg_expired (chosen d c) = mg_expired d" "choice (chosen d c) = c" "mg_msg (chosen d c) = fst (snd c)"
  by (cases c; simp add: chosen_def choice_def)+

lemma chosen_chosen: "(chosen (chosen (d\<lparr>mg_getting := g\<rparr>) c) c')\<lparr>mg_getting := g'\<rparr> = (chosen d c')\<lparr>mg_getting := g'\<rparr>"
  by (cases d; cases c; cases c') (simp add: chosen_def)

lemma keep_best_pick:
  assumes st: "\<And>b. mg_msg d = Some b \<Longrightarrow> stored_msg h b" "\<And>b. q = Some b \<Longrightarrow> stored_msg h b"
    and tm: "\<And>a. q = Some a \<Longrightarrow> time (mg_wanted d) \<le> time (id_of h a)"
  shows "keep_best d n s q (hold h (mg_msg d)) th
     = Some (chosen d (pick h (choice d) (n, s, q)), hold h (fst (snd (pick h (choice d) (n, s, q)))), th)"
proof (cases "mg_status d \<noteq> MSG_PENDING \<and> q \<noteq> None \<and> mg_msg d \<noteq> None")
  case True
  then obtain a b where q: "q = Some a" "mg_msg d = Some b" by auto
  obtain ma mb where m: "hold h (Some b) a = Some ma" "m_id ma = id_of h a" "hold h (Some b) b = Some mb" "m_id mb = id_of h b"
    using hold_id st q by metis
  have "tag0 (id_of h a) = Some (the_tag (id_of h a))" "tag0 (id_of h b) = Some (the_tag (id_of h b))"
    using st q by (auto simp: stored_msg_def id_of_def intro!: tag0_single split: option.splits)
  then show ?thesis
    using True q m tm set_multimsg_hold [of d h q n s th] st
    by (auto simp: keep_best_def chosen_def choice_def rank_def)
next
  case False
  then show ?thesis
    using set_multimsg_hold [of d h q n s th] st
    by (auto simp: keep_best_def chosen_def choice_def split: option.splits)
qed

lemma pick_best:
  assumes "\<forall>(n, s, q) \<in> set rs. s \<noteq> MSG_PENDING" and "foldl (pick h) (st0, None, -1) rs = (st, p, k)"
  shows "(st = MSG_PENDING \<longrightarrow> rs = []) \<and> (p = None \<longleftrightarrow> (\<forall>(n, s, q) \<in> set rs. q = None))
     \<and> (\<forall>b. p = Some b \<longrightarrow> (k, st, Some b) \<in> set rs \<and> (\<forall>n s a. (n, s, Some a) \<in> set rs \<longrightarrow> rank h k b \<le> rank h n a))"
  using assms
proof (induction rs arbitrary: st p k rule: rev_induct)
  case Nil
  then show ?case by auto
next
  case (snoc r rs)
  obtain st1 p1 k1 where f: "foldl (pick h) (st0, None, -1) rs = (st1, p1, k1)" by (metis prod_cases3)
  obtain n s q where r: "r = (n, s, q)" by (metis prod_cases3)
  have pk: "pick h (st1, p1, k1) (n, s, q) = (st, p, k)" using snoc.prems(2) f r by simp
  have np: "\<forall>(n, s, q) \<in> set rs. s \<noteq> MSG_PENDING" using snoc.prems(1) by auto
  have ih: "(st1 = MSG_PENDING \<longrightarrow> rs = [])" "(p1 = None) = (\<forall>(n, s, q) \<in> set rs. q = None)"
      "\<And>b. p1 = Some b \<Longrightarrow> (k1, st1, Some b) \<in> set rs \<and> (\<forall>n s a. (n, s, Some a) \<in> set rs \<longrightarrow> rank h k1 b \<le> rank h n a)"
    using snoc.IH [OF np f] by blast+
  have s: "s \<noteq> MSG_PENDING" using snoc.prems(1) r by simp
  show ?case
  proof (cases q)
    case None
    then show ?thesis using pk ih s r by (cases "st1 = MSG_PENDING") (auto split: if_splits)
  next
    case (Some a)
    then show ?thesis
      using pk ih s r by (cases p1; cases "st1 = MSG_PENDING") (force split: if_splits intro: order.trans less_imp_le)+
  qed
qed

text \<open>Answers arriving one after the other; an answer to a request that was freed is a fault.\<close>

fun mg_run ::
  "ptr_bytes \<Rightarrow> addr \<Rightarrow> addr \<Rightarrow> addr \<Rightarrow> answer list \<Rightarrow> multi_get option \<Rightarrow> msg_heap \<Rightarrow> tag_heap
     \<Rightarrow> (mg_event list \<times> multi_get option \<times> msg_heap \<times> tag_heap) option" where
  "mg_run pb sa la pla [] d h th = Some ([], d, h, th)"
| "mg_run pb sa la pla ((n, s, q) # rs) d h th = do {
     d \<leftarrow> d;
     (ev, d, h, th) \<leftarrow> nchan_store_async_get_multi_message_callback pb sa la pla s q n d h th;
     (ev', d, h, th) \<leftarrow> mg_run pb sa la pla rs d h th;
     Some (ev @ ev', d, h, th)
   }"

definition answers_ok :: "msg_heap \<Rightarrow> nchan_msg_id \<Rightarrow> answer list \<Rightarrow> bool" where
  "answers_ok h w rs \<longleftrightarrow> (\<forall>(n, s, q) \<in> set rs. s \<noteq> MSG_PENDING
     \<and> (case q of None \<Rightarrow> True | Some a \<Rightarrow> stored_msg h a \<and> time w \<le> time (id_of h a)))"

lemma pick_stored:
  "answers_ok h w [(n, s, q)] \<Longrightarrow> (\<And>b. p = Some b \<Longrightarrow> stored_msg h b) \<Longrightarrow>
     fst (snd (pick h (st, p, k) (n, s, q))) = Some b \<Longrightarrow> stored_msg h b"
  by (auto simp: answers_ok_def split: option.splits if_splits)

lemma mg_run_collects:
  assumes "answers_ok h (mg_wanted d) rs" and "int (length rs) < mg_getting d" and "mg_expired d = 0"
    and "\<And>b. mg_msg d = Some b \<Longrightarrow> stored_msg h b"
  shows "mg_run pb sa la pla rs (Some d) (hold h (mg_msg d)) th =
     Some ([], Some (chosen d (foldl (pick h) (choice d) rs) \<lparr>mg_getting := mg_getting d - int (length rs)\<rparr>),
       hold h (fst (snd (foldl (pick h) (choice d) rs))), th)"
  using assms
proof (induction rs arbitrary: d)
  case Nil
  then show ?case by (cases d) (simp add: chosen_def choice_def)
next
  case (Cons r rs)
  obtain n s q where r: "r = (n, s, q)" by (metis prod_cases3)
  let ?e = "d\<lparr>mg_getting := mg_getting d - 1\<rparr>"
  let ?c = "pick h (choice d) (n, s, q)"
  let ?d = "chosen ?e ?c"
  have ch: "choice ?e = choice d" by (simp add: choice_def)
  have ok: "answers_ok h (mg_wanted d) [(n, s, q)]" "answers_ok h (mg_wanted ?d) rs"
    using Cons.prems(1) r by (auto simp: answers_ok_def)
  have kb: "keep_best ?e n s q (hold h (mg_msg d)) th = Some (?d, hold h (fst (snd ?c)), th)"
    using keep_best_pick [of ?e h q n s th] Cons.prems(4) ok(1) unfolding ch
    by (cases q) (simp_all add: answers_ok_def del: pick.simps)
  have st: "stored_msg h b" if "mg_msg ?d = Some b" for b
    using pick_stored [OF ok(1) Cons.prems(4)] that by (simp add: choice_def)
  have g: "mg_getting ?d \<noteq> 0" "int (length rs) < mg_getting ?d" "mg_expired ?d = 0" using Cons.prems(2,3) by auto
  have "nchan_store_async_get_multi_message_callback pb sa la pla s q n d (hold h (mg_msg d)) th
      = Some ([], Some ?d, hold h (mg_msg ?d), th)"
    using kb g(1) Cons.prems(3)
    by (simp add: nchan_store_async_get_multi_message_callback_def nchan_store_async_get_multi_message_callback_cleanup_def)
  then show ?case using Cons.IH [OF ok(2) g(2,3) st] r by (simp add: chosen_chosen del: pick.simps)
qed

subsection \<open>The id of the reply\<close>

lemma copy_large_ok:
  assumes dst: "tagcount dst \<le> 4" and src: "msgid_ok th src" and la: "th la = Some ts" "length ts = 255" "la \<notin> owned src"
  shows "\<exists>i th'. nchan_copy_msg_id th None dst src (Some la) = Some (NGX_OK, i, th') \<and> msgid_ok th' i \<and> time i = time src
     \<and> tagcount i = tagcount src \<and> tag_list th' i = tag_list th src \<and> owned i \<subseteq> {la}
     \<and> (\<exists>ts'. th' la = Some ts' \<and> length ts' = 255) \<and> (\<forall>b. b \<noteq> la \<longrightarrow> th' b = th b)"
  using src
proof (cases rule: msgid_ok_cases)
  case (inline xs)
  with dst la show ?thesis
    by (auto simp: nchan_copy_msg_id_def Let_def msgid_ok_def tag_list_def owned_def)
next
  case (allocated a xs)
  with dst la show ?thesis
    by (auto simp: nchan_copy_msg_id_def Let_def msgid_ok_def tag_list_def owned_def allocd_view_def memcpy_tags_def)
qed

lemma put_tag_ok:
  assumes ok: "msgid_ok th i" and n: "n < nat (tagcount i)"
  shows "\<exists>tags tags' j th'. tags_by_count pb th (tagcount i) (tag i) = Some tags \<and> arr_set tags n t = Some tags'
     \<and> store_tags th (tagcount i) i tags' = Some (j, th') \<and> msgid_ok th' j \<and> time j = time i \<and> tagcount j = tagcount i
     \<and> tag_list th' j = (tag_list th i)[n := t] \<and> owned j = owned i \<and> (\<forall>b. b \<notin> owned i \<longrightarrow> th' b = th b)"
  using ok
proof (cases rule: msgid_ok_cases)
  case (inline xs)
  with n show ?thesis
    by (auto simp: tags_by_count_def fixed_view_def store_tags_def msgid_ok_def tag_list_def owned_def take_update_swap)
next
  case (allocated a xs)
  with n show ?thesis
    by (auto simp: tags_by_count_def allocd_view_def store_tags_def msgid_ok_def tag_list_def owned_def take_update_swap)
qed

text \<open>What the reply of a request may rely on: the static arrays, and a wanted id that fits the number of channels.\<close>

definition mg_ready :: "addr \<Rightarrow> addr \<Rightarrow> multi_get \<Rightarrow> tag_heap \<Rightarrow> bool" where
  "mg_ready la pla d th \<longleftrightarrow> la \<noteq> pla \<and> la \<notin> owned (mg_wanted d) \<and> pla \<notin> owned (mg_wanted d)
     \<and> (\<exists>ts. th la = Some ts \<and> length ts = 255) \<and> (\<exists>ts. th pla = Some ts \<and> length ts = 255)
     \<and> msgid_ok th (mg_wanted d) \<and> 2 \<le> mg_multi_count d \<and> mg_multi_count d \<le> 255
     \<and> (time (mg_wanted d) > 0 \<longrightarrow> tagcount (mg_wanted d) = mg_multi_count d)"

definition reply_tags :: "tag_heap \<Rightarrow> nchan_msg_id \<Rightarrow> int \<Rightarrow> nchan_msg_id \<Rightarrow> int \<Rightarrow> int16 list" where
  "reply_tags th w k i n =
     (if time w = time i then tag_list th w else replicate (nat k) (-1))[nat n := the (tag0w i)]"

lemma msgid_frame:
  assumes "\<forall>b \<in> owned i. th' b = th b"
  shows "msgid_ok th' i = msgid_ok th i" "tag_list th' i = tag_list th i"
  using assms by (auto simp: msgid_ok_def tag_list_def owned_def split: multitag.splits option.splits)

lemma msgid_active: "msgid_ok th (i\<lparr>tagactive := n\<rparr>) = msgid_ok th i" "tag_list th (i\<lparr>tagactive := n\<rparr>) = tag_list th i"
  by (simp_all add: msgid_ok_def tag_list_def split: multitag.split option.split)

lemma copy_single: "tagcount dst \<le> 4 \<Longrightarrow> tagcount src \<le> 4 \<Longrightarrow> nchan_copy_msg_id th al dst src lt = Some (NGX_OK, src, th)"
  by (cases dst; cases src) (simp add: nchan_copy_msg_id_def)

lemma derive_stack_stored:
  assumes "stored_msg h b" and "sa \<noteq> b"
  shows "\<exists>bm H ret. hold h (Some b) b = Some bm \<and> m_id bm = id_of h b
     \<and> nchan_msg_derive_stack (hold h (Some b)) th b sa None None = Some (Some sa, H, th) \<and> H sa = Some ret
     \<and> m_id ret = id_of h b \<and> tagcount (m_prev_id ret) \<le> 4"
proof -
  obtain m where m: "h b = Some m" "m_parent m = None" "m_storage m = NCHAN_MSG_SHARED" "tagcount (m_id m) = 1" "tagcount (m_prev_id m) \<le> 4"
    using assms(1) by (auto simp: stored_msg_def single_tag_def split: option.splits)
  then have "hold h (Some b) b = Some (m\<lparr>m_refcount := m_refcount m + 1\<rparr>)" by (simp add: hold_def)
  with m assms(2) show ?thesis
    by (simp add: nchan_msg_derive_stack_def msg_derive_init_def get_shared_msg_def copy_single id_of_def)
qed

text \<open>The id of the best message, spread to one tag per channel.\<close>

lemma spread_id_ok:
  assumes i: "single_tag i" "tag0w i = Some t0" and k: "2 \<le> k" "k \<le> 255" "0 \<le> n" "n < k"
    and la: "th la = Some ts" "length ts = 255"
  shows "\<exists>j th'. spread_id pb la k n i t0 th = Some (j, th') \<and> msgid_ok th' j \<and> time j = time i \<and> tagcount j = k
     \<and> tag_list th' j = (replicate (nat k) (-1))[nat n := t0] \<and> owned j \<subseteq> {la} \<and> (\<forall>b. b \<noteq> la \<longrightarrow> th' b = th b)"
proof -
  define i1 where "i1 = (if k > 4 then i\<lparr>tag := Allocd (Some la), tagcount := k\<rparr> else i\<lparr>tagcount := k\<rparr>)"
  define th1 where "th1 = (if k > 4 then th(la \<mapsto> ts[0 := t0]) else th)"
  obtain u v w where t: "tag i = Fixed [t0, u, v, w]"
    using single_tag_shape [OF i(1)] i(2) by (auto simp: tag0w_def)
  have ok: "msgid_ok th1 i1" "tagcount i1 = k" "time i1 = time i" "owned i1 \<subseteq> {la}"
    using t k la by (auto simp: i1_def th1_def msgid_ok_def owned_def)
  have "0 < nat k" "nat n < nat k" using k by auto
  moreover have "tag_list th1 i1 ! 0 = t0"
    using t k la by (auto simp: i1_def th1_def tag_list_def)
  moreover have "spread_id pb la k n i t0 th = nchan_expand_msg_id_multi_tag pb th1 i1 0 (nat n) (-1)"
    using la by (simp add: spread_id_def i1_def th1_def)
  ultimately show ?thesis
    using nchan_expand_msg_id_multi_tag_ok [OF ok(1), of 0 "nat n" pb "-1"] ok la
    by (auto simp: th1_def split: if_splits)
qed

lemma multi_reply_id_ok:
  assumes rdy: "mg_ready la pla d th" and i: "single_tag i" "time i > 0" and n: "0 \<le> mg_n d" "mg_n d < mg_multi_count d"
    and dst: "tagcount r \<le> 4"
  shows "\<exists>j th'. multi_reply_id pb la d r i th = Some (j, th') \<and> msgid_ok th' j \<and> time j = time i \<and> tagcount j = mg_multi_count d
     \<and> tagactive j = mg_n d \<and> tag_list th' j = reply_tags th (mg_wanted d) (mg_multi_count d) i (mg_n d)
     \<and> (\<forall>b. b \<noteq> la \<longrightarrow> th' b = th b)"
proof -
  obtain ts where la: "th la = Some ts" "length ts = 255" "la \<notin> owned (mg_wanted d)"
    using rdy by (auto simp: mg_ready_def)
  obtain t0 where t0: "tag0w i = Some t0" "tagcount i = 1" using single_tag_shape [OF i(1)] by (auto simp: tag0w_def)
  have k: "2 \<le> mg_multi_count d" "mg_multi_count d \<le> 255" "msgid_ok th (mg_wanted d)" using rdy by (auto simp: mg_ready_def)
  let ?f = "if time (mg_wanted d) \<noteq> time i then do {
          (_, i, th) \<leftarrow> nchan_copy_msg_id th None r i None;
          spread_id pb la (mg_multi_count d) (mg_n d) i t0 th
        }
        else do {
          (_, i, th) \<leftarrow> nchan_copy_msg_id th None r (mg_wanted d) (Some la);
          Some (i, th)
        }"
  have "\<exists>j th1. ?f = Some (j, th1) \<and> msgid_ok th1 j \<and> time j = time i \<and> tagcount j = mg_multi_count d \<and> owned j \<subseteq> {la}
     \<and> (tag_list th1 j)[nat (mg_n d) := t0] = reply_tags th (mg_wanted d) (mg_multi_count d) i (mg_n d)
     \<and> (\<forall>b. b \<noteq> la \<longrightarrow> th1 b = th b)"
  proof (cases "time (mg_wanted d) = time i")
    case True
    with rdy i(2) have "tagcount (mg_wanted d) = mg_multi_count d" by (simp add: mg_ready_def)
    with True copy_large_ok [OF dst k(3) la] t0 show ?thesis by (auto simp: reply_tags_def)
  next
    case False
    with spread_id_ok [of i t0 "mg_multi_count d" "mg_n d" th la ts pb] i k n la t0 dst show ?thesis
      by (auto simp: copy_single reply_tags_def)
  qed
  then obtain j th1 where j: "?f = Some (j, th1)" "msgid_ok th1 j" "time j = time i" "tagcount j = mg_multi_count d" "owned j \<subseteq> {la}"
      "(tag_list th1 j)[nat (mg_n d) := t0] = reply_tags th (mg_wanted d) (mg_multi_count d) i (mg_n d)"
      "\<forall>b. b \<noteq> la \<longrightarrow> th1 b = th b" by blast
  have "nat (mg_n d) < nat (tagcount j)" using n j(4) by simp
  from put_tag_ok [OF j(2) this, of pb t0] obtain tags tags' j' th2 where q:
      "tags_by_count pb th1 (mg_multi_count d) (tag j) = Some tags" "arr_set tags (nat (mg_n d)) t0 = Some tags'"
      "store_tags th1 (mg_multi_count d) j tags' = Some (j', th2)" "msgid_ok th2 j'" "time j' = time j" "tagcount j' = mg_multi_count d"
      "tag_list th2 j' = (tag_list th1 j)[nat (mg_n d) := t0]" "\<forall>b. b \<notin> owned j \<longrightarrow> th2 b = th1 b"
    unfolding j(4) by blast
  have fr: "\<forall>b. b \<noteq> la \<longrightarrow> th2 b = th b" using q(8) j(5,7) by (metis singletonD subsetD)
  have "multi_reply_id pb la d r i th = Some (j'\<lparr>tagactive := mg_n d\<rparr>, th2)"
    by (simp only: multi_reply_id_def t0(1) Option.bind.simps j(1) q(1-3) prod.case)
  with q(4-7) j(3,6) fr show ?thesis by (simp add: msgid_active)
qed

definition reply_ok :: "tag_heap \<Rightarrow> multi_get \<Rightarrow> nchan_msg_id \<Rightarrow> int \<Rightarrow> nchan_msg \<Rightarrow> tag_heap \<Rightarrow> bool" where
  "reply_ok th d i n ret th' \<longleftrightarrow> msgid_ok th' (m_id ret) \<and> time (m_id ret) = time i \<and> tagcount (m_id ret) = mg_multi_count d
     \<and> tagactive (m_id ret) = n \<and> tag_list th' (m_id ret) = reply_tags th (mg_wanted d) (mg_multi_count d) i n
     \<and> time (m_prev_id ret) = time (mg_wanted d) \<and> tag_list th' (m_prev_id ret) = tag_list th (mg_wanted d)"

lemma multi_reply_ok:
  assumes rdy: "mg_ready la pla d th" and b: "stored_msg h b" "sa \<noteq> b" "time (id_of h b) > 0"
    and n: "0 \<le> mg_n d" "mg_n d < mg_multi_count d"
  shows "\<exists>ret th'. multi_reply pb sa la pla d b (hold h (Some b)) th = Some (ret, th')
     \<and> reply_ok th d (id_of h b) (mg_n d) ret th' \<and> (\<forall>x. x \<noteq> la \<longrightarrow> x \<noteq> pla \<longrightarrow> th' x = th x)"
proof -
  have sg: "single_tag (id_of h b)" using b(1) by (auto simp: stored_msg_def id_of_def split: option.splits)
  then have t1: "tagcount (id_of h b) = 1" by (simp add: single_tag_def)
  obtain bm H ret where s: "hold h (Some b) b = Some bm" "m_id bm = id_of h b"
      "nchan_msg_derive_stack (hold h (Some b)) th b sa None None = Some (Some sa, H, th)" "H sa = Some ret"
      "m_id ret = id_of h b" "tagcount (m_prev_id ret) \<le> 4"
    using derive_stack_stored [OF b(1,2)] by blast
  obtain ts where pl: "msgid_ok th (mg_wanted d)" "th pla = Some ts" "length ts = 255" "pla \<notin> owned (mg_wanted d)" "la \<noteq> pla"
    using rdy by (auto simp: mg_ready_def)
  obtain prev th1 where p: "nchan_copy_msg_id th None (m_prev_id ret) (mg_wanted d) (Some pla) = Some (NGX_OK, prev, th1)"
      "time prev = time (mg_wanted d)" "tag_list th1 prev = tag_list th (mg_wanted d)" "owned prev \<subseteq> {pla}"
      "\<forall>x. x \<noteq> pla \<longrightarrow> th1 x = th x" "\<exists>ts'. th1 pla = Some ts' \<and> length ts' = 255"
    using copy_large_ok [OF s(6) pl(1-4)] by blast
  have "\<forall>b \<in> owned (mg_wanted d). th1 b = th b" using p(5) pl(4) by metis
  note w1 = msgid_frame [OF this]
  have rdy1: "mg_ready la pla d th1" using rdy w1(1) p(5,6) pl(1) by (auto simp: mg_ready_def)
  have "tagcount (m_id ret) \<le> 4" using s(5) t1 by simp
  from multi_reply_id_ok [OF rdy1 sg b(3) n this, of pb] obtain j th2 where
    j: "multi_reply_id pb la d (m_id ret) (id_of h b) th1 = Some (j, th2)" "msgid_ok th2 j" "time j = time (id_of h b)"
      "tagcount j = mg_multi_count d" "tagactive j = mg_n d" "\<forall>b. b \<noteq> la \<longrightarrow> th2 b = th1 b"
      "tag_list th2 j = reply_tags th (mg_wanted d) (mg_multi_count d) (id_of h b) (mg_n d)"
    by (auto simp: reply_tags_def w1(2))
  have fr: "\<forall>x \<in> owned prev. th2 x = th1 x" using p(4) pl(5) j(6) by (metis singletonD subsetD)
  have "tag_list th2 prev = tag_list th (mg_wanted d)" using msgid_frame(2) [OF fr] p(3) by simp
  moreover have "multi_reply pb sa la pla d b (hold h (Some b)) th = Some (ret\<lparr>m_prev_id := prev, m_id := j\<rparr>, th2)"
    using s j(1) p(1) t1 by (simp add: multi_reply_def)
  moreover have "\<forall>x. x \<noteq> la \<longrightarrow> x \<noteq> pla \<longrightarrow> th2 x = th x" using j(6) p(5) by simp
  ultimately show ?thesis using j p(2) by (simp add: reply_ok_def)
qed

subsection \<open>All the answers\<close>

text \<open>A request that was just started: nothing received yet.\<close>

definition mg_fresh :: "multi_get \<Rightarrow> bool" where
  "mg_fresh d \<longleftrightarrow> mg_msg d = None \<and> mg_n d = -1 \<and> mg_expired d = 0 \<and> mg_getting d > 0"

lemma mg_run_append:
  "mg_run pb sa la pla (rs @ rs') d h th = do {
     (ev, d, h, th) \<leftarrow> mg_run pb sa la pla rs d h th;
     (ev', d, h, th) \<leftarrow> mg_run pb sa la pla rs' d h th;
     Some (ev @ ev', d, h, th) }"
proof (induction rs arbitrary: d h th)
  case Nil
  show ?case by (cases "mg_run pb sa la pla rs' d h th") auto
next
  case (Cons r rs)
  show ?case by (cases r) (auto simp: Cons.IH split: Option.bind_split)
qed

lemma free_wanted:
  assumes "msgid_ok th w" and "\<forall>b \<in> owned w. th' b = th b"
  shows "\<exists>w' th''. nchan_free_msg_id th' w = Some (w', th'') \<and> (\<forall>b. b \<notin> owned w \<longrightarrow> th'' b = th' b)"
  using assms(1)
  by (cases rule: msgid_ok_cases) (use assms(2) in \<open>auto simp: nchan_free_msg_id_def free_allocd_def ngx_free_tags_def\<close>)

lemma reply_ok_chosen:
  "reply_ok th (chosen d c\<lparr>mg_getting := g\<rparr>) i n ret th' = reply_ok th d i n ret th'"
  "mg_ready la pla (chosen d c\<lparr>mg_getting := g\<rparr>) th = mg_ready la pla d th"
  by (simp_all add: reply_ok_def mg_ready_def)

lemma last_answer:
  assumes d: "mg_getting d = 1" "mg_expired d = 0" "\<And>b. mg_msg d = Some b \<Longrightarrow> stored_msg h b"
    and ok: "answers_ok h (mg_wanted d) [(n, s, q)]" and pk: "pick h (choice d) (n, s, q) = (st, Some b, k)"
    and b: "stored_msg h b" "sa \<noteq> b" "time (id_of h b) > 0" and k: "0 \<le> k" "k < mg_multi_count d" and rdy: "mg_ready la pla d th"
  shows "\<exists>ret th1 th2. nchan_store_async_get_multi_message_callback pb sa la pla s q n d (hold h (mg_msg d)) th
        = Some ([Release_chanhead, Reply st (Some ret) th1], None, h, th2) \<and> reply_ok th d (id_of h b) k ret th1"
proof -
  let ?e = "d\<lparr>mg_getting := 0\<rparr>"
  let ?f = "chosen ?e (st, Some b, k)"
  have ch: "choice ?e = choice d" by (simp add: choice_def)
  have kb: "keep_best ?e n s q (hold h (mg_msg d)) th = Some (?f, hold h (Some b), th)"
    using keep_best_pick [of ?e h q n s th] d(3) ok unfolding ch pk
    by (cases q) (simp_all add: answers_ok_def)
  have f: "mg_n ?f = k" "mg_msg ?f = Some b" "mg_status ?f = st" "mg_wanted ?f = mg_wanted d" "mg_getting ?f = 0"
      "mg_multi_count ?f = mg_multi_count d"
    by (simp_all add: chosen_def)
  have rf: "mg_ready la pla ?f th" using rdy by (simp add: mg_ready_def)
  obtain ret th1 where m: "multi_reply pb sa la pla ?f b (hold h (Some b)) th = Some (ret, th1)"
      "reply_ok th ?f (id_of h b) k ret th1" "\<forall>x. x \<noteq> la \<longrightarrow> x \<noteq> pla \<longrightarrow> th1 x = th x"
    using multi_reply_ok [OF rf b, of pb] k f by auto
  have "\<forall>x \<in> owned (mg_wanted d). th1 x = th x" "msgid_ok th (mg_wanted d)"
    using m(3) rdy by (auto simp: mg_ready_def)
  then obtain w th2 where w: "nchan_free_msg_id th1 (mg_wanted d) = Some (w, th2)" using free_wanted by blast
  have "nchan_store_async_get_multi_message_callback pb sa la pla s q n d (hold h (mg_msg d)) th
      = Some ([Release_chanhead, Reply st (Some ret) th1], None, h, th2)"
    using kb f m(1) w d(1,2)
    by (simp add: nchan_store_async_get_multi_message_callback_def nchan_store_async_get_multi_message_callback_cleanup_def
        release_hold [OF b(1)])
  moreover have "reply_ok th d (id_of h b) k ret th1" using m(2) by (simp add: reply_ok_def)
  ultimately show ?thesis by blast
qed

lemma multi_get_run:
  assumes fresh: "mg_fresh d" and ok: "answers_ok h (mg_wanted d) rs" and all: "mg_getting d = int (length rs)"
    and some: "\<exists>n s a. (n, s, Some a) \<in> set rs"
    and idx: "\<forall>(n, s, q) \<in> set rs. 0 \<le> n \<and> n < mg_multi_count d"
    and msgs: "\<forall>(n, s, q) \<in> set rs. \<forall>a. q = Some a \<longrightarrow> time (id_of h a) > 0 \<and> a \<noteq> sa"
    and rdy: "mg_ready la pla d th"
  shows "\<exists>n st b ret th1 th2. mg_run pb sa la pla rs (Some d) h th
         = Some ([Release_chanhead, Reply st (Some ret) th1], None, h, th2)
     \<and> (n, st, Some b) \<in> set rs \<and> (\<forall>n' s a. (n', s, Some a) \<in> set rs \<longrightarrow> rank h n b \<le> rank h n' a)
     \<and> reply_ok th d (id_of h b) n ret th1"
proof -
  obtain rs' n0 s0 q0 where rs: "rs = rs' @ [(n0, s0, q0)]" using some by (cases rs rule: rev_cases) auto
  let ?c = "foldl (pick h) (choice d) rs'"
  let ?d = "chosen d ?c \<lparr>mg_getting := 1\<rparr>"
  obtain st p k where c2: "foldl (pick h) (choice d) rs = (st, p, k)" by (metis prod_cases3)
  have ch: "choice d = (mg_status d, None, -1)" "hold h (mg_msg d) = h" using fresh by (simp_all add: mg_fresh_def choice_def hold_def)
  have np: "\<forall>(n, s, q) \<in> set rs. s \<noteq> MSG_PENDING" "\<forall>(n, s, q) \<in> set rs'. s \<noteq> MSG_PENDING"
    using ok rs by (auto simp: answers_ok_def)
  have best: "p = None \<longleftrightarrow> (\<forall>(n, s, q) \<in> set rs. q = None)"
      "\<And>b. p = Some b \<Longrightarrow> (k, st, Some b) \<in> set rs \<and> (\<forall>n s a. (n, s, Some a) \<in> set rs \<longrightarrow> rank h k b \<le> rank h n a)"
    using pick_best [OF np(1) c2 [unfolded ch(1)]] by blast+
  obtain b where b: "p = Some b" using best(1) some by (cases p) fastforce+
  have ok': "answers_ok h (mg_wanted d) rs'" "answers_ok h (mg_wanted d) [(n0, s0, q0)]" using ok rs by (auto simp: answers_ok_def)
  have bb: "stored_msg h b" "sa \<noteq> b" "time (id_of h b) > 0" "0 \<le> k" "k < mg_multi_count d"
    using best(2) [OF b] ok idx msgs by (auto simp: answers_ok_def)
  have st1: "stored_msg h x" if px: "mg_msg ?d = Some x" for x
  proof -
    obtain st1 k1 where "?c = (st1, Some x, k1)" using px by (cases ?c) auto
    from pick_best [OF np(2) this [unfolded ch(1)]] ok'(1) show ?thesis by (auto simp: answers_ok_def)
  qed
  have run: "mg_run pb sa la pla rs' (Some d) h th = Some ([], Some ?d, hold h (mg_msg ?d), th)"
    using mg_run_collects [of h d rs' pb sa la pla th] ok'(1) all rs fresh ch(2) by (simp add: mg_fresh_def)
  have "pick h (choice ?d) (n0, s0, q0) = (st, Some b, k)"
    using c2 rs b by (cases ?c) (simp add: choice_def chosen_def)
  then obtain ret th1 th2 where last: "nchan_store_async_get_multi_message_callback pb sa la pla s0 q0 n0 ?d (hold h (mg_msg ?d)) th
      = Some ([Release_chanhead, Reply st (Some ret) th1], None, h, th2)" "reply_ok th d (id_of h b) k ret th1"
    using last_answer [of ?d h n0 s0 q0 st b k sa la pla th pb] st1 ok'(2) bb rdy fresh
    by (auto simp: reply_ok_chosen mg_fresh_def)
  have "mg_run pb sa la pla rs (Some d) h th = Some ([Release_chanhead, Reply st (Some ret) th1], None, h, th2)"
    unfolding rs mg_run_append run using last(1) by simp
  with last(2) best(2) [OF b] show ?thesis by blast
qed

text \<open>
  C5: whatever the order in which the channels answer a request for the next message of several channels, once all have
  answered and one has a message, the subscriber gets exactly one reply: the message that is first by time, then by
  tag, then by the index of its channel.  The id of the reply has one tag per channel, with the index of the message's
  channel active; the tags of the other channels are those the subscriber had, if the message is of the same second, and
  unset otherwise.  The request is freed and every reference to a message taken for it is given back.
\<close>

theorem multi_get_reply:
  assumes fresh: "mg_fresh d" and ok: "answers_ok h (mg_wanted d) rs" and all: "mg_getting d = int (length rs)"
    and some: "\<exists>n s a. (n, s, Some a) \<in> set rs"
    and idx: "\<forall>(n, s, q) \<in> set rs. 0 \<le> n \<and> n < mg_multi_count d"
    and msgs: "\<forall>(n, s, q) \<in> set rs. \<forall>a. q = Some a \<longrightarrow> time (id_of h a) > 0 \<and> a \<noteq> sa"
    and rdy: "mg_ready la pla d th"
  shows "\<exists>n st b ret th1 th2. mg_run pb sa la pla rs (Some d) h th
         = Some ([Release_chanhead, Reply st (Some ret) th1], None, h, th2)
     \<and> (n, st, Some b) \<in> set rs \<and> (\<forall>n' s a. (n', s, Some a) \<in> set rs \<longrightarrow> rank h n b \<le> rank h n' a)
     \<and> reply_ok th d (id_of h b) n ret th1"
  using multi_get_run [OF assms] .

subsection \<open>No message is lost or repeated\<close>

text \<open>Whether a message of the channel with index \<open>c\<close> comes after the position \<open>i\<close> of a subscriber of several channels.\<close>

definition comes_after :: "ptr_bytes \<Rightarrow> tag_heap \<Rightarrow> nchan_msg_id \<Rightarrow> nat \<Rightarrow> nchan_msg_id \<Rightarrow> bool" where
  "comes_after pb th i c m =
     (case nchan_extract_from_multi_msgid pb th i c NCHAN_ZERO_MSGID of
        Some (NGX_OK, e) \<Rightarrow> nchan_compare_msgids pb th e m = Some (-1)
      | _ \<Rightarrow> False)"

definition message_id :: "nchan_msg_id \<Rightarrow> bool" where
  "message_id m \<longleftrightarrow> single_tag m \<and> the_tag m \<ge> 0 \<and> time m > 0"

lemma zero_fixed: "length (fixed_view pb (tag NCHAN_ZERO_MSGID)) = NCHAN_FIXED_MULTITAG_MAX"
  by (simp add: NCHAN_ZERO_MSGID_def fixed_view_def)

lemma comes_after_multi:
  assumes "msgid_ok th i" and "c < nat (tagcount i)" and "time i > 0" and "message_id m"
  shows "comes_after pb th i c m \<longleftrightarrow> time m > time i \<or> time m = time i \<and> (tag_list th i ! c = -1 \<or> sint (tag_list th i ! c) < the_tag m)"
  using extract_position [OF assms(1,2) _ zero_fixed, of m pb] assms(3,4) by (auto simp: comes_after_def message_id_def)

lemma comes_after_oldest: "time i = 0 \<Longrightarrow> message_id m \<Longrightarrow> comes_after pb th i c m"
  by (simp add: comes_after_def nchan_extract_from_multi_msgid_def nchan_compare_msgids_def message_id_def single_tag_def)

lemma reply_position:
  assumes rep: "reply_ok th d i n ret th1" and k: "2 \<le> mg_multi_count d" "0 \<le> n" "n < mg_multi_count d" "c < nat (mg_multi_count d)"
    and i: "message_id i" and m: "message_id m" and w: "msgid_ok th (mg_wanted d)" "0 \<le> time (mg_wanted d)" "time (mg_wanted d) \<le> time i"
      "0 < time (mg_wanted d) \<Longrightarrow> tagcount (mg_wanted d) = mg_multi_count d"
    and first: "comes_after pb th (mg_wanted d) c m \<Longrightarrow> (pos i, n) \<le> (pos m, int c)"
    and self: "n = int c \<Longrightarrow> comes_after pb th (mg_wanted d) c i"
  shows "comes_after pb th1 (m_id ret) c m \<longleftrightarrow> comes_after pb th (mg_wanted d) c m \<and> \<not> (n = int c \<and> pos m = pos i)"
proof -
  let ?w = "mg_wanted d"
  obtain t0 where t0: "tag0w i = Some t0" "the_tag i = sint t0"
    using single_tag_shape [of i] i by (auto simp: message_id_def tag0w_def)
  have t0n: "t0 \<noteq> -1" using t0 i by (auto simp: message_id_def)
  have r: "comes_after pb th1 (m_id ret) c m \<longleftrightarrow> time m > time i
      \<or> time m = time i \<and> (reply_tags th ?w (mg_multi_count d) i n ! c = -1 \<or> sint (reply_tags th ?w (mg_multi_count d) i n ! c) < the_tag m)"
    using comes_after_multi [of th1 "m_id ret" c m pb] rep k i m by (simp add: reply_ok_def message_id_def)
  have nc: "nat n = c \<longleftrightarrow> n = int c" using k by auto
  have len: "c < length (if time ?w = time i then tag_list th ?w else replicate (nat (mg_multi_count d)) (-1))"
    using k w length_tag_list [OF w(1)] i by (auto simp: message_id_def)
  have tg: "reply_tags th ?w (mg_multi_count d) i n ! c
      = (if n = int c then t0 else if time ?w = time i then tag_list th ?w ! c else -1)"
    using len k nc t0 by (auto simp: reply_tags_def nth_list_update)
  show ?thesis
  proof (cases "time ?w = 0")
    case True
    with m i first comes_after_oldest [OF True m, of pb th c] show ?thesis
      unfolding r tg using t0 t0n by (auto simp: pos_def message_id_def)
  next
    case False
    with w k have cm: "comes_after pb th ?w c x \<longleftrightarrow> time x > time ?w \<or> time x = time ?w
        \<and> (tag_list th ?w ! c = -1 \<or> sint (tag_list th ?w ! c) < the_tag x)" if "message_id x" for x
      using comes_after_multi [OF w(1) _ _ that, of c pb] by auto
    show ?thesis using first self w(3) unfolding r tg cm [OF m] cm [OF i] using t0 t0n by (auto simp: pos_def)
  qed
qed

text \<open>
  The answers of the channels to a request: a channel whose messages have the ids \<open>ids c\<close> answers with the first one that
  comes after the position of the subscriber, and a channel that is not asked has none.
\<close>

definition right_answer :: "ptr_bytes \<Rightarrow> tag_heap \<Rightarrow> msg_heap \<Rightarrow> nchan_msg_id \<Rightarrow> nchan_msg_id set \<Rightarrow> nat \<Rightarrow> ptr \<Rightarrow> bool" where
  "right_answer pb th h w ids c q = (case q of
      None \<Rightarrow> (\<forall>m \<in> ids. \<not> comes_after pb th w c m)
    | Some a \<Rightarrow> id_of h a \<in> ids \<and> comes_after pb th w c (id_of h a)
        \<and> (\<forall>m \<in> ids. comes_after pb th w c m \<longrightarrow> pos (id_of h a) \<le> pos m))"

definition right_answers :: "ptr_bytes \<Rightarrow> tag_heap \<Rightarrow> msg_heap \<Rightarrow> nchan_msg_id \<Rightarrow> (nat \<Rightarrow> nchan_msg_id set) \<Rightarrow> nat \<Rightarrow> answer list \<Rightarrow> bool" where
  "right_answers pb th h w ids k rs \<longleftrightarrow>
     (\<forall>(n, s, q) \<in> set rs. 0 \<le> n \<and> n < int k \<and> right_answer pb th h w (ids (nat n)) (nat n) q)
     \<and> (\<forall>c < k. (\<forall>s q. (int c, s, q) \<notin> set rs) \<longrightarrow> (\<forall>m \<in> ids c. \<not> comes_after pb th w c m))"

lemma right_answersD:
  assumes "right_answers pb th h w ids k rs" and "(n, s, q) \<in> set rs"
  shows "0 \<le> n" "n < int k" "right_answer pb th h w (ids (nat n)) (nat n) q"
  using assms by (auto simp: right_answers_def)

lemma right_first:
  assumes ra: "right_answers pb th h w ids k rs" and min: "\<forall>n' s a. (n', s, Some a) \<in> set rs \<longrightarrow> rank h n b \<le> rank h n' a"
    and c: "c < k" "m \<in> ids c" "comes_after pb th w c m"
  shows "(pos (id_of h b), n) \<le> (pos m, int c)"
proof -
  have "\<exists>s q. (int c, s, q) \<in> set rs" using ra c unfolding right_answers_def by blast
  then obtain s q where sq: "(int c, s, q) \<in> set rs" by blast
  from right_answersD(3) [OF ra this] c obtain a where a: "q = Some a" "pos (id_of h a) \<le> pos m"
    by (auto simp: right_answer_def split: option.splits)
  with min sq have "rank h n b \<le> rank h (int c) a" by blast
  with a(2) show ?thesis by (auto simp: rank_def pos_def)
qed

text \<open>
  C1: a subscriber of several channels loses no message and gets none twice.  When the channels have answered a
  request, the messages of a channel that come after the id of the reply are exactly those that came after the
  subscriber's position, without the message that was delivered, for every channel and in whatever order the answers
  arrived.
\<close>

theorem multi_get_no_loss:
  assumes fresh: "mg_fresh d" and ok: "answers_ok h (mg_wanted d) rs" and all: "mg_getting d = int (length rs)"
    and some: "\<exists>n s a. (n, s, Some a) \<in> set rs" and sa: "\<forall>(n, s, q) \<in> set rs. q \<noteq> Some sa"
    and rdy: "mg_ready la pla d th" and w: "0 \<le> time (mg_wanted d)"
    and ids: "\<forall>c < nat (mg_multi_count d). \<forall>m \<in> ids c. message_id m"
    and ra: "right_answers pb th h (mg_wanted d) ids (nat (mg_multi_count d)) rs"
  shows "\<exists>n st b ret th1 th2. mg_run pb sa la pla rs (Some d) h th = Some ([Release_chanhead, Reply st (Some ret) th1], None, h, th2)
     \<and> (n, st, Some b) \<in> set rs
     \<and> (\<forall>c < nat (mg_multi_count d). \<forall>m \<in> ids c.
          comes_after pb th1 (m_id ret) c m \<longleftrightarrow> comes_after pb th (mg_wanted d) c m \<and> \<not> (n = int c \<and> pos m = pos (id_of h b)))"
proof -
  have k: "2 \<le> mg_multi_count d" "msgid_ok th (mg_wanted d)" "0 < time (mg_wanted d) \<Longrightarrow> tagcount (mg_wanted d) = mg_multi_count d"
    using rdy by (auto simp: mg_ready_def)
  have idx: "\<forall>(n, s, q) \<in> set rs. 0 \<le> n \<and> n < mg_multi_count d" using right_answersD(1,2) [OF ra] k(1) by fastforce
  have mem: "id_of h a \<in> ids (nat n)" "comes_after pb th (mg_wanted d) (nat n) (id_of h a)" "nat n < nat (mg_multi_count d)"
    if "(n, s, Some a) \<in> set rs" for n s a
    using right_answersD [OF ra that] k(1) by (simp_all add: right_answer_def)
  have mid: "message_id (id_of h a)" if "(n, s, Some a) \<in> set rs" for n s a using ids mem [OF that] by blast
  have msgs: "\<forall>(n, s, q) \<in> set rs. \<forall>a. q = Some a \<longrightarrow> time (id_of h a) > 0 \<and> a \<noteq> sa"
    using mid sa by (fastforce simp: message_id_def)
  obtain n st b ret th1 th2 where run: "mg_run pb sa la pla rs (Some d) h th = Some ([Release_chanhead, Reply st (Some ret) th1], None, h, th2)"
      "(n, st, Some b) \<in> set rs" "\<forall>n' s a. (n', s, Some a) \<in> set rs \<longrightarrow> rank h n b \<le> rank h n' a"
      "reply_ok th d (id_of h b) n ret th1"
    using multi_get_run [OF fresh ok all some idx msgs rdy] by blast
  have n: "0 \<le> n" "n < mg_multi_count d" "time (mg_wanted d) \<le> time (id_of h b)"
    using idx ok run(2) by (auto simp: answers_ok_def)
  have "comes_after pb th1 (m_id ret) c m \<longleftrightarrow> comes_after pb th (mg_wanted d) c m \<and> \<not> (n = int c \<and> pos m = pos (id_of h b))"
    if c: "c < nat (mg_multi_count d)" "m \<in> ids c" for c m
  proof (rule reply_position [OF run(4) k(1) n(1,2) c(1) mid [OF run(2)] _ k(2) w n(3) k(3)])
    show "message_id m" using ids c by blast
    show "(pos (id_of h b), n) \<le> (pos m, int c)" if "comes_after pb th (mg_wanted d) c m"
      using right_first [OF ra run(3) c that] .
    show "comes_after pb th (mg_wanted d) c (id_of h b)" if "n = int c" using mem(2) [OF run(2)] that by simp
  qed
  with run(1,2) show ?thesis by blast
qed

subsection \<open>Requests that time out\<close>

lemma expired_run:
  assumes "mg_expired d \<noteq> 0" and "rs \<noteq> []" and "mg_getting d = int (length rs)" and "msgid_ok th (mg_wanted d)"
  shows "\<exists>th2. mg_run pb sa la pla rs (Some d) h th = Some ([], None, h, th2)"
  using assms
proof (induction rs arbitrary: d)
  case (Cons r rs)
  obtain n s q where r: "r = (n, s, q)" by (metis prod_cases3)
  let ?e = "d\<lparr>mg_getting := mg_getting d - 1\<rparr>"
  show ?case
  proof (cases rs)
    case Nil
    obtain w th2 where "nchan_free_msg_id th (mg_wanted d) = Some (w, th2)" using free_wanted [OF Cons.prems(4), of th] by blast
    with Nil r Cons.prems show ?thesis
      by (simp add: nchan_store_async_get_multi_message_callback_def nchan_store_async_get_multi_message_callback_cleanup_def)
  next
    case (Cons r' rs')
    then have "nchan_store_async_get_multi_message_callback pb sa la pla s q n d h th = Some ([], Some ?e, h, th)"
      using Cons.prems
      by (simp add: nchan_store_async_get_multi_message_callback_def nchan_store_async_get_multi_message_callback_cleanup_def)
    with Cons.IH [of ?e] Cons.prems Cons r show ?thesis by simp
  qed
qed simp

text \<open>
  C36: a request for the message of several channels that times out before all of them have answered never gets a
  reply, and when the missing answers arrive late and the request is freed, the reference it took to the best message so
  far is not given back: the message's count stays one too high.
\<close>

theorem multi_get_timeout_leaks:
  assumes "mg_getting d = int (length rs)" and "rs \<noteq> []" and "now \<noteq> 0" and "msgid_ok th (mg_wanted d)"
    and "get_multimsg_timeout now d = (ev, d')"
  shows "ev = [Release_chanhead] \<and> (\<exists>th2. mg_run pb sa la pla rs (Some d') (hold h (mg_msg d)) th = Some ([], None, hold h (mg_msg d), th2))"
  using expired_run [of d' rs th pb sa la pla "hold h (mg_msg d)"] assms by (auto simp: get_multimsg_timeout_def)

subsection \<open>Examples\<close>

definition sample_get :: multi_get where
  "sample_get = \<lparr>mg_status = MSG_PENDING, mg_msg = None, mg_n = -1, mg_wanted = sample_two 3 4, mg_getting = 2, mg_multi_count = 2,
     mg_timer_set = True, mg_expired = 0\<rparr>"

definition sample_msgs2 :: msg_heap where
  "sample_msgs2 = [7 \<mapsto> sample_stored 100 5, 8 \<mapsto> sample_stored 100 4]"

definition sample_answers :: "answer list" where
  "sample_answers = [(1, MSG_FOUND, Some 7), (0, MSG_FOUND, Some 8)]"

definition static_tags :: tag_heap where
  "static_tags = [60 \<mapsto> replicate 255 0, 61 \<mapsto> replicate 255 0]"

lemma sample_get_ok:
  "mg_fresh sample_get" "answers_ok sample_msgs2 (mg_wanted sample_get) sample_answers" "mg_ready 60 61 sample_get static_tags"
  by (simp_all add: mg_fresh_def sample_get_def answers_ok_def sample_answers_def stored_msg_def sample_msgs2_def id_of_def
      sample_stored_def sample_msg_def NCHAN_ZERO_MSGID_def single_tag_def sample_two_ok mg_ready_def static_tags_def)

lemma sample_ids: "id_of sample_msgs2 7 = m_id (sample_stored 100 5)" "id_of sample_msgs2 8 = m_id (sample_stored 100 4)"
  by (simp_all add: id_of_def sample_msgs2_def)

theorem multi_get_reply_witness:
  "\<exists>n st b ret th1 th2. mg_run (\<lambda>_. []) 9 60 61 sample_answers (Some sample_get) sample_msgs2 static_tags
      = Some ([Release_chanhead, Reply st (Some ret) th1], None, sample_msgs2, th2)
     \<and> (n, st, Some b) \<in> set sample_answers \<and> rank sample_msgs2 n b \<le> (100, 4, 0)"
proof -
  have pre: "mg_getting sample_get = int (length sample_answers)" "\<exists>n s a. (n, s, Some a) \<in> set sample_answers"
    "\<forall>(n, s, q) \<in> set sample_answers. 0 \<le> n \<and> n < mg_multi_count sample_get"
    "\<forall>(n, s, q) \<in> set sample_answers. \<forall>a. q = Some a \<longrightarrow> time (id_of sample_msgs2 a) > 0 \<and> a \<noteq> 9"
    by (auto simp: sample_get_def sample_answers_def sample_ids sample_msgs)
  have r: "rank sample_msgs2 0 8 = (100, 4, 0)" "(0, MSG_FOUND, Some 8) \<in> set sample_answers"
    by (simp_all add: rank_def sample_ids sample_msgs sample_answers_def)
  from multi_get_reply [OF sample_get_ok(1,2) pre sample_get_ok(3), of "\<lambda>_. []"] r show ?thesis by metis
qed

theorem multi_get_timeout_leaks_witness:
  "\<exists>ev d' th2. get_multimsg_timeout 100 (sample_get\<lparr>mg_msg := Some 7, mg_getting := 1\<rparr>) = (ev, d')
     \<and> mg_run (\<lambda>_. []) 9 60 61 [(0, MSG_FOUND, Some 8)] (Some d') (hold sample_msgs2 (Some 7)) static_tags
         = Some ([], None, hold sample_msgs2 (Some 7), th2)"
  using multi_get_timeout_leaks [of "sample_get\<lparr>mg_msg := Some 7, mg_getting := 1\<rparr>" "[(0, MSG_FOUND, Some 8)]" 100 static_tags
      "[Release_chanhead]" "sample_get\<lparr>mg_msg := Some 7, mg_getting := 1, mg_expired := 100, mg_timer_set := False\<rparr>"
      "\<lambda>_. []" 9 60 61 sample_msgs2]
  by (simp add: get_multimsg_timeout_def) (simp add: sample_get_def sample_two_ok)

lemma sample_right: "right_answers (\<lambda>_. []) static_tags sample_msgs2 (sample_two 3 4)
    ((\<lambda>_. {})(0 := {m_id (sample_stored 100 4)}, 1 := {m_id (sample_stored 100 5)})) 2 sample_answers"
proof -
  have m: "message_id (m_id (sample_stored 100 4))" "message_id (m_id (sample_stored 100 5))"
    by (simp_all add: message_id_def sample_msgs)
  have "comes_after (\<lambda>_. []) static_tags (sample_two 3 4) 0 (m_id (sample_stored 100 4))"
      "comes_after (\<lambda>_. []) static_tags (sample_two 3 4) 1 (m_id (sample_stored 100 5))"
    by (simp_all add: comes_after_multi m sample_two_ok sample_msgs)
  then show ?thesis
    by (auto simp: right_answers_def right_answer_def sample_answers_def sample_ids less_2_cases_iff)
qed

theorem multi_get_no_loss_witness:
  "\<exists>n st b ret th1 th2. mg_run (\<lambda>_. []) 9 60 61 sample_answers (Some sample_get) sample_msgs2 static_tags
      = Some ([Release_chanhead, Reply st (Some ret) th1], None, sample_msgs2, th2)
     \<and> (n, st, Some b) \<in> set sample_answers
     \<and> (comes_after (\<lambda>_. []) th1 (m_id ret) 1 (m_id (sample_stored 100 5))
          \<longleftrightarrow> comes_after (\<lambda>_. []) static_tags (sample_two 3 4) 1 (m_id (sample_stored 100 5))
              \<and> \<not> (n = 1 \<and> pos (m_id (sample_stored 100 5)) = pos (id_of sample_msgs2 b)))"
proof -
  let ?ids = "(\<lambda>_. {})(0 := {m_id (sample_stored 100 4)}, 1 := {m_id (sample_stored 100 5)})"
  have g: "mg_wanted sample_get = sample_two 3 4" "mg_multi_count sample_get = 2" "mg_getting sample_get = 2"
    by (simp_all add: sample_get_def)
  have pre: "mg_getting sample_get = int (length sample_answers)" "\<exists>n s a. (n, s, Some a) \<in> set sample_answers"
    "\<forall>(n, s, q) \<in> set sample_answers. q \<noteq> Some 9"
    by (auto simp: g sample_answers_def)
  have ids: "\<forall>c < nat (mg_multi_count sample_get). \<forall>m \<in> ?ids c. message_id m" by (auto simp: message_id_def sample_msgs)
  have w: "0 \<le> time (mg_wanted sample_get)" by (simp add: g sample_two_ok)
  have ra: "right_answers (\<lambda>_. []) static_tags sample_msgs2 (mg_wanted sample_get) ?ids (nat (mg_multi_count sample_get)) sample_answers"
    using sample_right by (simp add: g)
  have "1 < nat (mg_multi_count sample_get)" "m_id (sample_stored 100 5) \<in> ?ids 1" by (simp_all add: g)
  with multi_get_no_loss [OF sample_get_ok(1,2) pre sample_get_ok(3) w ids ra] show ?thesis
    unfolding g by (metis of_nat_1)
qed

end
