(* ===== verification/Rwlock.thy ===== *)
theory Rwlock
  imports Nchan_Prelude
begin

text \<open>
  ngx\_rwlock.c: the readers-writer lock in shared memory.

  The worker processes run the code of the lock interleaved, one access of shared memory at a time.  \<open>rw_pc\<close> says where
  a process is; the loops that wait (spinning, yielding) stay where they are.  \<open>rw_next\<close> is the next access of a process,
  \<open>rw_step\<close> a step of the system.  Incrementing and decrementing the lock, a read and a write inside the mutex, is one step.  The compare-and-set of nginx is atomic; a process id is not 0.
\<close>

record ngx_rwlock =
  rw_lock :: uint64
  rw_mutex :: nat
  rw_write_pid :: nat

definition NGX_RWLOCK_WRITE :: uint64 where "NGX_RWLOCK_WRITE = -1"

definition ngx_rwlock_init :: "ngx_rwlock \<Rightarrow> ngx_rwlock" where
  "ngx_rwlock_init l = l\<lparr>rw_mutex := 1, rw_lock := 0, rw_write_pid := 0, rw_mutex := 0\<rparr>"

text \<open>One attempt to take the mutex, and giving it back.\<close>

definition rwl_lock_mutex :: "nat \<Rightarrow> ngx_rwlock \<Rightarrow> bool \<times> ngx_rwlock" where
  "rwl_lock_mutex pid l = (if rw_mutex l = 0 then (True, l\<lparr>rw_mutex := pid\<rparr>) else (False, l))"

definition rwl_unlock_mutex :: "nat \<Rightarrow> ngx_rwlock \<Rightarrow> ngx_rwlock" where
  "rwl_unlock_mutex pid l = (if rw_mutex l = pid then l\<lparr>rw_mutex := 0\<rparr> else l)"

datatype rw_pc =
    Idle
  | RR_test | RR_lock | RR_retest | RR_stmt | RR_done | RR_again      \<comment> \<open>\<^verbatim>\<open>ngx_rwlock_reserve_read\<close>\<close>
  | Reading
  | RL_test | RL_lock | RL_retest | RL_stmt | RL_done | RL_fail       \<comment> \<open>\<^verbatim>\<open>ngx_rwlock_release_read\<close>\<close>
  | WR_test | WR_lock | WR_retest | WR_stmt | WR_pid | WR_done | WR_again  \<comment> \<open>\<^verbatim>\<open>ngx_rwlock_reserve_write\<close>\<close>
  | Writing
  | WL_test | WL_lock | WL_retest | WL_stmt | WL_pid | WL_done | WL_fail   \<comment> \<open>\<^verbatim>\<open>ngx_rwlock_release_write\<close>\<close>

text \<open>Taking the mutex from the point \<open>here\<close>, going on at \<open>there\<close>.\<close>

definition take_mutex :: "nat \<Rightarrow> rw_pc \<Rightarrow> rw_pc \<Rightarrow> ngx_rwlock \<Rightarrow> rw_pc \<times> ngx_rwlock" where
  "take_mutex pid here there l = (case rwl_lock_mutex pid l of (ok, l) \<Rightarrow> (if ok then there else here, l))"

fun ngx_rwlock_reserve_read :: "nat \<Rightarrow> rw_pc \<Rightarrow> ngx_rwlock \<Rightarrow> rw_pc \<times> ngx_rwlock" where
  "ngx_rwlock_reserve_read pid RR_test l = (if rw_lock l \<noteq> NGX_RWLOCK_WRITE then RR_lock else RR_test, l)"
| "ngx_rwlock_reserve_read pid RR_lock l = take_mutex pid RR_lock RR_retest l"
| "ngx_rwlock_reserve_read pid RR_retest l = (if rw_lock l \<noteq> NGX_RWLOCK_WRITE then RR_stmt else RR_again, l)"
| "ngx_rwlock_reserve_read pid RR_stmt l = (RR_done, l\<lparr>rw_lock := rw_lock l + 1\<rparr>)"
| "ngx_rwlock_reserve_read pid RR_done l = (Reading, rwl_unlock_mutex pid l)"
| "ngx_rwlock_reserve_read pid RR_again l = (RR_test, rwl_unlock_mutex pid l)"
| "ngx_rwlock_reserve_read pid c l = (c, l)"

fun ngx_rwlock_release_read :: "nat \<Rightarrow> rw_pc \<Rightarrow> ngx_rwlock \<Rightarrow> rw_pc \<times> ngx_rwlock" where
  "ngx_rwlock_release_read pid RL_test l = (if rw_lock l \<noteq> NGX_RWLOCK_WRITE \<and> rw_lock l \<noteq> 0 then RL_lock else Idle, l)"
| "ngx_rwlock_release_read pid RL_lock l = take_mutex pid RL_lock RL_retest l"
| "ngx_rwlock_release_read pid RL_retest l = (if rw_lock l \<noteq> NGX_RWLOCK_WRITE \<and> rw_lock l \<noteq> 0 then RL_stmt else RL_fail, l)"
| "ngx_rwlock_release_read pid RL_stmt l = (RL_done, l\<lparr>rw_lock := rw_lock l - 1\<rparr>)"
| "ngx_rwlock_release_read pid RL_done l = (Idle, rwl_unlock_mutex pid l)"
| "ngx_rwlock_release_read pid RL_fail l = (Idle, rwl_unlock_mutex pid l)"
| "ngx_rwlock_release_read pid c l = (c, l)"

text \<open>\<^verbatim>\<open>ngx_rwlock_write_check\<close>, called in a loop by \<^verbatim>\<open>ngx_rwlock_reserve_write\<close>.\<close>

fun ngx_rwlock_write_check :: "nat \<Rightarrow> rw_pc \<Rightarrow> ngx_rwlock \<Rightarrow> rw_pc \<times> ngx_rwlock" where
  "ngx_rwlock_write_check pid WR_test l = (if rw_lock l = 0 then WR_lock else WR_test, l)"
| "ngx_rwlock_write_check pid WR_lock l = take_mutex pid WR_lock WR_retest l"
| "ngx_rwlock_write_check pid WR_retest l = (if rw_lock l = 0 then WR_stmt else WR_again, l)"
| "ngx_rwlock_write_check pid WR_stmt l = (WR_pid, l\<lparr>rw_lock := NGX_RWLOCK_WRITE\<rparr>)"
| "ngx_rwlock_write_check pid WR_pid l = (WR_done, l\<lparr>rw_write_pid := pid\<rparr>)"
| "ngx_rwlock_write_check pid WR_done l = (Writing, rwl_unlock_mutex pid l)"
| "ngx_rwlock_write_check pid WR_again l = (WR_test, rwl_unlock_mutex pid l)"
| "ngx_rwlock_write_check pid c l = (c, l)"

fun ngx_rwlock_release_write :: "nat \<Rightarrow> rw_pc \<Rightarrow> ngx_rwlock \<Rightarrow> rw_pc \<times> ngx_rwlock" where
  "ngx_rwlock_release_write pid WL_test l = (if rw_lock l = NGX_RWLOCK_WRITE then WL_lock else Idle, l)"
| "ngx_rwlock_release_write pid WL_lock l = take_mutex pid WL_lock WL_retest l"
| "ngx_rwlock_release_write pid WL_retest l = (if rw_lock l = NGX_RWLOCK_WRITE then WL_stmt else WL_fail, l)"
| "ngx_rwlock_release_write pid WL_stmt l = (WL_pid, l\<lparr>rw_lock := 0\<rparr>)"
| "ngx_rwlock_release_write pid WL_pid l = (WL_done, l\<lparr>rw_write_pid := 0\<rparr>)"
| "ngx_rwlock_release_write pid WL_done l = (Idle, rwl_unlock_mutex pid l)"
| "ngx_rwlock_release_write pid WL_fail l = (Idle, rwl_unlock_mutex pid l)"
| "ngx_rwlock_release_write pid c l = (c, l)"

fun rw_next :: "nat \<Rightarrow> rw_pc \<Rightarrow> ngx_rwlock \<Rightarrow> rw_pc \<times> ngx_rwlock" where
  "rw_next pid c l =
     (if c \<in> {RR_test, RR_lock, RR_retest, RR_stmt, RR_done, RR_again} then ngx_rwlock_reserve_read pid c l
      else if c \<in> {RL_test, RL_lock, RL_retest, RL_stmt, RL_done, RL_fail} then ngx_rwlock_release_read pid c l
      else if c \<in> {WR_test, WR_lock, WR_retest, WR_stmt, WR_pid, WR_done, WR_again} then ngx_rwlock_write_check pid c l
      else ngx_rwlock_release_write pid c l)"

type_synonym rw_sys = "ngx_rwlock \<times> (nat \<Rightarrow> rw_pc)"

text \<open>
  The processes in \<open>P\<close> call the operations as their contract says: reserve when they hold nothing, release what they
  hold.
\<close>

inductive rw_step :: "nat set \<Rightarrow> rw_sys \<Rightarrow> rw_sys \<Rightarrow> bool" for P where
  reserve_read: "p \<in> P \<Longrightarrow> pcs p = Idle \<Longrightarrow> rw_step P (l, pcs) (l, pcs(p := RR_test))"
| release_read: "p \<in> P \<Longrightarrow> pcs p = Reading \<Longrightarrow> rw_step P (l, pcs) (l, pcs(p := RL_test))"
| reserve_write: "p \<in> P \<Longrightarrow> pcs p = Idle \<Longrightarrow> rw_step P (l, pcs) (l, pcs(p := WR_test))"
| release_write: "p \<in> P \<Longrightarrow> pcs p = Writing \<Longrightarrow> rw_step P (l, pcs) (l, pcs(p := WL_test))"
| run: "p \<in> P \<Longrightarrow> rw_next p (pcs p) l = (c, l') \<Longrightarrow> rw_step P (l, pcs) (l', pcs(p := c))"

inductive rw_reach :: "nat set \<Rightarrow> rw_sys \<Rightarrow> bool" for P where
  init: "rw_reach P (ngx_rwlock_init l, \<lambda>_. Idle)"
| step: "rw_reach P s \<Longrightarrow> rw_step P s s' \<Longrightarrow> rw_reach P s'"

subsection \<open>The invariant\<close>

definition in_mutex :: "rw_pc \<Rightarrow> bool" where
  "in_mutex c \<longleftrightarrow> c \<in> {RR_retest, RR_stmt, RR_done, RR_again, RL_retest, RL_stmt, RL_done, RL_fail,
     WR_retest, WR_stmt, WR_pid, WR_done, WR_again, WL_retest, WL_stmt, WL_pid, WL_done, WL_fail}"

definition has_read :: "rw_pc \<Rightarrow> bool" where
  "has_read c \<longleftrightarrow> c \<in> {RR_done, Reading, RL_test, RL_lock, RL_retest, RL_stmt}"

definition has_write :: "rw_pc \<Rightarrow> bool" where
  "has_write c \<longleftrightarrow> c \<in> {WR_pid, WR_done, Writing, WL_test, WL_lock, WL_retest, WL_stmt}"

definition readers :: "nat set \<Rightarrow> (nat \<Rightarrow> rw_pc) \<Rightarrow> nat set" where
  "readers P pcs = {p \<in> P. has_read (pcs p)}"

definition writers :: "nat set \<Rightarrow> (nat \<Rightarrow> rw_pc) \<Rightarrow> nat set" where
  "writers P pcs = {p \<in> P. has_write (pcs p)}"

definition pc_ok :: "nat set \<Rightarrow> (nat \<Rightarrow> rw_pc) \<Rightarrow> rw_pc \<Rightarrow> bool" where
  "pc_ok P pcs c \<longleftrightarrow> c \<notin> {RL_fail, WL_fail}
     \<and> (c = RR_stmt \<longrightarrow> writers P pcs = {}) \<and> (c = WR_stmt \<longrightarrow> writers P pcs = {} \<and> readers P pcs = {})"

definition rw_inv :: "nat set \<Rightarrow> rw_sys \<Rightarrow> bool" where
  "rw_inv P s \<longleftrightarrow> (case s of (l, pcs) \<Rightarrow>
     (\<forall>p \<in> P. in_mutex (pcs p) \<longleftrightarrow> rw_mutex l = p) \<and> (rw_mutex l \<noteq> 0 \<longrightarrow> rw_mutex l \<in> P)
     \<and> rw_lock l = (if writers P pcs = {} then of_nat (card (readers P pcs)) else NGX_RWLOCK_WRITE)
     \<and> (\<forall>w \<in> writers P pcs. writers P pcs = {w} \<and> readers P pcs = {})
     \<and> (\<forall>p \<in> P. pc_ok P pcs (pcs p)))"

lemma readers_upd:
  "p \<in> P \<Longrightarrow> readers P (pcs(p := c)) = (if has_read c then insert p (readers P pcs) else readers P pcs - {p})"
  by (auto simp: readers_def)

lemma writers_upd:
  "p \<in> P \<Longrightarrow> writers P (pcs(p := c)) = (if has_write c then insert p (writers P pcs) else writers P pcs - {p})"
  by (auto simp: writers_def)

lemma same_holders:
  assumes "has_read c = has_read (pcs p)" and "has_write c = has_write (pcs p)"
  shows "readers P (pcs(p := c)) = readers P pcs" "writers P (pcs(p := c)) = writers P pcs"
    "pc_ok P (pcs(p := c)) = pc_ok P pcs"
proof -
  show r: "readers P (pcs(p := c)) = readers P pcs" and w: "writers P (pcs(p := c)) = writers P pcs"
    using assms by (auto simp: readers_def writers_def)
  show "pc_ok P (pcs(p := c)) = pc_ok P pcs" by (simp add: pc_ok_def fun_eq_iff r w)
qed

lemma rw_invD:
  assumes "rw_inv P (l, pcs)"
  shows "p \<in> P \<Longrightarrow> in_mutex (pcs p) \<longleftrightarrow> rw_mutex l = p" "rw_mutex l \<noteq> 0 \<Longrightarrow> rw_mutex l \<in> P"
    "rw_lock l = (if writers P pcs = {} then of_nat (card (readers P pcs)) else NGX_RWLOCK_WRITE)"
    "w \<in> writers P pcs \<Longrightarrow> writers P pcs = {w} \<and> readers P pcs = {}" "p \<in> P \<Longrightarrow> pc_ok P pcs (pcs p)"
  using assms by (auto simp: rw_inv_def)

text \<open>Steps that neither take nor give back the mutex and leave the holders of the lock alone.\<close>

lemma inv_quiet:
  assumes inv: "rw_inv P (l, pcs)" and c: "has_read c = has_read (pcs p)" "has_write c = has_write (pcs p)"
    and m: "in_mutex c = in_mutex (pcs p)" "rw_lock l' = rw_lock l" "rw_mutex l' = rw_mutex l" and ok: "pc_ok P pcs c"
  shows "rw_inv P (l', pcs(p := c))"
  using inv ok m unfolding rw_inv_def by (auto simp: same_holders [of c pcs p, OF c])

lemma inv_acquire:
  assumes inv: "rw_inv P (l, pcs)" and p: "p \<in> P" "\<forall>q \<in> P. 0 < q" and c: "has_read c = has_read (pcs p)" "has_write c = has_write (pcs p)"
    and m: "in_mutex c" "rw_mutex l = 0" and ok: "pc_ok P pcs c"
  shows "rw_inv P (l\<lparr>rw_mutex := p\<rparr>, pcs(p := c))"
  using inv ok m p unfolding rw_inv_def by (auto simp: same_holders [of c pcs p, OF c])

lemma inv_release:
  assumes inv: "rw_inv P (l, pcs)" and p: "p \<in> P" "\<forall>q \<in> P. 0 < q" and c: "has_read c = has_read (pcs p)" "has_write c = has_write (pcs p)"
    and m: "\<not> in_mutex c" "in_mutex (pcs p)" and ok: "pc_ok P pcs c"
  shows "rw_inv P (rwl_unlock_mutex p l, pcs(p := c))"
  using inv ok m p unfolding rw_inv_def by (auto simp: same_holders [of c pcs p, OF c] rwl_unlock_mutex_def)

lemma inv_take:
  assumes inv: "rw_inv P (l, pcs)" and p: "p \<in> P" "\<forall>q \<in> P. 0 < q" and t: "take_mutex p (pcs p) there l = (c, l')"
    and c: "has_read there = has_read (pcs p)" "has_write there = has_write (pcs p)" "in_mutex there" and ok: "pc_ok P pcs there"
  shows "rw_inv P (l', pcs(p := c))"
proof (cases "rw_mutex l = 0")
  case True
  with inv_acquire [OF inv p c True ok] t show ?thesis by (simp add: take_mutex_def rwl_lock_mutex_def)
next
  case False
  with inv t show ?thesis by (auto simp: take_mutex_def rwl_lock_mutex_def)
qed

text \<open>While a process is inside the mutex no other one is about to change the lock.\<close>

lemma others_ok:
  assumes inv: "rw_inv P (l, pcs)" and p: "p \<in> P" "in_mutex (pcs p)" and q: "q \<in> P" "q \<noteq> p"
  shows "\<not> in_mutex (pcs q)" "pcs q \<noteq> RR_stmt" "pcs q \<noteq> WR_stmt"
proof -
  show n: "\<not> in_mutex (pcs q)" using rw_invD(1) [OF inv] p q by auto
  show "pcs q \<noteq> RR_stmt" "pcs q \<noteq> WR_stmt" using n by (auto simp: in_mutex_def)
qed

lemma inv_change:
  assumes inv: "rw_inv P (l, pcs)" and p: "p \<in> P" "in_mutex (pcs p)" "in_mutex c" and c: "c \<notin> {RR_stmt, WR_stmt, RL_fail, WL_fail}"
    and lock: "v = (if writers P (pcs(p := c)) = {} then of_nat (card (readers P (pcs(p := c)))) else NGX_RWLOCK_WRITE)"
    and hold: "\<forall>w \<in> writers P (pcs(p := c)). writers P (pcs(p := c)) = {w} \<and> readers P (pcs(p := c)) = {}"
  shows "rw_inv P (l\<lparr>rw_lock := v\<rparr>, pcs(p := c))"
proof -
  have "pc_ok P (pcs(p := c)) ((pcs(p := c)) q)" if "q \<in> P" for q
    using others_ok [OF inv p(1,2) that] rw_invD(5) [OF inv that] c by (auto simp: pc_ok_def)
  moreover have "in_mutex ((pcs(p := c)) q) \<longleftrightarrow> rw_mutex l = q" if "q \<in> P" for q
    using rw_invD(1) [OF inv that] p rw_invD(1) [OF inv p(1)] by auto
  ultimately show ?thesis using lock hold rw_invD(2) [OF inv] by (simp add: rw_inv_def)
qed

text \<open>There are fewer processes than the count of readers can express.\<close>

definition procs_ok :: "nat set \<Rightarrow> bool" where
  "procs_ok P \<longleftrightarrow> finite P \<and> card P < 2 ^ 64 - 1 \<and> (\<forall>q \<in> P. 0 < q)"

lemma of_nat_neq_write: "n < 2 ^ 64 - 1 \<Longrightarrow> of_nat n \<noteq> NGX_RWLOCK_WRITE"
proof
  assume n: "n < 2 ^ 64 - 1" and e: "of_nat n = NGX_RWLOCK_WRITE"
  then have "unat (of_nat n :: uint64) = unat (-1 :: uint64)" by (simp add: NGX_RWLOCK_WRITE_def)
  moreover have "unat (of_nat n :: uint64) = n" using n by (simp add: unat_of_nat)
  moreover have "unat (-1 :: uint64) = 2 ^ 64 - 1" by (simp add: unsigned_minus_1_eq_mask mask_eq_exp_minus_1)
  ultimately show False using n by simp
qed

lemma readers_few:
  assumes "procs_ok P"
  shows "finite (readers P pcs)" "card (readers P pcs) < 2 ^ 64 - 1"
proof -
  have "readers P pcs \<subseteq> P" by (auto simp: readers_def)
  with assms show "finite (readers P pcs)" "card (readers P pcs) < 2 ^ 64 - 1"
    using card_mono [of P "readers P pcs"] by (auto simp: procs_ok_def finite_subset)
qed

lemma lock_value:
  assumes inv: "rw_inv P (l, pcs)" and P: "procs_ok P"
  shows "rw_lock l = NGX_RWLOCK_WRITE \<longleftrightarrow> writers P pcs \<noteq> {}" "rw_lock l = 0 \<longleftrightarrow> writers P pcs = {} \<and> readers P pcs = {}"
proof -
  note few = readers_few [OF P, of pcs]
  show "rw_lock l = NGX_RWLOCK_WRITE \<longleftrightarrow> writers P pcs \<noteq> {}"
    using rw_invD(3) [OF inv] of_nat_neq_write [OF few(2)] by auto
  have "(of_nat (card (readers P pcs)) :: uint64) = 0 \<longleftrightarrow> readers P pcs = {}"
    using few by (subst of_nat_word_eq_0) auto
  then show "rw_lock l = 0 \<longleftrightarrow> writers P pcs = {} \<and> readers P pcs = {}"
    using rw_invD(3) [OF inv] by (auto simp: NGX_RWLOCK_WRITE_def)
qed

lemmas rw_pcs = in_mutex_def has_read_def has_write_def

lemma reserve_read_inv:
  assumes inv: "rw_inv P (l, pcs)" and P: "procs_ok P" "p \<in> P" and nx: "ngx_rwlock_reserve_read p (pcs p) l = (c, l')"
    and c: "pcs p \<in> {RR_test, RR_lock, RR_retest, RR_stmt, RR_done, RR_again}"
  shows "rw_inv P (l', pcs(p := c))"
proof -
  note lv = lock_value [OF inv P(1)] and ok = rw_invD(5) [OF inv P(2)]
  have pos: "\<forall>q \<in> P. 0 < q" using P by (simp add: procs_ok_def)
  consider "pcs p \<in> {RR_test, RR_retest}" | "pcs p = RR_lock" | "pcs p = RR_stmt" | "pcs p \<in> {RR_done, RR_again}" using c by auto
  then show ?thesis
  proof cases
    case 1
    with nx lv show ?thesis by (auto intro!: inv_quiet [OF inv] simp: rw_pcs pc_ok_def split: if_splits)
  next
    case 2
    with nx show ?thesis by (intro inv_take [OF inv P(2) pos, where there = RR_retest]) (simp_all add: rw_pcs pc_ok_def)
  next
    case 3
    then have w: "writers P pcs = {}" "p \<notin> readers P pcs" using ok by (auto simp: pc_ok_def readers_def has_read_def)
    then have "rw_lock l + 1 = of_nat (card (insert p (readers P pcs)))"
      using rw_invD(3) [OF inv] readers_few [OF P(1), of pcs] by simp
    with 3 nx P w show ?thesis
      by (auto intro!: inv_change [OF inv] simp: rw_pcs readers_upd writers_upd)
  next
    case 4
    with nx P pos show ?thesis by (auto intro!: inv_release [OF inv] simp: rw_pcs pc_ok_def)
  qed
qed

lemma release_read_inv:
  assumes inv: "rw_inv P (l, pcs)" and P: "procs_ok P" "p \<in> P" and nx: "ngx_rwlock_release_read p (pcs p) l = (c, l')"
    and c: "pcs p \<in> {RL_test, RL_lock, RL_retest, RL_stmt, RL_done, RL_fail}"
  shows "rw_inv P (l', pcs(p := c))"
proof -
  note lv = lock_value [OF inv P(1)] and ok = rw_invD(5) [OF inv P(2)]
  have pos: "\<forall>q \<in> P. 0 < q" using P by (simp add: procs_ok_def)
  have rd: "p \<in> readers P pcs \<and> writers P pcs = {}" if "has_read (pcs p)"
    using that P(2) rw_invD(4) [OF inv] by (auto simp: readers_def)
  consider "pcs p \<in> {RL_test, RL_retest}" | "pcs p = RL_lock" | "pcs p = RL_stmt" | "pcs p = RL_done" | "pcs p = RL_fail" using c by auto
  then show ?thesis
  proof cases
    case 1
    then have "p \<in> readers P pcs" "writers P pcs = {}" using rd by (auto simp: has_read_def)
    with 1 nx lv show ?thesis by (auto intro!: inv_quiet [OF inv] simp: rw_pcs pc_ok_def split: if_splits)
  next
    case 2
    with nx show ?thesis by (intro inv_take [OF inv P(2) pos, where there = RL_retest]) (simp_all add: rw_pcs pc_ok_def)
  next
    case 3
    then have w: "writers P pcs = {}" "p \<in> readers P pcs" using rd by (auto simp: has_read_def)
    then have "card (readers P pcs) = Suc (card (readers P pcs - {p}))"
      by (intro card_Suc_Diff1 [OF readers_few(1) [OF P(1)], symmetric])
    then have "rw_lock l - 1 = of_nat (card (readers P pcs - {p}))" using rw_invD(3) [OF inv] w by simp
    with 3 nx P w show ?thesis
      by (auto intro!: inv_change [OF inv] simp: rw_pcs readers_upd writers_upd)
  next
    case 4
    with nx P pos show ?thesis by (auto intro!: inv_release [OF inv] simp: rw_pcs pc_ok_def)
  next
    case 5
    with ok show ?thesis by (simp add: pc_ok_def)
  qed
qed

lemma write_check_inv:
  assumes inv: "rw_inv P (l, pcs)" and P: "procs_ok P" "p \<in> P" and nx: "ngx_rwlock_write_check p (pcs p) l = (c, l')"
    and c: "pcs p \<in> {WR_test, WR_lock, WR_retest, WR_stmt, WR_pid, WR_done, WR_again}"
  shows "rw_inv P (l', pcs(p := c))"
proof -
  note lv = lock_value [OF inv P(1)] and ok = rw_invD(5) [OF inv P(2)]
  have pos: "\<forall>q \<in> P. 0 < q" using P by (simp add: procs_ok_def)
  consider "pcs p \<in> {WR_test, WR_retest, WR_pid}" | "pcs p = WR_lock" | "pcs p = WR_stmt" | "pcs p \<in> {WR_done, WR_again}" using c by auto
  then show ?thesis
  proof cases
    case 1
    with nx lv show ?thesis by (auto intro!: inv_quiet [OF inv] simp: rw_pcs pc_ok_def split: if_splits)
  next
    case 2
    with nx show ?thesis by (intro inv_take [OF inv P(2) pos, where there = WR_retest]) (simp_all add: rw_pcs pc_ok_def)
  next
    case 3
    then have "writers P pcs = {}" "readers P pcs = {}" using ok by (auto simp: pc_ok_def)
    with 3 nx P show ?thesis by (auto intro!: inv_change [OF inv] simp: rw_pcs readers_upd writers_upd)
  next
    case 4
    with nx P pos show ?thesis by (auto intro!: inv_release [OF inv] simp: rw_pcs pc_ok_def)
  qed
qed

lemma release_write_inv:
  assumes inv: "rw_inv P (l, pcs)" and P: "procs_ok P" "p \<in> P" and nx: "ngx_rwlock_release_write p (pcs p) l = (c, l')"
    and c: "pcs p \<in> {Idle, Reading, Writing, WL_test, WL_lock, WL_retest, WL_stmt, WL_pid, WL_done, WL_fail}"
  shows "rw_inv P (l', pcs(p := c))"
proof -
  note lv = lock_value [OF inv P(1)] and ok = rw_invD(5) [OF inv P(2)]
  have pos: "\<forall>q \<in> P. 0 < q" using P by (simp add: procs_ok_def)
  have wr: "writers P pcs = {p} \<and> readers P pcs = {}" if "has_write (pcs p)"
    using that P(2) rw_invD(4) [OF inv, of p] by (auto simp: writers_def)
  consider "pcs p \<in> {Idle, Reading, Writing, WL_pid}" | "pcs p \<in> {WL_test, WL_retest}" | "pcs p = WL_lock" | "pcs p = WL_stmt"
    | "pcs p = WL_done" | "pcs p = WL_fail" using c by auto
  then show ?thesis
  proof cases
    case 1
    with nx ok show ?thesis by (auto intro!: inv_quiet [OF inv] simp: rw_pcs pc_ok_def split: if_splits)
  next
    case 2
    then have "writers P pcs \<noteq> {}" using wr by (auto simp: has_write_def)
    with 2 nx lv show ?thesis by (auto intro!: inv_quiet [OF inv] simp: rw_pcs pc_ok_def split: if_splits)
  next
    case 3
    with nx show ?thesis by (intro inv_take [OF inv P(2) pos, where there = WL_retest]) (simp_all add: rw_pcs pc_ok_def)
  next
    case 4
    then have "writers P pcs = {p}" "readers P pcs = {}" using wr by (auto simp: has_write_def)
    with 4 nx P show ?thesis by (auto intro!: inv_change [OF inv] simp: rw_pcs readers_upd writers_upd)
  next
    case 5
    with nx P pos show ?thesis by (auto intro!: inv_release [OF inv] simp: rw_pcs pc_ok_def)
  next
    case 6
    with ok show ?thesis by (simp add: pc_ok_def)
  qed
qed

lemma next_inv:
  assumes inv: "rw_inv P (l, pcs)" and P: "procs_ok P" "p \<in> P" and nx: "rw_next p (pcs p) l = (c, l')"
  shows "rw_inv P (l', pcs(p := c))"
  using nx reserve_read_inv [OF inv P] release_read_inv [OF inv P] write_check_inv [OF inv P] release_write_inv [OF inv P]
  by (cases "pcs p") (simp_all only: rw_next.simps insert_iff empty_iff if_True if_False rw_pc.distinct rw_pc.simps simp_thms)

lemma call_inv:
  assumes inv: "rw_inv P (l, pcs)" and "pcs p = Idle \<and> c \<in> {RR_test, WR_test} \<or> pcs p = Reading \<and> c = RL_test \<or> pcs p = Writing \<and> c = WL_test"
  shows "rw_inv P (l, pcs(p := c))"
  using assms(2) by (intro inv_quiet [OF inv]) (auto simp: rw_pcs pc_ok_def)

lemma rw_reach_inv: "rw_reach P s \<Longrightarrow> procs_ok P \<Longrightarrow> rw_inv P s"
proof (induction rule: rw_reach.induct)
  case (init l)
  then show ?case by (auto simp: rw_inv_def ngx_rwlock_init_def readers_def writers_def rw_pcs pc_ok_def procs_ok_def)
next
  case (step s s')
  from step.hyps(2) step.IH [OF step.prems] step.prems show ?case
    by (cases rule: rw_step.cases) (auto intro: next_inv call_inv)
qed

subsection \<open>What the lock promises\<close>

text \<open>
  C19: in every state that worker processes can reach with the readers-writer lock, however their accesses of shared memory
  are interleaved, a process that holds the lock for writing is the only one that holds it, and while any process holds
  it for reading none holds it for writing.
\<close>

theorem rwlock_exclusion:
  assumes "procs_ok P" and "rw_reach P (l, pcs)" and "p \<in> P" and "q \<in> P" and "p \<noteq> q" and "pcs p = Writing"
  shows "pcs q \<noteq> Writing \<and> pcs q \<noteq> Reading \<and> rw_lock l = NGX_RWLOCK_WRITE"
proof -
  note inv = rw_reach_inv [OF assms(2,1)]
  have "p \<in> writers P pcs" using assms(3,6) by (simp add: writers_def has_write_def)
  with rw_invD(4) [OF inv this] rw_invD(3) [OF inv] have "writers P pcs = {p}" "readers P pcs = {}" "rw_lock l = NGX_RWLOCK_WRITE" by auto
  then show ?thesis using assms(4,5) by (auto simp: writers_def readers_def has_write_def has_read_def)
qed

text \<open>
  C20: releasing the lock works: a process that releases what it holds always passes the tests of the release and gives the
  lock back; the branches in which a release does nothing are never taken.
\<close>

theorem rwlock_release_effective:
  assumes "procs_ok P" and "rw_reach P (l, pcs)" and "p \<in> P"
  shows "pcs p \<noteq> RL_fail \<and> pcs p \<noteq> WL_fail
     \<and> (pcs p = RL_test \<longrightarrow> rw_next p (pcs p) l = (RL_lock, l)) \<and> (pcs p = WL_test \<longrightarrow> rw_next p (pcs p) l = (WL_lock, l))"
proof -
  note inv = rw_reach_inv [OF assms(2,1)]
  note lv = lock_value [OF inv assms(1)]
  have "pcs p \<noteq> RL_fail" "pcs p \<noteq> WL_fail" using rw_invD(5) [OF inv assms(3)] by (simp_all add: pc_ok_def)
  moreover have "writers P pcs = {} \<and> readers P pcs \<noteq> {}" if "pcs p = RL_test"
    using that assms(3) rw_invD(4) [OF inv] by (auto simp: readers_def has_read_def)
  moreover have "writers P pcs \<noteq> {}" if "pcs p = WL_test" using that assms(3) by (auto simp: writers_def has_write_def)
  ultimately show ?thesis using lv by auto
qed

subsection \<open>Progress\<close>

text \<open>How far a process is from being done with the lock, if nothing stands in its way.\<close>

fun rank :: "rw_pc \<Rightarrow> nat" where
  "rank Idle = 0"
| "rank RL_done = 1" | "rank RL_fail = 1" | "rank RL_stmt = 2" | "rank RL_retest = 3" | "rank RL_lock = 4" | "rank RL_test = 5"
| "rank Reading = 6" | "rank RR_done = 7" | "rank RR_stmt = 8" | "rank RR_retest = 9" | "rank RR_lock = 10" | "rank RR_test = 11"
| "rank RR_again = 12"
| "rank WL_done = 1" | "rank WL_fail = 1" | "rank WL_pid = 2" | "rank WL_stmt = 3" | "rank WL_retest = 4" | "rank WL_lock = 5"
| "rank WL_test = 6" | "rank Writing = 7" | "rank WR_done = 8" | "rank WR_pid = 9" | "rank WR_stmt = 10" | "rank WR_retest = 11"
| "rank WR_lock = 12" | "rank WR_test = 13" | "rank WR_again = 14"

text \<open>A process that has the lock, or is giving it back, or for which it is free, and no other one is inside the mutex.\<close>

definition served :: "nat set \<Rightarrow> (nat \<Rightarrow> rw_pc) \<Rightarrow> nat \<Rightarrow> bool" where
  "served P pcs p \<longleftrightarrow> (\<forall>q \<in> P. q \<noteq> p \<longrightarrow> \<not> in_mutex (pcs q)) \<and>
     (has_read (pcs p) \<or> has_write (pcs p) \<or> pcs p \<in> {Idle, RL_done, WL_pid, WL_done}
      \<or> (\<forall>q \<in> P. q \<noteq> p \<longrightarrow> \<not> has_read (pcs q) \<and> \<not> has_write (pcs q)))"

lemma served_lock:
  assumes P: "procs_ok P" and reach: "rw_reach P (l, pcs)" and p: "p \<in> P" and s: "served P pcs p"
  shows "\<not> in_mutex (pcs p) \<Longrightarrow> rw_mutex l = 0"
    and "has_read (pcs p) \<Longrightarrow> rw_lock l \<noteq> NGX_RWLOCK_WRITE \<and> rw_lock l \<noteq> 0"
    and "has_write (pcs p) \<Longrightarrow> rw_lock l = NGX_RWLOCK_WRITE"
    and "\<not> has_read (pcs p) \<and> \<not> has_write (pcs p) \<and> pcs p \<notin> {Idle, RL_done, WL_pid, WL_done} \<Longrightarrow> rw_lock l = 0"
proof -
  note inv = rw_reach_inv [OF reach P]
  note lv = lock_value [OF inv P]
  show "rw_mutex l = 0" if "\<not> in_mutex (pcs p)"
    using that s p rw_invD(2) [OF inv] rw_invD(1) [OF inv, of "rw_mutex l"] by (cases "rw_mutex l = p") (auto simp: served_def)
  show "rw_lock l \<noteq> NGX_RWLOCK_WRITE \<and> rw_lock l \<noteq> 0" if "has_read (pcs p)"
    using that p lv rw_invD(4) [OF inv] by (auto simp: readers_def)
  show "rw_lock l = NGX_RWLOCK_WRITE" if "has_write (pcs p)" using that p lv by (auto simp: writers_def)
  show "rw_lock l = 0" if "\<not> has_read (pcs p) \<and> \<not> has_write (pcs p) \<and> pcs p \<notin> {Idle, RL_done, WL_pid, WL_done}"
  proof -
    have "\<not> has_read (pcs q) \<and> \<not> has_write (pcs q)" if "q \<in> P" for q
      using s \<open>\<not> has_read (pcs p) \<and> \<not> has_write (pcs p) \<and> pcs p \<notin> {Idle, RL_done, WL_pid, WL_done}\<close> \<open>q \<in> P\<close>
      by (cases "q = p") (auto simp: served_def)
    then show ?thesis unfolding lv(2) by (auto simp: readers_def writers_def)
  qed
qed

lemma solo_step:
  assumes P: "procs_ok P" and reach: "rw_reach P (l, pcs)" and p: "p \<in> P" and s: "served P pcs p" and busy: "pcs p \<noteq> Idle"
  shows "\<exists>l' c. rw_step P (l, pcs) (l', pcs(p := c)) \<and> rank c < rank (pcs p) \<and> served P (pcs(p := c)) p"
proof -
  note lk = served_lock [OF P reach p s]
  have fail: "pcs p \<noteq> RL_fail" "pcs p \<noteq> WL_fail" using rw_invD(5) [OF rw_reach_inv [OF reach P] p] by (simp_all add: pc_ok_def)
  have run: ?thesis if "rw_next p (pcs p) l = (c, l')" "rank c < rank (pcs p)" "served P (pcs(p := c)) p" for c l'
    using rw_step.run [of p P pcs l, OF p that(1)] that(2,3) by blast
  show ?thesis
  proof (cases "pcs p \<in> {Reading, Writing}")
    case True
    then have "rw_step P (l, pcs) (l, pcs(p := if pcs p = Reading then RL_test else WL_test))"
      using rw_step.release_read [OF p, of pcs l] rw_step.release_write [OF p, of pcs l] by auto
    with True s show ?thesis
      by (intro exI [of _ l] exI [of _ "if pcs p = Reading then RL_test else WL_test"]) (auto simp: served_def rw_pcs)
  next
    case False
    have "rank (fst (rw_next p (pcs p) l)) < rank (pcs p) \<and> served P (pcs(p := fst (rw_next p (pcs p) l))) p"
      using False busy fail lk s unfolding served_def
      by (cases "pcs p") (auto simp: rw_pcs take_mutex_def rwl_lock_mutex_def NGX_RWLOCK_WRITE_def)
    then show ?thesis by (intro run [of "fst (rw_next p (pcs p) l)" "snd (rw_next p (pcs p) l)"]) simp_all
  qed
qed

lemma reach_run_steps: "(rw_step P)\<^sup>*\<^sup>* s t \<Longrightarrow> rw_reach P s \<Longrightarrow> rw_reach P t"
  by (induction rule: rtranclp_induct) (auto intro: rw_reach.step)

lemma solo:
  assumes P: "procs_ok P" and p: "p \<in> P"
  shows "\<lbrakk>rw_reach P (l, pcs); served P pcs p\<rbrakk> \<Longrightarrow> \<exists>l'. (rw_step P)\<^sup>*\<^sup>* (l, pcs) (l', pcs(p := Idle))"
proof (induction "rank (pcs p)" arbitrary: l pcs rule: less_induct)
  case less
  show ?case
  proof (cases "pcs p = Idle")
    case True
    then have "pcs(p := Idle) = pcs" by auto
    then show ?thesis by auto
  next
    case False
    obtain l1 c where c: "rw_step P (l, pcs) (l1, pcs(p := c))" "rank c < rank (pcs p)" "served P (pcs(p := c)) p"
      using solo_step [OF P less.prems(1) p less.prems(2) False] by blast
    then obtain l' where "(rw_step P)\<^sup>*\<^sup>* (l1, pcs(p := c)) (l', (pcs(p := c))(p := Idle))"
      using less.hyps [of "pcs(p := c)" l1] rw_reach.step [OF less.prems(1) c(1)] by auto
    with c(1) show ?thesis by (auto intro: converse_rtranclp_into_rtranclp)
  qed
qed

fun mutex_rank :: "rw_pc \<Rightarrow> nat" where
  "mutex_rank c = (if c \<in> {RR_retest, RL_retest, WR_retest, WL_retest} then 4 else if c \<in> {RR_stmt, RL_stmt, WR_stmt, WL_stmt} then 3
     else if c \<in> {WR_pid, WL_pid} then 2 else 1)"

lemma leave_mutex:
  assumes p: "p \<in> P"
  shows "in_mutex (pcs p) \<Longrightarrow> \<exists>l' c. (rw_step P)\<^sup>*\<^sup>* (l, pcs) (l', pcs(p := c)) \<and> \<not> in_mutex c"
proof (induction "mutex_rank (pcs p)" arbitrary: l pcs rule: less_induct)
  case less
  obtain c l1 where n: "rw_next p (pcs p) l = (c, l1)" by fastforce
  note st = rw_step.run [of p P pcs l, OF p n]
  show ?case
  proof (cases "in_mutex c")
    case True
    then have "mutex_rank c < mutex_rank (pcs p)"
      using n less.prems by (cases "pcs p") (auto simp: in_mutex_def split: if_splits)
    then obtain l' c' where "(rw_step P)\<^sup>*\<^sup>* (l1, pcs(p := c)) (l', (pcs(p := c))(p := c'))" "\<not> in_mutex c'"
      using less.hyps [of "pcs(p := c)" l1] True by auto
    with st show ?thesis by (auto intro: converse_rtranclp_into_rtranclp)
  qed (use st in blast)
qed

lemma reach_outside: "rw_reach P s \<Longrightarrow> p \<notin> P \<Longrightarrow> snd s p = Idle"
proof (induction rule: rw_reach.induct)
  case (step s s')
  from step.hyps(2) step.IH step.prems show ?case by (cases rule: rw_step.cases) auto
qed simp

definition busy :: "nat set \<Rightarrow> (nat \<Rightarrow> rw_pc) \<Rightarrow> nat set" where
  "busy P pcs = {p \<in> P. pcs p \<noteq> Idle}"

text \<open>When the mutex is free some process can be served, and then one process fewer is busy.\<close>

lemma free_served:
  assumes "\<forall>q \<in> P. \<not> in_mutex (pcs q)" and "busy P pcs \<noteq> {}"
  shows "\<exists>p \<in> busy P pcs. served P pcs p"
proof (cases "\<exists>p \<in> P. has_read (pcs p) \<or> has_write (pcs p)")
  case True
  then obtain p where "p \<in> P" "has_read (pcs p) \<or> has_write (pcs p)" by blast
  with assms(1) show ?thesis by (intro bexI [of _ p]) (auto simp: served_def busy_def rw_pcs)
next
  case False
  with assms show ?thesis unfolding served_def by (auto simp: busy_def)
qed

lemma comes_to_rest:
  assumes P: "procs_ok P"
  shows "rw_reach P (l, pcs) \<Longrightarrow> \<exists>l'. (rw_step P)\<^sup>*\<^sup>* (l, pcs) (l', \<lambda>_. Idle)"
proof (induction "card (busy P pcs)" arbitrary: l pcs rule: less_induct)
  case less
  have "\<exists>l1 pcs1. (rw_step P)\<^sup>*\<^sup>* (l, pcs) (l1, pcs1) \<and> (\<forall>q \<in> P. \<not> in_mutex (pcs1 q)) \<and> busy P pcs1 \<subseteq> busy P pcs"
  proof (cases "\<exists>p \<in> P. in_mutex (pcs p)")
    case True
    then obtain p where p: "p \<in> P" "in_mutex (pcs p)" by blast
    obtain l1 c where c: "(rw_step P)\<^sup>*\<^sup>* (l, pcs) (l1, pcs(p := c))" "\<not> in_mutex c" using leave_mutex [of p P pcs, OF p] by blast
    have "\<not> in_mutex (pcs q)" if "q \<in> P" "q \<noteq> p" for q using rw_invD(1) [OF rw_reach_inv [OF less.prems P]] p that by auto
    then have "\<forall>q \<in> P. \<not> in_mutex ((pcs(p := c)) q)" using c(2) by simp
    moreover have "busy P (pcs(p := c)) \<subseteq> busy P pcs" using p by (auto simp: busy_def in_mutex_def)
    ultimately show ?thesis using c(1) by blast
  qed blast
  then obtain l1 pcs1 where s1: "(rw_step P)\<^sup>*\<^sup>* (l, pcs) (l1, pcs1)" "\<forall>q \<in> P. \<not> in_mutex (pcs1 q)" "busy P pcs1 \<subseteq> busy P pcs" by blast
  note reach1 = reach_run_steps [OF s1(1) less.prems]
  have fin: "finite (busy P pcs)" using P by (simp add: busy_def procs_ok_def)
  show ?case
  proof (cases "busy P pcs1 = {}")
    case True
    then have "pcs1 = (\<lambda>_. Idle)" using reach_outside [OF reach1] by (auto simp: busy_def fun_eq_iff)
    with s1(1) show ?thesis by blast
  next
    case False
    then obtain p where p: "p \<in> busy P pcs1" "served P pcs1 p" using free_served [OF s1(2)] by blast
    then obtain l2 where s2: "(rw_step P)\<^sup>*\<^sup>* (l1, pcs1) (l2, pcs1(p := Idle))" using solo [OF P _ reach1 p(2)] by (auto simp: busy_def)
    have "busy P (pcs1(p := Idle)) \<subset> busy P pcs" using p(1) s1(3) by (auto simp: busy_def)
    then have "card (busy P (pcs1(p := Idle))) < card (busy P pcs)" by (rule psubset_card_mono [OF fin])
    then obtain l' where "(rw_step P)\<^sup>*\<^sup>* (l2, pcs1(p := Idle)) (l', \<lambda>_. Idle)"
      using less.hyps reach_run_steps [OF s2 reach1] by blast
    with s1(1) s2 show ?thesis by (meson rtranclp_trans)
  qed
qed

text \<open>
  C21: the lock does not deadlock.  From every state that the processes can reach, whoever waits, holds the lock or is giving it
  back, they can go on, each calling the release for what it holds, until every process has ended its operations and holds nothing,
  and the lock and the mutex are free again.
\<close>

theorem rwlock_no_deadlock:
  assumes P: "procs_ok P" and reach: "rw_reach P (l, pcs)"
  shows "\<exists>l'. (rw_step P)\<^sup>*\<^sup>* (l, pcs) (l', \<lambda>_. Idle) \<and> rw_lock l' = 0 \<and> rw_mutex l' = 0"
proof -
  obtain l' where l': "(rw_step P)\<^sup>*\<^sup>* (l, pcs) (l', \<lambda>_. Idle)" using comes_to_rest [OF P reach] by blast
  note inv = rw_reach_inv [OF reach_run_steps [OF l' reach] P]
  have "rw_lock l' = 0" using lock_value(2) [OF inv P] by (simp add: readers_def writers_def rw_pcs)
  moreover have "rw_mutex l' = 0" using rw_invD(1,2) [OF inv] by (auto simp: in_mutex_def)
  ultimately show ?thesis using l' by blast
qed

subsection \<open>Examples\<close>

definition sample_lock :: ngx_rwlock where
  "sample_lock = \<lparr>rw_lock = 0, rw_mutex = 0, rw_write_pid = 0\<rparr>"

lemma reach_run:
  assumes "rw_reach P (l, pcs)" and "p \<in> P" and "rw_next p (pcs p) l = (c, l')" and "pcs' = pcs(p := c)"
  shows "rw_reach P (l', pcs')"
  using rw_reach.step [OF assms(1) rw_step.run [of p P pcs l c l']] assms(2-4) by simp

lemma sample_write_reach:
  "rw_reach {1, 2} (sample_lock, (\<lambda>_. Idle)(2 := WR_test))"
  "rw_reach {1, 2} (sample_lock\<lparr>rw_lock := -1, rw_write_pid := 2\<rparr>, (\<lambda>_. Idle)(2 := Writing))"
proof -
  have i: "rw_reach {1, 2} (sample_lock, \<lambda>_. Idle)"
    using rw_reach.init [of "{1, 2}" sample_lock] by (simp add: ngx_rwlock_init_def sample_lock_def)
  show t: "rw_reach {1, 2} (sample_lock, (\<lambda>_. Idle)(2 := WR_test))"
    by (rule rw_reach.step [OF i]) (rule rw_step.reserve_write, simp_all)
  have 1: "rw_reach {1, 2} (sample_lock, (\<lambda>_. Idle)(2 := WR_lock))" by (rule reach_run [OF t, of 2]) (simp_all add: sample_lock_def)
  have 2: "rw_reach {1, 2} (sample_lock\<lparr>rw_mutex := 2\<rparr>, (\<lambda>_. Idle)(2 := WR_retest))"
    by (rule reach_run [OF 1, of 2]) (simp_all add: sample_lock_def take_mutex_def rwl_lock_mutex_def)
  have 3: "rw_reach {1, 2} (sample_lock\<lparr>rw_mutex := 2\<rparr>, (\<lambda>_. Idle)(2 := WR_stmt))"
    by (rule reach_run [OF 2, of 2]) (simp_all add: sample_lock_def)
  have 4: "rw_reach {1, 2} (sample_lock\<lparr>rw_mutex := 2, rw_lock := -1\<rparr>, (\<lambda>_. Idle)(2 := WR_pid))"
    by (rule reach_run [OF 3, of 2]) (simp_all add: sample_lock_def NGX_RWLOCK_WRITE_def)
  have 5: "rw_reach {1, 2} (sample_lock\<lparr>rw_mutex := 2, rw_lock := -1, rw_write_pid := 2\<rparr>, (\<lambda>_. Idle)(2 := WR_done))"
    by (rule reach_run [OF 4, of 2]) (simp_all add: sample_lock_def)
  show "rw_reach {1, 2} (sample_lock\<lparr>rw_lock := -1, rw_write_pid := 2\<rparr>, (\<lambda>_. Idle)(2 := Writing))"
    by (rule reach_run [OF 5, of 2]) (simp_all add: sample_lock_def rwl_unlock_mutex_def)
qed

lemma sample_procs: "procs_ok {1, 2}"
  by (simp add: procs_ok_def)

theorem rwlock_exclusion_witness:
  "((\<lambda>_. Idle)(2 := Writing)) (1 :: nat) \<noteq> Writing \<and> rw_lock (sample_lock\<lparr>rw_lock := -1, rw_write_pid := 2\<rparr>) = NGX_RWLOCK_WRITE"
  using rwlock_exclusion [OF sample_procs sample_write_reach(2), of 2 1] by simp

theorem rwlock_release_effective_witness:
  "\<exists>l pcs. rw_reach {1, 2} (l, pcs) \<and> pcs 2 = WL_test \<and> rw_next 2 (pcs 2) l = (WL_lock, l)"
proof -
  let ?l = "sample_lock\<lparr>rw_lock := -1, rw_write_pid := 2\<rparr>" and ?p = "(\<lambda>_. Idle)(2 := WL_test)"
  have "rw_reach {1, 2} (?l, ?p)"
    using rw_reach.step [OF sample_write_reach(2) rw_step.release_write [of 2 "{1, 2}" "(\<lambda>_. Idle)(2 := Writing)" ?l]] by simp
  from rwlock_release_effective [OF sample_procs this, of 2] this show ?thesis by (intro exI [of _ ?l] exI [of _ ?p]) simp
qed

theorem rwlock_no_deadlock_witness:
  "\<exists>l'. (rw_step {1, 2})\<^sup>*\<^sup>* (sample_lock\<lparr>rw_lock := -1, rw_write_pid := 2\<rparr>, (\<lambda>_. Idle)(2 := Writing)) (l', \<lambda>_. Idle) \<and> rw_lock l' = 0"
  using rwlock_no_deadlock [OF sample_procs sample_write_reach(2)] by blast

end
