(* ===== verification/Byte_Order.thy ===== *)
theory Byte_Order
  imports Nchan_Prelude
begin

text \<open>
  Integers as bytes: memory copies from and to integers on a little-endian host, and the conversions between host and
  network order (\<^verbatim>\<open>htons\<close>, \<^verbatim>\<open>htonl\<close> and the 64-bit ones of nchan\_util.c).
\<close>

unbundle bit_operations_syntax

definition byte_at :: "'a :: len word \<Rightarrow> nat \<Rightarrow> uint8" where
  "byte_at w i = ucast (drop_bit (8 * i) w)"

definition store_le :: "nat \<Rightarrow> 'a :: len word \<Rightarrow> uint8 list" where
  "store_le n w = map (byte_at w) [0..<n]"

fun load_le :: "uint8 list \<Rightarrow> 'a :: len word" where
  "load_le [] = 0"
| "load_le (b # bs) = ucast b OR push_bit 8 (load_le bs)"

definition htons :: "uint16 \<Rightarrow> uint16" where
  "htons w = push_bit 8 w OR drop_bit 8 w"

definition htonl :: "uint32 \<Rightarrow> uint32" where
  "htonl w = push_bit 24 w OR push_bit 8 (w AND 0xff00) OR (drop_bit 8 w AND 0xff00) OR drop_bit 24 w"

definition flip_uint64_if_little_endian :: "uint64 \<Rightarrow> uint64" where
  "flip_uint64_if_little_endian v =
     (let high_part = htonl (ucast (drop_bit 32 v));
          low_part = htonl (ucast (v AND 0xFFFFFFFF))
      in push_bit 32 (ucast low_part) OR ucast high_part)"

definition nchan_htonll :: "uint64 \<Rightarrow> uint64" where
  "nchan_htonll v = flip_uint64_if_little_endian v"

definition nchan_ntohll :: "uint64 \<Rightarrow> uint64" where
  "nchan_ntohll v = flip_uint64_if_little_endian v"

lemma length_store_le [simp]: "length (store_le n w) = n"
  by (simp add: store_le_def)

lemma bit_byte_at: "bit (byte_at w i) k \<longleftrightarrow> k < 8 \<and> bit w (8 * i + k)"
  by (auto simp: byte_at_def bit_simps)

lemma bit_load_le: "bit (load_le bs :: 'a :: len word) k \<longleftrightarrow> k < LENGTH('a) \<and> k div 8 < length bs \<and> bit (bs ! (k div 8)) (k mod 8)"
proof (induction bs arbitrary: k)
  case Nil
  then show ?case by simp
next
  case (Cons b bs)
  show ?case
  proof (cases "k < 8")
    case True
    then show ?thesis by (auto simp: bit_simps)
  next
    case False
    then have "k div 8 = Suc ((k - 8) div 8)" "(k - 8) mod 8 = k mod 8" by (simp_all add: le_div_geq le_mod_geq)
    moreover have "\<not> bit b k" using False by (auto dest: bit_imp_le_length)
    ultimately show ?thesis using False Cons.IH [of "k - 8"] by (auto simp: bit_simps)
  qed
qed

lemma load_store_le:
  assumes "LENGTH('a :: len) \<le> 8 * n"
  shows "load_le (store_le n (w :: 'a word)) = w"
proof (rule bit_word_eqI)
  fix k
  assume k: "k < LENGTH('a)"
  then have "k div 8 < n" using assms by simp
  then show "bit (load_le (store_le n w) :: 'a word) k = bit w k"
    using k by (simp add: bit_load_le store_le_def bit_byte_at)
qed

lemma bit_ff00: "bit (0xff00 :: 'a :: len word) n \<longleftrightarrow> n < LENGTH('a) \<and> 8 \<le> n \<and> n < 16"
proof -
  have eq: "(0xff00 :: 'a word) = push_bit 8 (mask 8)" by (simp add: mask_eq_exp_minus_1 push_bit_eq_mult)
  show ?thesis unfolding eq by (auto simp: bit_push_bit_iff bit_mask_iff)
qed

lemma byte_of_bit: "8 * q \<le> n \<Longrightarrow> n < 8 * q + 8 \<Longrightarrow> n div 8 = q \<and> n mod 8 = n - 8 * (q :: nat)"
proof -
  assume "8 * q \<le> n" and "n < 8 * q + 8"
  then have "n div 8 = q" by (intro div_nat_eqI) simp_all
  then show ?thesis using minus_mult_div_eq_mod [of n 8] by simp
qed

lemma bit_htonl: "bit (htonl w) n \<longleftrightarrow> n < 32 \<and> bit w (8 * (3 - n div 8) + n mod 8)"
proof -
  have u: "bit (htonl w) n \<longleftrightarrow> n < 32 \<and> (24 \<le> n \<and> bit w (n - 24) \<or> 16 \<le> n \<and> n < 24 \<and> bit w (n - 8)
      \<or> 8 \<le> n \<and> n < 16 \<and> bit w (8 + n) \<or> bit w (24 + n))"
    unfolding htonl_def bit_or_iff bit_and_iff bit_push_bit_iff bit_drop_bit_eq bit_ff00 comp_def
    by (auto dest: bit_imp_le_length)
  consider "n < 8" | "8 \<le> n" "n < 16" | "16 \<le> n" "n < 24" | "24 \<le> n" "n < 32" | "32 \<le> n" by linarith
  then show ?thesis
  proof cases
    case 1
    then have "8 * (3 - n div 8) + n mod 8 = 24 + n" using byte_of_bit [of 0 n] by simp
    then show ?thesis unfolding u using 1 by (auto dest: bit_imp_le_length)
  next
    case 2
    then have "8 * (3 - n div 8) + n mod 8 = 8 + n" using byte_of_bit [of 1 n] by simp
    then show ?thesis unfolding u using 2 by (auto dest: bit_imp_le_length)
  next
    case 3
    then have "8 * (3 - n div 8) + n mod 8 = n - 8" using byte_of_bit [of 2 n] by simp
    then show ?thesis unfolding u using 3 by (auto dest: bit_imp_le_length)
  next
    case 4
    then have "8 * (3 - n div 8) + n mod 8 = n - 24" using byte_of_bit [of 3 n] by simp
    then show ?thesis unfolding u using 4 by (auto dest: bit_imp_le_length)
  next
    case 5
    then show ?thesis unfolding u by auto
  qed
qed

lemma bit_flip: "bit (flip_uint64_if_little_endian v) n \<longleftrightarrow> n < 64 \<and> bit v (8 * (7 - n div 8) + n mod 8)"
proof -
  have u: "bit (flip_uint64_if_little_endian v) n \<longleftrightarrow> n < 64 \<and>
      (if n < 32 then bit v (32 + (8 * (3 - n div 8) + n mod 8)) else bit v (8 * (3 - (n - 32) div 8) + (n - 32) mod 8))"
  proof -
    have m: "bit (v AND 0xFFFFFFFF) k \<longleftrightarrow> k < 32 \<and> bit v k" for k
    proof -
      have eq: "(0xFFFFFFFF :: uint64) = mask 32" by (simp add: mask_eq_exp_minus_1)
      show ?thesis unfolding eq by (auto simp: bit_and_iff bit_mask_iff dest: bit_imp_le_length)
    qed
    have lt: "8 * (3 - k div 8) + k mod 8 < 32" if "k < 32" for k :: nat using that by (simp add: less_eq_div_iff_mult_less_eq)
    show ?thesis
      unfolding flip_uint64_if_little_endian_def Let_def bit_or_iff bit_push_bit_iff bit_unsigned_iff bit_htonl m bit_drop_bit_eq comp_def
      using lt [of n] lt [of "n - 32"] by auto
  qed
  show ?thesis
  proof (cases "n < 32")
    case True
    then have e: "32 + (8 * (3 - n div 8) + n mod 8) = 8 * (7 - n div 8) + n mod 8" by simp
    show ?thesis unfolding u e using True by simp
  next
    case False
    define m where "m = n - 32"
    have n: "n = 8 * 4 + m" using False by (simp add: m_def)
    have "n div 8 = 4 + m div 8" "n mod 8 = m mod 8" unfolding n by (simp_all only: div_mult_self4 mod_mult_self4)
    then have e: "8 * (3 - (n - 32) div 8) + (n - 32) mod 8 = 8 * (7 - n div 8) + n mod 8" by (simp add: m_def [symmetric])
    show ?thesis unfolding u e using False by simp
  qed
qed

lemma nchan_ntohll_htonll: "nchan_ntohll (nchan_htonll v) = v"
proof (rule bit_word_eqI)
  fix n
  assume n: "n < LENGTH(64)"
  let ?k = "8 * (7 - n div 8) + n mod 8"
  have "n div 8 \<le> 7" using n by simp
  then have "?k < 64" "?k div 8 = 7 - n div 8" "?k mod 8 = n mod 8" by (simp_all add: div_mult_self4)
  moreover have "8 * (n div 8) + n mod 8 = n" by simp
  ultimately have "?k < 64" "8 * (7 - ?k div 8) + ?k mod 8 = n" using n by auto
  then show "bit (nchan_ntohll (nchan_htonll v)) n = bit v n"
    using n by (simp add: nchan_ntohll_def nchan_htonll_def bit_flip)
qed

lemma htons_htons: "htons (htons w) = w"
  by (rule bit_word_eqI) (auto simp: htons_def bit_simps dest: bit_imp_le_length)

text \<open>In network order the most significant byte comes first.\<close>

lemma store_htonll: "store_le 8 (nchan_htonll v) = rev (store_le 8 v)"
proof (rule nth_equalityI)
  fix i
  assume "i < length (store_le 8 (nchan_htonll v))"
  then have i: "i < 8" by simp
  have "byte_at (nchan_htonll v) i = byte_at v (7 - i)"
    by (rule bit_word_eqI) (use i in \<open>auto simp: bit_byte_at nchan_htonll_def bit_flip\<close>)
  then show "store_le 8 (nchan_htonll v) ! i = rev (store_le 8 v) ! i"
    using i by (simp add: store_le_def rev_nth)
qed simp

lemma store_htons: "store_le 2 (htons w) = rev (store_le 2 w)"
proof -
  have "byte_at (htons w) 0 = byte_at w 1" "byte_at (htons w) 1 = byte_at w 0"
    by (rule bit_word_eqI, auto simp: bit_byte_at htons_def bit_simps dest: bit_imp_le_length)+
  then show ?thesis by (simp add: store_le_def numeral_2_eq_2)
qed

end
