(* ===== verification/Websocket.thy ===== *)
theory Websocket
  imports Byte_Order
begin

text \<open>
  websocket.c: unmasking, reading and writing WebSocket frames.

  The bytes that the connection has to offer are a list; when they run out \<^verbatim>\<open>recv\<close> returns \<open>idle\<close>.  A buffer is its bytes
  and the number of them that were filled.  What a location is configured to do, what the subscriber's environment
  provides (nginx's UTF-8 decoder, zlib, memory) is a record of parameters.  The frames that are sent, the messages that
  are published and the end of the request are recorded in order.
\<close>

unbundle bit_operations_syntax

definition WEBSOCKET_OPCODE_TEXT :: uint8 where "WEBSOCKET_OPCODE_TEXT = 0x1"
definition WEBSOCKET_OPCODE_BINARY :: uint8 where "WEBSOCKET_OPCODE_BINARY = 0x2"
definition WEBSOCKET_OPCODE_CLOSE :: uint8 where "WEBSOCKET_OPCODE_CLOSE = 0x8"
definition WEBSOCKET_OPCODE_PING :: uint8 where "WEBSOCKET_OPCODE_PING = 0x9"
definition WEBSOCKET_OPCODE_PONG :: uint8 where "WEBSOCKET_OPCODE_PONG = 0xA"

definition WEBSOCKET_TEXT_LAST_FRAME_BYTE :: uint8 where "WEBSOCKET_TEXT_LAST_FRAME_BYTE = WEBSOCKET_OPCODE_TEXT OR push_bit 4 0x8"
definition WEBSOCKET_CLOSE_LAST_FRAME_BYTE :: uint8 where "WEBSOCKET_CLOSE_LAST_FRAME_BYTE = WEBSOCKET_OPCODE_CLOSE OR push_bit 4 0x8"
definition WEBSOCKET_PONG_LAST_FRAME_BYTE :: uint8 where "WEBSOCKET_PONG_LAST_FRAME_BYTE = WEBSOCKET_OPCODE_PONG OR push_bit 4 0x8"

definition WEBSOCKET_PAYLOAD_LEN_16_BYTE :: uint8 where "WEBSOCKET_PAYLOAD_LEN_16_BYTE = 126"
definition WEBSOCKET_PAYLOAD_LEN_64_BYTE :: uint8 where "WEBSOCKET_PAYLOAD_LEN_64_BYTE = 127"

definition WEBSOCKET_CLOSING_TIMEOUT :: nat where "WEBSOCKET_CLOSING_TIMEOUT = 250"

definition CLOSE_NORMAL :: uint16 where "CLOSE_NORMAL = 1000"
definition CLOSE_INVALID_PAYLOAD :: uint16 where "CLOSE_INVALID_PAYLOAD = 1007"
definition CLOSE_POLICY_VIOLATION :: uint16 where "CLOSE_POLICY_VIOLATION = 1008"
definition CLOSE_MESSAGE_TOO_BIG :: uint16 where "CLOSE_MESSAGE_TOO_BIG = 1009"
definition CLOSE_INTERNAL_SERVER_ERROR :: uint16 where "CLOSE_INTERNAL_SERVER_ERROR = 1011"

subsection \<open>Unmasking\<close>

text \<open>\<^verbatim>\<open>for(i = lo; i < hi; i++) payload[i] ^= mask_key[i % 4]\<close>\<close>

definition xor_range :: "uint8 list \<Rightarrow> nat \<Rightarrow> nat \<Rightarrow> uint8 list \<Rightarrow> uint8 list" where
  "xor_range key lo hi p = fold (\<lambda>i p. p[i := p ! i XOR key ! (i mod 4)]) [lo..<hi] p"

text \<open>The version without vector instructions.\<close>

definition websocket_unmask_frame :: "uint8 list \<Rightarrow> uint8 list \<Rightarrow> uint8 list" where
  "websocket_unmask_frame key payload = xor_range key 0 (length payload) payload"

text \<open>
  The version with vectors of \<open>vs\<close> bytes; \<open>addr\<close> is the address of the payload, \<open>mask_addr\<close> that of the array on the stack in which
  the mask is repeated to the size of a vector.  The aligned load and store instructions fault at an address that is not a
  multiple of \<open>vs\<close>.
\<close>

definition xor_vector :: "nat \<Rightarrow> nat \<Rightarrow> uint8 list \<Rightarrow> nat \<Rightarrow> uint8 list \<Rightarrow> uint8 list option" where
  "xor_vector vs addr w_mask i p =
     (if (addr + i) mod vs = 0 \<and> i + vs \<le> length p
      then Some (take i p @ map2 (XOR) (take vs (drop i p)) w_mask @ drop (i + vs) p)
      else None)"

function xor_vectors :: "nat \<Rightarrow> nat \<Rightarrow> uint8 list \<Rightarrow> nat \<Rightarrow> nat \<Rightarrow> uint8 list \<Rightarrow> uint8 list option" where
  "xor_vectors vs addr w_mask i hi p =
     (if i < hi \<and> 0 < vs
      then xor_vector vs addr w_mask i p \<bind> xor_vectors vs addr w_mask (i + vs) hi
      else Some p)"
  by pat_completeness auto

termination
  by (relation "measure (\<lambda>(vs, addr, w_mask, i, hi, p). hi - i)") auto

declare xor_vectors.simps [simp del]

definition load_mask :: "nat \<Rightarrow> nat \<Rightarrow> uint8 list \<Rightarrow> uint8 list option" where
  "load_mask vs mask_addr extended_mask = (if mask_addr mod vs = 0 then Some extended_mask else None)"

definition websocket_unmask_frame_vector :: "nat \<Rightarrow> nat \<Rightarrow> nat \<Rightarrow> uint8 list \<Rightarrow> uint8 list \<Rightarrow> uint8 list option" where
  "websocket_unmask_frame_vector vs addr mask_addr key payload =
     (let payload_len = length payload;
          preamble_len = (if payload_len \<le> vs then payload_len else addr mod vs);
          i = min preamble_len payload_len;
          payload = xor_range key 0 i payload
      in if payload_len < vs then Some payload
         else do {
           let fastlen = (if (addr + i) mod vs \<noteq> 0 then 0 else (payload_len - i) div vs * vs);
           let extended_mask = concat (replicate (vs div 4) key);
           payload \<leftarrow> (if fastlen > 0 then do {
                         w_mask \<leftarrow> load_mask vs mask_addr extended_mask;
                         xor_vectors vs addr w_mask i (fastlen + preamble_len) payload
                       }
                       else Some payload);
           let i = (if fastlen > 0 then i + fastlen else i);
           Some (xor_range key i payload_len payload)
         })"

lemma length_xor_range [simp]: "length (xor_range key lo hi p) = length p"
proof (cases "lo \<le> hi")
  case True
  then show ?thesis
    by (induction hi rule: dec_induct) (simp_all add: xor_range_def)
next
  case False
  then show ?thesis by (simp add: xor_range_def)
qed

lemma nth_xor_range:
  "hi \<le> length p \<Longrightarrow> k < length p \<Longrightarrow>
     xor_range key lo hi p ! k = (if lo \<le> k \<and> k < hi then p ! k XOR key ! (k mod 4) else p ! k)"
proof (cases "lo \<le> hi")
  case True
  then show "hi \<le> length p \<Longrightarrow> k < length p \<Longrightarrow>
     xor_range key lo hi p ! k = (if lo \<le> k \<and> k < hi then p ! k XOR key ! (k mod 4) else p ! k)"
  proof (induction hi rule: dec_induct)
    case base
    then show ?case by (auto simp: xor_range_def)
  next
    case (step n)
    have "xor_range key lo (Suc n) p = (xor_range key lo n p)[n := xor_range key lo n p ! n XOR key ! (n mod 4)]"
      using step.hyps by (simp add: xor_range_def)
    with step show ?case by (cases "k = n") (auto simp: nth_list_update)
  qed
next
  case False
  then show "xor_range key lo hi p ! k = (if lo \<le> k \<and> k < hi then p ! k XOR key ! (k mod 4) else p ! k)"
    by (auto simp: xor_range_def)
qed

lemma nth_repeat: "length key = 4 \<Longrightarrow> j < 4 * n \<Longrightarrow> concat (replicate n key) ! j = key ! (j mod 4)"
proof (induction n arbitrary: j)
  case (Suc n)
  then show ?case by (auto simp: nth_append le_mod_geq)
qed simp

lemma length_repeat: "length key = 4 \<Longrightarrow> length (concat (replicate n key)) = 4 * n"
  by (induction n) simp_all

text \<open>A vector at a position that is a multiple of 4 is unmasked like its bytes one by one.\<close>

lemma xor_vector_range:
  assumes "length key = 4" and "4 dvd vs" and "4 dvd i" and "i + vs \<le> length p" and "(addr + i) mod vs = 0"
  shows "xor_vector vs addr (concat (replicate (vs div 4) key)) i p = Some (xor_range key i (i + vs) p)"
proof -
  let ?m = "concat (replicate (vs div 4) key)"
  have len: "length ?m = vs" using assms by (simp add: length_repeat)
  have "take i p @ map2 (XOR) (take vs (drop i p)) ?m @ drop (i + vs) p = xor_range key i (i + vs) p"
  proof (rule nth_equalityI)
    show "length (take i p @ map2 (XOR) (take vs (drop i p)) ?m @ drop (i + vs) p) = length (xor_range key i (i + vs) p)"
      using assms len by simp
    fix k
    assume "k < length (take i p @ map2 (XOR) (take vs (drop i p)) ?m @ drop (i + vs) p)"
    then have k: "k < length p" using assms len by simp
    have "(k - i) mod 4 = k mod 4" if "i \<le> k" using assms(3) that by (auto elim!: dvdE simp: le_iff_add)
    then have "?m ! (k - i) = key ! (k mod 4)" if "i \<le> k" "k < i + vs"
      using that assms by (subst nth_repeat) auto
    then show "(take i p @ map2 (XOR) (take vs (drop i p)) ?m @ drop (i + vs) p) ! k = xor_range key i (i + vs) p ! k"
      using assms k len by (auto simp: nth_append nth_xor_range)
  qed
  then show ?thesis using assms by (simp add: xor_vector_def)
qed

lemma xor_range_trans: "lo \<le> mid \<Longrightarrow> mid \<le> hi \<Longrightarrow> xor_range key mid hi (xor_range key lo mid p) = xor_range key lo hi p"
  using upt_add_eq_append [of lo mid "hi - mid"] by (simp add: xor_range_def)

lemma xor_vectors_range:
  assumes "length key = 4" and "4 dvd vs" and "0 < vs" and "4 dvd i" and "(addr + i) mod vs = 0" and "i + n * vs \<le> length p"
  shows "xor_vectors vs addr (concat (replicate (vs div 4) key)) i (i + n * vs) p = Some (xor_range key i (i + n * vs) p)"
  using assms(4-6)
proof (induction n arbitrary: i p)
  case 0
  then show ?case by (simp add: xor_vectors.simps xor_range_def)
next
  case (Suc n)
  have "(addr + (i + vs)) mod vs = 0" using Suc.prems(2) by (simp add: add.assoc [symmetric])
  then have "xor_vectors vs addr (concat (replicate (vs div 4) key)) (i + vs) (i + vs + n * vs) (xor_range key i (i + vs) p)
      = Some (xor_range key (i + vs) (i + vs + n * vs) (xor_range key i (i + vs) p))"
    using Suc.prems assms(2) by (intro Suc.IH) auto
  then show ?case using Suc.prems assms(1-3)
    by (subst xor_vectors.simps) (simp add: xor_vector_range xor_range_trans add.assoc)
qed

text \<open>Where the first vector is aligned it is at an offset that is a multiple of 4.\<close>

lemma aligned_preamble:
  assumes "8 dvd vs" and "0 < (vs :: nat)" and "(addr + addr mod vs) mod vs = 0"
  shows "4 dvd addr mod vs"
proof -
  let ?m = "addr mod vs"
  have "(?m + ?m) mod vs = 0" using assms(3) by (simp add: mod_simps)
  then obtain q where q: "2 * ?m = vs * q" by (metis dvdE mod_0_imp_dvd mult_2)
  obtain w where "vs = 8 * w" using assms(1) by (rule dvdE)
  with q have "?m = 4 * (w * q)" by simp
  then show ?thesis by simp
qed

text \<open>Vectors are used where the address after the preamble is aligned and there is a whole vector behind it.\<close>

definition uses_vectors :: "nat \<Rightarrow> nat \<Rightarrow> nat \<Rightarrow> bool" where
  "uses_vectors vs addr n \<longleftrightarrow> vs < n \<and> (addr + addr mod vs) mod vs = 0 \<and> addr mod vs + vs \<le> n"

lemma unmask_vector:
  assumes key: "length key = 4" and vs: "8 dvd vs" "0 < vs"
  shows "websocket_unmask_frame_vector vs addr mask_addr key payload =
    (if uses_vectors vs addr (length payload) \<and> mask_addr mod vs \<noteq> 0 then None else Some (websocket_unmask_frame key payload))"
proof (cases "length payload \<le> vs")
  case True
  then show ?thesis
    by (auto simp: websocket_unmask_frame_vector_def websocket_unmask_frame_def Let_def xor_range_trans uses_vectors_def)
next
  case False
  let ?n = "length payload"
  let ?m = "addr mod vs"
  let ?q = "(?n - ?m) div vs"
  let ?x = "xor_range key 0 ?m payload"
  have m: "?m < ?n" "min ?m ?n = ?m" using False vs mod_less_divisor [of vs addr] by linarith+
  have 4: "4 dvd vs" by (rule dvd_trans [OF _ vs(1)]) simp
  have fit: "?m + ?q * vs \<le> ?n" using m(1) div_times_less_eq_dividend [of "?n - ?m" vs] by linarith
  have used: "uses_vectors vs addr ?n \<longleftrightarrow> (addr + ?m) mod vs = 0 \<and> 0 < ?q * vs"
    using False m(1) vs(2) by (auto simp: uses_vectors_def div_greater_zero_iff le_diff_conv2 add.commute)
  have fast: "xor_vectors vs addr (concat (replicate (vs div 4) key)) ?m (?m + ?q * vs) ?x = Some (xor_range key ?m (?m + ?q * vs) ?x)"
    if "(addr + ?m) mod vs = 0"
    using key 4 vs that fit by (intro xor_vectors_range aligned_preamble) auto
  show ?thesis
  proof (cases "uses_vectors vs addr ?n")
    case True
    then have "(addr + ?m) mod vs = 0" "0 < ?q * vs" using used by auto
    then show ?thesis using False m fit fast True
      by (simp add: websocket_unmask_frame_vector_def websocket_unmask_frame_def Let_def xor_range_trans load_mask_def add.commute)
  next
    case no: False
    have "websocket_unmask_frame_vector vs addr mask_addr key payload = Some (xor_range key ?m ?n ?x)"
      using False m no used by (auto simp: websocket_unmask_frame_vector_def Let_def)
    then show ?thesis using no m by (simp add: websocket_unmask_frame_def xor_range_trans)
  qed
qed

text \<open>Masking as RFC 6455 defines it: octet \<open>i\<close> of the result is octet \<open>i\<close> of the data combined with octet \<open>i mod 4\<close> of the key.\<close>

definition masked_octets :: "uint8 list \<Rightarrow> uint8 list \<Rightarrow> uint8 list" where
  "masked_octets key p = map (\<lambda>i. p ! i XOR key ! (i mod 4)) [0..<length p]"

lemma unmask_octets: "websocket_unmask_frame key p = masked_octets key p"
  by (rule nth_equalityI) (simp_all add: websocket_unmask_frame_def masked_octets_def nth_xor_range)

subsection \<open>Writing frames\<close>

definition websocket_frame_header :: "uint8 \<Rightarrow> nat \<Rightarrow> uint8 list" where
  "websocket_frame_header opcode len =
     opcode #
     (if len \<le> 125 then [of_nat len]
      else if len < 2 ^ 16 then WEBSOCKET_PAYLOAD_LEN_16_BYTE # store_le 2 (htons (of_nat len))
      else WEBSOCKET_PAYLOAD_LEN_64_BYTE # store_le 8 (nchan_htonll (of_nat len)))"

text \<open>The chain that is sent, as its bytes: the message is left out where the length is 0.\<close>

definition websocket_frame_header_chain :: "uint8 \<Rightarrow> nat \<Rightarrow> uint8 list option \<Rightarrow> uint8 list option" where
  "websocket_frame_header_chain opcode len msg_chain =
     (if len = 0 then Some (websocket_frame_header opcode len)
      else case msg_chain of None \<Rightarrow> None | Some msg \<Rightarrow> Some (websocket_frame_header opcode len @ msg))"

definition websocket_close_frame_chain :: "uint16 \<Rightarrow> uint8 list option \<Rightarrow> uint8 list option" where
  "websocket_close_frame_chain code err =
     (let err = (case err of None \<Rightarrow> [] | Some e \<Rightarrow> e)
      in if code = 0 then websocket_frame_header_chain WEBSOCKET_CLOSE_LAST_FRAME_BYTE 0 None
         else
           let code = (if code < 1000 \<or> code = 1005 \<or> code = 1006 \<or> 5000 \<le> code then CLOSE_NORMAL else code);
               code_net = store_le 2 (htons code);
               err = (if 123 < length err then take 123 err else err)
           in websocket_frame_header_chain WEBSOCKET_CLOSE_LAST_FRAME_BYTE (length err + 2) (Some (code_net @ err)))"

subsection \<open>The subscriber\<close>

record ws_frame =
  fr_fin :: bool
  fr_rsv1 :: bool
  fr_rsv2 :: bool
  fr_rsv3 :: bool
  fr_opcode :: uint8
  fr_mask :: bool
  fr_mask_key :: "uint8 list"
  fr_payload_len :: uint64
  fr_header :: "uint8 list"
  fr_payload :: "uint8 list option"
  fr_last :: "nat option"
  fr_step :: nat

definition websocket_init_frame :: ws_frame where
  "websocket_init_frame = \<lparr>fr_fin = False, fr_rsv1 = False, fr_rsv2 = False, fr_rsv3 = False, fr_opcode = 0, fr_mask = False,
     fr_mask_key = replicate 4 0, fr_payload_len = 0, fr_header = replicate 8 0, fr_payload = None, fr_last = None, fr_step = 0\<rparr>"

text \<open>What the reading of a connection does to the rest of the server.\<close>

datatype ws_event =
    Ws_output "uint8 list"
  | Ws_publish "uint8 list" bool
  | Ws_closing_timer nat
  | Ws_finalize

record ws_subscriber =
  ws_frame_of :: ws_frame
  ws_awaiting_pong :: bool
  ws_sent_close_frame :: bool
  ws_received_close_frame :: bool
  ws_msg_pool :: bool
  ws_zstream_in :: "uint8 list list option"
  ws_events :: "ws_event list"

text \<open>
  The configuration of the location (publishing is allowed, compression was negotiated, the heartbeat strings), and the
  code that is not part of the program: zlib's inflate, whose stream knows what it was given for earlier messages, with the
  loop around it (\<^verbatim>\<open>nchan_inflate\<close>), nginx's \<^verbatim>\<open>ngx_utf8_decode\<close> (the value and the number of bytes it used)
  and nginx's pools.  A connection is closed where one of the flags that the loop tests first is set;
  \<open>wc_read_event\<close> tells that the read event is ready or was restored.
\<close>

record ws_env =
  wc_pub_websocket :: bool
  wc_deflate :: bool
  wc_inflate_init :: bool
  wc_nchan_inflate :: "uint8 list list \<Rightarrow> uint8 list \<Rightarrow> uint8 list option"
  wc_utf8_decode :: "uint8 list \<Rightarrow> nat \<times> nat"
  wc_heartbeat :: "(uint8 list \<times> uint8 list) option"
  wc_create_pool :: bool
  wc_palloc :: "nat \<Rightarrow> bool"
  wc_palloc_msgbuf :: bool
  wc_palloc_publish :: bool
  wc_closed :: bool
  wc_read_event :: bool

definition emit :: "ws_event list \<Rightarrow> ws_subscriber \<Rightarrow> ws_subscriber" where
  "emit es fsub = fsub\<lparr>ws_events := ws_events fsub @ es\<rparr>"

definition ws_get_msgpool :: "ws_env \<Rightarrow> ws_subscriber \<Rightarrow> ws_subscriber" where
  "ws_get_msgpool env fsub = (if \<not> ws_msg_pool fsub then fsub\<lparr>ws_msg_pool := wc_create_pool env\<rparr> else fsub)"

definition ws_destroy_msgpool :: "ws_subscriber \<Rightarrow> ws_subscriber" where
  "ws_destroy_msgpool fsub = fsub\<lparr>ws_msg_pool := False\<rparr>"

definition websocket_send_frame :: "uint8 \<Rightarrow> nat \<Rightarrow> uint8 list option \<Rightarrow> ws_subscriber \<Rightarrow> ws_subscriber option" where
  "websocket_send_frame opcode len msg_chain fsub = do {
     out \<leftarrow> websocket_frame_header_chain opcode len msg_chain;
     Some (emit [Ws_output out] fsub)
   }"

definition websocket_send_close_frame :: "uint16 \<Rightarrow> uint8 list option \<Rightarrow> ws_subscriber \<Rightarrow> ws_subscriber option" where
  "websocket_send_close_frame code err fsub =
     (if ws_sent_close_frame fsub then Some (emit [Ws_finalize] fsub)
      else do {
        out \<leftarrow> websocket_close_frame_chain code err;
        let fsub = (emit [Ws_output out] fsub)\<lparr>ws_sent_close_frame := True\<rparr>;
        Some (emit [Ws_closing_timer (if ws_received_close_frame fsub then 0 else WEBSOCKET_CLOSING_TIMEOUT)] fsub)
      })"

text \<open>
  \<^verbatim>\<open>ngx_string(err)\<close> is \<^verbatim>\<open>{ sizeof(err) - 1, err }\<close>; \<^verbatim>\<open>err\<close> is a parameter of type \<^verbatim>\<open>const char *\<close>, of 8 bytes.
\<close>

definition websocket_send_close_frame_cstr :: "uint16 \<Rightarrow> string \<Rightarrow> ws_subscriber \<Rightarrow> ws_subscriber option" where
  "websocket_send_close_frame_cstr code err fsub =
     (let errstr = take (8 - 1) (map of_char (err @ [CHR 0x00])) in websocket_send_close_frame code (Some errstr) fsub)"

definition websocket_heartbeat :: "ws_env \<Rightarrow> uint8 list \<Rightarrow> ws_subscriber \<Rightarrow> (ngx_rc \<times> ws_subscriber) option" where
  "websocket_heartbeat env buf fsub =
     (case wc_heartbeat env of
        None \<Rightarrow> Some (NGX_DECLINED, fsub)
      | Some (hb_in, hb_out) \<Rightarrow>
          if hb_in = buf
          then map_option (Pair NGX_OK) (websocket_send_frame WEBSOCKET_TEXT_LAST_FRAME_BYTE (length hb_out) (Some hb_out) fsub)
          else Some (NGX_DECLINED, fsub))"

text \<open>\<^verbatim>\<open>websocket_publish\<close> up to the hand-over of the message and of its pool.\<close>

definition websocket_publish :: "ws_env \<Rightarrow> uint8 list \<Rightarrow> bool \<Rightarrow> ws_subscriber \<Rightarrow> ws_subscriber" where
  "websocket_publish env buf binary fsub =
     (let fsub = ws_get_msgpool env fsub
      in if \<not> wc_palloc_publish env then fsub
         else emit [Ws_publish buf binary] (fsub\<lparr>ws_msg_pool := False\<rparr>))"

text \<open>The stream for inflating is made when it is first used, and kept for the next messages.\<close>

definition websocket_inflate_message :: "ws_env \<Rightarrow> ws_subscriber \<Rightarrow> uint8 list \<Rightarrow> uint8 list option \<times> ws_subscriber" where
  "websocket_inflate_message env fsub msgbuf =
     (if ws_zstream_in fsub = None \<and> \<not> wc_inflate_init env then (None, fsub)
      else
        let before = (case ws_zstream_in fsub of None \<Rightarrow> [] | Some z \<Rightarrow> z)
        in (wc_nchan_inflate env before msgbuf, fsub\<lparr>ws_zstream_in := Some (before @ [msgbuf])\<rparr>))"

partial_function (option) is_utf8 :: "(uint8 list \<Rightarrow> nat \<times> nat) \<Rightarrow> uint8 list \<Rightarrow> bool option" where
  "is_utf8 ngx_utf8_decode buf =
     (case buf of
        [] \<Rightarrow> Some True
      | c # rest \<Rightarrow>
          if c < 0x80 then is_utf8 ngx_utf8_decode rest
          else
            let (u, n) = ngx_utf8_decode buf
            in if 0x10ffff < u then Some False else is_utf8 ngx_utf8_decode (drop n buf))"

subsection \<open>Reading frames\<close>

text \<open>
  The buffer is its bytes and the number \<open>k\<close> of them that are filled; \<open>avail\<close> is what the connection has to offer, and \<open>idle\<close>
  what \<^verbatim>\<open>ws_recv\<close> makes of a connection that has nothing: \<^verbatim>\<open>NGX_AGAIN\<close>, \<^verbatim>\<open>NGX_ERROR\<close> or \<^verbatim>\<open>NGX_DONE\<close>.
\<close>

definition ws_recv :: "ngx_rc \<Rightarrow> uint8 list \<Rightarrow> uint8 list \<Rightarrow> nat \<Rightarrow> nat \<Rightarrow> ngx_rc \<times> uint8 list \<times> nat \<times> uint8 list" where
  "ws_recv idle avail buf k len =
     (if avail = [] then (idle, buf, k, avail)
      else
        let n = min (len - k) (length avail)
        in if n = 0 then (NGX_DONE, buf, k, avail)
           else
             let buf = take k buf @ take n avail @ drop (k + n) buf;
                 avail = drop n avail;
                 k = k + n
             in if k < len then (NGX_AGAIN, buf, k, avail) else (NGX_OK, buf, k, avail))"

text \<open>Where an iteration of the loop goes to: the next iteration, \<^verbatim>\<open>retry\<close>, \<^verbatim>\<open>exit\<close>, or the end of the request.\<close>

datatype ws_jump =
    Ws_next ws_subscriber "uint8 list"
  | Ws_retry ws_subscriber "uint8 list"
  | Ws_exit ngx_rc ws_subscriber nat "uint8 list"
  | Ws_return ws_subscriber

definition websocket_reading_finalize :: "ws_subscriber \<Rightarrow> ws_subscriber" where
  "websocket_reading_finalize fsub = emit [Ws_finalize] fsub"

abbreviation with_frame :: "ws_subscriber \<Rightarrow> ws_frame \<Rightarrow> ws_subscriber" where
  "with_frame fsub fr \<equiv> fsub\<lparr>ws_frame_of := fr\<rparr>"

text \<open>\<^verbatim>\<open>set_buffer\<close>: how much of the buffer is filled.\<close>

definition from_last :: "nat option \<Rightarrow> nat" where
  "from_last l = (case l of None \<Rightarrow> 0 | Some k \<Rightarrow> k)"

definition read_start :: "ngx_rc \<Rightarrow> ws_subscriber \<Rightarrow> nat \<Rightarrow> uint8 list \<Rightarrow> ws_jump" where
  "read_start idle fsub k avail =
     (let frame = ws_frame_of fsub;
          (rc, header, k, avail) = ws_recv idle avail (fr_header frame) k 2;
          frame = frame\<lparr>fr_header := header\<rparr>
      in if rc \<noteq> NGX_OK then Ws_exit rc (with_frame fsub frame) k avail
         else Ws_next (with_frame fsub (frame\<lparr>
                fr_fin := (drop_bit 7 (header ! 0) AND 1 = 1),
                fr_rsv1 := (drop_bit 6 (header ! 0) AND 1 = 1),
                fr_rsv2 := (drop_bit 5 (header ! 0) AND 1 = 1),
                fr_rsv3 := (drop_bit 4 (header ! 0) AND 1 = 1),
                fr_opcode := header ! 0 AND 0xf,
                fr_mask := (drop_bit 7 (header ! 1) AND 1 = 1),
                fr_payload_len := ucast (header ! 1 AND 0x7f),
                fr_step := 1\<rparr>)) avail)"

definition read_real_size :: "ngx_rc \<Rightarrow> ws_subscriber \<Rightarrow> nat \<Rightarrow> uint8 list \<Rightarrow> ws_jump" where
  "read_real_size idle fsub k avail =
     (let frame = ws_frame_of fsub
      in if fr_payload_len frame = 126 then
           let (rc, header, k, avail) = ws_recv idle avail (fr_header frame) k 2;
               frame = frame\<lparr>fr_header := header\<rparr>
           in if rc \<noteq> NGX_OK then Ws_exit rc (with_frame fsub frame) k avail
              else Ws_next (with_frame fsub (frame\<lparr>fr_payload_len := ucast (htons (load_le (take 2 header))), fr_step := 2\<rparr>)) avail
         else if fr_payload_len frame = 127 then
           let (rc, header, k, avail) = ws_recv idle avail (fr_header frame) k 8;
               frame = frame\<lparr>fr_header := header\<rparr>
           in if rc \<noteq> NGX_OK then Ws_exit rc (with_frame fsub frame) k avail
              else Ws_next (with_frame fsub (frame\<lparr>fr_payload_len := nchan_ntohll (load_le (take 8 header)), fr_step := 2\<rparr>)) avail
         else Ws_next (with_frame fsub (frame\<lparr>fr_step := 2\<rparr>)) avail)"

definition read_mask_key :: "ngx_rc \<Rightarrow> ws_subscriber \<Rightarrow> nat \<Rightarrow> uint8 list \<Rightarrow> ws_jump" where
  "read_mask_key idle fsub k avail =
     (let frame = ws_frame_of fsub
      in if fr_mask frame then
           let (rc, header, k, avail) = ws_recv idle avail (fr_header frame) k 4;
               frame = frame\<lparr>fr_header := header\<rparr>
           in if rc \<noteq> NGX_OK then Ws_exit rc (with_frame fsub frame) k avail
              else Ws_next (with_frame fsub (frame\<lparr>fr_mask_key := take 4 header, fr_step := 3\<rparr>)) avail
         else Ws_next (with_frame fsub (frame\<lparr>fr_step := 3\<rparr>)) avail)"

definition unmask_if :: "ws_frame \<Rightarrow> uint8 list \<Rightarrow> uint8 list" where
  "unmask_if frame payload = (if fr_mask frame then websocket_unmask_frame (fr_mask_key frame) payload else payload)"

definition end_of_frame :: "ws_subscriber \<Rightarrow> uint8 list \<Rightarrow> ws_jump" where
  "end_of_frame fsub avail =
     Ws_retry (with_frame fsub ((ws_frame_of fsub)\<lparr>fr_step := 0, fr_last := None, fr_payload := None\<rparr>)) avail"

text \<open>The second \<^verbatim>\<open>switch\<close> on the opcode of a control frame; the payload is unmasked.\<close>

definition control_frame :: "ws_subscriber \<Rightarrow> uint8 list \<Rightarrow> uint8 list \<Rightarrow> ws_jump option" where
  "control_frame fsub payload avail =
     (let opcode = fr_opcode (ws_frame_of fsub)
      in if opcode = WEBSOCKET_OPCODE_PING then do {
           fsub \<leftarrow> websocket_send_frame WEBSOCKET_PONG_LAST_FRAME_BYTE (length payload) (Some payload) fsub;
           Some (end_of_frame fsub avail)
         }
         else if opcode = WEBSOCKET_OPCODE_PONG then
           Some (end_of_frame (if ws_awaiting_pong fsub then fsub\<lparr>ws_awaiting_pong := False\<rparr> else fsub) avail)
         else do {
           let fsub = fsub\<lparr>ws_received_close_frame := True\<rparr>;
           let (close_code, payload_str) =
             (if 2 \<le> length payload then (htons (load_le (take 2 payload)), drop 2 payload) else (0, []));
           fsub \<leftarrow> (if \<not> ws_sent_close_frame fsub then websocket_send_close_frame close_code (Some payload_str) fsub
                   else Some fsub);
           Some (Ws_return (websocket_reading_finalize fsub))
         })"

text \<open>
  The payload of a control frame is received into an array on the stack, from its start at each call of the handler.
\<close>

definition read_control :: "ngx_rc \<Rightarrow> ws_subscriber \<Rightarrow> uint8 list \<Rightarrow> ws_jump option" where
  "read_control idle fsub avail =
     (let frame = ws_frame_of fsub; len = unat (fr_payload_len frame)
      in if len = 0 then control_frame (with_frame fsub (frame\<lparr>fr_payload := None\<rparr>)) [] avail
         else if len < 1024 then
           let payloadbuf = replicate 1024 0;
               (rc, payloadbuf, k, avail) = ws_recv idle avail payloadbuf 0 len;
               payload = take len payloadbuf
           in if rc \<noteq> NGX_OK
              then Some (Ws_exit rc (with_frame fsub (frame\<lparr>fr_payload := Some payload, fr_last := Some 0\<rparr>)) k avail)
              else
                let payload = unmask_if frame payload
                in control_frame (with_frame fsub (frame\<lparr>fr_payload := Some payload, fr_last := Some 0\<rparr>)) payload avail
         else do {
           fsub \<leftarrow> websocket_send_close_frame CLOSE_MESSAGE_TOO_BIG None fsub;
           Some (Ws_return (websocket_reading_finalize fsub))
         })"

text \<open>What becomes of the unmasked payload of a text or binary frame.\<close>

definition data_frame :: "ws_env \<Rightarrow> ws_subscriber \<Rightarrow> uint8 list \<Rightarrow> uint8 list \<Rightarrow> ws_jump option" where
  "data_frame env fsub payload avail =
     (let frame = ws_frame_of fsub; fsub = ws_get_msgpool env fsub
      in if \<not> wc_palloc_msgbuf env then do {
           fsub \<leftarrow> websocket_send_close_frame CLOSE_INTERNAL_SERVER_ERROR None fsub;
           Some (Ws_return (websocket_reading_finalize (ws_destroy_msgpool fsub)))
         }
         else
           case (if wc_deflate env \<and> fr_rsv1 frame then websocket_inflate_message env fsub payload else (Some payload, fsub)) of
             (None, fsub) \<Rightarrow> do {
               fsub \<leftarrow> websocket_send_close_frame_cstr CLOSE_INVALID_PAYLOAD ''Invalid permessage-deflate data'' fsub;
               Some (Ws_return (websocket_reading_finalize (ws_destroy_msgpool fsub)))
             }
           | (Some msgbuf, fsub) \<Rightarrow> do {
               utf8 \<leftarrow> (if fr_opcode frame = WEBSOCKET_OPCODE_TEXT then is_utf8 (wc_utf8_decode env) msgbuf else Some True);
               if \<not> utf8 then do {
                 fsub \<leftarrow> websocket_send_close_frame_cstr CLOSE_INVALID_PAYLOAD ''Invalid text frame (not UTF8).'' (ws_destroy_msgpool fsub);
                 Some (Ws_return (websocket_reading_finalize fsub))
               }
               else do {
                 (rc, fsub) \<leftarrow> websocket_heartbeat env msgbuf fsub;
                 Some (end_of_frame
                   (if rc \<noteq> NGX_OK then websocket_publish env msgbuf (fr_opcode frame = WEBSOCKET_OPCODE_BINARY) fsub
                    else ws_destroy_msgpool fsub) avail)
               }
             })"

definition read_data :: "ws_env \<Rightarrow> ngx_rc \<Rightarrow> ws_subscriber \<Rightarrow> uint8 list \<Rightarrow> ws_jump option" where
  "read_data env idle fsub avail =
     (let len = unat (fr_payload_len (ws_frame_of fsub))
      in if \<not> wc_pub_websocket env then do {
           fsub \<leftarrow> websocket_send_close_frame_cstr CLOSE_POLICY_VIOLATION ''Publishing not allowed.'' fsub;
           Some (Ws_return (websocket_reading_finalize fsub))
         }
         else
           let fsub = (if fr_payload (ws_frame_of fsub) = None then ws_get_msgpool env fsub else fsub);
               frame = ws_frame_of fsub
           in if fr_payload frame = None \<and> \<not> ws_msg_pool fsub then do {
                fsub \<leftarrow> websocket_send_close_frame CLOSE_INTERNAL_SERVER_ERROR None fsub;
                Some (Ws_return (websocket_reading_finalize fsub))
              }
              else if fr_payload frame = None \<and> \<not> wc_palloc env (if len = 0 then 1 else len) then do {
                fsub \<leftarrow> websocket_send_close_frame CLOSE_INTERNAL_SERVER_ERROR None fsub;
                Some (Ws_return (websocket_reading_finalize (ws_destroy_msgpool fsub)))
              }
              else
                let frame = (if fr_payload frame = None then frame\<lparr>fr_payload := Some (replicate len 0), fr_last := Some 0\<rparr>
                             else frame);
                    payload = the (fr_payload frame);
                    k = from_last (fr_last frame);
                    (rc, payload, k, avail) = (if 0 < len then ws_recv idle avail payload k len else (NGX_OK, payload, k, avail))
                in if rc \<noteq> NGX_OK
                   then Some (Ws_exit rc (with_frame fsub (frame\<lparr>fr_payload := Some payload\<rparr>)) k avail)
                   else
                     let payload = unmask_if frame payload
                     in data_frame env (with_frame fsub (frame\<lparr>fr_payload := Some payload\<rparr>)) payload avail)"

definition is_control :: "uint8 \<Rightarrow> bool" where
  "is_control opcode \<longleftrightarrow>
     opcode = WEBSOCKET_OPCODE_PING \<or> opcode = WEBSOCKET_OPCODE_PONG \<or> opcode = WEBSOCKET_OPCODE_CLOSE"

text \<open>One iteration of the loop of \<^verbatim>\<open>websocket_reading\<close>.\<close>

definition websocket_reading_iteration :: "ws_env \<Rightarrow> ngx_rc \<Rightarrow> ws_subscriber \<Rightarrow> nat \<Rightarrow> uint8 list \<Rightarrow> ws_jump option" where
  "websocket_reading_iteration env idle fsub k avail =
     (let frame = ws_frame_of fsub
      in if wc_closed env then Some (Ws_return (websocket_reading_finalize fsub))
         else if fr_step frame = 0 then Some (read_start idle fsub k avail)
         else if fr_step frame = 1 then Some (read_real_size idle fsub k avail)
         else if fr_step frame = 2 then Some (read_mask_key idle fsub k avail)
         else if fr_step frame = 3 then
           if is_control (fr_opcode frame) then read_control idle fsub avail
           else if fr_opcode frame = WEBSOCKET_OPCODE_TEXT \<or> fr_opcode frame = WEBSOCKET_OPCODE_BINARY then read_data env idle fsub avail
           else do {
             fsub \<leftarrow> websocket_send_frame WEBSOCKET_CLOSE_LAST_FRAME_BYTE 0 None fsub;
             Some (Ws_return (websocket_reading_finalize fsub))
           }
         else Some (Ws_return (websocket_reading_finalize fsub)))"

text \<open>After \<^verbatim>\<open>exit\<close>: the position is kept for the next call.  A subscriber whose request was finalized is gone.\<close>

definition websocket_reading_exit :: "ws_env \<Rightarrow> ngx_rc \<Rightarrow> ws_subscriber \<Rightarrow> nat \<Rightarrow> ws_event list \<times> ws_subscriber option" where
  "websocket_reading_exit env rc fsub k =
     (let fsub = (if rc = NGX_AGAIN then with_frame fsub ((ws_frame_of fsub)\<lparr>fr_last := Some k\<rparr>) else fsub)
      in if (rc = NGX_AGAIN \<and> \<not> wc_read_event env) \<or> rc = NGX_ERROR
         then (ws_events (websocket_reading_finalize fsub), None)
         else (ws_events fsub, Some fsub))"

partial_function (option) websocket_reading_loop ::
    "ws_env \<Rightarrow> ngx_rc \<Rightarrow> ws_subscriber \<Rightarrow> nat \<Rightarrow> uint8 list \<Rightarrow> (ws_event list \<times> ws_subscriber option) option" where
  "websocket_reading_loop env idle fsub k avail = do {
     jump \<leftarrow> websocket_reading_iteration env idle fsub k avail;
     case jump of
       Ws_next fsub avail \<Rightarrow> websocket_reading_loop env idle fsub 0 avail
     | Ws_retry fsub avail \<Rightarrow> websocket_reading_loop env idle fsub (from_last (fr_last (ws_frame_of fsub))) avail
     | Ws_exit rc fsub k avail \<Rightarrow> Some (websocket_reading_exit env rc fsub k)
     | Ws_return fsub \<Rightarrow> Some (ws_events fsub, None)
   }"

definition websocket_reading :: "ws_env \<Rightarrow> ngx_rc \<Rightarrow> ws_subscriber \<Rightarrow> uint8 list \<Rightarrow> (ws_event list \<times> ws_subscriber option) option" where
  "websocket_reading env idle fsub avail =
     websocket_reading_loop env idle fsub (from_last (fr_last (ws_frame_of fsub))) avail"

subsection \<open>Vector instructions\<close>

text \<open>
  C16 Unmasking a payload byte by byte and unmasking it with vector instructions (16 bytes with SSE2, 32 with AVX2) both give what
  RFC 6455 defines, wherever the payload lies in memory, and the payload is never loaded or stored at an address that is not
  aligned.  The one instruction that can fault is the load of the mask: it does where vectors are used at all and the array on
  the stack is not aligned to their size, which its type does not guarantee.
\<close>

theorem unmask_equivalence:
  assumes "length key = 4" and "vs = 16 \<or> vs = 32"
  shows "websocket_unmask_frame key payload = masked_octets key payload \<and>
    websocket_unmask_frame_vector vs addr mask_addr key payload =
      (if uses_vectors vs addr (length payload) \<and> mask_addr mod vs \<noteq> 0 then None else Some (masked_octets key payload))"
  using assms unmask_vector [of key vs addr mask_addr payload] by (auto simp: unmask_octets)

theorem unmask_equivalence_witness:
  "websocket_unmask_frame_vector 16 8 32 [1, 2, 3, 4] (replicate 40 7) = Some (masked_octets [1, 2, 3, 4] (replicate 40 7))
   \<and> websocket_unmask_frame_vector 32 64 16 [1, 2, 3, 4] (replicate 40 7) = None"
  using unmask_equivalence [of "[1, 2, 3, 4]" 16 "replicate 40 7" 8 32] unmask_equivalence [of "[1, 2, 3, 4]" 32 "replicate 40 7" 64 16]
  by (simp add: uses_vectors_def)

end
