(* ===== verification/Websocket_Stream.thy ===== *)
theory Websocket_Stream
  imports Websocket
begin

text \<open>
  How the frames of a connection are read when its bytes come in pieces, and what is read from the frames that a client
  sends.
\<close>

unbundle bit_operations_syntax

subsection \<open>A buffer that is filled in two pieces\<close>

lemma ws_recv_short:
  "k + length a < len \<Longrightarrow>
     ws_recv NGX_AGAIN a buf k len = (NGX_AGAIN, take k buf @ a @ drop (k + length a) buf, k + length a, [])"
  by (auto simp: ws_recv_def Let_def)

lemma ws_recv_enough:
  "k < len \<Longrightarrow> len \<le> k + length a \<Longrightarrow>
     ws_recv idle a buf k len = (NGX_OK, take k buf @ take (len - k) a @ drop len buf, len, drop (len - k) a)"
  by (auto simp: ws_recv_def Let_def min_def)

lemma ws_recv_resume:
  assumes "k + length a < len" and "len \<le> length buf"
  shows "ws_recv NGX_AGAIN (a @ b) buf k len = ws_recv NGX_AGAIN b (take k buf @ a @ drop (k + length a) buf) (k + length a) len"
proof (cases "k + length a + length b < len")
  case True
  then show ?thesis using assms ws_recv_short [of k "a @ b" len buf]
      ws_recv_short [of "k + length a" b len "take k buf @ a @ drop (k + length a) buf"]
    by (simp add: add_ac)
next
  case False
  have "min (length buf) k = k" "min (length buf) (k + length a) = k + length a" using assms by simp_all
  then show ?thesis using False assms ws_recv_enough [of k len "a @ b" NGX_AGAIN buf]
      ws_recv_enough [of "k + length a" len b NGX_AGAIN "take k buf @ a @ drop (k + length a) buf"]
    by (simp add: add_ac)
qed

text \<open>The states between two calls: \<open>k\<close> bytes are in the buffer of the current step.\<close>

fun ws_ok :: "ws_subscriber \<Rightarrow> nat \<Rightarrow> bool" where
  "ws_ok fsub k =
     (let frame = ws_frame_of fsub; len = unat (fr_payload_len frame)
      in length (fr_header frame) = 8 \<and> fr_step frame \<le> 3
         \<and> (fr_step frame < 3 \<longrightarrow> fr_payload frame = None)
         \<and> (fr_step frame = 0 \<longrightarrow> k < 2)
         \<and> (fr_step frame = 1 \<longrightarrow> k < (if fr_payload_len frame = 126 then 2 else if fr_payload_len frame = 127 then 8 else 1))
         \<and> (fr_step frame = 2 \<longrightarrow> k < 4)
         \<and> (fr_step frame = 3 \<and> \<not> is_control (fr_opcode frame)
              \<longrightarrow> (case fr_payload frame of None \<Rightarrow> k = 0
                   | Some p \<Rightarrow> length p = len \<and> fr_last frame = Some k \<and> k < len)))"

declare ws_ok.simps [simp del]

fun step_rank :: "nat \<Rightarrow> nat" where
  "step_rank n = (if n = 0 then 0 else 4 - n)"

definition ws_measure :: "ws_subscriber \<Rightarrow> uint8 list \<Rightarrow> nat" where
  "ws_measure fsub avail = 5 * length avail + step_rank (fr_step (ws_frame_of fsub))"

lemma loop_next:
  "websocket_reading_iteration env idle fsub k avail = Some (Ws_next f av) \<Longrightarrow>
     websocket_reading_loop env idle fsub k avail = websocket_reading_loop env idle f 0 av"
  by (subst websocket_reading_loop.simps) simp

lemma loop_retry:
  "websocket_reading_iteration env idle fsub k avail = Some (Ws_retry f av) \<Longrightarrow>
     websocket_reading_loop env idle fsub k avail = websocket_reading env idle f av"
  by (subst websocket_reading_loop.simps) (simp add: websocket_reading_def)

lemma loop_exit:
  "websocket_reading_iteration env idle fsub k avail = Some (Ws_exit rc f k' av) \<Longrightarrow>
     websocket_reading_loop env idle fsub k avail = Some (websocket_reading_exit env rc f k')"
  by (subst websocket_reading_loop.simps) simp

lemma loop_return:
  "websocket_reading_iteration env idle fsub k avail = Some (Ws_return f) \<Longrightarrow>
     websocket_reading_loop env idle fsub k avail = Some (ws_events f, None)"
  by (subst websocket_reading_loop.simps) simp

lemma loop_fault:
  "websocket_reading_iteration env idle fsub k avail = None \<Longrightarrow> websocket_reading_loop env idle fsub k avail = None"
  by (subst websocket_reading_loop.simps) simp

definition set_last :: "nat option \<Rightarrow> ws_subscriber \<Rightarrow> ws_subscriber" where
  "set_last l fsub = with_frame fsub ((ws_frame_of fsub)\<lparr>fr_last := l\<rparr>)"

subsection \<open>The position of an earlier step plays no role\<close>

lemma set_last_fields [simp]:
  "ws_events (set_last l f) = ws_events f" "ws_sent_close_frame (set_last l f) = ws_sent_close_frame f"
  "ws_received_close_frame (set_last l f) = ws_received_close_frame f" "ws_awaiting_pong (set_last l f) = ws_awaiting_pong f"
  "ws_msg_pool (set_last l f) = ws_msg_pool f" "ws_zstream_in (set_last l f) = ws_zstream_in f"
  "ws_frame_of (set_last l f) = (ws_frame_of f)\<lparr>fr_last := l\<rparr>"
  by (simp_all add: set_last_def)

lemma set_last_simps:
  "emit es (set_last l f) = set_last l (emit es f)"
  "(set_last l f)\<lparr>ws_sent_close_frame := x\<rparr> = set_last l (f\<lparr>ws_sent_close_frame := x\<rparr>)"
  "(set_last l f)\<lparr>ws_received_close_frame := x\<rparr> = set_last l (f\<lparr>ws_received_close_frame := x\<rparr>)"
  "(set_last l f)\<lparr>ws_awaiting_pong := x\<rparr> = set_last l (f\<lparr>ws_awaiting_pong := x\<rparr>)"
  "(set_last l f)\<lparr>ws_msg_pool := x\<rparr> = set_last l (f\<lparr>ws_msg_pool := x\<rparr>)"
  "(set_last l f)\<lparr>ws_zstream_in := z\<rparr> = set_last l (f\<lparr>ws_zstream_in := z\<rparr>)"
  by (simp_all add: set_last_def emit_def)

lemma set_last_send:
  "websocket_send_frame opc n m (set_last l f) = map_option (set_last l) (websocket_send_frame opc n m f)"
  "websocket_send_close_frame code err (set_last l f) = map_option (set_last l) (websocket_send_close_frame code err f)"
  "websocket_send_close_frame_cstr code str (set_last l f) = map_option (set_last l) (websocket_send_close_frame_cstr code str f)"
  by (auto simp: websocket_send_frame_def websocket_send_close_frame_def websocket_send_close_frame_cstr_def Let_def set_last_simps
      map_option_case emit_def split: option.split bind_split)

lemma last_payload: "fr\<lparr>fr_last := l, fr_payload := p\<rparr> = fr\<lparr>fr_payload := p, fr_last := l\<rparr>"
  by simp

lemma with_frame_set_last: "with_frame (set_last l f) fr = with_frame f fr"
  by (simp add: set_last_def)

definition jump_last :: "nat option \<Rightarrow> ws_jump \<Rightarrow> ws_jump" where
  "jump_last l jump = (case jump of
       Ws_next f av \<Rightarrow> Ws_next (set_last l f) av
     | Ws_exit rc f k av \<Rightarrow> Ws_exit rc (set_last l f) k av
     | Ws_return f \<Rightarrow> Ws_return (set_last l f)
     | Ws_retry f av \<Rightarrow> Ws_retry f av)"

lemma header_steps_last:
  "read_start idle (set_last l f) k av = jump_last l (read_start idle f k av)"
  "read_real_size idle (set_last l f) k av = jump_last l (read_real_size idle f k av)"
  "read_mask_key idle (set_last l f) k av = jump_last l (read_mask_key idle f k av)"
  by (simp_all add: read_start_def read_real_size_def read_mask_key_def Let_def jump_last_def set_last_def split: prod.split)

lemma end_of_frame_last: "end_of_frame (set_last l f) av = end_of_frame f av"
  by (simp add: end_of_frame_def set_last_def)

lemma control_frame_last: "control_frame (set_last l f) p av = map_option (jump_last l) (control_frame f p av)"
  by (auto simp: control_frame_def Let_def set_last_send set_last_simps end_of_frame_last websocket_reading_finalize_def jump_last_def
      end_of_frame_def map_option_case split: bind_split option.split)

lemma read_control_last:
  assumes "fr_payload (ws_frame_of f) = None"
  shows "read_control idle (set_last l f) av = read_control idle f av
    \<or> read_control idle (set_last l f) av = map_option (jump_last l) (read_control idle f av)"
proof (cases "unat (fr_payload_len (ws_frame_of f)) = 0")
  case True
  then have "read_control idle (set_last l f) av = control_frame (set_last l (with_frame f ((ws_frame_of f)\<lparr>fr_payload := None\<rparr>))) [] av"
    by (simp add: read_control_def Let_def set_last_def last_payload)
  then show ?thesis using True by (simp add: read_control_def Let_def control_frame_last)
next
  case False
  then show ?thesis
    by (auto simp: read_control_def Let_def unmask_if_def set_last_send with_frame_set_last jump_last_def websocket_reading_finalize_def
        set_last_simps map_option_case split: prod.split bind_split option.split)
qed

lemma read_data_last:
  assumes "fr_payload (ws_frame_of f) = None"
  shows "read_data env idle (set_last l f) av = read_data env idle f av
    \<or> read_data env idle (set_last l f) av = map_option (jump_last l) (read_data env idle f av)"
proof -
  have p: "ws_get_msgpool env (set_last l f) = set_last l (ws_get_msgpool env f)"
    by (simp add: ws_get_msgpool_def set_last_simps)
  have q: "ws_frame_of (ws_get_msgpool env f) = ws_frame_of f" by (simp add: ws_get_msgpool_def)
  show ?thesis using assms
    by (auto simp: read_data_def Let_def p q unmask_if_def set_last_send with_frame_set_last jump_last_def websocket_reading_finalize_def
        ws_destroy_msgpool_def set_last_simps map_option_case split: prod.split bind_split option.split)
qed

lemma iteration_last:
  assumes "fr_payload (ws_frame_of f) = None"
  shows "websocket_reading_iteration env idle (set_last l f) k av = websocket_reading_iteration env idle f k av
    \<or> websocket_reading_iteration env idle (set_last l f) k av = map_option (jump_last l) (websocket_reading_iteration env idle f k av)"
proof -
  let ?o = "is_control (fr_opcode (ws_frame_of f))"
  consider "wc_closed env \<or> 3 < fr_step (ws_frame_of f)" | "\<not> wc_closed env" "fr_step (ws_frame_of f) < 3"
    | "\<not> wc_closed env" "fr_step (ws_frame_of f) = 3" by linarith
  then show ?thesis
  proof cases
    case 1
    then show ?thesis
      by (auto simp: websocket_reading_iteration_def Let_def websocket_reading_finalize_def set_last_simps jump_last_def)
  next
    case 2
    then show ?thesis by (auto simp: websocket_reading_iteration_def Let_def header_steps_last)
  next
    case 3
    then show ?thesis using read_control_last [OF assms, of idle l av] read_data_last [OF assms, of env idle l av]
      by (auto simp: websocket_reading_iteration_def Let_def set_last_send websocket_reading_finalize_def set_last_simps jump_last_def
          map_option_case split: bind_split option.split)
  qed
qed

subsection \<open>An iteration on the first piece, and on all\<close>

text \<open>
  \<open>F\<close> is an iteration of the loop.  Either the bytes \<open>a\<close> are enough for it, whatever comes after them; or it stops
  for want of bytes, and the rest of the bytes makes it do what it would have done with all of them.
\<close>

definition same_jump :: "ws_jump option \<Rightarrow> ws_jump option \<Rightarrow> bool" where
  "same_jump J J' \<longleftrightarrow> J' = J \<or> (\<exists>l. J' = map_option (jump_last l) J)"

lemma same_jump_last: "same_jump J J" "same_jump J (map_option (jump_last l) J)" "same_jump (Some j) (Some (jump_last l j))"
  by (auto simp: same_jump_def)

definition waits :: "ws_subscriber \<Rightarrow> nat \<Rightarrow> ws_subscriber \<Rightarrow> nat \<Rightarrow> uint8 list \<Rightarrow>
    (ws_subscriber \<Rightarrow> nat \<Rightarrow> uint8 list \<Rightarrow> ws_jump option) \<Rightarrow> bool" where
  "waits f k f' k' a F \<longleftrightarrow>
     F f k a = Some (Ws_exit NGX_AGAIN f' k' [])
     \<and> fr_step (ws_frame_of f') = fr_step (ws_frame_of f) \<and> fr_opcode (ws_frame_of f') = fr_opcode (ws_frame_of f)
     \<and> (fr_step (ws_frame_of f) = 3 \<and> is_control (fr_opcode (ws_frame_of f))
        \<or> ws_ok (set_last (Some k') f') k' \<and> (\<forall>b. same_jump (F f k (a @ b)) (F (set_last (Some k') f') k' b)))"

definition splits :: "(ws_subscriber \<Rightarrow> nat \<Rightarrow> uint8 list \<Rightarrow> ws_jump option) \<Rightarrow> ws_subscriber \<Rightarrow> nat \<Rightarrow> uint8 list \<Rightarrow> bool" where
  "splits F f k a \<longleftrightarrow>
     (\<exists>f' a'. (\<forall>b. F f k (a @ b) = Some (Ws_next f' (a' @ b))) \<and> ws_ok f' 0 \<and> ws_measure f' a' < ws_measure f a
        \<and> fr_step (ws_frame_of f') = Suc (fr_step (ws_frame_of f)) \<and> fr_payload (ws_frame_of f') = None)
   \<or> (\<exists>f' a'. (\<forall>b. F f k (a @ b) = Some (Ws_retry f' (a' @ b))) \<and> ws_ok f' 0 \<and> fr_last (ws_frame_of f') = None
        \<and> ws_measure f' a' < ws_measure f a)
   \<or> (\<exists>f'. \<forall>b. F f k (a @ b) = Some (Ws_return f'))
   \<or> (\<forall>b. F f k (a @ b) = None)
   \<or> (\<exists>f' k'. waits f k f' k' a F)"

lemma splits_next:
  "(\<And>b. F f k (a @ b) = Some (Ws_next f' (a' @ b))) \<Longrightarrow> ws_ok f' 0 \<Longrightarrow> ws_measure f' a' < ws_measure f a \<Longrightarrow>
   fr_step (ws_frame_of f') = Suc (fr_step (ws_frame_of f)) \<Longrightarrow> fr_payload (ws_frame_of f') = None \<Longrightarrow> splits F f k a"
  unfolding splits_def by blast

lemma splits_waits: "waits f k f' k' a F \<Longrightarrow> splits F f k a"
  unfolding splits_def by blast

lemma read_start_resume:
  "k + length a < 2 \<Longrightarrow> length (fr_header (ws_frame_of f)) = 8 \<Longrightarrow>
     read_start NGX_AGAIN f k (a @ b) = read_start NGX_AGAIN (with_frame f ((ws_frame_of f)\<lparr>fr_header := take k (fr_header (ws_frame_of f)) @ a @ drop (k + length a) (fr_header (ws_frame_of f))\<rparr>)) (k + length a) b"
  by (simp add: read_start_def Let_def ws_recv_resume split: prod.split)

lemma read_mask_key_resume:
  "fr_mask (ws_frame_of f) \<Longrightarrow> k + length a < 4 \<Longrightarrow> length (fr_header (ws_frame_of f)) = 8 \<Longrightarrow>
     read_mask_key NGX_AGAIN f k (a @ b) = read_mask_key NGX_AGAIN (with_frame f ((ws_frame_of f)\<lparr>fr_header := take k (fr_header (ws_frame_of f)) @ a @ drop (k + length a) (fr_header (ws_frame_of f))\<rparr>)) (k + length a) b"
  by (simp add: read_mask_key_def Let_def ws_recv_resume split: prod.split)

lemma read_real_size_resume:
  "fr_payload_len (ws_frame_of f) = 126 \<and> k + length a < 2 \<or> fr_payload_len (ws_frame_of f) = 127 \<and> k + length a < 8 \<Longrightarrow>
   length (fr_header (ws_frame_of f)) = 8 \<Longrightarrow>
     read_real_size NGX_AGAIN f k (a @ b) = read_real_size NGX_AGAIN (with_frame f ((ws_frame_of f)\<lparr>fr_header := take k (fr_header (ws_frame_of f)) @ a @ drop (k + length a) (fr_header (ws_frame_of f))\<rparr>)) (k + length a) b"
  by (elim disjE conjE) (simp_all add: read_real_size_def Let_def ws_recv_resume split: prod.split)

lemma read_start_splits:
  assumes ok: "ws_ok f k" and step: "fr_step (ws_frame_of f) = 0"
  shows "splits (\<lambda>f k av. Some (read_start NGX_AGAIN f k av)) f k a"
proof (cases "k + length a < 2")
  case True
  let ?f = "with_frame f ((ws_frame_of f)\<lparr>fr_header := take k (fr_header (ws_frame_of f)) @ a @ drop (k + length a) (fr_header (ws_frame_of f))\<rparr>)"
  have "waits f k ?f (k + length a) a (\<lambda>f k av. Some (read_start NGX_AGAIN f k av))"
    using True ok step by (simp add: waits_def header_steps_last same_jump_last read_start_resume ws_ok.simps Let_def) (simp add: read_start_def Let_def ws_recv_short)
  then show ?thesis by (rule splits_waits)
next
  case False
  have k: "k < 2" using ok step by (simp add: ws_ok.simps Let_def)
  obtain f' where f: "\<And>b. read_start NGX_AGAIN f k (a @ b) = Ws_next f' (drop (2 - k) a @ b)"
      "ws_ok f' 0" "fr_step (ws_frame_of f') = 1" "fr_payload (ws_frame_of f') = None"
    using False k ok step by (auto simp: read_start_def Let_def ws_recv_enough ws_ok.simps)
  have "ws_measure f' (drop (2 - k) a) < ws_measure f a"
    using False k f(3) step by (simp add: ws_measure_def)
  then show ?thesis using f step by (intro splits_next [of _ _ _ _ f' "drop (2 - k) a"]) auto
qed

lemma read_mask_key_splits:
  assumes ok: "ws_ok f k" and step: "fr_step (ws_frame_of f) = 2"
  shows "splits (\<lambda>f k av. Some (read_mask_key NGX_AGAIN f k av)) f k a"
proof -
  have k: "k < 4" using ok step by (simp add: ws_ok.simps Let_def)
  consider "\<not> fr_mask (ws_frame_of f)" | "fr_mask (ws_frame_of f)" "k + length a < 4" | "fr_mask (ws_frame_of f)" "4 \<le> k + length a"
    by linarith
  then show ?thesis
  proof cases
    case 1
    then show ?thesis using ok step
      by (intro splits_next [of _ _ _ _ "with_frame f ((ws_frame_of f)\<lparr>fr_step := 3\<rparr>)" a])
        (simp_all add: read_mask_key_def Let_def ws_ok.simps ws_measure_def)
  next
    case 2
    let ?f = "with_frame f ((ws_frame_of f)\<lparr>fr_header := take k (fr_header (ws_frame_of f)) @ a @ drop (k + length a) (fr_header (ws_frame_of f))\<rparr>)"
    have "waits f k ?f (k + length a) a (\<lambda>f k av. Some (read_mask_key NGX_AGAIN f k av))"
      using 2 ok step by (simp add: waits_def header_steps_last same_jump_last read_mask_key_resume ws_ok.simps Let_def) (simp add: read_mask_key_def Let_def ws_recv_short)
    then show ?thesis by (rule splits_waits)
  next
    case 3
    obtain f' where f: "\<And>b. read_mask_key NGX_AGAIN f k (a @ b) = Ws_next f' (drop (4 - k) a @ b)"
        "ws_ok f' 0" "fr_step (ws_frame_of f') = 3" "fr_payload (ws_frame_of f') = None"
      using 3 k ok step by (auto simp: read_mask_key_def Let_def ws_recv_enough ws_ok.simps)
    have "ws_measure f' (drop (4 - k) a) < ws_measure f a"
      using 3 k f(3) step by (simp add: ws_measure_def)
    then show ?thesis using f step by (intro splits_next [of _ _ _ _ f' "drop (4 - k) a"]) auto
  qed
qed

lemma read_real_size_splits:
  assumes ok: "ws_ok f k" and step: "fr_step (ws_frame_of f) = 1"
  shows "splits (\<lambda>f k av. Some (read_real_size NGX_AGAIN f k av)) f k a"
proof -
  let ?l = "fr_payload_len (ws_frame_of f)"
  let ?f = "with_frame f ((ws_frame_of f)\<lparr>fr_header := take k (fr_header (ws_frame_of f)) @ a @ drop (k + length a) (fr_header (ws_frame_of f))\<rparr>)"
  consider "?l \<noteq> 126" "?l \<noteq> 127" | "?l = 126" "k + length a < 2" | "?l = 126" "2 \<le> k + length a"
    | "?l = 127" "k + length a < 8" | "?l = 127" "8 \<le> k + length a"
    by linarith
  then show ?thesis
  proof cases
    case 1
    let ?g = "with_frame f ((ws_frame_of f)\<lparr>fr_step := 2\<rparr>)"
    have "ws_ok ?g 0" using ok step by (simp add: ws_ok.simps Let_def)
    moreover have "read_real_size NGX_AGAIN f k av = Ws_next ?g av" for av using 1 by (simp add: read_real_size_def Let_def)
    moreover have "ws_measure ?g a < ws_measure f a" using step by (simp add: ws_measure_def)
    moreover have "fr_payload (ws_frame_of ?g) = None" using ok step by (simp add: ws_ok.simps Let_def)
    ultimately show ?thesis using step by (intro splits_next [of _ _ _ _ ?g a]) simp_all
  next
    case 2
    have "waits f k ?f (k + length a) a (\<lambda>f k av. Some (read_real_size NGX_AGAIN f k av))"
      using 2 ok step by (simp add: waits_def header_steps_last same_jump_last read_real_size_resume ws_ok.simps Let_def) (simp add: read_real_size_def Let_def ws_recv_short)
    then show ?thesis by (rule splits_waits)
  next
    case 3
    have k: "k < 2" using ok step 3 by (simp add: ws_ok.simps Let_def)
    obtain f' where f: "\<And>b. read_real_size NGX_AGAIN f k (a @ b) = Ws_next f' (drop (2 - k) a @ b)"
        "ws_ok f' 0" "fr_step (ws_frame_of f') = 2" "fr_payload (ws_frame_of f') = None"
      using 3 k ok step by (simp add: read_real_size_def Let_def ws_recv_enough ws_ok.simps)
    have "ws_measure f' (drop (2 - k) a) < ws_measure f a"
      using 3 k f(3) step by (simp add: ws_measure_def)
    then show ?thesis using f step by (intro splits_next [of _ _ _ _ f' "drop (2 - k) a"]) auto
  next
    case 4
    have "waits f k ?f (k + length a) a (\<lambda>f k av. Some (read_real_size NGX_AGAIN f k av))"
      using 4 ok step by (simp add: waits_def header_steps_last same_jump_last read_real_size_resume ws_ok.simps Let_def) (simp add: read_real_size_def Let_def ws_recv_short)
    then show ?thesis by (rule splits_waits)
  next
    case 5
    have k: "k < 8" using ok step 5 by (simp add: ws_ok.simps Let_def)
    obtain f' where f: "\<And>b. read_real_size NGX_AGAIN f k (a @ b) = Ws_next f' (drop (8 - k) a @ b)"
        "ws_ok f' 0" "fr_step (ws_frame_of f') = 2" "fr_payload (ws_frame_of f') = None"
      using 5 k ok step by (simp add: read_real_size_def Let_def ws_recv_enough ws_ok.simps)
    have "ws_measure f' (drop (8 - k) a) < ws_measure f a"
      using 5 k f(3) step by (simp add: ws_measure_def)
    then show ?thesis using f step by (intro splits_next [of _ _ _ _ f' "drop (8 - k) a"]) auto
  qed
qed

text \<open>What is done with a payload that is complete does not depend on the bytes after it.\<close>

definition uniform :: "ws_subscriber \<Rightarrow> (uint8 list \<Rightarrow> ws_jump option) \<Rightarrow> bool" where
  "uniform f J \<longleftrightarrow> (\<forall>av. J av = None) \<or> (\<exists>f'. \<forall>av. J av = Some (Ws_return f'))
     \<or> (\<exists>f'. (\<forall>av. J av = Some (Ws_retry f' av)) \<and> fr_last (ws_frame_of f') = None \<and> fr_payload (ws_frame_of f') = None
          \<and> fr_step (ws_frame_of f') = 0 \<and> fr_header (ws_frame_of f') = fr_header (ws_frame_of f))"

lemma ws_frame_of_send:
  "websocket_send_frame opc n m f = Some g \<Longrightarrow> ws_frame_of g = ws_frame_of f"
  by (auto simp: websocket_send_frame_def emit_def split: bind_splits)

lemma uniform_none: "uniform f (\<lambda>av. None)"
  and uniform_return: "uniform f (\<lambda>av. Some (Ws_return g))"
  by (simp_all add: uniform_def)

lemma uniform_retry: "fr_header (ws_frame_of g) = fr_header (ws_frame_of f) \<Longrightarrow> uniform f (\<lambda>av. Some (end_of_frame g av))"
  by (simp add: uniform_def end_of_frame_def)

lemma uniform_if: "(c \<Longrightarrow> uniform f J) \<Longrightarrow> (\<not> c \<Longrightarrow> uniform f K) \<Longrightarrow> uniform f (\<lambda>av. if c then J av else K av)"
  by (cases c) simp_all

lemma uniform_bind: "(\<And>x. X = Some x \<Longrightarrow> uniform f (J x)) \<Longrightarrow> uniform f (\<lambda>av. X \<bind> (\<lambda>x. J x av))"
  by (cases X) (simp_all add: uniform_none)

lemma uniform_prod: "(\<And>x y. X = (x, y) \<Longrightarrow> uniform f (J x y)) \<Longrightarrow> uniform f (\<lambda>av. case X of (x, y) \<Rightarrow> J x y av)"
  by (cases X) simp

lemma uniform_option:
  "(X = None \<Longrightarrow> uniform f J) \<Longrightarrow> (\<And>x. X = Some x \<Longrightarrow> uniform f (K x)) \<Longrightarrow>
     uniform f (\<lambda>av. case X of None \<Rightarrow> J av | Some x \<Rightarrow> K x av)"
  by (cases X) simp_all

lemmas uniform_intros = uniform_none uniform_return uniform_retry uniform_if uniform_bind uniform_prod uniform_option

lemma control_frame_uniform: "uniform f (control_frame f p)"
  unfolding control_frame_def [abs_def] Let_def
  by (intro uniform_intros) (auto dest: ws_frame_of_send)

lemma heartbeat_frame: "websocket_heartbeat env m g = Some (rc, g') \<Longrightarrow> ws_frame_of g' = ws_frame_of g"
  by (auto simp: websocket_heartbeat_def split: option.splits if_splits dest: ws_frame_of_send)

lemma pool_frame:
  "ws_frame_of (ws_get_msgpool env g) = ws_frame_of g" "ws_frame_of (ws_destroy_msgpool g) = ws_frame_of g"
  "ws_frame_of (websocket_publish env m bin g) = ws_frame_of g"
  by (simp_all add: ws_get_msgpool_def ws_destroy_msgpool_def websocket_publish_def emit_def Let_def)

lemma inflate_frame: "websocket_inflate_message env g m = (r, h) \<Longrightarrow> ws_frame_of h = ws_frame_of g"
  by (auto simp: websocket_inflate_message_def Let_def split: if_splits)

lemma data_frame_uniform: "uniform f (data_frame env f p)"
  unfolding data_frame_def [abs_def] Let_def
  by (intro uniform_intros) (auto simp: pool_frame split: if_splits dest!: heartbeat_frame inflate_frame)

lemma uniform_splits:
  assumes "uniform g J" and "\<And>b. F f k (a @ b) = J (a' @ b)" and "ws_measure f a' \<le> ws_measure f a"
    and "fr_step (ws_frame_of f) = 3" and "length (fr_header (ws_frame_of g)) = 8"
  shows "splits F f k a"
proof -
  consider "\<forall>av. J av = None" | f' where "\<forall>av. J av = Some (Ws_return f')"
    | f' where "\<forall>av. J av = Some (Ws_retry f' av)" "fr_last (ws_frame_of f') = None" "fr_payload (ws_frame_of f') = None"
        "fr_step (ws_frame_of f') = 0" "fr_header (ws_frame_of f') = fr_header (ws_frame_of g)"
    using assms(1) unfolding uniform_def by blast
  then show ?thesis
  proof cases
    case 1
    then show ?thesis using assms(2) by (simp add: splits_def)
  next
    case 2
    then show ?thesis using assms(2) by (simp add: splits_def)
  next
    case 3
    then have "(\<forall>b. F f k (a @ b) = Some (Ws_retry f' (a' @ b))) \<and> ws_ok f' 0 \<and> fr_last (ws_frame_of f') = None
        \<and> ws_measure f' a' < ws_measure f a"
      using assms(2-5) by (simp add: ws_ok.simps ws_measure_def Let_def)
    then show ?thesis unfolding splits_def by blast
  qed
qed

lemma read_control_splits:
  assumes ok: "ws_ok f k" and step: "fr_step (ws_frame_of f) = 3" and ctl: "is_control (fr_opcode (ws_frame_of f))"
  shows "splits (\<lambda>f k av. read_control NGX_AGAIN f av) f k a"
proof -
  let ?fr = "ws_frame_of f" and ?len = "unat (fr_payload_len (ws_frame_of f))"
  have h: "length (fr_header ?fr) = 8" using ok by (simp add: ws_ok.simps Let_def)
  consider "?len = 0" | "0 < ?len" "?len < 1024" "length a < ?len" | "0 < ?len" "?len < 1024" "?len \<le> length a" | "1024 \<le> ?len"
    by linarith
  then show ?thesis
  proof cases
    case 1
    have "uniform f (\<lambda>av. control_frame (with_frame f (?fr\<lparr>fr_payload := None\<rparr>)) [] av)"
      using control_frame_uniform [of "with_frame f (?fr\<lparr>fr_payload := None\<rparr>)" "[]"] by (simp add: uniform_def)
    then show ?thesis using 1 step h by (rule_tac uniform_splits [where a' = a]) (simp_all add: read_control_def Let_def)
  next
    case 2
    then have "\<exists>f' k'. waits f k f' k' a (\<lambda>f k av. read_control NGX_AGAIN f av)"
      using step ctl by (auto simp: waits_def read_control_def Let_def ws_recv_short)
    then show ?thesis using splits_waits by blast
  next
    case 3
    let ?p = "unmask_if ?fr (take ?len a)"
    let ?g = "with_frame f (?fr\<lparr>fr_payload := Some ?p, fr_last := Some 0\<rparr>)"
    have "uniform f (control_frame ?g ?p)"
      using control_frame_uniform [of ?g ?p] by (simp add: uniform_def)
    then show ?thesis using 3 step h
      by (rule_tac uniform_splits [where a' = "drop ?len a"]) (simp_all add: read_control_def Let_def ws_recv_enough ws_measure_def)
  next
    case 4
    have "uniform f (\<lambda>av. websocket_send_close_frame CLOSE_MESSAGE_TOO_BIG None f \<bind> (\<lambda>g. Some (Ws_return (websocket_reading_finalize g))))"
      by (intro uniform_intros)
    then show ?thesis using 4 step h by (rule_tac uniform_splits [where a' = a]) (simp_all add: read_control_def Let_def)
  qed
qed

text \<open>Once the payload is allocated: the bytes that are there are received.\<close>

definition receive_data :: "ws_env \<Rightarrow> ngx_rc \<Rightarrow> ws_subscriber \<Rightarrow> uint8 list \<Rightarrow> ws_jump option" where
  "receive_data env idle f avail =
     (let frame = ws_frame_of f; len = unat (fr_payload_len frame);
          (rc, payload, k, avail) =
            (if 0 < len then ws_recv idle avail (the (fr_payload frame)) (from_last (fr_last frame)) len
             else (NGX_OK, the (fr_payload frame), from_last (fr_last frame), avail))
      in if rc \<noteq> NGX_OK then Some (Ws_exit rc (with_frame f (frame\<lparr>fr_payload := Some payload\<rparr>)) k avail)
         else let payload = unmask_if frame payload
              in data_frame env (with_frame f (frame\<lparr>fr_payload := Some payload\<rparr>)) payload avail)"

definition alloc_payload :: "ws_env \<Rightarrow> ws_subscriber \<Rightarrow> ws_subscriber" where
  "alloc_payload env f = (if fr_payload (ws_frame_of f) = None
     then (ws_get_msgpool env f)\<lparr>ws_frame_of := (ws_frame_of f)\<lparr>fr_payload := Some (replicate (unat (fr_payload_len (ws_frame_of f))) 0), fr_last := Some 0\<rparr>\<rparr>
     else f)"

lemma read_data_alloc:
  "uniform f (read_data env idle f) \<or> (wc_pub_websocket env \<and> (\<forall>av. read_data env idle f av = receive_data env idle (alloc_payload env f) av))"
proof -
  let ?g = "ws_get_msgpool env f" and ?len = "unat (fr_payload_len (ws_frame_of f))"
  have close: "uniform f (read_data env idle f)" if "\<And>av. read_data env idle f av = X \<bind> (\<lambda>g. Some (Ws_return (h g)))" for X h
    using uniform_bind [of X f "\<lambda>g av. Some (Ws_return (h g))"] uniform_return by (simp add: uniform_def that)
  consider "\<not> wc_pub_websocket env"
    | "wc_pub_websocket env" "fr_payload (ws_frame_of f) = None" "\<not> ws_msg_pool ?g"
    | "wc_pub_websocket env" "fr_payload (ws_frame_of f) = None" "ws_msg_pool ?g" "\<not> wc_palloc env (if ?len = 0 then 1 else ?len)"
    | "wc_pub_websocket env" "fr_payload (ws_frame_of f) = None" "ws_msg_pool ?g" "wc_palloc env (if ?len = 0 then 1 else ?len)"
    | "wc_pub_websocket env" "fr_payload (ws_frame_of f) \<noteq> None" by blast
  then show ?thesis
  proof cases
    case 1
    then show ?thesis by (intro disjI1 close) (simp add: read_data_def)
  next
    case 2
    then show ?thesis by (intro disjI1 close) (simp add: read_data_def pool_frame)
  next
    case 3
    then show ?thesis by (intro disjI1 close) (simp add: read_data_def pool_frame)
  next
    case 4
    then show ?thesis by (simp add: read_data_def receive_data_def alloc_payload_def Let_def pool_frame split: prod.split)
  next
    case 5
    then obtain p where "fr_payload (ws_frame_of f) = Some p" by blast
    with 5 show ?thesis by (simp add: read_data_def receive_data_def alloc_payload_def Let_def)
  qed
qed

lemma pool_last:
  "ws_get_msgpool env (set_last l f) = set_last l (ws_get_msgpool env f)"
  "ws_destroy_msgpool (set_last l f) = set_last l (ws_destroy_msgpool f)"
  "websocket_publish env m bin (set_last l f) = set_last l (websocket_publish env m bin f)"
  by (simp_all add: ws_get_msgpool_def ws_destroy_msgpool_def websocket_publish_def Let_def set_last_simps)

lemma inflate_last:
  "websocket_inflate_message env (set_last l f) m = map_prod id (set_last l) (websocket_inflate_message env f m)"
  by (simp add: websocket_inflate_message_def Let_def set_last_simps)

lemma heartbeat_last:
  "websocket_heartbeat env m (set_last l f) = map_option (map_prod id (set_last l)) (websocket_heartbeat env m f)"
  by (auto simp: websocket_heartbeat_def set_last_send map_option_case split: option.split)

lemma map_option_over_bind:
  "map_option g X \<bind> K = X \<bind> (\<lambda>x. K (g x))"
  "map_option g (Y \<bind> L) = Y \<bind> (\<lambda>y. map_option g (L y))"
  by (cases X, simp_all) (cases Y, simp_all)

lemma jump_last_simps:
  "jump_last l (Ws_return f) = Ws_return (set_last l f)" "jump_last l (end_of_frame f av) = end_of_frame f av"
  by (simp_all add: jump_last_def end_of_frame_def)

lemma end_of_frame_if: "end_of_frame (if c then set_last l x else set_last l y) av = end_of_frame (if c then x else y) av"
  by (simp add: end_of_frame_last)

lemma data_frame_last: "data_frame env (set_last l f) p av = map_option (jump_last l) (data_frame env f p av)"
proof (cases "wc_palloc_msgbuf env")
  case False
  then show ?thesis
    by (simp add: data_frame_def Let_def set_last_send pool_last map_option_over_bind jump_last_simps websocket_reading_finalize_def set_last_simps)
next
  case True
  let ?g = "ws_get_msgpool env f"
  let ?inflated = "if wc_deflate env \<and> fr_rsv1 (ws_frame_of f) then websocket_inflate_message env ?g p else (Some p, ?g)"
  obtain r h where i: "?inflated = (r, h)" by (cases ?inflated)
  then have i': "(if wc_deflate env \<and> fr_rsv1 (ws_frame_of f) then websocket_inflate_message env (set_last l ?g) p else (Some p, set_last l ?g)) = (r, set_last l h)"
    by (auto simp: inflate_last split: if_splits)
  show ?thesis
  proof (cases r)
    case None
    then show ?thesis using True i i'
      by (simp add: data_frame_def Let_def set_last_send pool_last map_option_over_bind jump_last_simps websocket_reading_finalize_def set_last_simps)
  next
    case (Some m)
    then show ?thesis using True i i'
      by (simp add: data_frame_def Let_def set_last_send pool_last map_option_over_bind jump_last_simps websocket_reading_finalize_def set_last_simps
          heartbeat_last if_distrib [of "map_option (jump_last l)"] case_prod_beta end_of_frame_if
          cong: if_cong bind_option_cong)
  qed
qed

lemma with_frame_last: "with_frame f (fr\<lparr>fr_last := l\<rparr>) = set_last l (with_frame f fr)"
  by (simp add: set_last_def)

lemma receive_data_resume:
  assumes "j + length a < unat (fr_payload_len (ws_frame_of f))" and "fr_payload (ws_frame_of f) = Some p"
    and "length p = unat (fr_payload_len (ws_frame_of f))" and "fr_last (ws_frame_of f) = Some j"
  shows "same_jump (receive_data env NGX_AGAIN f (a @ b))
    (receive_data env NGX_AGAIN (set_last (Some (j + length a))
       (with_frame f ((ws_frame_of f)\<lparr>fr_payload := Some (take j p @ a @ drop (j + length a) p)\<rparr>))) b)"
proof -
  let ?q = "take j p @ a @ drop (j + length a) p" and ?fr = "ws_frame_of f"
  obtain rc q k' av where r: "ws_recv NGX_AGAIN b ?q (j + length a) (length p) = (rc, q, k', av)" by (metis prod_cases4)
  then have r2: "ws_recv NGX_AGAIN (a @ b) p j (length p) = (rc, q, k', av)" using assms ws_recv_resume [of j a "length p" p b] by simp
  have "same_jump (Some (Ws_exit rc g k' av)) (Some (Ws_exit rc (set_last l g) k' av))" for g l
    using same_jump_last(3) [of "Ws_exit rc g k' av" l] by (simp add: jump_last_def)
  then show ?thesis using assms r r2
    by (simp add: receive_data_def Let_def from_last_def unmask_if_def with_frame_set_last last_payload with_frame_last data_frame_last same_jump_last)
qed

lemma receive_data_splits:
  assumes h: "length (fr_header (ws_frame_of f)) = 8" and step: "fr_step (ws_frame_of f) = 3" and ctl: "\<not> is_control (fr_opcode (ws_frame_of f))"
    and pay: "fr_payload (ws_frame_of f) = Some p" "length p = unat (fr_payload_len (ws_frame_of f))"
    and last: "fr_last (ws_frame_of f) = Some j" "j < length p \<or> p = []"
  shows "splits (\<lambda>f k av. receive_data env NGX_AGAIN f av) f k a"
proof -
  let ?fr = "ws_frame_of f"
  let ?q = "take j p @ a @ drop (j + length a) p"
  consider "p = []" | "j + length a < length p" | "p \<noteq> []" "length p \<le> j + length a" by linarith
  then show ?thesis
  proof cases
    case 1
    have "uniform f (data_frame env (with_frame f (?fr\<lparr>fr_payload := Some (unmask_if ?fr [])\<rparr>)) (unmask_if ?fr []))"
      using data_frame_uniform [of "with_frame f (?fr\<lparr>fr_payload := Some (unmask_if ?fr [])\<rparr>)" env "unmask_if ?fr []"]
      by (simp add: uniform_def)
    then show ?thesis using 1 step h pay by (rule_tac uniform_splits [where a' = a]) (simp_all add: receive_data_def Let_def)
  next
    case 2
    let ?g = "with_frame f (?fr\<lparr>fr_payload := Some ?q\<rparr>)"
    have "receive_data env NGX_AGAIN f a = Some (Ws_exit NGX_AGAIN ?g (j + length a) [])"
      using 2 pay last by (auto simp: receive_data_def Let_def ws_recv_short from_last_def)
    moreover have "ws_ok (set_last (Some (j + length a)) ?g) (j + length a)"
      using 2 step h pay ctl by (simp add: ws_ok.simps Let_def)
    moreover have "same_jump (receive_data env NGX_AGAIN f (a @ b)) (receive_data env NGX_AGAIN (set_last (Some (j + length a)) ?g) b)" for b
      using 2 pay last by (intro receive_data_resume) simp_all
    ultimately have "waits f k ?g (j + length a) a (\<lambda>f k av. receive_data env NGX_AGAIN f av)"
      by (simp add: waits_def)
    then show ?thesis by (rule splits_waits)
  next
    case 3
    let ?r = "unmask_if ?fr (take j p @ take (length p - j) a)"
    have "uniform f (data_frame env (with_frame f (?fr\<lparr>fr_payload := Some ?r\<rparr>)) ?r)"
      using data_frame_uniform [of "with_frame f (?fr\<lparr>fr_payload := Some ?r\<rparr>)" env ?r] by (simp add: uniform_def)
    then show ?thesis using 3 step h pay last
      by (rule_tac uniform_splits [where a' = "drop (length p - j) a"])
        (simp_all add: receive_data_def Let_def ws_recv_enough from_last_def ws_measure_def)
  qed
qed

lemma data_frame_no_exit: "data_frame env f p av \<noteq> Some (Ws_exit rc f' k' av')"
  using data_frame_uniform [of f env p] by (auto simp: uniform_def)

lemma receive_data_exit: "receive_data env idle f av = Some (Ws_exit rc f' k' av') \<Longrightarrow> fr_payload (ws_frame_of f') \<noteq> None"
  by (auto simp: receive_data_def Let_def data_frame_no_exit split: prod.splits if_splits)

lemma read_data_payload:
  assumes "wc_pub_websocket env" and "fr_payload (ws_frame_of f) \<noteq> None"
  shows "read_data env idle f av = receive_data env idle f av"
proof -
  obtain p where "fr_payload (ws_frame_of f) = Some p" using assms(2) by blast
  then show ?thesis using assms(1) by (simp add: read_data_def receive_data_def Let_def)
qed

lemma splits_transfer:
  assumes "splits G g k a" and "\<And>av. F f k av = G g k av"
    and "ws_measure g a = ws_measure f a" and "fr_step (ws_frame_of g) = fr_step (ws_frame_of f)" "fr_opcode (ws_frame_of g) = fr_opcode (ws_frame_of f)"
    and resume: "\<And>f' k' av l. G g k a = Some (Ws_exit NGX_AGAIN f' k' []) \<Longrightarrow> fr_step (ws_frame_of f') = fr_step (ws_frame_of f) \<Longrightarrow>
        fr_opcode (ws_frame_of f') = fr_opcode (ws_frame_of f) \<Longrightarrow> F (set_last l f') k' av = G (set_last l f') k' av"
  shows "splits F f k a"
proof -
  have "waits f k f' k' a F" if "waits g k f' k' a G" for f' k'
    using that assms(2,4,5) resume [of f' k'] by (auto simp: waits_def)
  then show ?thesis using assms(1) unfolding splits_def assms(2-4) by blast
qed

lemma read_data_splits:
  assumes ok: "ws_ok f k" and step: "fr_step (ws_frame_of f) = 3" and ctl: "\<not> is_control (fr_opcode (ws_frame_of f))"
  shows "splits (\<lambda>f k av. read_data env NGX_AGAIN f av) f k a"
proof -
  have h: "length (fr_header (ws_frame_of f)) = 8" using ok by (simp add: ws_ok.simps Let_def)
  consider "uniform f (read_data env NGX_AGAIN f)"
    | "wc_pub_websocket env" "\<forall>av. read_data env NGX_AGAIN f av = receive_data env NGX_AGAIN (alloc_payload env f) av"
    using read_data_alloc by blast
  then show ?thesis
  proof cases
    case 1
    then show ?thesis using step h by (rule_tac uniform_splits [where a' = a]) simp_all
  next
    case 2
    let ?g = "alloc_payload env f"
    have g: "fr_step (ws_frame_of ?g) = 3" "fr_opcode (ws_frame_of ?g) = fr_opcode (ws_frame_of f)" "length (fr_header (ws_frame_of ?g)) = 8"
      using step h by (simp_all add: alloc_payload_def)
    obtain p j where "fr_payload (ws_frame_of ?g) = Some p" "length p = unat (fr_payload_len (ws_frame_of ?g))"
        "fr_last (ws_frame_of ?g) = Some j" "j < length p \<or> p = []"
    proof (cases "fr_payload (ws_frame_of f)")
      case None
      then show thesis using that [of "replicate (unat (fr_payload_len (ws_frame_of f))) 0" 0] by (auto simp: alloc_payload_def)
    next
      case (Some p)
      then show thesis using that [of p k] ok step ctl by (auto simp: alloc_payload_def ws_ok.simps Let_def)
    qed
    then have sp: "splits (\<lambda>f k av. receive_data env NGX_AGAIN f av) ?g k a"
      using g ctl by (intro receive_data_splits) auto
    have "read_data env NGX_AGAIN (set_last l f') av = receive_data env NGX_AGAIN (set_last l f') av"
      if "receive_data env NGX_AGAIN ?g a = Some (Ws_exit NGX_AGAIN f' k' [])" for f' k' av l
      using receive_data_exit [OF that] 2(1) by (intro read_data_payload) simp_all
    then show ?thesis using 2 g step by (intro splits_transfer [OF sp]) (simp_all add: ws_measure_def)
  qed
qed

lemma iteration_splits:
  assumes ok: "ws_ok f k"
  shows "splits (websocket_reading_iteration env NGX_AGAIN) f k a"
proof -
  let ?it = "websocket_reading_iteration env NGX_AGAIN" and ?s = "fr_step (ws_frame_of f)" and ?o = "fr_opcode (ws_frame_of f)"
  have s: "?s \<le> 3" using ok by (simp add: ws_ok.simps Let_def)
  have h: "length (fr_header (ws_frame_of f)) = 8" using ok by (simp add: ws_ok.simps Let_def)
  consider "wc_closed env" | "\<not> wc_closed env" "?s = 0" | "\<not> wc_closed env" "?s = 1" | "\<not> wc_closed env" "?s = 2"
    | "\<not> wc_closed env" "?s = 3" "is_control ?o"
    | "\<not> wc_closed env" "?s = 3" "\<not> is_control ?o" "?o = WEBSOCKET_OPCODE_TEXT \<or> ?o = WEBSOCKET_OPCODE_BINARY"
    | "\<not> wc_closed env" "?s = 3" "\<not> is_control ?o" "\<not> (?o = WEBSOCKET_OPCODE_TEXT \<or> ?o = WEBSOCKET_OPCODE_BINARY)"
    using s by linarith
  then show ?thesis
  proof cases
    case 1
    then show ?thesis by (simp add: splits_def websocket_reading_iteration_def)
  next
    case 2
    then show ?thesis by (intro splits_transfer [OF read_start_splits [OF ok 2(2)]]) (simp_all add: websocket_reading_iteration_def)
  next
    case 3
    then show ?thesis by (intro splits_transfer [OF read_real_size_splits [OF ok 3(2)]]) (simp_all add: websocket_reading_iteration_def)
  next
    case 4
    then show ?thesis by (intro splits_transfer [OF read_mask_key_splits [OF ok 4(2)]]) (simp_all add: websocket_reading_iteration_def)
  next
    case 5
    then show ?thesis by (intro splits_transfer [OF read_control_splits [OF ok 5(2,3)]]) (simp_all add: websocket_reading_iteration_def)
  next
    case 6
    then show ?thesis by (intro splits_transfer [OF read_data_splits [OF ok 6(2,3)]]) (simp_all add: websocket_reading_iteration_def)
  next
    case 7
    have "uniform f (\<lambda>av. websocket_send_frame WEBSOCKET_CLOSE_LAST_FRAME_BYTE 0 None f \<bind> (\<lambda>g. Some (Ws_return (websocket_reading_finalize g))))"
      by (intro uniform_intros)
    then show ?thesis using 7 h by (rule_tac uniform_splits [where a' = a]) (simp_all add: websocket_reading_iteration_def)
  qed
qed

subsection \<open>The loop\<close>

lemma iteration_cases:
  assumes "ws_ok f k"
  obtains (next_step) f' a' where "\<And>b. websocket_reading_iteration env NGX_AGAIN f k (a @ b) = Some (Ws_next f' (a' @ b))" "ws_ok f' 0"
      "ws_measure f' a' < ws_measure f a" "fr_step (ws_frame_of f') = Suc (fr_step (ws_frame_of f))" "fr_payload (ws_frame_of f') = None"
  | (retry) f' a' where "\<And>b. websocket_reading_iteration env NGX_AGAIN f k (a @ b) = Some (Ws_retry f' (a' @ b))" "ws_ok f' 0"
      "fr_last (ws_frame_of f') = None" "ws_measure f' a' < ws_measure f a"
  | (return) f' where "\<And>b. websocket_reading_iteration env NGX_AGAIN f k (a @ b) = Some (Ws_return f')"
  | (fault) "\<And>b. websocket_reading_iteration env NGX_AGAIN f k (a @ b) = None"
  | (waits) f' k' where "waits f k f' k' a (websocket_reading_iteration env NGX_AGAIN)"
  using iteration_splits [OF assms, of env a] unfolding splits_def by blast

lemma exit_last: "websocket_reading_exit env NGX_AGAIN (set_last l f) k = websocket_reading_exit env NGX_AGAIN f k"
  by (simp add: websocket_reading_exit_def Let_def websocket_reading_finalize_def emit_def set_last_def)

lemma same_jump_loop:
  assumes "same_jump (websocket_reading_iteration env NGX_AGAIN f k av) (websocket_reading_iteration env NGX_AGAIN g k' av')" and "ws_ok f k"
  shows "websocket_reading_loop env NGX_AGAIN g k' av' = websocket_reading_loop env NGX_AGAIN f k av"
  using assms
proof (induction "4 - fr_step (ws_frame_of f)" arbitrary: f k av g k' av' rule: less_induct)
  case less
  let ?it = "websocket_reading_iteration env NGX_AGAIN"
  obtain l where l: "?it g k' av' = ?it f k av \<or> ?it g k' av' = map_option (jump_last l) (?it f k av)"
    using less.prems(1) unfolding same_jump_def by blast
  show ?case using less.prems(2)
  proof (cases rule: iteration_cases [where env = env and a = av])
    case (next_step f' a')
    from next_step(1) [of "[]"] have it: "?it f k av = Some (Ws_next f' a')" by simp
    have "same_jump (?it f' 0 a') (?it (set_last l f') 0 a')"
      using iteration_last [OF next_step(5), of env NGX_AGAIN l 0 a'] by (auto simp: same_jump_def)
    moreover have "4 - fr_step (ws_frame_of f') < 4 - fr_step (ws_frame_of f)"
      using next_step(2,4) by (auto simp: ws_ok.simps Let_def)
    ultimately have "websocket_reading_loop env NGX_AGAIN (set_last l f') 0 a' = websocket_reading_loop env NGX_AGAIN f' 0 a'"
      using less.hyps next_step(2) by blast
    then show ?thesis using l it by (auto simp: jump_last_def loop_next [OF it] dest!: loop_next)
  next
    case (retry f' a')
    from retry(1) [of "[]"] have it: "?it f k av = Some (Ws_retry f' a')" by simp
    then show ?thesis using l by (auto simp: jump_last_def loop_retry [OF it] dest!: loop_retry)
  next
    case (return f')
    from return [of "[]"] have it: "?it f k av = Some (Ws_return f')" by simp
    then show ?thesis using l by (auto simp: jump_last_def loop_return [OF it] dest!: loop_return)
  next
    case fault
    from fault [of "[]"] have it: "?it f k av = None" by simp
    then show ?thesis using l by (auto simp: loop_fault [OF it] dest!: loop_fault)
  next
    case (waits f' k'')
    then have it: "?it f k av = Some (Ws_exit NGX_AGAIN f' k'' [])" by (simp add: waits_def)
    then show ?thesis using l by (auto simp: jump_last_def loop_exit [OF it] exit_last dest!: loop_exit)
  qed
qed

definition in_control_payload :: "ws_subscriber \<Rightarrow> bool" where
  "in_control_payload f \<longleftrightarrow> fr_step (ws_frame_of f) = 3 \<and> is_control (fr_opcode (ws_frame_of f))"

lemma loop_chunk:
  assumes "wc_read_event env" and "ws_ok f k"
    and "\<forall>ev f1. websocket_reading_loop env NGX_AGAIN f k a = Some (ev, Some f1) \<longrightarrow> \<not> in_control_payload f1"
  shows "websocket_reading_loop env NGX_AGAIN f k (a @ b) =
    (case websocket_reading_loop env NGX_AGAIN f k a of
       None \<Rightarrow> None | Some (ev, None) \<Rightarrow> Some (ev, None) | Some (ev, Some f1) \<Rightarrow> websocket_reading env NGX_AGAIN f1 b)"
  using assms(2,3)
proof (induction "ws_measure f a" arbitrary: f k a rule: less_induct)
  case less
  let ?it = "websocket_reading_iteration env NGX_AGAIN" and ?loop = "websocket_reading_loop env NGX_AGAIN"
  show ?case using less.prems(1)
  proof (cases rule: iteration_cases [where env = env and a = a])
    case (next_step f' a')
    then have e: "?loop f k (a @ x) = ?loop f' 0 (a' @ x)" for x by (rule_tac loop_next)
    from e [of "[]"] show ?thesis using less.hyps [OF next_step(3,2)] less.prems(2) e [of b] by simp
  next
    case (retry f' a')
    then have e: "?loop f k (a @ x) = ?loop f' 0 (a' @ x)" for x
      using loop_retry [OF retry(1) [of x]] by (simp add: websocket_reading_def from_last_def)
    from e [of "[]"] show ?thesis using less.hyps [OF retry(4,2)] less.prems(2) e [of b] by simp
  next
    case (return f')
    then show ?thesis using loop_return [OF return [of b]] loop_return [OF return [of "[]"]] by simp
  next
    case fault
    then show ?thesis using loop_fault [OF fault [of b]] loop_fault [OF fault [of "[]"]] by simp
  next
    case (waits f' k')
    then have it: "?it f k a = Some (Ws_exit NGX_AGAIN f' k' [])" by (simp add: waits_def)
    let ?g = "set_last (Some k') f'"
    have r: "?loop f k a = Some (ws_events ?g, Some ?g)"
      using loop_exit [OF it] assms(1) by (simp add: websocket_reading_exit_def set_last_def)
    then have "\<not> in_control_payload ?g" using less.prems(2) by blast
    then have "same_jump (?it f k (a @ b)) (?it ?g k' b)"
      using waits by (auto simp: waits_def in_control_payload_def)
    from same_jump_loop [OF this less.prems(1)] have "?loop f k (a @ b) = ?loop ?g k' b" by (rule sym)
    then show ?thesis using r by (simp add: websocket_reading_def from_last_def)
  qed
qed

text \<open>
  C10 It does not matter how the bytes of a connection are cut into pieces: reading a first piece and then the rest
  publishes, sends and ends the request as reading all of it at once, and leaves the same state, unless the cut is inside the payload of a
  control frame.
\<close>

theorem reading_in_pieces:
  assumes "wc_read_event env" and "ws_ok f (from_last (fr_last (ws_frame_of f)))"
    and "\<forall>ev f1. websocket_reading env NGX_AGAIN f a = Some (ev, Some f1) \<longrightarrow> \<not> in_control_payload f1"
  shows "websocket_reading env NGX_AGAIN f (a @ b) =
    (case websocket_reading env NGX_AGAIN f a of
       None \<Rightarrow> None | Some (ev, None) \<Rightarrow> Some (ev, None) | Some (ev, Some f1) \<Rightarrow> websocket_reading env NGX_AGAIN f1 b)"
  using loop_chunk [OF assms(1,2), of a b] assms(3) by (simp add: websocket_reading_def)

definition sample_env :: ws_env where
  "sample_env = \<lparr>wc_pub_websocket = True, wc_deflate = False, wc_inflate_init = True, wc_nchan_inflate = (\<lambda>z. Some), wc_utf8_decode = (\<lambda>p. (0, 1)), wc_heartbeat = None,
     wc_create_pool = True, wc_palloc = (\<lambda>n. True), wc_palloc_msgbuf = True, wc_palloc_publish = True, wc_closed = False, wc_read_event = True\<rparr>"

definition sample_sub :: ws_subscriber where
  "sample_sub = \<lparr>ws_frame_of = websocket_init_frame, ws_awaiting_pong = False, ws_sent_close_frame = False,
     ws_received_close_frame = False, ws_msg_pool = False, ws_zstream_in = None, ws_events = []\<rparr>"

lemma sample_env_fields [simp]:
  "wc_pub_websocket sample_env" "\<not> wc_deflate sample_env" "wc_heartbeat sample_env = None" "wc_create_pool sample_env" "wc_palloc sample_env n"
  "wc_palloc_msgbuf sample_env" "wc_palloc_publish sample_env" "\<not> wc_closed sample_env" "wc_read_event sample_env"
  by (simp_all add: sample_env_def)

lemma sample_sub_fields [simp]:
  "ws_frame_of sample_sub = websocket_init_frame" "ws_events sample_sub = []" "\<not> ws_msg_pool sample_sub"
  "\<not> ws_sent_close_frame sample_sub" "\<not> ws_received_close_frame sample_sub"
  by (simp_all add: sample_sub_def)

theorem reading_in_pieces_witness:
  "websocket_reading sample_env NGX_AGAIN sample_sub ([0x82] @ [0x80, 1, 2, 3, 4]) =
    (case websocket_reading sample_env NGX_AGAIN sample_sub [0x82] of
       None \<Rightarrow> None | Some (ev, None) \<Rightarrow> Some (ev, None)
     | Some (ev, Some f1) \<Rightarrow> websocket_reading sample_env NGX_AGAIN f1 [0x80, 1, 2, 3, 4])"
proof (rule reading_in_pieces)
  have "\<exists>f. websocket_reading_iteration sample_env NGX_AGAIN sample_sub 0 [0x82] = Some (Ws_exit NGX_AGAIN f 1 []) \<and> fr_step (ws_frame_of f) = 0"
    by (simp add: websocket_reading_iteration_def read_start_def ws_recv_short websocket_init_frame_def Let_def)
  then obtain f where f: "websocket_reading_iteration sample_env NGX_AGAIN sample_sub 0 [0x82] = Some (Ws_exit NGX_AGAIN f 1 [])"
      "fr_step (ws_frame_of f) = 0" by blast
  have "websocket_reading sample_env NGX_AGAIN sample_sub [0x82] = Some (ws_events f, Some (with_frame f ((ws_frame_of f)\<lparr>fr_last := Some 1\<rparr>)))"
    using loop_exit [OF f(1)] by (simp add: websocket_reading_def from_last_def websocket_init_frame_def websocket_reading_exit_def Let_def)
  then show "\<forall>ev f1. websocket_reading sample_env NGX_AGAIN sample_sub [0x82] = Some (ev, Some f1) \<longrightarrow> \<not> in_control_payload f1"
    using f(2) by (simp add: in_control_payload_def)
qed (simp_all add: ws_ok.simps websocket_init_frame_def from_last_def Let_def)

end
