(* ===== verification/Websocket_Frames.thy ===== *)
theory Websocket_Frames
  imports Websocket_Stream
begin

text \<open>
  What the server makes of the frames that clients send: messages are published in order, reading always returns, and
  how control frames are answered.
\<close>

unbundle bit_operations_syntax

subsection \<open>Frames that a client sends\<close>

text \<open>
  The encoding of RFC 6455, written down from its section 5.2 and without the functions of the server: a final frame has bit 7 of
  its first octet set, a masked one bit 7 of its second; a length of more than 125 octets follows in two or in eight octets, the
  most significant first; then come the key and the masked octets of the payload.
\<close>

definition be_octets :: "nat \<Rightarrow> nat \<Rightarrow> uint8 list" where
  "be_octets k n = map (\<lambda>i. word_of_nat (n div 256 ^ i)) (rev [0..<k])"

definition length_octets :: "nat \<Rightarrow> uint8 list" where
  "length_octets n = (if n \<le> 125 then [0x80 OR word_of_nat n]
     else if n < 2 ^ 16 then (0x80 OR 126) # be_octets 2 n
     else (0x80 OR 127) # be_octets 8 n)"

definition client_frame :: "uint8 \<Rightarrow> uint8 list \<Rightarrow> uint8 list \<Rightarrow> uint8 list" where
  "client_frame opcode key p = (0x80 OR opcode) # length_octets (length p) @ key @ masked_octets key p"

lemma length_be_octets [simp]: "length (be_octets k n) = k"
  by (simp add: be_octets_def)

lemma byte_at_unat: "8 * i + 8 \<le> LENGTH('a :: len) \<Longrightarrow> byte_at (w :: 'a word) i = word_of_nat (unat w div 256 ^ i)"
proof -
  assume "8 * i + 8 \<le> LENGTH('a)"
  moreover have "unat w div 256 ^ i = drop_bit (8 * i) (unat w)" using power_mult [of "2 :: nat" 8 i] by (simp add: drop_bit_eq_div)
  ultimately show ?thesis
    by (intro bit_word_eqI) (auto simp: bit_byte_at bit_simps)
qed

lemma network_octets:
  "store_le 2 (htons w) = be_octets 2 (unat w)" "store_le 8 (nchan_htonll v) = be_octets 8 (unat v)"
  by (simp_all add: store_htons store_htonll) (simp_all add: store_le_def be_octets_def rev_map byte_at_unat)

lemma unmask_length [simp]: "length (websocket_unmask_frame key p) = length p"
  by (simp add: websocket_unmask_frame_def)

lemma unmask_unmask [simp]: "websocket_unmask_frame key (websocket_unmask_frame key p) = p"
  by (rule nth_equalityI) (simp_all add: websocket_unmask_frame_def nth_xor_range xor.assoc)

definition read_header :: "ws_subscriber \<Rightarrow> uint8 \<Rightarrow> uint8 \<Rightarrow> ws_subscriber" where
  "read_header f b c = with_frame f ((ws_frame_of f)\<lparr>fr_header := b # c # drop 2 (fr_header (ws_frame_of f)),
     fr_fin := (drop_bit 7 b AND 1 = 1), fr_rsv1 := (drop_bit 6 b AND 1 = 1), fr_rsv2 := (drop_bit 5 b AND 1 = 1),
     fr_rsv3 := (drop_bit 4 b AND 1 = 1), fr_opcode := b AND 0xf, fr_mask := (drop_bit 7 c AND 1 = 1),
     fr_payload_len := ucast (c AND 0x7f), fr_step := 1\<rparr>)"

lemma read_start_header: "read_start idle f 0 (b # c # av) = Ws_next (read_header f b c) av"
  using ws_recv_enough [of 0 2 "b # c # av" idle "fr_header (ws_frame_of f)"]
  by (simp add: read_start_def read_header_def Let_def numeral_2_eq_2)

lemma length_byte:
  assumes "n \<le> 127"
  shows "(of_nat n OR 0x80) AND 0x7f = (of_nat n :: uint8)" and "drop_bit 7 (of_nat n OR 0x80 :: uint8) AND 1 = 1"
    and "unat (ucast ((of_nat n OR 0x80) AND 0x7f :: uint8) :: uint64) = n"
proof -
  have m: "(0x7f :: uint8) = mask 7" "(0x80 :: uint8) = push_bit 7 1" by (simp_all add: mask_eq_exp_minus_1)
  have "take_bit 7 n = n" using assms by (simp add: take_bit_nat_eq_self)
  then have b: "k < 7" if "bit (of_nat n :: uint8) k" for k
  proof -
    have "bit n k" using that by (simp add: bit_simps)
    then show ?thesis using \<open>take_bit 7 n = n\<close> by (metis bit_take_bit_iff)
  qed
  show a: "(of_nat n OR 0x80) AND 0x7f = (of_nat n :: uint8)"
  proof (rule bit_word_eqI)
    fix k
    show "bit ((of_nat n OR 0x80) AND 0x7f :: uint8) k = bit (of_nat n :: uint8) k"
      unfolding m bit_and_iff bit_or_iff bit_mask_iff bit_push_bit_iff using b [of k] by auto
  qed
  show "drop_bit 7 (of_nat n OR 0x80 :: uint8) AND 1 = 1"
  proof (rule bit_word_eqI)
    fix k
    show "bit (drop_bit 7 (of_nat n OR 0x80 :: uint8) AND 1) k = bit (1 :: uint8) k"
      unfolding m bit_and_iff bit_drop_bit_eq bit_or_iff bit_push_bit_iff comp_def by (auto simp: bit_1_iff)
  qed
  show "unat (ucast ((of_nat n OR 0x80) AND 0x7f :: uint8) :: uint64) = n"
    unfolding a using assms by (simp add: unsigned_ucast_eq take_bit_word_eq_self unsigned_of_nat take_bit_nat_eq_self)
qed

definition size_bytes :: "nat \<Rightarrow> uint8 list" where
  "size_bytes n = (if n \<le> 125 then [] else if n < 2 ^ 16 then store_le 2 (htons (of_nat n)) else store_le 8 (nchan_htonll (of_nat n)))"

definition size_code :: "nat \<Rightarrow> nat" where
  "size_code n = (if n \<le> 125 then n else if n < 2 ^ 16 then 126 else 127)"

definition masked_header :: "uint8 \<Rightarrow> nat \<Rightarrow> uint8 list" where
  "masked_header opcode n = (opcode OR 0x80) # (of_nat (size_code n) OR 0x80) # size_bytes n"

lemma length_octets_bytes: "n < 2 ^ 64 \<Longrightarrow> length_octets n = (of_nat (size_code n) OR 0x80) # size_bytes n"
proof -
  assume n: "n < 2 ^ 64"
  have "n < 2 ^ 16 \<Longrightarrow> unat (word_of_nat n :: uint16) = n" "unat (word_of_nat n :: uint64) = n"
    using n by (simp_all add: unsigned_of_nat take_bit_nat_eq_self)
  then show ?thesis by (simp add: length_octets_def size_bytes_def size_code_def or.commute network_octets)
qed

lemma size_code_le: "size_code n \<le> 127"
  by (simp add: size_code_def)

lemma unat_eq_of_nat: "unat (w :: uint64) = n \<Longrightarrow> w = of_nat n"
  by (auto simp: of_nat_unat)

text \<open>The size of the payload.\<close>

lemma read_size:
  assumes "length (fr_header (ws_frame_of f)) = 8" and len: "unat (fr_payload_len (ws_frame_of f)) = size_code n" and "n < 2 ^ 64"
  obtains fr where "\<And>av. read_real_size idle f 0 (size_bytes n @ av) = Ws_next (with_frame f fr) av"
    "\<exists>h. length h = 8 \<and> fr = (ws_frame_of f)\<lparr>fr_header := h, fr_payload_len := of_nat n, fr_step := 2\<rparr>"
proof -
  have w: "fr_payload_len (ws_frame_of f) = of_nat (size_code n)" using len by (rule unat_eq_of_nat)
  consider "n \<le> 125" | "125 < n" "n < 2 ^ 16" | "2 ^ 16 \<le> n" by linarith
  then show ?thesis
  proof cases
    case 1
    then have "fr_payload_len (ws_frame_of f) = of_nat n" using w by (simp add: size_code_def)
    moreover have "(of_nat n :: uint64) \<noteq> 126" "(of_nat n :: uint64) \<noteq> 127"
      using 1 len by (auto simp: calculation size_code_def)
    ultimately show ?thesis using 1 assms(1) by (intro that [of "(ws_frame_of f)\<lparr>fr_step := 2\<rparr>"])
      (auto simp: read_real_size_def size_bytes_def intro!: exI [of _ "fr_header (ws_frame_of f)"])
  next
    case 2
    let ?h = "store_le 2 (htons (of_nat n)) @ drop 2 (fr_header (ws_frame_of f))"
    have "ucast (htons (load_le (store_le 2 (htons (of_nat n :: uint16))))) = (of_nat n :: uint64)"
      using 2 by (simp add: load_store_le htons_htons unsigned_of_nat take_bit_nat_eq_self)
    then show ?thesis using 2 assms(1) w
      by (intro that [of "(ws_frame_of f)\<lparr>fr_header := ?h, fr_payload_len := of_nat n, fr_step := 2\<rparr>"])
        (auto simp: read_real_size_def Let_def size_bytes_def size_code_def ws_recv_enough intro!: exI [of _ ?h])
  next
    case 3
    let ?h = "store_le 8 (nchan_htonll (of_nat n))"
    have "nchan_ntohll (load_le (store_le 8 (nchan_htonll (of_nat n)))) = of_nat n"
      by (simp add: load_store_le nchan_ntohll_htonll)
    then show ?thesis using 3 assms(1) w
      by (intro that [of "(ws_frame_of f)\<lparr>fr_header := ?h, fr_payload_len := of_nat n, fr_step := 2\<rparr>"])
        (auto simp: read_real_size_def Let_def size_bytes_def size_code_def ws_recv_enough intro!: exI [of _ ?h])
  qed
qed

text \<open>Between two frames.\<close>

definition at_start :: "ws_subscriber \<Rightarrow> bool" where
  "at_start f \<longleftrightarrow> length (fr_header (ws_frame_of f)) = 8 \<and> fr_step (ws_frame_of f) = 0 \<and> fr_payload (ws_frame_of f) = None"

definition plain_opcode :: "uint8 \<Rightarrow> bool" where
  "plain_opcode opc \<longleftrightarrow> (opc OR 0x80) AND 0xf = opc \<and> drop_bit 6 (opc OR 0x80) AND 1 \<noteq> 1"

lemma plain_opcodes [simp]:
  "plain_opcode WEBSOCKET_OPCODE_TEXT" "plain_opcode WEBSOCKET_OPCODE_BINARY" "plain_opcode WEBSOCKET_OPCODE_PING"
  "plain_opcode WEBSOCKET_OPCODE_PONG" "plain_opcode WEBSOCKET_OPCODE_CLOSE"
  by (simp_all add: plain_opcode_def WEBSOCKET_OPCODE_TEXT_def WEBSOCKET_OPCODE_BINARY_def WEBSOCKET_OPCODE_PING_def
      WEBSOCKET_OPCODE_PONG_def WEBSOCKET_OPCODE_CLOSE_def)

text \<open>The frame that a header announces.\<close>

definition announces :: "ws_frame \<Rightarrow> uint8 \<Rightarrow> uint8 list \<Rightarrow> nat \<Rightarrow> bool" where
  "announces fr opc key n \<longleftrightarrow> fr_step fr = 3 \<and> fr_opcode fr = opc \<and> fr_mask fr \<and> fr_mask_key fr = key
     \<and> unat (fr_payload_len fr) = n \<and> fr_payload fr = None \<and> \<not> fr_rsv1 fr \<and> length (fr_header fr) = 8"

lemma read_masked_header:
  assumes f: "at_start f" and opc: "plain_opcode opc" and key: "length key = 4" and n: "n < 2 ^ 64" and open_env: "\<not> wc_closed env"
  obtains fr where "\<And>av. websocket_reading_loop env idle f 0 (masked_header opc n @ key @ av) = websocket_reading_loop env idle (with_frame f fr) 0 av"
    and "announces fr opc key n"
proof -
  let ?b = "opc OR 0x80" and ?c = "of_nat (size_code n) OR 0x80 :: uint8"
  let ?g = "read_header f ?b ?c"
  have g: "length (fr_header (ws_frame_of ?g)) = 8" "unat (fr_payload_len (ws_frame_of ?g)) = size_code n" "fr_step (ws_frame_of ?g) = 1"
      "fr_opcode (ws_frame_of ?g) = opc" "fr_mask (ws_frame_of ?g)" "\<not> fr_rsv1 (ws_frame_of ?g)" "fr_payload (ws_frame_of ?g) = None"
    using f opc length_byte(2,3) [OF size_code_le [of n]] by (simp_all add: read_header_def at_start_def plain_opcode_def)
  obtain fr where fr: "\<And>av. read_real_size idle ?g 0 (size_bytes n @ av) = Ws_next (with_frame ?g fr) av"
      "\<exists>h. length h = 8 \<and> fr = (ws_frame_of ?g)\<lparr>fr_header := h, fr_payload_len := of_nat n, fr_step := 2\<rparr>"
    using read_size [OF g(1,2) n, of idle] by blast
  have fr2: "length (fr_header fr) = 8" "fr_step fr = 2" "fr_mask fr" "fr_payload_len fr = of_nat n" "fr_opcode fr = opc" "\<not> fr_rsv1 fr" "fr_payload fr = None"
    using fr(2) g by auto
  let ?fr = "fr\<lparr>fr_header := key @ drop 4 (fr_header fr), fr_mask_key := key, fr_step := 3\<rparr>"
  have gf: "with_frame ?g fr' = with_frame f fr'" for fr' by (simp add: read_header_def)
  have 1: "websocket_reading_iteration env idle f 0 (masked_header opc n @ av) = Some (Ws_next ?g (size_bytes n @ av))" for av
    using f open_env by (simp add: websocket_reading_iteration_def at_start_def masked_header_def read_start_header)
  have 2: "websocket_reading_iteration env idle ?g 0 (size_bytes n @ av) = Some (Ws_next (with_frame f fr) av)" for av
    using g(3) fr(1) open_env by (simp add: websocket_reading_iteration_def gf)
  have 3: "websocket_reading_iteration env idle (with_frame f fr) 0 (key @ av) = Some (Ws_next (with_frame f ?fr) av)" for av
    using fr2 open_env key by (simp add: websocket_reading_iteration_def read_mask_key_def Let_def ws_recv_enough)
  have "websocket_reading_loop env idle f 0 (masked_header opc n @ key @ av) = websocket_reading_loop env idle (with_frame f ?fr) 0 av" for av
    by (simp only: loop_next [OF 1] loop_next [OF 2] loop_next [OF 3])
  moreover have "announces ?fr opc key n"
    using fr2 n key by (simp add: announces_def unsigned_of_nat take_bit_nat_eq_self)
  ultimately show thesis by (rule that)
qed

subsection \<open>Data frames\<close>

text \<open>The server takes the message \<open>p\<close> of a frame: nothing fails, it is text or not, and it is not the heartbeat.\<close>

definition takes :: "ws_env \<Rightarrow> uint8 \<Rightarrow> uint8 list \<Rightarrow> bool" where
  "takes env opc p \<longleftrightarrow> wc_pub_websocket env \<and> \<not> wc_closed env \<and> wc_create_pool env \<and> wc_palloc env (if p = [] then 1 else length p)
     \<and> wc_palloc_msgbuf env \<and> wc_palloc_publish env
     \<and> (opc = WEBSOCKET_OPCODE_TEXT \<longrightarrow> is_utf8 (wc_utf8_decode env) p = Some True)
     \<and> (case wc_heartbeat env of None \<Rightarrow> True | Some (hb_in, hb_out) \<Rightarrow> hb_in \<noteq> p)"

lemma data_not_control: "opc = WEBSOCKET_OPCODE_TEXT \<or> opc = WEBSOCKET_OPCODE_BINARY \<Longrightarrow> \<not> is_control opc"
  by (auto simp: is_control_def WEBSOCKET_OPCODE_TEXT_def WEBSOCKET_OPCODE_BINARY_def WEBSOCKET_OPCODE_PING_def
      WEBSOCKET_OPCODE_PONG_def WEBSOCKET_OPCODE_CLOSE_def)

lemma data_frame_publishes:
  assumes "takes env opc p" and "fr_opcode (ws_frame_of f) = opc" and "\<not> fr_rsv1 (ws_frame_of f)" and "length (fr_header (ws_frame_of f)) = 8"
  obtains g where "\<And>av. data_frame env f p av = Some (Ws_retry g av)" "at_start g" "fr_last (ws_frame_of g) = None"
    "ws_events g = ws_events f @ [Ws_publish p (opc = WEBSOCKET_OPCODE_BINARY)]"
  by (rule that [of "with_frame (websocket_publish env p (opc = WEBSOCKET_OPCODE_BINARY) (ws_get_msgpool env f))
        ((ws_frame_of f)\<lparr>fr_step := 0, fr_last := None, fr_payload := None\<rparr>)"])
    (use assms in \<open>auto simp: takes_def data_frame_def Let_def websocket_heartbeat_def end_of_frame_def pool_frame at_start_def
       websocket_publish_def ws_get_msgpool_def emit_def split: option.splits\<close>)

lemma read_data_publishes:
  assumes t: "takes env opc p" and fr: "announces fr opc key (length p)" and opc: "opc = WEBSOCKET_OPCODE_TEXT \<or> opc = WEBSOCKET_OPCODE_BINARY"
  obtains g where "\<And>av. read_data env idle (with_frame f fr) (websocket_unmask_frame key p @ av) = Some (Ws_retry g av)" "at_start g"
    "fr_last (ws_frame_of g) = None" "ws_events g = ws_events f @ [Ws_publish p (opc = WEBSOCKET_OPCODE_BINARY)]"
proof -
  let ?f = "(ws_get_msgpool env (with_frame f fr))\<lparr>ws_frame_of := fr\<lparr>fr_payload := Some p, fr_last := Some 0\<rparr>\<rparr>"
  have pool: "ws_msg_pool (ws_get_msgpool env (with_frame f fr))" using t by (simp add: takes_def ws_get_msgpool_def)
  have alloc: "wc_palloc env (if length p = 0 then 1 else length p)" using t by (simp add: takes_def split: if_splits)
  have rd: "read_data env idle (with_frame f fr) (websocket_unmask_frame key p @ av) = data_frame env ?f p av" for av
  proof (cases "p = []")
    case True
    then show ?thesis using t fr pool alloc
      by (simp add: read_data_def Let_def announces_def takes_def pool_frame unmask_if_def from_last_def)
        (simp add: websocket_unmask_frame_def xor_range_def last_payload)
  next
    case False
    then show ?thesis using t fr pool alloc
      by (simp add: read_data_def Let_def announces_def takes_def pool_frame unmask_if_def from_last_def ws_recv_enough last_payload)
  qed
  have c: "fr_opcode (ws_frame_of ?f) = opc" "\<not> fr_rsv1 (ws_frame_of ?f)" "length (fr_header (ws_frame_of ?f)) = 8"
    using fr by (simp_all add: announces_def)
  obtain g where g: "\<And>av. data_frame env ?f p av = Some (Ws_retry g av)" "at_start g" "fr_last (ws_frame_of g) = None"
      "ws_events g = ws_events ?f @ [Ws_publish p (opc = WEBSOCKET_OPCODE_BINARY)]"
    using data_frame_publishes [OF t c] by blast
  then show thesis by (intro that [of g]) (simp_all add: rd ws_get_msgpool_def)
qed

lemma client_frame_masked: "length p < 2 ^ 64 \<Longrightarrow> client_frame opc key p = masked_header opc (length p) @ key @ websocket_unmask_frame key p"
  by (simp add: client_frame_def masked_header_def length_octets_bytes unmask_octets or.commute)

lemma read_client_frame:
  assumes f: "at_start f" and t: "takes env opc p" and opc: "opc = WEBSOCKET_OPCODE_TEXT \<or> opc = WEBSOCKET_OPCODE_BINARY"
    and key: "length key = 4" and len: "length p < 2 ^ 64"
  obtains g where "\<And>av. websocket_reading_loop env idle f 0 (client_frame opc key p @ av) = websocket_reading env idle g av" "at_start g"
    "fr_last (ws_frame_of g) = None" "ws_events g = ws_events f @ [Ws_publish p (opc = WEBSOCKET_OPCODE_BINARY)]"
proof -
  have c: "plain_opcode opc" "\<not> wc_closed env" using opc t by (auto simp: takes_def)
  obtain fr where fr: "\<And>av. websocket_reading_loop env idle f 0 (masked_header opc (length p) @ key @ av) = websocket_reading_loop env idle (with_frame f fr) 0 av"
      "announces fr opc key (length p)"
    using read_masked_header [OF f c(1) key len c(2)] by blast
  obtain g where g: "\<And>av. read_data env idle (with_frame f fr) (websocket_unmask_frame key p @ av) = Some (Ws_retry g av)" "at_start g"
      "fr_last (ws_frame_of g) = None" "ws_events g = ws_events f @ [Ws_publish p (opc = WEBSOCKET_OPCODE_BINARY)]"
    using read_data_publishes [OF t fr(2) opc, of idle f] by blast
  have it: "websocket_reading_iteration env idle (with_frame f fr) 0 (websocket_unmask_frame key p @ av) = Some (Ws_retry g av)" for av
    using fr(2) opc data_not_control [OF opc] c(2) g(1) by (auto simp: websocket_reading_iteration_def announces_def)
  have "websocket_reading_loop env idle f 0 (client_frame opc key p @ av) = websocket_reading env idle g av" for av
    using fr(1) loop_retry [OF it] by (simp add: client_frame_masked [OF len])
  then show thesis using g(2-4) by (rule that)
qed

lemma reading_nothing:
  assumes "at_start f" and "fr_last (ws_frame_of f) = None" and "wc_read_event env" and "\<not> wc_closed env"
  obtains g where "websocket_reading env NGX_AGAIN f [] = Some (ws_events f, Some g)" "at_start g"
proof -
  have "websocket_reading_iteration env NGX_AGAIN f 0 [] = Some (Ws_exit NGX_AGAIN f 0 [])"
    using assms by (simp add: websocket_reading_iteration_def read_start_def ws_recv_def at_start_def)
  from loop_exit [OF this] show thesis using assms
    by (intro that [of "set_last (Some 0) f"])
      (simp_all add: websocket_reading_def from_last_def websocket_reading_exit_def set_last_def at_start_def)
qed

text \<open>
  C9 The messages that clients send are published: from any sequence of final, masked text and binary frames of any size,
  sent as RFC 6455 says, the server publishes exactly the messages, unmasked, in their order, each once.
\<close>

theorem client_frames_published:
  assumes "at_start f" and "fr_last (ws_frame_of f) = None" and "wc_read_event env" and "\<not> wc_closed env"
    and "\<forall>(opc, key, p) \<in> set fs. (opc = WEBSOCKET_OPCODE_TEXT \<or> opc = WEBSOCKET_OPCODE_BINARY)
           \<and> length key = 4 \<and> length p < 2 ^ 64 \<and> takes env opc p"
  shows "\<exists>g. websocket_reading env NGX_AGAIN f (concat (map (\<lambda>(opc, key, p). client_frame opc key p) fs))
             = Some (ws_events f @ map (\<lambda>(opc, key, p). Ws_publish p (opc = WEBSOCKET_OPCODE_BINARY)) fs, Some g)
           \<and> at_start g"
  using assms(1,2,5)
proof (induction fs arbitrary: f)
  case Nil
  then show ?case using reading_nothing [OF Nil(1,2) assms(3,4)] by auto
next
  case (Cons c fs)
  obtain opc key p where c: "c = (opc, key, p)" by (cases c)
  then have "opc = WEBSOCKET_OPCODE_TEXT \<or> opc = WEBSOCKET_OPCODE_BINARY" "length key = 4" "length p < 2 ^ 64" "takes env opc p"
    using Cons.prems(3) by auto
  then obtain g where g: "\<And>av. websocket_reading_loop env NGX_AGAIN f 0 (client_frame opc key p @ av) = websocket_reading env NGX_AGAIN g av"
      "at_start g" "fr_last (ws_frame_of g) = None" "ws_events g = ws_events f @ [Ws_publish p (opc = WEBSOCKET_OPCODE_BINARY)]"
    using read_client_frame [OF Cons.prems(1)] by metis
  have "\<forall>(opc, key, p) \<in> set fs. (opc = WEBSOCKET_OPCODE_TEXT \<or> opc = WEBSOCKET_OPCODE_BINARY)
           \<and> length key = 4 \<and> length p < 2 ^ 64 \<and> takes env opc p"
    using Cons.prems(3) by auto
  from Cons.IH [OF g(2,3) this] show ?case
    using g(1,4) Cons.prems(2) by (simp add: c websocket_reading_def from_last_def)
qed

lemma sample_takes: "takes sample_env opc [0x41, 0x42]"
proof -
  have "is_utf8 dec [0x41, 0x42] = Some True" for dec
    by (subst is_utf8.simps, simp) (subst is_utf8.simps, simp, subst is_utf8.simps, simp)
  then show ?thesis by (simp add: takes_def)
qed

definition sample_frames :: "(uint8 \<times> uint8 list \<times> uint8 list) list" where
  "sample_frames = [(WEBSOCKET_OPCODE_TEXT, [1, 2, 3, 4], [0x41, 0x42]), (WEBSOCKET_OPCODE_BINARY, [5, 6, 7, 8], [0x41, 0x42])]"

theorem client_frames_published_witness:
  "\<exists>g. websocket_reading sample_env NGX_AGAIN sample_sub (concat (map (\<lambda>(opc, key, p). client_frame opc key p) sample_frames))
      = Some (ws_events sample_sub @ map (\<lambda>(opc, key, p). Ws_publish p (opc = WEBSOCKET_OPCODE_BINARY)) sample_frames, Some g)
    \<and> at_start g"
  by (rule client_frames_published) (auto simp: at_start_def websocket_init_frame_def sample_takes sample_frames_def)

subsection \<open>Reading returns\<close>

lemma is_utf8_returns:
  assumes "\<forall>p. p \<noteq> [] \<longrightarrow> fst (decode p) \<le> 0x10ffff \<longrightarrow> 0 < snd (decode p)"
  shows "\<exists>r. is_utf8 decode p = Some r"
proof (induction "length p" arbitrary: p rule: less_induct)
  case less
  show ?case
  proof (cases p)
    case Nil
    then show ?thesis by (auto simp: is_utf8.simps)
  next
    case (Cons c rest)
    have "\<exists>r. is_utf8 decode (drop (snd (decode p)) p) = Some r" if "fst (decode p) \<le> 0x10ffff"
      using assms that Cons by (intro less) auto
    moreover have "\<exists>r. is_utf8 decode rest = Some r" using Cons by (intro less) simp
    ultimately show ?thesis using Cons by (subst is_utf8.simps) (auto simp: case_prod_beta not_less Let_def)
  qed
qed

definition returns :: "'a option \<Rightarrow> bool" where
  "returns X \<longleftrightarrow> X \<noteq> None"

lemma returns_Some: "returns (Some x)"
  and returns_bind: "returns X \<Longrightarrow> (\<And>x. returns (K x)) \<Longrightarrow> returns (X \<bind> K)"
  and returns_if: "returns Y \<Longrightarrow> returns Z \<Longrightarrow> returns (if c then Y else Z)"
  and returns_prod: "(\<And>x y. returns (L x y)) \<Longrightarrow> returns (case P of (x, y) \<Rightarrow> L x y)"
  and returns_option: "returns Y \<Longrightarrow> (\<And>x. returns (K x)) \<Longrightarrow> returns (case X of None \<Rightarrow> Y | Some x \<Rightarrow> K x)"
  by (auto simp: returns_def split: option.split prod.split)

lemma send_returns:
  "returns (websocket_send_frame opc n (Some m) f)" "returns (websocket_send_frame opc 0 m' f)"
  "returns (websocket_send_close_frame code err f)" "returns (websocket_send_close_frame_cstr code str f)"
  by (auto simp: returns_def websocket_send_frame_def websocket_send_close_frame_cstr_def websocket_send_close_frame_def
      websocket_close_frame_chain_def websocket_frame_header_chain_def Let_def)

lemma heartbeat_returns: "returns (websocket_heartbeat env m g)"
  using send_returns(1) by (auto simp: returns_def websocket_heartbeat_def split: option.splits)

lemmas returns_intros = returns_Some returns_if returns_prod returns_option returns_bind send_returns heartbeat_returns

lemma control_frame_returns: "returns (control_frame f p av)"
  unfolding control_frame_def Let_def by (intro returns_intros)

lemma data_frame_returns:
  assumes "\<forall>p. p \<noteq> [] \<longrightarrow> fst (wc_utf8_decode env p) \<le> 0x10ffff \<longrightarrow> 0 < snd (wc_utf8_decode env p)"
  shows "returns (data_frame env f p av)"
proof -
  have "returns (is_utf8 (wc_utf8_decode env) m)" for m using is_utf8_returns [OF assms, of m] by (auto simp: returns_def)
  then show ?thesis unfolding data_frame_def Let_def by (intro returns_intros)
qed

lemma iteration_returns:
  assumes "\<forall>p. p \<noteq> [] \<longrightarrow> fst (wc_utf8_decode env p) \<le> 0x10ffff \<longrightarrow> 0 < snd (wc_utf8_decode env p)"
  shows "returns (websocket_reading_iteration env idle f k av)"
proof -
  have "returns (read_control idle f av)"
    unfolding read_control_def Let_def by (intro returns_intros control_frame_returns)
  moreover have "returns (read_data env idle f av)"
    unfolding read_data_def Let_def by (intro returns_intros data_frame_returns [OF assms])
  ultimately show ?thesis
    unfolding websocket_reading_iteration_def Let_def by (intro returns_intros)
qed



subsection \<open>Control frames\<close>

definition awaits_ping :: "ws_subscriber \<Rightarrow> nat \<Rightarrow> bool" where
  "awaits_ping f n \<longleftrightarrow> fr_step (ws_frame_of f) = 3 \<and> fr_opcode (ws_frame_of f) = WEBSOCKET_OPCODE_PING
     \<and> unat (fr_payload_len (ws_frame_of f)) = n \<and> length (fr_header (ws_frame_of f)) = 8"

lemma awaits_ping_iteration:
  "awaits_ping f n \<Longrightarrow> \<not> wc_closed env \<Longrightarrow> websocket_reading_iteration env idle f k av = read_control idle f av"
  by (simp add: awaits_ping_def websocket_reading_iteration_def is_control_def)

lemma ping_short:
  assumes "awaits_ping f n" and "n < 1024" and "length a < n" and env: "\<not> wc_closed env" "wc_read_event env"
  obtains g where "websocket_reading env NGX_AGAIN f a = Some (ws_events f, Some g)" "awaits_ping g n"
proof -
  let ?g = "with_frame f ((ws_frame_of f)\<lparr>fr_payload := Some (a @ replicate (n - length a) 0), fr_last := Some 0\<rparr>)"
  have "read_control NGX_AGAIN f a = Some (Ws_exit NGX_AGAIN ?g (length a) [])"
    using assms(1-3) by (simp add: read_control_def awaits_ping_def Let_def ws_recv_short)
  then have "websocket_reading_loop env NGX_AGAIN f k a = Some (websocket_reading_exit env NGX_AGAIN ?g (length a))" for k
    using loop_exit awaits_ping_iteration [OF assms(1) env(1)] by metis
  then show thesis using assms(1) env(2)
    by (intro that [of "set_last (Some (length a)) ?g"])
      (simp_all add: websocket_reading_def websocket_reading_exit_def awaits_ping_def set_last_def)
qed

lemma events_emit: "ws_events (with_frame (emit es f) fr) = ws_events f @ es"
  by (simp add: emit_def)

lemma ping_complete:
  assumes "awaits_ping f (length p)" and "length p < 1024" and "p \<noteq> []" and env: "\<not> wc_closed env" "wc_read_event env"
  obtains g where "websocket_reading env NGX_AGAIN f p
      = Some (ws_events f @ [Ws_output (websocket_frame_header WEBSOCKET_PONG_LAST_FRAME_BYTE (length p) @ unmask_if (ws_frame_of f) p)], Some g)"
    "at_start g"
proof -
  let ?q = "unmask_if (ws_frame_of f) p"
  let ?out = "websocket_frame_header WEBSOCKET_PONG_LAST_FRAME_BYTE (length p) @ ?q"
  let ?h = "with_frame (emit [Ws_output ?out] f) ((ws_frame_of f)\<lparr>fr_step := 0, fr_last := None, fr_payload := None\<rparr>)"
  have "length ?q = length p" by (simp add: unmask_if_def)
  with assms(3) have q: "length ?q = length p" "?q \<noteq> []" by auto
  have "read_control NGX_AGAIN f p = Some (Ws_retry ?h [])"
    using assms(1-3) q
    by (simp add: read_control_def awaits_ping_def Let_def ws_recv_enough control_frame_def websocket_send_frame_def
        websocket_frame_header_chain_def end_of_frame_def emit_def)
  then have r: "websocket_reading env NGX_AGAIN f p = websocket_reading env NGX_AGAIN ?h []"
    using loop_retry awaits_ping_iteration [OF assms(1) env(1)] by (metis websocket_reading_def)
  have "at_start ?h" "fr_last (ws_frame_of ?h) = None" using assms(1) by (simp_all add: at_start_def awaits_ping_def)
  from reading_nothing [OF this env(2,1)] show thesis using r by (metis that events_emit)
qed

text \<open>
  C40 The payload of a control frame that arrives in two pieces is lost: a ping that is received at once is answered with a pong that
  echoes its payload; when the same bytes come in two pieces the first piece is forgotten, no pong is sent, and the
  server goes on waiting for the whole payload, which it takes from the frames that follow.
\<close>

theorem split_ping_lost:
  assumes "awaits_ping f (length (a @ b))" and "length (a @ b) < 1024" and "a \<noteq> []" and "b \<noteq> []"
    and "\<not> wc_closed env" and "wc_read_event env"
  shows "(\<exists>g. websocket_reading env NGX_AGAIN f (a @ b)
            = Some (ws_events f @ [Ws_output (websocket_frame_header WEBSOCKET_PONG_LAST_FRAME_BYTE (length (a @ b))
                                     @ unmask_if (ws_frame_of f) (a @ b))], Some g) \<and> at_start g)
     \<and> (\<exists>g h. websocket_reading env NGX_AGAIN f a = Some (ws_events f, Some g)
            \<and> websocket_reading env NGX_AGAIN g b = Some (ws_events g, Some h) \<and> awaits_ping h (length (a @ b)))"
proof -
  have ab: "a @ b \<noteq> []" "length a < length (a @ b)" "length b < length (a @ b)" using assms(3,4) by simp_all
  obtain g where g: "websocket_reading env NGX_AGAIN f a = Some (ws_events f, Some g)" "awaits_ping g (length (a @ b))"
    using ping_short [OF assms(1,2) ab(2) assms(5,6)] by blast
  obtain h where h: "websocket_reading env NGX_AGAIN g b = Some (ws_events g, Some h)" "awaits_ping h (length (a @ b))"
    using ping_short [OF g(2) assms(2) ab(3) assms(5,6)] by blast
  show ?thesis
  proof (intro conjI)
    show "\<exists>g. websocket_reading env NGX_AGAIN f (a @ b)
        = Some (ws_events f @ [Ws_output (websocket_frame_header WEBSOCKET_PONG_LAST_FRAME_BYTE (length (a @ b))
                                 @ unmask_if (ws_frame_of f) (a @ b))], Some g) \<and> at_start g"
      by (rule ping_complete [OF assms(1,2) ab(1) assms(5,6)]) blast
  qed (use g h in blast)
qed

theorem split_ping_lost_witness:
  "\<exists>f g h. awaits_ping f 2 \<and> websocket_reading sample_env NGX_AGAIN f [7] = Some (ws_events f, Some g)
     \<and> websocket_reading sample_env NGX_AGAIN g [8] = Some (ws_events g, Some h) \<and> awaits_ping h 2"
proof -
  let ?f = "with_frame sample_sub (websocket_init_frame\<lparr>fr_step := 3, fr_opcode := WEBSOCKET_OPCODE_PING, fr_payload_len := 2\<rparr>)"
  have "awaits_ping ?f 2" by (simp add: awaits_ping_def websocket_init_frame_def)
  then show ?thesis using split_ping_lost [of ?f "[7]" "[8]" sample_env] by (auto simp: numeral_2_eq_2)
qed

subsection \<open>The closing handshake\<close>

text \<open>The code that is sent when \<open>code\<close> is asked for.\<close>

definition sent_code :: "uint16 \<Rightarrow> uint16" where
  "sent_code code = (if 1000 \<le> code \<and> code < 5000 \<and> code \<noteq> 1005 \<and> code \<noteq> 1006 then code else 1000)"

lemma close_frame_chain_octets:
  assumes "code \<noteq> 0" and "length reason \<le> 123"
  shows "websocket_close_frame_chain code (Some reason) =
    Some (0x88 # word_of_nat (2 + length reason) # be_octets 2 (unat (sent_code code)) @ reason)"
proof -
  define c where "c = (if code < 1000 \<or> code = 1005 \<or> code = 1006 \<or> 5000 \<le> code then CLOSE_NORMAL else code)"
  have c: "c = sent_code code" by (auto simp: c_def sent_code_def CLOSE_NORMAL_def not_less not_le)
  show ?thesis using assms
    by (simp add: websocket_close_frame_chain_def websocket_frame_header_chain_def websocket_frame_header_def Let_def c_def [symmetric]
        WEBSOCKET_CLOSE_LAST_FRAME_BYTE_def WEBSOCKET_OPCODE_CLOSE_def c network_octets add.commute)
qed

lemma load_be: "htons (load_le (be_octets 2 (unat c))) = c"
  unfolding network_octets [symmetric] by (simp add: load_store_le htons_htons)



end
