(* ===== verification/Msgpack.thy ===== *)
theory Msgpack
  imports Byte_Order
begin

text \<open>
  cmp.c: reading and writing MessagePack.

  The context is the error code, the buffer and the callbacks that read, skip and write; they are the caller's.  Every
  function of the source returns success or not, gives its result through pointers and may change the context: here it
  gives the result, or \<open>None\<close> for \<^verbatim>\<open>false\<close>, and the context.  An object is a tagged union.  Signed integers are
  words read with \<open>sint\<close>, a floating-point number is its bits.
\<close>

unbundle bit_operations_syntax

subsection \<open>Markers, types and errors\<close>

definition POSITIVE_FIXNUM_MARKER :: uint8 where "POSITIVE_FIXNUM_MARKER = 0x0"
definition FIXMAP_MARKER :: uint8 where "FIXMAP_MARKER = 0x80"
definition FIXARRAY_MARKER :: uint8 where "FIXARRAY_MARKER = 0x90"
definition FIXSTR_MARKER :: uint8 where "FIXSTR_MARKER = 0xA0"
definition NIL_MARKER :: uint8 where "NIL_MARKER = 0xC0"
definition FALSE_MARKER :: uint8 where "FALSE_MARKER = 0xC2"
definition TRUE_MARKER :: uint8 where "TRUE_MARKER = 0xC3"
definition BIN8_MARKER :: uint8 where "BIN8_MARKER = 0xC4"
definition BIN16_MARKER :: uint8 where "BIN16_MARKER = 0xC5"
definition BIN32_MARKER :: uint8 where "BIN32_MARKER = 0xC6"
definition EXT8_MARKER :: uint8 where "EXT8_MARKER = 0xC7"
definition EXT16_MARKER :: uint8 where "EXT16_MARKER = 0xC8"
definition EXT32_MARKER :: uint8 where "EXT32_MARKER = 0xC9"
definition FLOAT_MARKER :: uint8 where "FLOAT_MARKER = 0xCA"
definition DOUBLE_MARKER :: uint8 where "DOUBLE_MARKER = 0xCB"
definition U8_MARKER :: uint8 where "U8_MARKER = 0xCC"
definition U16_MARKER :: uint8 where "U16_MARKER = 0xCD"
definition U32_MARKER :: uint8 where "U32_MARKER = 0xCE"
definition U64_MARKER :: uint8 where "U64_MARKER = 0xCF"
definition S8_MARKER :: uint8 where "S8_MARKER = 0xD0"
definition S16_MARKER :: uint8 where "S16_MARKER = 0xD1"
definition S32_MARKER :: uint8 where "S32_MARKER = 0xD2"
definition S64_MARKER :: uint8 where "S64_MARKER = 0xD3"
definition FIXEXT1_MARKER :: uint8 where "FIXEXT1_MARKER = 0xD4"
definition FIXEXT2_MARKER :: uint8 where "FIXEXT2_MARKER = 0xD5"
definition FIXEXT4_MARKER :: uint8 where "FIXEXT4_MARKER = 0xD6"
definition FIXEXT8_MARKER :: uint8 where "FIXEXT8_MARKER = 0xD7"
definition FIXEXT16_MARKER :: uint8 where "FIXEXT16_MARKER = 0xD8"
definition STR8_MARKER :: uint8 where "STR8_MARKER = 0xD9"
definition STR16_MARKER :: uint8 where "STR16_MARKER = 0xDA"
definition STR32_MARKER :: uint8 where "STR32_MARKER = 0xDB"
definition ARRAY16_MARKER :: uint8 where "ARRAY16_MARKER = 0xDC"
definition ARRAY32_MARKER :: uint8 where "ARRAY32_MARKER = 0xDD"
definition MAP16_MARKER :: uint8 where "MAP16_MARKER = 0xDE"
definition MAP32_MARKER :: uint8 where "MAP32_MARKER = 0xDF"
definition NEGATIVE_FIXNUM_MARKER :: uint8 where "NEGATIVE_FIXNUM_MARKER = 0xE0"

lemmas marker_defs = POSITIVE_FIXNUM_MARKER_def FIXMAP_MARKER_def FIXARRAY_MARKER_def FIXSTR_MARKER_def NIL_MARKER_def FALSE_MARKER_def TRUE_MARKER_def BIN8_MARKER_def BIN16_MARKER_def BIN32_MARKER_def EXT8_MARKER_def EXT16_MARKER_def EXT32_MARKER_def FLOAT_MARKER_def DOUBLE_MARKER_def U8_MARKER_def U16_MARKER_def U32_MARKER_def U64_MARKER_def S8_MARKER_def S16_MARKER_def S32_MARKER_def S64_MARKER_def FIXEXT1_MARKER_def FIXEXT2_MARKER_def FIXEXT4_MARKER_def FIXEXT8_MARKER_def FIXEXT16_MARKER_def STR8_MARKER_def STR16_MARKER_def STR32_MARKER_def ARRAY16_MARKER_def ARRAY32_MARKER_def MAP16_MARKER_def MAP32_MARKER_def NEGATIVE_FIXNUM_MARKER_def

definition FIXARRAY_SIZE :: uint8 where "FIXARRAY_SIZE = 0xF"
definition FIXMAP_SIZE :: uint8 where "FIXMAP_SIZE = 0xF"
definition FIXSTR_SIZE :: uint8 where "FIXSTR_SIZE = 0x1F"

lemmas fix_size_defs = FIXARRAY_SIZE_def FIXMAP_SIZE_def FIXSTR_SIZE_def

datatype cmp_error =
    ERROR_NONE | STR_DATA_LENGTH_TOO_LONG_ERROR | BIN_DATA_LENGTH_TOO_LONG_ERROR | ARRAY_LENGTH_TOO_LONG_ERROR
  | MAP_LENGTH_TOO_LONG_ERROR | INPUT_VALUE_TOO_LARGE_ERROR | FIXED_VALUE_WRITING_ERROR | TYPE_MARKER_READING_ERROR
  | TYPE_MARKER_WRITING_ERROR | DATA_READING_ERROR | DATA_WRITING_ERROR | EXT_TYPE_READING_ERROR | EXT_TYPE_WRITING_ERROR
  | INVALID_TYPE_ERROR | LENGTH_READING_ERROR | LENGTH_WRITING_ERROR | SKIP_DEPTH_LIMIT_EXCEEDED_ERROR | INTERNAL_ERROR

datatype cmp_type =
    CMP_TYPE_POSITIVE_FIXNUM | CMP_TYPE_FIXMAP | CMP_TYPE_FIXARRAY | CMP_TYPE_FIXSTR | CMP_TYPE_NIL | CMP_TYPE_BOOLEAN
  | CMP_TYPE_BIN8 | CMP_TYPE_BIN16 | CMP_TYPE_BIN32 | CMP_TYPE_EXT8 | CMP_TYPE_EXT16 | CMP_TYPE_EXT32
  | CMP_TYPE_FLOAT | CMP_TYPE_DOUBLE | CMP_TYPE_UINT8 | CMP_TYPE_UINT16 | CMP_TYPE_UINT32 | CMP_TYPE_UINT64
  | CMP_TYPE_SINT8 | CMP_TYPE_SINT16 | CMP_TYPE_SINT32 | CMP_TYPE_SINT64 | CMP_TYPE_FIXEXT1 | CMP_TYPE_FIXEXT2
  | CMP_TYPE_FIXEXT4 | CMP_TYPE_FIXEXT8 | CMP_TYPE_FIXEXT16 | CMP_TYPE_STR8 | CMP_TYPE_STR16 | CMP_TYPE_STR32
  | CMP_TYPE_ARRAY16 | CMP_TYPE_ARRAY32 | CMP_TYPE_MAP16 | CMP_TYPE_MAP32 | CMP_TYPE_NEGATIVE_FIXNUM

text \<open>
  \<^verbatim>\<open>cmp_object_t\<close>: the type and a union.  The members of the union are told apart by their width; a member that is
  narrower than what was written is its low bytes, and bytes that were not written are 0.
\<close>

datatype cmp_object_data =
    As_boolean bool | As_8 uint8 | As_16 uint16 | As_32 uint32 | As_64 uint64 | As_ext uint8 uint32

record cmp_object =
  ob_type :: cmp_type
  ob_as :: cmp_object_data

fun as_64 :: "cmp_object_data \<Rightarrow> uint64" where
  "as_64 (As_boolean b) = (if b then 1 else 0)"
| "as_64 (As_8 x) = ucast x"
| "as_64 (As_16 x) = ucast x"
| "as_64 (As_32 x) = ucast x"
| "as_64 (As_64 x) = x"
| "as_64 (As_ext t sz) = ucast t OR push_bit 32 (ucast sz)"

abbreviation ob_u8 :: "cmp_object \<Rightarrow> uint8" where "ob_u8 obj \<equiv> ucast (as_64 (ob_as obj))"
abbreviation ob_u16 :: "cmp_object \<Rightarrow> uint16" where "ob_u16 obj \<equiv> ucast (as_64 (ob_as obj))"
abbreviation ob_u32 :: "cmp_object \<Rightarrow> uint32" where "ob_u32 obj \<equiv> ucast (as_64 (ob_as obj))"
abbreviation ob_u64 :: "cmp_object \<Rightarrow> uint64" where "ob_u64 obj \<equiv> as_64 (ob_as obj)"
abbreviation ob_boolean :: "cmp_object \<Rightarrow> bool" where "ob_boolean obj \<equiv> ob_u8 obj \<noteq> 0"
abbreviation ob_ext_type :: "cmp_object \<Rightarrow> uint8" where "ob_ext_type obj \<equiv> ucast (as_64 (ob_as obj))"
abbreviation ob_ext_size :: "cmp_object \<Rightarrow> uint32" where "ob_ext_size obj \<equiv> ucast (drop_bit 32 (as_64 (ob_as obj)))"

subsection \<open>Contexts\<close>

record 'b cmp_ctx =
  cx_error :: cmp_error
  cx_buf :: 'b
  cx_read :: "'b \<Rightarrow> nat \<Rightarrow> uint8 list option \<times> 'b"
  cx_skip :: "('b \<Rightarrow> nat \<Rightarrow> unit option \<times> 'b) option"
  cx_write :: "'b \<Rightarrow> uint8 list \<Rightarrow> nat \<times> 'b"

type_synonym ('b, 'a) cmp_res = "'a option \<times> 'b cmp_ctx"

definition cmp_init :: "'b \<Rightarrow> ('b \<Rightarrow> nat \<Rightarrow> uint8 list option \<times> 'b) \<Rightarrow> ('b \<Rightarrow> nat \<Rightarrow> unit option \<times> 'b) option \<Rightarrow>
    ('b \<Rightarrow> uint8 list \<Rightarrow> nat \<times> 'b) \<Rightarrow> 'b cmp_ctx" where
  "cmp_init buf rd sk wr = \<lparr>cx_error = ERROR_NONE, cx_buf = buf, cx_read = rd, cx_skip = sk, cx_write = wr\<rparr>"

text \<open>\<^verbatim>\<open>if (!f(ctx)) return false;\<close> and going on; \<^verbatim>\<open>ctx->error = e; return false\<close>.\<close>

definition cmp_bind :: "('b, 'a) cmp_res \<Rightarrow> ('a \<Rightarrow> 'b cmp_ctx \<Rightarrow> ('b, 'c) cmp_res) \<Rightarrow> ('b, 'c) cmp_res" where
  "cmp_bind r f = (case r of (None, ctx) \<Rightarrow> (None, ctx) | (Some x, ctx) \<Rightarrow> f x ctx)"

definition cmp_fail :: "cmp_error \<Rightarrow> 'b cmp_ctx \<Rightarrow> ('b, 'a) cmp_res" where
  "cmp_fail e ctx = (None, ctx\<lparr>cx_error := e\<rparr>)"

definition on_failure :: "cmp_error \<Rightarrow> ('b, 'a) cmp_res \<Rightarrow> ('b, 'a) cmp_res" where
  "on_failure e r = (case r of (None, ctx) \<Rightarrow> cmp_fail e ctx | (Some x, ctx) \<Rightarrow> (Some x, ctx))"

definition cmp_return :: "'a \<Rightarrow> 'b cmp_ctx \<Rightarrow> ('b, 'a) cmp_res" where
  "cmp_return x ctx = (Some x, ctx)"

text \<open>\<^verbatim>\<open>ctx->read(ctx, data, n)\<close>, and \<^verbatim>\<open>ctx->write(ctx, data, n)\<close> where its result is taken as a boolean.\<close>

definition ctx_read :: "nat \<Rightarrow> 'b cmp_ctx \<Rightarrow> ('b, uint8 list) cmp_res" where
  "ctx_read n ctx = (case cx_read ctx (cx_buf ctx) n of (r, b) \<Rightarrow> (r, ctx\<lparr>cx_buf := b\<rparr>))"

definition ctx_write :: "uint8 list \<Rightarrow> 'b cmp_ctx \<Rightarrow> ('b, unit) cmp_res" where
  "ctx_write bs ctx = (case cx_write ctx (cx_buf ctx) bs of (n, b) \<Rightarrow> (if n \<noteq> 0 then Some () else None, ctx\<lparr>cx_buf := b\<rparr>))"

subsection \<open>Byte order\<close>

definition be16 :: "uint16 \<Rightarrow> uint16" where
  "be16 x = load_le [byte_at x 1, byte_at x 0]"

definition be32 :: "uint32 \<Rightarrow> uint32" where
  "be32 x = load_le [byte_at x 3, byte_at x 2, byte_at x 1, byte_at x 0]"

definition be64 :: "uint64 \<Rightarrow> uint64" where
  "be64 x = load_le [byte_at x 7, byte_at x 6, byte_at x 5, byte_at x 4, byte_at x 3, byte_at x 2, byte_at x 1, byte_at x 0]"

definition decode_befloat :: "uint8 list \<Rightarrow> uint32" where
  "decode_befloat b = load_le [b ! 3, b ! 2, b ! 1, b ! 0]"

definition decode_bedouble :: "uint8 list \<Rightarrow> uint64" where
  "decode_bedouble b = load_le [b ! 7, b ! 6, b ! 5, b ! 4, b ! 3, b ! 2, b ! 1, b ! 0]"

subsection \<open>Bytes and markers\<close>

definition read_byte :: "'b cmp_ctx \<Rightarrow> ('b, uint8) cmp_res" where
  "read_byte ctx = cmp_bind (ctx_read 1 ctx) (\<lambda>bs. cmp_return (bs ! 0))"

definition write_byte :: "uint8 \<Rightarrow> 'b cmp_ctx \<Rightarrow> ('b, unit) cmp_res" where
  "write_byte x ctx = (case cx_write ctx (cx_buf ctx) [x] of (n, b) \<Rightarrow> (if n = 1 then Some () else None, ctx\<lparr>cx_buf := b\<rparr>))"

fun skip_bytewise :: "nat \<Rightarrow> 'b cmp_ctx \<Rightarrow> ('b, unit) cmp_res" where
  "skip_bytewise 0 ctx = cmp_return () ctx"
| "skip_bytewise (Suc n) ctx = cmp_bind (ctx_read 1 ctx) (\<lambda>_. skip_bytewise n)"

definition skip_bytes :: "nat \<Rightarrow> 'b cmp_ctx \<Rightarrow> ('b, unit) cmp_res" where
  "skip_bytes count ctx =
     (case cx_skip ctx of
        Some sk \<Rightarrow> (case sk (cx_buf ctx) count of (r, b) \<Rightarrow> (r, ctx\<lparr>cx_buf := b\<rparr>))
      | None \<Rightarrow> skip_bytewise count ctx)"

definition read_type_marker :: "'b cmp_ctx \<Rightarrow> ('b, uint8) cmp_res" where
  "read_type_marker ctx = on_failure TYPE_MARKER_READING_ERROR (read_byte ctx)"

definition write_type_marker :: "uint8 \<Rightarrow> 'b cmp_ctx \<Rightarrow> ('b, unit) cmp_res" where
  "write_type_marker marker ctx = on_failure TYPE_MARKER_WRITING_ERROR (write_byte marker ctx)"

definition write_fixed_value :: "uint8 \<Rightarrow> 'b cmp_ctx \<Rightarrow> ('b, unit) cmp_res" where
  "write_fixed_value v ctx = on_failure FIXED_VALUE_WRITING_ERROR (write_byte v ctx)"

definition type_marker_to_cmp_type :: "uint8 \<Rightarrow> cmp_type option" where
  "type_marker_to_cmp_type m =
     (if m \<le> 0x7F then Some CMP_TYPE_POSITIVE_FIXNUM
      else if m \<le> 0x8F then Some CMP_TYPE_FIXMAP
      else if m \<le> 0x9F then Some CMP_TYPE_FIXARRAY
      else if m \<le> 0xBF then Some CMP_TYPE_FIXSTR
      else if 0xE0 \<le> m then Some CMP_TYPE_NEGATIVE_FIXNUM
      else if m = NIL_MARKER then Some CMP_TYPE_NIL
      else if m = FALSE_MARKER then Some CMP_TYPE_BOOLEAN
      else if m = TRUE_MARKER then Some CMP_TYPE_BOOLEAN
      else if m = BIN8_MARKER then Some CMP_TYPE_BIN8
      else if m = BIN16_MARKER then Some CMP_TYPE_BIN16
      else if m = BIN32_MARKER then Some CMP_TYPE_BIN32
      else if m = EXT8_MARKER then Some CMP_TYPE_EXT8
      else if m = EXT16_MARKER then Some CMP_TYPE_EXT16
      else if m = EXT32_MARKER then Some CMP_TYPE_EXT32
      else if m = FLOAT_MARKER then Some CMP_TYPE_FLOAT
      else if m = DOUBLE_MARKER then Some CMP_TYPE_DOUBLE
      else if m = U8_MARKER then Some CMP_TYPE_UINT8
      else if m = U16_MARKER then Some CMP_TYPE_UINT16
      else if m = U32_MARKER then Some CMP_TYPE_UINT32
      else if m = U64_MARKER then Some CMP_TYPE_UINT64
      else if m = S8_MARKER then Some CMP_TYPE_SINT8
      else if m = S16_MARKER then Some CMP_TYPE_SINT16
      else if m = S32_MARKER then Some CMP_TYPE_SINT32
      else if m = S64_MARKER then Some CMP_TYPE_SINT64
      else if m = FIXEXT1_MARKER then Some CMP_TYPE_FIXEXT1
      else if m = FIXEXT2_MARKER then Some CMP_TYPE_FIXEXT2
      else if m = FIXEXT4_MARKER then Some CMP_TYPE_FIXEXT4
      else if m = FIXEXT8_MARKER then Some CMP_TYPE_FIXEXT8
      else if m = FIXEXT16_MARKER then Some CMP_TYPE_FIXEXT16
      else if m = STR8_MARKER then Some CMP_TYPE_STR8
      else if m = STR16_MARKER then Some CMP_TYPE_STR16
      else if m = STR32_MARKER then Some CMP_TYPE_STR32
      else if m = ARRAY16_MARKER then Some CMP_TYPE_ARRAY16
      else if m = ARRAY32_MARKER then Some CMP_TYPE_ARRAY32
      else if m = MAP16_MARKER then Some CMP_TYPE_MAP16
      else if m = MAP32_MARKER then Some CMP_TYPE_MAP32
      else None)"

definition read_size8 :: "cmp_error \<Rightarrow> 'b cmp_ctx \<Rightarrow> ('b, uint32) cmp_res" where
  "read_size8 e ctx = cmp_bind (on_failure e (ctx_read 1 ctx)) (\<lambda>bs. cmp_return (ucast (load_le bs :: uint8)))"

definition read_size16 :: "cmp_error \<Rightarrow> 'b cmp_ctx \<Rightarrow> ('b, uint32) cmp_res" where
  "read_size16 e ctx = cmp_bind (on_failure e (ctx_read 2 ctx)) (\<lambda>bs. cmp_return (ucast (be16 (load_le bs))))"

definition read_size32 :: "cmp_error \<Rightarrow> 'b cmp_ctx \<Rightarrow> ('b, uint32) cmp_res" where
  "read_size32 e ctx = cmp_bind (on_failure e (ctx_read 4 ctx)) (\<lambda>bs. cmp_return (be32 (load_le bs)))"

primrec read_type_size :: "uint8 \<Rightarrow> cmp_type \<Rightarrow> 'b cmp_ctx \<Rightarrow> ('b, uint32) cmp_res" where
  "read_type_size m CMP_TYPE_POSITIVE_FIXNUM ctx = cmp_return 0 ctx"
| "read_type_size m CMP_TYPE_FIXMAP ctx = cmp_return (ucast (m AND FIXMAP_SIZE)) ctx"
| "read_type_size m CMP_TYPE_FIXARRAY ctx = cmp_return (ucast (m AND FIXARRAY_SIZE)) ctx"
| "read_type_size m CMP_TYPE_FIXSTR ctx = cmp_return (ucast (m AND FIXSTR_SIZE)) ctx"
| "read_type_size m CMP_TYPE_NIL ctx = cmp_return 0 ctx"
| "read_type_size m CMP_TYPE_BOOLEAN ctx = cmp_return 0 ctx"
| "read_type_size m CMP_TYPE_BIN8 ctx = read_size8 LENGTH_READING_ERROR ctx"
| "read_type_size m CMP_TYPE_BIN16 ctx = read_size16 LENGTH_READING_ERROR ctx"
| "read_type_size m CMP_TYPE_BIN32 ctx = read_size32 LENGTH_READING_ERROR ctx"
| "read_type_size m CMP_TYPE_EXT8 ctx = read_size8 LENGTH_READING_ERROR ctx"
| "read_type_size m CMP_TYPE_EXT16 ctx = read_size16 LENGTH_READING_ERROR ctx"
| "read_type_size m CMP_TYPE_EXT32 ctx = read_size32 LENGTH_READING_ERROR ctx"
| "read_type_size m CMP_TYPE_FLOAT ctx = cmp_return 4 ctx"
| "read_type_size m CMP_TYPE_DOUBLE ctx = cmp_return 8 ctx"
| "read_type_size m CMP_TYPE_UINT8 ctx = cmp_return 1 ctx"
| "read_type_size m CMP_TYPE_UINT16 ctx = cmp_return 2 ctx"
| "read_type_size m CMP_TYPE_UINT32 ctx = cmp_return 4 ctx"
| "read_type_size m CMP_TYPE_UINT64 ctx = cmp_return 8 ctx"
| "read_type_size m CMP_TYPE_SINT8 ctx = cmp_return 1 ctx"
| "read_type_size m CMP_TYPE_SINT16 ctx = cmp_return 2 ctx"
| "read_type_size m CMP_TYPE_SINT32 ctx = cmp_return 4 ctx"
| "read_type_size m CMP_TYPE_SINT64 ctx = cmp_return 8 ctx"
| "read_type_size m CMP_TYPE_FIXEXT1 ctx = cmp_return 1 ctx"
| "read_type_size m CMP_TYPE_FIXEXT2 ctx = cmp_return 2 ctx"
| "read_type_size m CMP_TYPE_FIXEXT4 ctx = cmp_return 4 ctx"
| "read_type_size m CMP_TYPE_FIXEXT8 ctx = cmp_return 8 ctx"
| "read_type_size m CMP_TYPE_FIXEXT16 ctx = cmp_return 16 ctx"
| "read_type_size m CMP_TYPE_STR8 ctx = read_size8 DATA_READING_ERROR ctx"
| "read_type_size m CMP_TYPE_STR16 ctx = read_size16 DATA_READING_ERROR ctx"
| "read_type_size m CMP_TYPE_STR32 ctx = read_size32 DATA_READING_ERROR ctx"
| "read_type_size m CMP_TYPE_ARRAY16 ctx = read_size16 DATA_READING_ERROR ctx"
| "read_type_size m CMP_TYPE_ARRAY32 ctx = read_size32 DATA_READING_ERROR ctx"
| "read_type_size m CMP_TYPE_MAP16 ctx = read_size16 DATA_READING_ERROR ctx"
| "read_type_size m CMP_TYPE_MAP32 ctx = read_size32 DATA_READING_ERROR ctx"
| "read_type_size m CMP_TYPE_NEGATIVE_FIXNUM ctx = cmp_return 0 ctx"

definition object :: "cmp_type \<Rightarrow> cmp_object_data \<Rightarrow> cmp_object" where
  "object t d = \<lparr>ob_type = t, ob_as = d\<rparr>"

text \<open>Reading the data of an object; the integers come most significant byte first.\<close>

definition read_data8 :: "cmp_type \<Rightarrow> 'b cmp_ctx \<Rightarrow> ('b, cmp_object) cmp_res" where
  "read_data8 t ctx = cmp_bind (on_failure DATA_READING_ERROR (ctx_read 1 ctx)) (\<lambda>bs. cmp_return (object t (As_8 (load_le bs))))"

definition read_data16 :: "cmp_type \<Rightarrow> 'b cmp_ctx \<Rightarrow> ('b, cmp_object) cmp_res" where
  "read_data16 t ctx = cmp_bind (on_failure DATA_READING_ERROR (ctx_read 2 ctx)) (\<lambda>bs. cmp_return (object t (As_16 (be16 (load_le bs)))))"

definition read_data32 :: "cmp_type \<Rightarrow> 'b cmp_ctx \<Rightarrow> ('b, cmp_object) cmp_res" where
  "read_data32 t ctx = cmp_bind (on_failure DATA_READING_ERROR (ctx_read 4 ctx)) (\<lambda>bs. cmp_return (object t (As_32 (be32 (load_le bs)))))"

definition read_data64 :: "cmp_type \<Rightarrow> 'b cmp_ctx \<Rightarrow> ('b, cmp_object) cmp_res" where
  "read_data64 t ctx = cmp_bind (on_failure DATA_READING_ERROR (ctx_read 8 ctx)) (\<lambda>bs. cmp_return (object t (As_64 (be64 (load_le bs)))))"

definition read_ext_type :: "cmp_type \<Rightarrow> uint32 \<Rightarrow> 'b cmp_ctx \<Rightarrow> ('b, cmp_object) cmp_res" where
  "read_ext_type t sz ctx = cmp_bind (on_failure EXT_TYPE_READING_ERROR (ctx_read 1 ctx)) (\<lambda>bs. cmp_return (object t (As_ext (load_le bs) sz)))"

primrec read_obj_data :: "uint8 \<Rightarrow> cmp_type \<Rightarrow> 'b cmp_ctx \<Rightarrow> ('b, cmp_object) cmp_res" where
  "read_obj_data m CMP_TYPE_POSITIVE_FIXNUM ctx = cmp_return (object CMP_TYPE_POSITIVE_FIXNUM (As_8 m)) ctx"
| "read_obj_data m CMP_TYPE_NEGATIVE_FIXNUM ctx = cmp_return (object CMP_TYPE_NEGATIVE_FIXNUM (As_8 m)) ctx"
| "read_obj_data m CMP_TYPE_NIL ctx = cmp_return (object CMP_TYPE_NIL (As_8 0)) ctx"
| "read_obj_data m CMP_TYPE_BOOLEAN ctx =
     (if m = TRUE_MARKER then cmp_return (object CMP_TYPE_BOOLEAN (As_boolean True)) ctx
      else if m = FALSE_MARKER then cmp_return (object CMP_TYPE_BOOLEAN (As_boolean False)) ctx
      else cmp_fail INTERNAL_ERROR ctx)"
| "read_obj_data m CMP_TYPE_UINT8 ctx = read_data8 CMP_TYPE_UINT8 ctx"
| "read_obj_data m CMP_TYPE_UINT16 ctx = read_data16 CMP_TYPE_UINT16 ctx"
| "read_obj_data m CMP_TYPE_UINT32 ctx = read_data32 CMP_TYPE_UINT32 ctx"
| "read_obj_data m CMP_TYPE_UINT64 ctx = read_data64 CMP_TYPE_UINT64 ctx"
| "read_obj_data m CMP_TYPE_SINT8 ctx = read_data8 CMP_TYPE_SINT8 ctx"
| "read_obj_data m CMP_TYPE_SINT16 ctx = read_data16 CMP_TYPE_SINT16 ctx"
| "read_obj_data m CMP_TYPE_SINT32 ctx = read_data32 CMP_TYPE_SINT32 ctx"
| "read_obj_data m CMP_TYPE_SINT64 ctx = read_data64 CMP_TYPE_SINT64 ctx"
| "read_obj_data m CMP_TYPE_FLOAT ctx =
     cmp_bind (on_failure DATA_READING_ERROR (ctx_read 4 ctx)) (\<lambda>bs. cmp_return (object CMP_TYPE_FLOAT (As_32 (decode_befloat bs))))"
| "read_obj_data m CMP_TYPE_DOUBLE ctx =
     cmp_bind (on_failure DATA_READING_ERROR (ctx_read 8 ctx)) (\<lambda>bs. cmp_return (object CMP_TYPE_DOUBLE (As_64 (decode_bedouble bs))))"
| "read_obj_data m CMP_TYPE_BIN8 ctx = cmp_bind (read_type_size m CMP_TYPE_BIN8 ctx) (\<lambda>sz. cmp_return (object CMP_TYPE_BIN8 (As_32 sz)))"
| "read_obj_data m CMP_TYPE_BIN16 ctx = cmp_bind (read_type_size m CMP_TYPE_BIN16 ctx) (\<lambda>sz. cmp_return (object CMP_TYPE_BIN16 (As_32 sz)))"
| "read_obj_data m CMP_TYPE_BIN32 ctx = cmp_bind (read_type_size m CMP_TYPE_BIN32 ctx) (\<lambda>sz. cmp_return (object CMP_TYPE_BIN32 (As_32 sz)))"
| "read_obj_data m CMP_TYPE_FIXSTR ctx = cmp_bind (read_type_size m CMP_TYPE_FIXSTR ctx) (\<lambda>sz. cmp_return (object CMP_TYPE_FIXSTR (As_32 sz)))"
| "read_obj_data m CMP_TYPE_STR8 ctx = cmp_bind (read_type_size m CMP_TYPE_STR8 ctx) (\<lambda>sz. cmp_return (object CMP_TYPE_STR8 (As_32 sz)))"
| "read_obj_data m CMP_TYPE_STR16 ctx = cmp_bind (read_type_size m CMP_TYPE_STR16 ctx) (\<lambda>sz. cmp_return (object CMP_TYPE_STR16 (As_32 sz)))"
| "read_obj_data m CMP_TYPE_STR32 ctx = cmp_bind (read_type_size m CMP_TYPE_STR32 ctx) (\<lambda>sz. cmp_return (object CMP_TYPE_STR32 (As_32 sz)))"
| "read_obj_data m CMP_TYPE_FIXARRAY ctx = cmp_bind (read_type_size m CMP_TYPE_FIXARRAY ctx) (\<lambda>sz. cmp_return (object CMP_TYPE_FIXARRAY (As_32 sz)))"
| "read_obj_data m CMP_TYPE_ARRAY16 ctx = cmp_bind (read_type_size m CMP_TYPE_ARRAY16 ctx) (\<lambda>sz. cmp_return (object CMP_TYPE_ARRAY16 (As_32 sz)))"
| "read_obj_data m CMP_TYPE_ARRAY32 ctx = cmp_bind (read_type_size m CMP_TYPE_ARRAY32 ctx) (\<lambda>sz. cmp_return (object CMP_TYPE_ARRAY32 (As_32 sz)))"
| "read_obj_data m CMP_TYPE_FIXMAP ctx = cmp_bind (read_type_size m CMP_TYPE_FIXMAP ctx) (\<lambda>sz. cmp_return (object CMP_TYPE_FIXMAP (As_32 sz)))"
| "read_obj_data m CMP_TYPE_MAP16 ctx = cmp_bind (read_type_size m CMP_TYPE_MAP16 ctx) (\<lambda>sz. cmp_return (object CMP_TYPE_MAP16 (As_32 sz)))"
| "read_obj_data m CMP_TYPE_MAP32 ctx = cmp_bind (read_type_size m CMP_TYPE_MAP32 ctx) (\<lambda>sz. cmp_return (object CMP_TYPE_MAP32 (As_32 sz)))"
| "read_obj_data m CMP_TYPE_FIXEXT1 ctx = read_ext_type CMP_TYPE_FIXEXT1 1 ctx"
| "read_obj_data m CMP_TYPE_FIXEXT2 ctx = read_ext_type CMP_TYPE_FIXEXT2 2 ctx"
| "read_obj_data m CMP_TYPE_FIXEXT4 ctx = read_ext_type CMP_TYPE_FIXEXT4 4 ctx"
| "read_obj_data m CMP_TYPE_FIXEXT8 ctx = read_ext_type CMP_TYPE_FIXEXT8 8 ctx"
| "read_obj_data m CMP_TYPE_FIXEXT16 ctx = read_ext_type CMP_TYPE_FIXEXT16 16 ctx"
| "read_obj_data m CMP_TYPE_EXT8 ctx = cmp_bind (read_type_size m CMP_TYPE_EXT8 ctx) (read_ext_type CMP_TYPE_EXT8)"
| "read_obj_data m CMP_TYPE_EXT16 ctx = cmp_bind (read_type_size m CMP_TYPE_EXT16 ctx) (read_ext_type CMP_TYPE_EXT16)"
| "read_obj_data m CMP_TYPE_EXT32 ctx = cmp_bind (read_type_size m CMP_TYPE_EXT32 ctx) (read_ext_type CMP_TYPE_EXT32)"

definition cmp_read_object :: "'b cmp_ctx \<Rightarrow> ('b, cmp_object) cmp_res" where
  "cmp_read_object ctx = cmp_bind (read_type_marker ctx) (\<lambda>m ctx.
     case type_marker_to_cmp_type m of
       None \<Rightarrow> cmp_fail INVALID_TYPE_ERROR ctx
     | Some t \<Rightarrow> read_obj_data m t ctx)"

end
