(* ===== verification/Msgpack_Write.thy ===== *)
theory Msgpack_Write
  imports Msgpack
begin

text \<open>
  cmp.c: the functions that write MessagePack.  Data is given as a list of bytes of which \<open>sz\<close> are written.
\<close>

unbundle bit_operations_syntax

definition cmp_write_pfix :: "uint8 \<Rightarrow> 'b cmp_ctx \<Rightarrow> ('b, unit) cmp_res" where
  "cmp_write_pfix c ctx = (if c \<le> 0x7F then write_fixed_value c ctx else cmp_fail INPUT_VALUE_TOO_LARGE_ERROR ctx)"

definition cmp_write_nfix :: "uint8 \<Rightarrow> 'b cmp_ctx \<Rightarrow> ('b, unit) cmp_res" where
  "cmp_write_nfix c ctx = 
     (if -32 \<le> sint c \<and> sint c \<le> -1 then write_fixed_value c ctx else cmp_fail INPUT_VALUE_TOO_LARGE_ERROR ctx)"

definition cmp_write_sfix :: "uint8 \<Rightarrow> 'b cmp_ctx \<Rightarrow> ('b, unit) cmp_res" where
  "cmp_write_sfix c ctx = 
     (if 0 \<le> sint c then cmp_write_pfix c ctx
      else if -32 \<le> sint c \<and> sint c \<le> -1 then cmp_write_nfix c ctx
      else cmp_fail INPUT_VALUE_TOO_LARGE_ERROR ctx)"

definition cmp_write_s8 :: "uint8 \<Rightarrow> 'b cmp_ctx \<Rightarrow> ('b, unit) cmp_res" where
  "cmp_write_s8 c ctx = cmp_bind (write_type_marker S8_MARKER ctx) (\<lambda>_. ctx_write [c])"

definition cmp_write_s16 :: "uint16 \<Rightarrow> 'b cmp_ctx \<Rightarrow> ('b, unit) cmp_res" where
  "cmp_write_s16 x ctx = cmp_bind (write_type_marker S16_MARKER ctx) (\<lambda>_. ctx_write (store_le 2 (be16 x)))"

definition cmp_write_s32 :: "uint32 \<Rightarrow> 'b cmp_ctx \<Rightarrow> ('b, unit) cmp_res" where
  "cmp_write_s32 x ctx = cmp_bind (write_type_marker S32_MARKER ctx) (\<lambda>_. ctx_write (store_le 4 (be32 x)))"

definition cmp_write_s64 :: "uint64 \<Rightarrow> 'b cmp_ctx \<Rightarrow> ('b, unit) cmp_res" where
  "cmp_write_s64 x ctx = cmp_bind (write_type_marker S64_MARKER ctx) (\<lambda>_. ctx_write (store_le 8 (be64 x)))"

definition cmp_write_u8 :: "uint8 \<Rightarrow> 'b cmp_ctx \<Rightarrow> ('b, unit) cmp_res" where
  "cmp_write_u8 c ctx = cmp_bind (write_type_marker U8_MARKER ctx) (\<lambda>_. ctx_write [c])"

definition cmp_write_u16 :: "uint16 \<Rightarrow> 'b cmp_ctx \<Rightarrow> ('b, unit) cmp_res" where
  "cmp_write_u16 x ctx = cmp_bind (write_type_marker U16_MARKER ctx) (\<lambda>_. ctx_write (store_le 2 (be16 x)))"

definition cmp_write_u32 :: "uint32 \<Rightarrow> 'b cmp_ctx \<Rightarrow> ('b, unit) cmp_res" where
  "cmp_write_u32 x ctx = cmp_bind (write_type_marker U32_MARKER ctx) (\<lambda>_. ctx_write (store_le 4 (be32 x)))"

definition cmp_write_u64 :: "uint64 \<Rightarrow> 'b cmp_ctx \<Rightarrow> ('b, unit) cmp_res" where
  "cmp_write_u64 x ctx = cmp_bind (write_type_marker U64_MARKER ctx) (\<lambda>_. ctx_write (store_le 8 (be64 x)))"

definition cmp_write_ufix :: "uint8 \<Rightarrow> 'b cmp_ctx \<Rightarrow> ('b, unit) cmp_res" where
  "cmp_write_ufix c ctx = cmp_write_pfix c ctx"

definition cmp_write_uinteger :: "uint64 \<Rightarrow> 'b cmp_ctx \<Rightarrow> ('b, unit) cmp_res" where
  "cmp_write_uinteger u ctx = 
     (if u \<le> 0x7F then cmp_write_pfix (ucast u) ctx
      else if u \<le> 0xFF then cmp_write_u8 (ucast u) ctx
      else if u \<le> 0xFFFF then cmp_write_u16 (ucast u) ctx
      else if u \<le> 0xFFFFFFFF then cmp_write_u32 (ucast u) ctx
      else cmp_write_u64 u ctx)"

definition cmp_write_integer :: "uint64 \<Rightarrow> 'b cmp_ctx \<Rightarrow> ('b, unit) cmp_res" where
  "cmp_write_integer d ctx = 
     (if 0 \<le> sint d then cmp_write_uinteger d ctx
      else if -32 \<le> sint d then cmp_write_nfix (ucast d) ctx
      else if -128 \<le> sint d then cmp_write_s8 (ucast d) ctx
      else if -32768 \<le> sint d then cmp_write_s16 (ucast d) ctx
      else if -2147483647 - 1 \<le> sint d then cmp_write_s32 (ucast d) ctx
      else cmp_write_s64 d ctx)"

definition cmp_write_float :: "uint32 \<Rightarrow> 'b cmp_ctx \<Rightarrow> ('b, unit) cmp_res" where
  "cmp_write_float f ctx = cmp_bind (write_type_marker FLOAT_MARKER ctx) (\<lambda>_. ctx_write (rev (store_le 4 f)))"

definition cmp_write_double :: "uint64 \<Rightarrow> 'b cmp_ctx \<Rightarrow> ('b, unit) cmp_res" where
  "cmp_write_double d ctx = cmp_bind (write_type_marker DOUBLE_MARKER ctx) (\<lambda>_. ctx_write (rev (store_le 8 d)))"

text \<open>The conversions between the two floating-point types and the comparison are C's, as parameters.\<close>

definition cmp_write_decimal :: "(uint64 \<Rightarrow> uint32) \<Rightarrow> (uint32 \<Rightarrow> uint64) \<Rightarrow> (uint64 \<Rightarrow> uint64 \<Rightarrow> bool) \<Rightarrow> uint64 \<Rightarrow> 'b cmp_ctx \<Rightarrow> ('b, unit) cmp_res" where
  "cmp_write_decimal to_float to_double eq d ctx = 
     (if eq (to_double (to_float d)) d then cmp_write_float (to_float d) ctx else cmp_write_double d ctx)"

definition cmp_write_nil :: "'b cmp_ctx \<Rightarrow> ('b, unit) cmp_res" where
  "cmp_write_nil ctx = write_type_marker NIL_MARKER ctx"

definition cmp_write_true :: "'b cmp_ctx \<Rightarrow> ('b, unit) cmp_res" where
  "cmp_write_true ctx = write_type_marker TRUE_MARKER ctx"

definition cmp_write_false :: "'b cmp_ctx \<Rightarrow> ('b, unit) cmp_res" where
  "cmp_write_false ctx = write_type_marker FALSE_MARKER ctx"

definition cmp_write_bool :: "bool \<Rightarrow> 'b cmp_ctx \<Rightarrow> ('b, unit) cmp_res" where
  "cmp_write_bool b ctx = (if b then cmp_write_true ctx else cmp_write_false ctx)"

definition cmp_write_u8_as_bool :: "uint8 \<Rightarrow> 'b cmp_ctx \<Rightarrow> ('b, unit) cmp_res" where
  "cmp_write_u8_as_bool b ctx = (if b \<noteq> 0 then cmp_write_true ctx else cmp_write_false ctx)"

definition write_sized :: "uint8 list \<Rightarrow> nat \<Rightarrow> 'b cmp_ctx \<Rightarrow> ('b, unit) cmp_res" where
  "write_sized data n ctx = (if n = 0 then cmp_return () ctx else on_failure DATA_WRITING_ERROR (ctx_write (take n data) ctx))"

definition cmp_write_fixstr_marker :: "uint8 \<Rightarrow> 'b cmp_ctx \<Rightarrow> ('b, unit) cmp_res" where
  "cmp_write_fixstr_marker sz ctx = 
     (if sz \<le> FIXSTR_SIZE then write_fixed_value (FIXSTR_MARKER OR sz) ctx else cmp_fail INPUT_VALUE_TOO_LARGE_ERROR ctx)"

definition cmp_write_fixstr :: "uint8 list \<Rightarrow> uint8 \<Rightarrow> 'b cmp_ctx \<Rightarrow> ('b, unit) cmp_res" where
  "cmp_write_fixstr data sz ctx = cmp_bind (cmp_write_fixstr_marker sz ctx) (\<lambda>_. write_sized data (unat sz))"

definition cmp_write_str8_marker :: "uint8 \<Rightarrow> 'b cmp_ctx \<Rightarrow> ('b, unit) cmp_res" where
  "cmp_write_str8_marker sz ctx = 
     cmp_bind (write_type_marker STR8_MARKER ctx) (\<lambda>_ ctx. on_failure LENGTH_WRITING_ERROR (ctx_write [sz] ctx))"

definition cmp_write_str8 :: "uint8 list \<Rightarrow> uint8 \<Rightarrow> 'b cmp_ctx \<Rightarrow> ('b, unit) cmp_res" where
  "cmp_write_str8 data sz ctx = cmp_bind (cmp_write_str8_marker sz ctx) (\<lambda>_. write_sized data (unat sz))"

definition cmp_write_str16_marker :: "uint16 \<Rightarrow> 'b cmp_ctx \<Rightarrow> ('b, unit) cmp_res" where
  "cmp_write_str16_marker sz ctx = 
     cmp_bind (write_type_marker STR16_MARKER ctx) (\<lambda>_ ctx. on_failure LENGTH_WRITING_ERROR (ctx_write (store_le 2 (be16 sz)) ctx))"

definition cmp_write_str16 :: "uint8 list \<Rightarrow> uint16 \<Rightarrow> 'b cmp_ctx \<Rightarrow> ('b, unit) cmp_res" where
  "cmp_write_str16 data sz ctx = cmp_bind (cmp_write_str16_marker sz ctx) (\<lambda>_. write_sized data (unat sz))"

definition cmp_write_str32_marker :: "uint32 \<Rightarrow> 'b cmp_ctx \<Rightarrow> ('b, unit) cmp_res" where
  "cmp_write_str32_marker sz ctx = 
     cmp_bind (write_type_marker STR32_MARKER ctx) (\<lambda>_ ctx. on_failure LENGTH_WRITING_ERROR (ctx_write (store_le 4 (be32 sz)) ctx))"

definition cmp_write_str32 :: "uint8 list \<Rightarrow> uint32 \<Rightarrow> 'b cmp_ctx \<Rightarrow> ('b, unit) cmp_res" where
  "cmp_write_str32 data sz ctx = cmp_bind (cmp_write_str32_marker sz ctx) (\<lambda>_. write_sized data (unat sz))"

definition cmp_write_str_marker :: "uint32 \<Rightarrow> 'b cmp_ctx \<Rightarrow> ('b, unit) cmp_res" where
  "cmp_write_str_marker sz ctx = 
     (if sz \<le> ucast FIXSTR_SIZE then cmp_write_fixstr_marker (ucast sz) ctx
      else if sz \<le> 0xFF then cmp_write_str8_marker (ucast sz) ctx
      else if sz \<le> 0xFFFF then cmp_write_str16_marker (ucast sz) ctx
      else cmp_write_str32_marker sz ctx)"

definition cmp_write_str_marker_v4 :: "uint32 \<Rightarrow> 'b cmp_ctx \<Rightarrow> ('b, unit) cmp_res" where
  "cmp_write_str_marker_v4 sz ctx = 
     (if sz \<le> ucast FIXSTR_SIZE then cmp_write_fixstr_marker (ucast sz) ctx
      else if sz \<le> 0xFFFF then cmp_write_str16_marker (ucast sz) ctx
      else cmp_write_str32_marker sz ctx)"

definition cmp_write_str :: "uint8 list \<Rightarrow> uint32 \<Rightarrow> 'b cmp_ctx \<Rightarrow> ('b, unit) cmp_res" where
  "cmp_write_str data sz ctx = 
     (if sz \<le> ucast FIXSTR_SIZE then cmp_write_fixstr data (ucast sz) ctx
      else if sz \<le> 0xFF then cmp_write_str8 data (ucast sz) ctx
      else if sz \<le> 0xFFFF then cmp_write_str16 data (ucast sz) ctx
      else cmp_write_str32 data sz ctx)"

definition cmp_write_str_v4 :: "uint8 list \<Rightarrow> uint32 \<Rightarrow> 'b cmp_ctx \<Rightarrow> ('b, unit) cmp_res" where
  "cmp_write_str_v4 data sz ctx = 
     (if sz \<le> ucast FIXSTR_SIZE then cmp_write_fixstr data (ucast sz) ctx
      else if sz \<le> 0xFFFF then cmp_write_str16 data (ucast sz) ctx
      else cmp_write_str32 data sz ctx)"

definition cmp_write_bin8_marker :: "uint8 \<Rightarrow> 'b cmp_ctx \<Rightarrow> ('b, unit) cmp_res" where
  "cmp_write_bin8_marker sz ctx = 
     cmp_bind (write_type_marker BIN8_MARKER ctx) (\<lambda>_ ctx. on_failure LENGTH_WRITING_ERROR (ctx_write [sz] ctx))"

definition cmp_write_bin8 :: "uint8 list \<Rightarrow> uint8 \<Rightarrow> 'b cmp_ctx \<Rightarrow> ('b, unit) cmp_res" where
  "cmp_write_bin8 data sz ctx = cmp_bind (cmp_write_bin8_marker sz ctx) (\<lambda>_. write_sized data (unat sz))"

definition cmp_write_bin16_marker :: "uint16 \<Rightarrow> 'b cmp_ctx \<Rightarrow> ('b, unit) cmp_res" where
  "cmp_write_bin16_marker sz ctx = 
     cmp_bind (write_type_marker BIN16_MARKER ctx) (\<lambda>_ ctx. on_failure LENGTH_WRITING_ERROR (ctx_write (store_le 2 (be16 sz)) ctx))"

definition cmp_write_bin16 :: "uint8 list \<Rightarrow> uint16 \<Rightarrow> 'b cmp_ctx \<Rightarrow> ('b, unit) cmp_res" where
  "cmp_write_bin16 data sz ctx = cmp_bind (cmp_write_bin16_marker sz ctx) (\<lambda>_. write_sized data (unat sz))"

definition cmp_write_bin32_marker :: "uint32 \<Rightarrow> 'b cmp_ctx \<Rightarrow> ('b, unit) cmp_res" where
  "cmp_write_bin32_marker sz ctx = 
     cmp_bind (write_type_marker BIN32_MARKER ctx) (\<lambda>_ ctx. on_failure LENGTH_WRITING_ERROR (ctx_write (store_le 4 (be32 sz)) ctx))"

definition cmp_write_bin32 :: "uint8 list \<Rightarrow> uint32 \<Rightarrow> 'b cmp_ctx \<Rightarrow> ('b, unit) cmp_res" where
  "cmp_write_bin32 data sz ctx = cmp_bind (cmp_write_bin32_marker sz ctx) (\<lambda>_. write_sized data (unat sz))"

definition cmp_write_bin_marker :: "uint32 \<Rightarrow> 'b cmp_ctx \<Rightarrow> ('b, unit) cmp_res" where
  "cmp_write_bin_marker sz ctx = 
     (if sz \<le> 0xFF then cmp_write_bin8_marker (ucast sz) ctx
      else if sz \<le> 0xFFFF then cmp_write_bin16_marker (ucast sz) ctx
      else cmp_write_bin32_marker sz ctx)"

definition cmp_write_bin :: "uint8 list \<Rightarrow> uint32 \<Rightarrow> 'b cmp_ctx \<Rightarrow> ('b, unit) cmp_res" where
  "cmp_write_bin data sz ctx = 
     (if sz \<le> 0xFF then cmp_write_bin8 data (ucast sz) ctx
      else if sz \<le> 0xFFFF then cmp_write_bin16 data (ucast sz) ctx
      else cmp_write_bin32 data sz ctx)"

definition cmp_write_fixarray :: "uint8 \<Rightarrow> 'b cmp_ctx \<Rightarrow> ('b, unit) cmp_res" where
  "cmp_write_fixarray sz ctx = 
     (if sz \<le> FIXARRAY_SIZE then write_fixed_value (FIXARRAY_MARKER OR sz) ctx else cmp_fail INPUT_VALUE_TOO_LARGE_ERROR ctx)"

definition cmp_write_array16 :: "uint16 \<Rightarrow> 'b cmp_ctx \<Rightarrow> ('b, unit) cmp_res" where
  "cmp_write_array16 sz ctx = 
     cmp_bind (write_type_marker ARRAY16_MARKER ctx) (\<lambda>_ ctx. on_failure LENGTH_WRITING_ERROR (ctx_write (store_le 2 (be16 sz)) ctx))"

definition cmp_write_array32 :: "uint32 \<Rightarrow> 'b cmp_ctx \<Rightarrow> ('b, unit) cmp_res" where
  "cmp_write_array32 sz ctx = 
     cmp_bind (write_type_marker ARRAY32_MARKER ctx) (\<lambda>_ ctx. on_failure LENGTH_WRITING_ERROR (ctx_write (store_le 4 (be32 sz)) ctx))"

definition cmp_write_array :: "uint32 \<Rightarrow> 'b cmp_ctx \<Rightarrow> ('b, unit) cmp_res" where
  "cmp_write_array sz ctx = 
     (if sz \<le> ucast FIXARRAY_SIZE then cmp_write_fixarray (ucast sz) ctx
      else if sz \<le> 0xFFFF then cmp_write_array16 (ucast sz) ctx
      else cmp_write_array32 sz ctx)"

definition cmp_write_fixmap :: "uint8 \<Rightarrow> 'b cmp_ctx \<Rightarrow> ('b, unit) cmp_res" where
  "cmp_write_fixmap sz ctx = 
     (if sz \<le> FIXMAP_SIZE then write_fixed_value (FIXMAP_MARKER OR sz) ctx else cmp_fail INPUT_VALUE_TOO_LARGE_ERROR ctx)"

definition cmp_write_map16 :: "uint16 \<Rightarrow> 'b cmp_ctx \<Rightarrow> ('b, unit) cmp_res" where
  "cmp_write_map16 sz ctx = 
     cmp_bind (write_type_marker MAP16_MARKER ctx) (\<lambda>_ ctx. on_failure LENGTH_WRITING_ERROR (ctx_write (store_le 2 (be16 sz)) ctx))"

definition cmp_write_map32 :: "uint32 \<Rightarrow> 'b cmp_ctx \<Rightarrow> ('b, unit) cmp_res" where
  "cmp_write_map32 sz ctx = 
     cmp_bind (write_type_marker MAP32_MARKER ctx) (\<lambda>_ ctx. on_failure LENGTH_WRITING_ERROR (ctx_write (store_le 4 (be32 sz)) ctx))"

definition cmp_write_map :: "uint32 \<Rightarrow> 'b cmp_ctx \<Rightarrow> ('b, unit) cmp_res" where
  "cmp_write_map sz ctx = 
     (if sz \<le> ucast FIXMAP_SIZE then cmp_write_fixmap (ucast sz) ctx
      else if sz \<le> 0xFFFF then cmp_write_map16 (ucast sz) ctx
      else cmp_write_map32 sz ctx)"

definition cmp_write_fixext1_marker :: "uint8 \<Rightarrow> 'b cmp_ctx \<Rightarrow> ('b, unit) cmp_res" where
  "cmp_write_fixext1_marker tp ctx = 
     cmp_bind (write_type_marker FIXEXT1_MARKER ctx) (\<lambda>_ ctx. on_failure EXT_TYPE_WRITING_ERROR (ctx_write [tp] ctx))"

definition cmp_write_fixext1 :: "uint8 \<Rightarrow> uint8 list \<Rightarrow> 'b cmp_ctx \<Rightarrow> ('b, unit) cmp_res" where
  "cmp_write_fixext1 tp data ctx = 
     cmp_bind (cmp_write_fixext1_marker tp ctx) (\<lambda>_ ctx. on_failure DATA_WRITING_ERROR (ctx_write (take 1 data) ctx))"

definition cmp_write_fixext2_marker :: "uint8 \<Rightarrow> 'b cmp_ctx \<Rightarrow> ('b, unit) cmp_res" where
  "cmp_write_fixext2_marker tp ctx = 
     cmp_bind (write_type_marker FIXEXT2_MARKER ctx) (\<lambda>_ ctx. on_failure EXT_TYPE_WRITING_ERROR (ctx_write [tp] ctx))"

definition cmp_write_fixext2 :: "uint8 \<Rightarrow> uint8 list \<Rightarrow> 'b cmp_ctx \<Rightarrow> ('b, unit) cmp_res" where
  "cmp_write_fixext2 tp data ctx = 
     cmp_bind (cmp_write_fixext2_marker tp ctx) (\<lambda>_ ctx. on_failure DATA_WRITING_ERROR (ctx_write (take 2 data) ctx))"

definition cmp_write_fixext4_marker :: "uint8 \<Rightarrow> 'b cmp_ctx \<Rightarrow> ('b, unit) cmp_res" where
  "cmp_write_fixext4_marker tp ctx = 
     cmp_bind (write_type_marker FIXEXT4_MARKER ctx) (\<lambda>_ ctx. on_failure EXT_TYPE_WRITING_ERROR (ctx_write [tp] ctx))"

definition cmp_write_fixext4 :: "uint8 \<Rightarrow> uint8 list \<Rightarrow> 'b cmp_ctx \<Rightarrow> ('b, unit) cmp_res" where
  "cmp_write_fixext4 tp data ctx = 
     cmp_bind (cmp_write_fixext4_marker tp ctx) (\<lambda>_ ctx. on_failure DATA_WRITING_ERROR (ctx_write (take 4 data) ctx))"

definition cmp_write_fixext8_marker :: "uint8 \<Rightarrow> 'b cmp_ctx \<Rightarrow> ('b, unit) cmp_res" where
  "cmp_write_fixext8_marker tp ctx = 
     cmp_bind (write_type_marker FIXEXT8_MARKER ctx) (\<lambda>_ ctx. on_failure EXT_TYPE_WRITING_ERROR (ctx_write [tp] ctx))"

definition cmp_write_fixext8 :: "uint8 \<Rightarrow> uint8 list \<Rightarrow> 'b cmp_ctx \<Rightarrow> ('b, unit) cmp_res" where
  "cmp_write_fixext8 tp data ctx = 
     cmp_bind (cmp_write_fixext8_marker tp ctx) (\<lambda>_ ctx. on_failure DATA_WRITING_ERROR (ctx_write (take 8 data) ctx))"

definition cmp_write_fixext16_marker :: "uint8 \<Rightarrow> 'b cmp_ctx \<Rightarrow> ('b, unit) cmp_res" where
  "cmp_write_fixext16_marker tp ctx = 
     cmp_bind (write_type_marker FIXEXT16_MARKER ctx) (\<lambda>_ ctx. on_failure EXT_TYPE_WRITING_ERROR (ctx_write [tp] ctx))"

definition cmp_write_fixext16 :: "uint8 \<Rightarrow> uint8 list \<Rightarrow> 'b cmp_ctx \<Rightarrow> ('b, unit) cmp_res" where
  "cmp_write_fixext16 tp data ctx = 
     cmp_bind (cmp_write_fixext16_marker tp ctx) (\<lambda>_ ctx. on_failure DATA_WRITING_ERROR (ctx_write (take 16 data) ctx))"

definition cmp_write_ext8_marker :: "uint8 \<Rightarrow> uint8 \<Rightarrow> 'b cmp_ctx \<Rightarrow> ('b, unit) cmp_res" where
  "cmp_write_ext8_marker tp sz ctx = 
     cmp_bind (write_type_marker EXT8_MARKER ctx) (\<lambda>_ ctx.
     cmp_bind (on_failure LENGTH_WRITING_ERROR (ctx_write [sz] ctx)) (\<lambda>_ ctx.
     on_failure EXT_TYPE_WRITING_ERROR (ctx_write [tp] ctx)))"

definition cmp_write_ext8 :: "uint8 \<Rightarrow> uint8 \<Rightarrow> uint8 list \<Rightarrow> 'b cmp_ctx \<Rightarrow> ('b, unit) cmp_res" where
  "cmp_write_ext8 tp sz data ctx = 
     cmp_bind (cmp_write_ext8_marker tp sz ctx) (\<lambda>_ ctx. on_failure DATA_WRITING_ERROR (ctx_write (take (unat sz) data) ctx))"

definition cmp_write_ext16_marker :: "uint8 \<Rightarrow> uint16 \<Rightarrow> 'b cmp_ctx \<Rightarrow> ('b, unit) cmp_res" where
  "cmp_write_ext16_marker tp sz ctx = 
     cmp_bind (write_type_marker EXT16_MARKER ctx) (\<lambda>_ ctx.
     cmp_bind (on_failure LENGTH_WRITING_ERROR (ctx_write (store_le 2 (be16 sz)) ctx)) (\<lambda>_ ctx.
     on_failure EXT_TYPE_WRITING_ERROR (ctx_write [tp] ctx)))"

definition cmp_write_ext16 :: "uint8 \<Rightarrow> uint16 \<Rightarrow> uint8 list \<Rightarrow> 'b cmp_ctx \<Rightarrow> ('b, unit) cmp_res" where
  "cmp_write_ext16 tp sz data ctx = 
     cmp_bind (cmp_write_ext16_marker tp sz ctx) (\<lambda>_ ctx. on_failure DATA_WRITING_ERROR (ctx_write (take (unat sz) data) ctx))"

definition cmp_write_ext32_marker :: "uint8 \<Rightarrow> uint32 \<Rightarrow> 'b cmp_ctx \<Rightarrow> ('b, unit) cmp_res" where
  "cmp_write_ext32_marker tp sz ctx = 
     cmp_bind (write_type_marker EXT32_MARKER ctx) (\<lambda>_ ctx.
     cmp_bind (on_failure LENGTH_WRITING_ERROR (ctx_write (store_le 4 (be32 sz)) ctx)) (\<lambda>_ ctx.
     on_failure EXT_TYPE_WRITING_ERROR (ctx_write [tp] ctx)))"

definition cmp_write_ext32 :: "uint8 \<Rightarrow> uint32 \<Rightarrow> uint8 list \<Rightarrow> 'b cmp_ctx \<Rightarrow> ('b, unit) cmp_res" where
  "cmp_write_ext32 tp sz data ctx = 
     cmp_bind (cmp_write_ext32_marker tp sz ctx) (\<lambda>_ ctx. on_failure DATA_WRITING_ERROR (ctx_write (take (unat sz) data) ctx))"

definition cmp_write_ext_marker :: "uint8 \<Rightarrow> uint32 \<Rightarrow> 'b cmp_ctx \<Rightarrow> ('b, unit) cmp_res" where
  "cmp_write_ext_marker tp sz ctx = 
     (if sz = 1 then cmp_write_fixext1_marker tp ctx
      else if sz = 2 then cmp_write_fixext2_marker tp ctx
      else if sz = 4 then cmp_write_fixext4_marker tp ctx
      else if sz = 8 then cmp_write_fixext8_marker tp ctx
      else if sz = 16 then cmp_write_fixext16_marker tp ctx
      else if sz \<le> 0xFF then cmp_write_ext8_marker tp (ucast sz) ctx
      else if sz \<le> 0xFFFF then cmp_write_ext16_marker tp (ucast sz) ctx
      else cmp_write_ext32_marker tp sz ctx)"

definition cmp_write_ext :: "uint8 \<Rightarrow> uint32 \<Rightarrow> uint8 list \<Rightarrow> 'b cmp_ctx \<Rightarrow> ('b, unit) cmp_res" where
  "cmp_write_ext tp sz data ctx = 
     (if sz = 1 then cmp_write_fixext1 tp data ctx
      else if sz = 2 then cmp_write_fixext2 tp data ctx
      else if sz = 4 then cmp_write_fixext4 tp data ctx
      else if sz = 8 then cmp_write_fixext8 tp data ctx
      else if sz = 16 then cmp_write_fixext16 tp data ctx
      else if sz \<le> 0xFF then cmp_write_ext8 tp (ucast sz) data ctx
      else if sz \<le> 0xFFFF then cmp_write_ext16 tp (ucast sz) data ctx
      else cmp_write_ext32 tp sz data ctx)"

definition cmp_write_object :: "cmp_object \<Rightarrow> 'b cmp_ctx \<Rightarrow> ('b, unit) cmp_res" where
  "cmp_write_object obj ctx = 
     (case ob_type obj of
        CMP_TYPE_POSITIVE_FIXNUM \<Rightarrow> cmp_write_pfix (ob_u8 obj) ctx
      | CMP_TYPE_FIXMAP \<Rightarrow> cmp_write_fixmap (ucast (ob_u32 obj)) ctx
      | CMP_TYPE_FIXARRAY \<Rightarrow> cmp_write_fixarray (ucast (ob_u32 obj)) ctx
      | CMP_TYPE_FIXSTR \<Rightarrow> cmp_write_fixstr_marker (ucast (ob_u32 obj)) ctx
      | CMP_TYPE_NIL \<Rightarrow> cmp_write_nil ctx
      | CMP_TYPE_BOOLEAN \<Rightarrow> (if ob_boolean obj then cmp_write_true else cmp_write_false) ctx
      | CMP_TYPE_BIN8 \<Rightarrow> cmp_write_bin8_marker (ucast (ob_u32 obj)) ctx
      | CMP_TYPE_BIN16 \<Rightarrow> cmp_write_bin16_marker (ucast (ob_u32 obj)) ctx
      | CMP_TYPE_BIN32 \<Rightarrow> cmp_write_bin32_marker (ob_u32 obj) ctx
      | CMP_TYPE_EXT8 \<Rightarrow> cmp_write_ext8_marker (ob_ext_type obj) (ucast (ob_ext_size obj)) ctx
      | CMP_TYPE_EXT16 \<Rightarrow> cmp_write_ext16_marker (ob_ext_type obj) (ucast (ob_ext_size obj)) ctx
      | CMP_TYPE_EXT32 \<Rightarrow> cmp_write_ext32_marker (ob_ext_type obj) (ob_ext_size obj) ctx
      | CMP_TYPE_FLOAT \<Rightarrow> cmp_write_float (ob_u32 obj) ctx
      | CMP_TYPE_DOUBLE \<Rightarrow> cmp_write_double (ob_u64 obj) ctx
      | CMP_TYPE_UINT8 \<Rightarrow> cmp_write_u8 (ob_u8 obj) ctx
      | CMP_TYPE_UINT16 \<Rightarrow> cmp_write_u16 (ob_u16 obj) ctx
      | CMP_TYPE_UINT32 \<Rightarrow> cmp_write_u32 (ob_u32 obj) ctx
      | CMP_TYPE_UINT64 \<Rightarrow> cmp_write_u64 (ob_u64 obj) ctx
      | CMP_TYPE_SINT8 \<Rightarrow> cmp_write_s8 (ob_u8 obj) ctx
      | CMP_TYPE_SINT16 \<Rightarrow> cmp_write_s16 (ob_u16 obj) ctx
      | CMP_TYPE_SINT32 \<Rightarrow> cmp_write_s32 (ob_u32 obj) ctx
      | CMP_TYPE_SINT64 \<Rightarrow> cmp_write_s64 (ob_u64 obj) ctx
      | CMP_TYPE_FIXEXT1 \<Rightarrow> cmp_write_fixext1_marker (ob_ext_type obj) ctx
      | CMP_TYPE_FIXEXT2 \<Rightarrow> cmp_write_fixext2_marker (ob_ext_type obj) ctx
      | CMP_TYPE_FIXEXT4 \<Rightarrow> cmp_write_fixext4_marker (ob_ext_type obj) ctx
      | CMP_TYPE_FIXEXT8 \<Rightarrow> cmp_write_fixext8_marker (ob_ext_type obj) ctx
      | CMP_TYPE_FIXEXT16 \<Rightarrow> cmp_write_fixext16_marker (ob_ext_type obj) ctx
      | CMP_TYPE_STR8 \<Rightarrow> cmp_write_str8_marker (ucast (ob_u32 obj)) ctx
      | CMP_TYPE_STR16 \<Rightarrow> cmp_write_str16_marker (ucast (ob_u32 obj)) ctx
      | CMP_TYPE_STR32 \<Rightarrow> cmp_write_str32_marker (ob_u32 obj) ctx
      | CMP_TYPE_ARRAY16 \<Rightarrow> cmp_write_array16 (ucast (ob_u32 obj)) ctx
      | CMP_TYPE_ARRAY32 \<Rightarrow> cmp_write_array32 (ob_u32 obj) ctx
      | CMP_TYPE_MAP16 \<Rightarrow> cmp_write_map16 (ucast (ob_u32 obj)) ctx
      | CMP_TYPE_MAP32 \<Rightarrow> cmp_write_map32 (ob_u32 obj) ctx
      | CMP_TYPE_NEGATIVE_FIXNUM \<Rightarrow> cmp_write_nfix (ob_u8 obj) ctx)"

definition cmp_write_object_v4 :: "cmp_object \<Rightarrow> 'b cmp_ctx \<Rightarrow> ('b, unit) cmp_res" where
  "cmp_write_object_v4 obj ctx = 
     (case ob_type obj of
        CMP_TYPE_POSITIVE_FIXNUM \<Rightarrow> cmp_write_pfix (ob_u8 obj) ctx
      | CMP_TYPE_FIXMAP \<Rightarrow> cmp_write_fixmap (ucast (ob_u32 obj)) ctx
      | CMP_TYPE_FIXARRAY \<Rightarrow> cmp_write_fixarray (ucast (ob_u32 obj)) ctx
      | CMP_TYPE_FIXSTR \<Rightarrow> cmp_write_fixstr_marker (ucast (ob_u32 obj)) ctx
      | CMP_TYPE_NIL \<Rightarrow> cmp_write_nil ctx
      | CMP_TYPE_BOOLEAN \<Rightarrow> (if ob_boolean obj then cmp_write_true else cmp_write_false) ctx
      | CMP_TYPE_EXT8 \<Rightarrow> cmp_write_ext8_marker (ob_ext_type obj) (ucast (ob_ext_size obj)) ctx
      | CMP_TYPE_EXT16 \<Rightarrow> cmp_write_ext16_marker (ob_ext_type obj) (ucast (ob_ext_size obj)) ctx
      | CMP_TYPE_EXT32 \<Rightarrow> cmp_write_ext32_marker (ob_ext_type obj) (ob_ext_size obj) ctx
      | CMP_TYPE_FLOAT \<Rightarrow> cmp_write_float (ob_u32 obj) ctx
      | CMP_TYPE_DOUBLE \<Rightarrow> cmp_write_double (ob_u64 obj) ctx
      | CMP_TYPE_UINT8 \<Rightarrow> cmp_write_u8 (ob_u8 obj) ctx
      | CMP_TYPE_UINT16 \<Rightarrow> cmp_write_u16 (ob_u16 obj) ctx
      | CMP_TYPE_UINT32 \<Rightarrow> cmp_write_u32 (ob_u32 obj) ctx
      | CMP_TYPE_UINT64 \<Rightarrow> cmp_write_u64 (ob_u64 obj) ctx
      | CMP_TYPE_SINT8 \<Rightarrow> cmp_write_s8 (ob_u8 obj) ctx
      | CMP_TYPE_SINT16 \<Rightarrow> cmp_write_s16 (ob_u16 obj) ctx
      | CMP_TYPE_SINT32 \<Rightarrow> cmp_write_s32 (ob_u32 obj) ctx
      | CMP_TYPE_SINT64 \<Rightarrow> cmp_write_s64 (ob_u64 obj) ctx
      | CMP_TYPE_FIXEXT1 \<Rightarrow> cmp_write_fixext1_marker (ob_ext_type obj) ctx
      | CMP_TYPE_FIXEXT2 \<Rightarrow> cmp_write_fixext2_marker (ob_ext_type obj) ctx
      | CMP_TYPE_FIXEXT4 \<Rightarrow> cmp_write_fixext4_marker (ob_ext_type obj) ctx
      | CMP_TYPE_FIXEXT8 \<Rightarrow> cmp_write_fixext8_marker (ob_ext_type obj) ctx
      | CMP_TYPE_FIXEXT16 \<Rightarrow> cmp_write_fixext16_marker (ob_ext_type obj) ctx
      | CMP_TYPE_STR16 \<Rightarrow> cmp_write_str16_marker (ucast (ob_u32 obj)) ctx
      | CMP_TYPE_STR32 \<Rightarrow> cmp_write_str32_marker (ob_u32 obj) ctx
      | CMP_TYPE_ARRAY16 \<Rightarrow> cmp_write_array16 (ucast (ob_u32 obj)) ctx
      | CMP_TYPE_ARRAY32 \<Rightarrow> cmp_write_array32 (ob_u32 obj) ctx
      | CMP_TYPE_MAP16 \<Rightarrow> cmp_write_map16 (ucast (ob_u32 obj)) ctx
      | CMP_TYPE_MAP32 \<Rightarrow> cmp_write_map32 (ob_u32 obj) ctx
      | CMP_TYPE_NEGATIVE_FIXNUM \<Rightarrow> cmp_write_nfix (ob_u8 obj) ctx
      | _ \<Rightarrow> cmp_fail INVALID_TYPE_ERROR ctx)"

end
