(* ===== verification/Msgpack_Read.thy ===== *)
theory Msgpack_Read
  imports Msgpack
begin

text \<open>
  cmp.c: the functions that read values of one type, that skip values, and that look into objects.
\<close>

unbundle bit_operations_syntax

subsection \<open>Integers\<close>

definition cmp_read_pfix :: "'b cmp_ctx \<Rightarrow> ('b, uint8) cmp_res" where
  "cmp_read_pfix ctx = cmp_bind (cmp_read_object ctx) (\<lambda>obj ctx.
     if ob_type obj \<noteq> CMP_TYPE_POSITIVE_FIXNUM then cmp_fail INVALID_TYPE_ERROR ctx else cmp_return (ob_u8 obj) ctx)"

definition cmp_read_nfix :: "'b cmp_ctx \<Rightarrow> ('b, uint8) cmp_res" where
  "cmp_read_nfix ctx = cmp_bind (cmp_read_object ctx) (\<lambda>obj ctx.
     if ob_type obj \<noteq> CMP_TYPE_NEGATIVE_FIXNUM then cmp_fail INVALID_TYPE_ERROR ctx else cmp_return (ob_u8 obj) ctx)"

definition cmp_read_sfix :: "'b cmp_ctx \<Rightarrow> ('b, uint8) cmp_res" where
  "cmp_read_sfix ctx = cmp_bind (cmp_read_object ctx) (\<lambda>obj ctx.
     if ob_type obj \<in> {CMP_TYPE_POSITIVE_FIXNUM, CMP_TYPE_NEGATIVE_FIXNUM} then cmp_return (ob_u8 obj) ctx
     else cmp_fail INVALID_TYPE_ERROR ctx)"

definition cmp_read_s8 :: "'b cmp_ctx \<Rightarrow> ('b, uint8) cmp_res" where
  "cmp_read_s8 ctx = cmp_bind (cmp_read_object ctx) (\<lambda>obj ctx.
     if ob_type obj \<noteq> CMP_TYPE_SINT8 then cmp_fail INVALID_TYPE_ERROR ctx else cmp_return (ob_u8 obj) ctx)"

definition cmp_read_s16 :: "'b cmp_ctx \<Rightarrow> ('b, uint16) cmp_res" where
  "cmp_read_s16 ctx = cmp_bind (cmp_read_object ctx) (\<lambda>obj ctx.
     if ob_type obj \<noteq> CMP_TYPE_SINT16 then cmp_fail INVALID_TYPE_ERROR ctx else cmp_return (ob_u16 obj) ctx)"

definition cmp_read_s32 :: "'b cmp_ctx \<Rightarrow> ('b, uint32) cmp_res" where
  "cmp_read_s32 ctx = cmp_bind (cmp_read_object ctx) (\<lambda>obj ctx.
     if ob_type obj \<noteq> CMP_TYPE_SINT32 then cmp_fail INVALID_TYPE_ERROR ctx else cmp_return (ob_u32 obj) ctx)"

definition cmp_read_s64 :: "'b cmp_ctx \<Rightarrow> ('b, uint64) cmp_res" where
  "cmp_read_s64 ctx = cmp_bind (cmp_read_object ctx) (\<lambda>obj ctx.
     if ob_type obj \<noteq> CMP_TYPE_SINT64 then cmp_fail INVALID_TYPE_ERROR ctx else cmp_return (ob_u64 obj) ctx)"

text \<open>The signed members of the union are extended with their sign, the unsigned ones with zeros.\<close>

definition cmp_read_char :: "'b cmp_ctx \<Rightarrow> ('b, uint8) cmp_res" where
  "cmp_read_char ctx = cmp_bind (cmp_read_object ctx) (\<lambda>obj ctx.
     if ob_type obj \<in> {CMP_TYPE_POSITIVE_FIXNUM, CMP_TYPE_NEGATIVE_FIXNUM, CMP_TYPE_SINT8} then cmp_return (ob_u8 obj) ctx
     else if ob_type obj = CMP_TYPE_UINT8 \<and> ob_u8 obj \<le> 127 then cmp_return (ob_u8 obj) ctx
     else cmp_fail INVALID_TYPE_ERROR ctx)"

definition cmp_read_short :: "'b cmp_ctx \<Rightarrow> ('b, uint16) cmp_res" where
  "cmp_read_short ctx = cmp_bind (cmp_read_object ctx) (\<lambda>obj ctx.
     if ob_type obj \<in> {CMP_TYPE_POSITIVE_FIXNUM, CMP_TYPE_NEGATIVE_FIXNUM, CMP_TYPE_SINT8} then cmp_return (scast (ob_u8 obj)) ctx
     else if ob_type obj = CMP_TYPE_UINT8 then cmp_return (ucast (ob_u8 obj)) ctx
     else if ob_type obj = CMP_TYPE_SINT16 then cmp_return (ob_u16 obj) ctx
     else if ob_type obj = CMP_TYPE_UINT16 \<and> ob_u16 obj \<le> 32767 then cmp_return (ob_u16 obj) ctx
     else cmp_fail INVALID_TYPE_ERROR ctx)"

definition cmp_read_int :: "'b cmp_ctx \<Rightarrow> ('b, uint32) cmp_res" where
  "cmp_read_int ctx = cmp_bind (cmp_read_object ctx) (\<lambda>obj ctx.
     if ob_type obj \<in> {CMP_TYPE_POSITIVE_FIXNUM, CMP_TYPE_NEGATIVE_FIXNUM, CMP_TYPE_SINT8} then cmp_return (scast (ob_u8 obj)) ctx
     else if ob_type obj = CMP_TYPE_UINT8 then cmp_return (ucast (ob_u8 obj)) ctx
     else if ob_type obj = CMP_TYPE_SINT16 then cmp_return (scast (ob_u16 obj)) ctx
     else if ob_type obj = CMP_TYPE_UINT16 then cmp_return (ucast (ob_u16 obj)) ctx
     else if ob_type obj = CMP_TYPE_SINT32 then cmp_return (ob_u32 obj) ctx
     else if ob_type obj = CMP_TYPE_UINT32 \<and> ob_u32 obj \<le> 2147483647 then cmp_return (ob_u32 obj) ctx
     else cmp_fail INVALID_TYPE_ERROR ctx)"

definition cmp_read_long :: "'b cmp_ctx \<Rightarrow> ('b, uint64) cmp_res" where
  "cmp_read_long ctx = cmp_bind (cmp_read_object ctx) (\<lambda>obj ctx.
     if ob_type obj \<in> {CMP_TYPE_POSITIVE_FIXNUM, CMP_TYPE_NEGATIVE_FIXNUM, CMP_TYPE_SINT8} then cmp_return (scast (ob_u8 obj)) ctx
     else if ob_type obj = CMP_TYPE_UINT8 then cmp_return (ucast (ob_u8 obj)) ctx
     else if ob_type obj = CMP_TYPE_SINT16 then cmp_return (scast (ob_u16 obj)) ctx
     else if ob_type obj = CMP_TYPE_UINT16 then cmp_return (ucast (ob_u16 obj)) ctx
     else if ob_type obj = CMP_TYPE_SINT32 then cmp_return (scast (ob_u32 obj)) ctx
     else if ob_type obj = CMP_TYPE_UINT32 then cmp_return (ucast (ob_u32 obj)) ctx
     else if ob_type obj = CMP_TYPE_SINT64 then cmp_return (ob_u64 obj) ctx
     else if ob_type obj = CMP_TYPE_UINT64 \<and> ob_u64 obj \<le> 9223372036854775807 then cmp_return (ob_u64 obj) ctx
     else cmp_fail INVALID_TYPE_ERROR ctx)"

definition cmp_read_integer :: "'b cmp_ctx \<Rightarrow> ('b, uint64) cmp_res" where
  "cmp_read_integer ctx = cmp_read_long ctx"

definition cmp_read_ufix :: "'b cmp_ctx \<Rightarrow> ('b, uint8) cmp_res" where
  "cmp_read_ufix ctx = cmp_read_pfix ctx"

definition cmp_read_u8 :: "'b cmp_ctx \<Rightarrow> ('b, uint8) cmp_res" where
  "cmp_read_u8 ctx = cmp_bind (cmp_read_object ctx) (\<lambda>obj ctx.
     if ob_type obj \<noteq> CMP_TYPE_UINT8 then cmp_fail INVALID_TYPE_ERROR ctx else cmp_return (ob_u8 obj) ctx)"

definition cmp_read_u16 :: "'b cmp_ctx \<Rightarrow> ('b, uint16) cmp_res" where
  "cmp_read_u16 ctx = cmp_bind (cmp_read_object ctx) (\<lambda>obj ctx.
     if ob_type obj \<noteq> CMP_TYPE_UINT16 then cmp_fail INVALID_TYPE_ERROR ctx else cmp_return (ob_u16 obj) ctx)"

definition cmp_read_u32 :: "'b cmp_ctx \<Rightarrow> ('b, uint32) cmp_res" where
  "cmp_read_u32 ctx = cmp_bind (cmp_read_object ctx) (\<lambda>obj ctx.
     if ob_type obj \<noteq> CMP_TYPE_UINT32 then cmp_fail INVALID_TYPE_ERROR ctx else cmp_return (ob_u32 obj) ctx)"

definition cmp_read_u64 :: "'b cmp_ctx \<Rightarrow> ('b, uint64) cmp_res" where
  "cmp_read_u64 ctx = cmp_bind (cmp_read_object ctx) (\<lambda>obj ctx.
     if ob_type obj \<noteq> CMP_TYPE_UINT64 then cmp_fail INVALID_TYPE_ERROR ctx else cmp_return (ob_u64 obj) ctx)"

definition cmp_read_uchar :: "'b cmp_ctx \<Rightarrow> ('b, uint8) cmp_res" where
  "cmp_read_uchar ctx = cmp_bind (cmp_read_object ctx) (\<lambda>obj ctx.
     if ob_type obj \<in> {CMP_TYPE_POSITIVE_FIXNUM, CMP_TYPE_UINT8} then cmp_return (ob_u8 obj) ctx
     else if ob_type obj \<in> {CMP_TYPE_NEGATIVE_FIXNUM, CMP_TYPE_SINT8} \<and> 0 \<le> sint (ob_u8 obj) then cmp_return (ob_u8 obj) ctx
     else cmp_fail INVALID_TYPE_ERROR ctx)"

definition cmp_read_ushort :: "'b cmp_ctx \<Rightarrow> ('b, uint16) cmp_res" where
  "cmp_read_ushort ctx = cmp_bind (cmp_read_object ctx) (\<lambda>obj ctx.
     if ob_type obj \<in> {CMP_TYPE_POSITIVE_FIXNUM, CMP_TYPE_UINT8} then cmp_return (ucast (ob_u8 obj)) ctx
     else if ob_type obj = CMP_TYPE_UINT16 then cmp_return (ob_u16 obj) ctx
     else if ob_type obj \<in> {CMP_TYPE_NEGATIVE_FIXNUM, CMP_TYPE_SINT8} \<and> 0 \<le> sint (ob_u8 obj) then cmp_return (scast (ob_u8 obj)) ctx
     else if ob_type obj = CMP_TYPE_SINT16 \<and> 0 \<le> sint (ob_u16 obj) then cmp_return (ob_u16 obj) ctx
     else cmp_fail INVALID_TYPE_ERROR ctx)"

definition cmp_read_uint :: "'b cmp_ctx \<Rightarrow> ('b, uint32) cmp_res" where
  "cmp_read_uint ctx = cmp_bind (cmp_read_object ctx) (\<lambda>obj ctx.
     if ob_type obj \<in> {CMP_TYPE_POSITIVE_FIXNUM, CMP_TYPE_UINT8} then cmp_return (ucast (ob_u8 obj)) ctx
     else if ob_type obj = CMP_TYPE_UINT16 then cmp_return (ucast (ob_u16 obj)) ctx
     else if ob_type obj = CMP_TYPE_UINT32 then cmp_return (ob_u32 obj) ctx
     else if ob_type obj \<in> {CMP_TYPE_NEGATIVE_FIXNUM, CMP_TYPE_SINT8} \<and> 0 \<le> sint (ob_u8 obj) then cmp_return (scast (ob_u8 obj)) ctx
     else if ob_type obj = CMP_TYPE_SINT16 \<and> 0 \<le> sint (ob_u16 obj) then cmp_return (scast (ob_u16 obj)) ctx
     else if ob_type obj = CMP_TYPE_SINT32 \<and> 0 \<le> sint (ob_u32 obj) then cmp_return (ob_u32 obj) ctx
     else cmp_fail INVALID_TYPE_ERROR ctx)"

definition cmp_read_ulong :: "'b cmp_ctx \<Rightarrow> ('b, uint64) cmp_res" where
  "cmp_read_ulong ctx = cmp_bind (cmp_read_object ctx) (\<lambda>obj ctx.
     if ob_type obj \<in> {CMP_TYPE_POSITIVE_FIXNUM, CMP_TYPE_UINT8} then cmp_return (ucast (ob_u8 obj)) ctx
     else if ob_type obj = CMP_TYPE_UINT16 then cmp_return (ucast (ob_u16 obj)) ctx
     else if ob_type obj = CMP_TYPE_UINT32 then cmp_return (ucast (ob_u32 obj)) ctx
     else if ob_type obj = CMP_TYPE_UINT64 then cmp_return (ob_u64 obj) ctx
     else if ob_type obj \<in> {CMP_TYPE_NEGATIVE_FIXNUM, CMP_TYPE_SINT8} \<and> 0 \<le> sint (ob_u8 obj) then cmp_return (scast (ob_u8 obj)) ctx
     else if ob_type obj = CMP_TYPE_SINT16 \<and> 0 \<le> sint (ob_u16 obj) then cmp_return (scast (ob_u16 obj)) ctx
     else if ob_type obj = CMP_TYPE_SINT32 \<and> 0 \<le> sint (ob_u32 obj) then cmp_return (scast (ob_u32 obj)) ctx
     else if ob_type obj = CMP_TYPE_SINT64 \<and> 0 \<le> sint (ob_u64 obj) then cmp_return (ob_u64 obj) ctx
     else cmp_fail INVALID_TYPE_ERROR ctx)"

definition cmp_read_uinteger :: "'b cmp_ctx \<Rightarrow> ('b, uint64) cmp_res" where
  "cmp_read_uinteger ctx = cmp_read_ulong ctx"

subsection \<open>Other values\<close>

definition cmp_read_float :: "'b cmp_ctx \<Rightarrow> ('b, uint32) cmp_res" where
  "cmp_read_float ctx = cmp_bind (cmp_read_object ctx) (\<lambda>obj ctx.
     if ob_type obj \<noteq> CMP_TYPE_FLOAT then cmp_fail INVALID_TYPE_ERROR ctx else cmp_return (ob_u32 obj) ctx)"

definition cmp_read_double :: "'b cmp_ctx \<Rightarrow> ('b, uint64) cmp_res" where
  "cmp_read_double ctx = cmp_bind (cmp_read_object ctx) (\<lambda>obj ctx.
     if ob_type obj \<noteq> CMP_TYPE_DOUBLE then cmp_fail INVALID_TYPE_ERROR ctx else cmp_return (ob_u64 obj) ctx)"

definition cmp_read_decimal :: "(uint32 \<Rightarrow> uint64) \<Rightarrow> 'b cmp_ctx \<Rightarrow> ('b, uint64) cmp_res" where
  "cmp_read_decimal to_double ctx = cmp_bind (cmp_read_object ctx) (\<lambda>obj ctx.
     if ob_type obj = CMP_TYPE_FLOAT then cmp_return (to_double (ob_u32 obj)) ctx
     else if ob_type obj = CMP_TYPE_DOUBLE then cmp_return (ob_u64 obj) ctx
     else cmp_fail INVALID_TYPE_ERROR ctx)"

definition cmp_read_nil :: "'b cmp_ctx \<Rightarrow> ('b, unit) cmp_res" where
  "cmp_read_nil ctx = cmp_bind (cmp_read_object ctx) (\<lambda>obj ctx.
     if ob_type obj = CMP_TYPE_NIL then cmp_return () ctx
     else cmp_fail INVALID_TYPE_ERROR ctx)"

definition cmp_read_bool :: "'b cmp_ctx \<Rightarrow> ('b, bool) cmp_res" where
  "cmp_read_bool ctx = cmp_bind (cmp_read_object ctx) (\<lambda>obj ctx.
     if ob_type obj \<noteq> CMP_TYPE_BOOLEAN then cmp_fail INVALID_TYPE_ERROR ctx else cmp_return (ob_boolean obj) ctx)"

definition cmp_read_bool_as_u8 :: "'b cmp_ctx \<Rightarrow> ('b, uint8) cmp_res" where
  "cmp_read_bool_as_u8 ctx = cmp_bind (cmp_read_object ctx) (\<lambda>obj ctx.
     if ob_type obj \<noteq> CMP_TYPE_BOOLEAN then cmp_fail INVALID_TYPE_ERROR ctx else cmp_return (if ob_boolean obj then 1 else 0) ctx)"

definition cmp_read_str_size :: "'b cmp_ctx \<Rightarrow> ('b, uint32) cmp_res" where
  "cmp_read_str_size ctx = cmp_bind (cmp_read_object ctx) (\<lambda>obj ctx.
     if ob_type obj \<in> {CMP_TYPE_FIXSTR, CMP_TYPE_STR8, CMP_TYPE_STR16, CMP_TYPE_STR32} then cmp_return (ob_u32 obj) ctx
     else cmp_fail INVALID_TYPE_ERROR ctx)"

text \<open>
  A string is read to a buffer of \<open>sz\<close> bytes and terminated; the size that the caller gets is the second component.  The comparison with the
  size of the buffer is in 32 bits.
\<close>

definition cmp_read_str :: "uint32 \<Rightarrow> 'b cmp_ctx \<Rightarrow> ('b, uint8 list) cmp_res \<times> uint32" where
  "cmp_read_str sz ctx =
     (case cmp_read_str_size ctx of
        (None, ctx) \<Rightarrow> ((None, ctx), sz)
      | (Some str_size, ctx) \<Rightarrow>
          if sz < str_size + 1 then (cmp_fail STR_DATA_LENGTH_TOO_LONG_ERROR ctx, str_size)
          else (case on_failure DATA_READING_ERROR (ctx_read (unat str_size) ctx) of
                  (None, ctx) \<Rightarrow> ((None, ctx), sz)
                | (Some data, ctx) \<Rightarrow> ((Some (data @ [0]), ctx), str_size)))"

definition cmp_read_bin_size :: "'b cmp_ctx \<Rightarrow> ('b, uint32) cmp_res" where
  "cmp_read_bin_size ctx = cmp_bind (cmp_read_object ctx) (\<lambda>obj ctx.
     if ob_type obj \<in> {CMP_TYPE_BIN8, CMP_TYPE_BIN16, CMP_TYPE_BIN32} then cmp_return (ob_u32 obj) ctx
     else cmp_fail INVALID_TYPE_ERROR ctx)"

definition cmp_read_bin :: "uint32 \<Rightarrow> 'b cmp_ctx \<Rightarrow> ('b, uint8 list) cmp_res" where
  "cmp_read_bin sz ctx = cmp_bind (cmp_read_bin_size ctx) (\<lambda>bin_size ctx.
     if sz < bin_size then cmp_fail BIN_DATA_LENGTH_TOO_LONG_ERROR ctx
     else on_failure DATA_READING_ERROR (ctx_read (unat bin_size) ctx))"

definition cmp_read_array :: "'b cmp_ctx \<Rightarrow> ('b, uint32) cmp_res" where
  "cmp_read_array ctx = cmp_bind (cmp_read_object ctx) (\<lambda>obj ctx.
     if ob_type obj \<in> {CMP_TYPE_FIXARRAY, CMP_TYPE_ARRAY16, CMP_TYPE_ARRAY32} then cmp_return (ob_u32 obj) ctx
     else cmp_fail INVALID_TYPE_ERROR ctx)"

definition cmp_read_map :: "'b cmp_ctx \<Rightarrow> ('b, uint32) cmp_res" where
  "cmp_read_map ctx = cmp_bind (cmp_read_object ctx) (\<lambda>obj ctx.
     if ob_type obj \<in> {CMP_TYPE_FIXMAP, CMP_TYPE_MAP16, CMP_TYPE_MAP32} then cmp_return (ob_u32 obj) ctx
     else cmp_fail INVALID_TYPE_ERROR ctx)"

definition cmp_read_fixext1_marker :: "'b cmp_ctx \<Rightarrow> ('b, uint8) cmp_res" where
  "cmp_read_fixext1_marker ctx = cmp_bind (cmp_read_object ctx) (\<lambda>obj ctx.
     if ob_type obj \<noteq> CMP_TYPE_FIXEXT1 then cmp_fail INVALID_TYPE_ERROR ctx else cmp_return (ob_ext_type obj) ctx)"

definition cmp_read_fixext1 :: "'b cmp_ctx \<Rightarrow> ('b, (uint8 \<times> uint8 list)) cmp_res" where
  "cmp_read_fixext1 ctx = cmp_bind (cmp_read_fixext1_marker ctx) (\<lambda>tp ctx.
     cmp_bind (on_failure DATA_READING_ERROR (ctx_read 1 ctx)) (\<lambda>data. cmp_return (tp, data)))"

definition cmp_read_fixext2_marker :: "'b cmp_ctx \<Rightarrow> ('b, uint8) cmp_res" where
  "cmp_read_fixext2_marker ctx = cmp_bind (cmp_read_object ctx) (\<lambda>obj ctx.
     if ob_type obj \<noteq> CMP_TYPE_FIXEXT2 then cmp_fail INVALID_TYPE_ERROR ctx else cmp_return (ob_ext_type obj) ctx)"

definition cmp_read_fixext2 :: "'b cmp_ctx \<Rightarrow> ('b, (uint8 \<times> uint8 list)) cmp_res" where
  "cmp_read_fixext2 ctx = cmp_bind (cmp_read_fixext2_marker ctx) (\<lambda>tp ctx.
     cmp_bind (on_failure DATA_READING_ERROR (ctx_read 2 ctx)) (\<lambda>data. cmp_return (tp, data)))"

definition cmp_read_fixext4_marker :: "'b cmp_ctx \<Rightarrow> ('b, uint8) cmp_res" where
  "cmp_read_fixext4_marker ctx = cmp_bind (cmp_read_object ctx) (\<lambda>obj ctx.
     if ob_type obj \<noteq> CMP_TYPE_FIXEXT4 then cmp_fail INVALID_TYPE_ERROR ctx else cmp_return (ob_ext_type obj) ctx)"

definition cmp_read_fixext4 :: "'b cmp_ctx \<Rightarrow> ('b, (uint8 \<times> uint8 list)) cmp_res" where
  "cmp_read_fixext4 ctx = cmp_bind (cmp_read_fixext4_marker ctx) (\<lambda>tp ctx.
     cmp_bind (on_failure DATA_READING_ERROR (ctx_read 4 ctx)) (\<lambda>data. cmp_return (tp, data)))"

definition cmp_read_fixext8_marker :: "'b cmp_ctx \<Rightarrow> ('b, uint8) cmp_res" where
  "cmp_read_fixext8_marker ctx = cmp_bind (cmp_read_object ctx) (\<lambda>obj ctx.
     if ob_type obj \<noteq> CMP_TYPE_FIXEXT8 then cmp_fail INVALID_TYPE_ERROR ctx else cmp_return (ob_ext_type obj) ctx)"

definition cmp_read_fixext8 :: "'b cmp_ctx \<Rightarrow> ('b, (uint8 \<times> uint8 list)) cmp_res" where
  "cmp_read_fixext8 ctx = cmp_bind (cmp_read_fixext8_marker ctx) (\<lambda>tp ctx.
     cmp_bind (on_failure DATA_READING_ERROR (ctx_read 8 ctx)) (\<lambda>data. cmp_return (tp, data)))"

definition cmp_read_fixext16_marker :: "'b cmp_ctx \<Rightarrow> ('b, uint8) cmp_res" where
  "cmp_read_fixext16_marker ctx = cmp_bind (cmp_read_object ctx) (\<lambda>obj ctx.
     if ob_type obj \<noteq> CMP_TYPE_FIXEXT16 then cmp_fail INVALID_TYPE_ERROR ctx else cmp_return (ob_ext_type obj) ctx)"

definition cmp_read_fixext16 :: "'b cmp_ctx \<Rightarrow> ('b, (uint8 \<times> uint8 list)) cmp_res" where
  "cmp_read_fixext16 ctx = cmp_bind (cmp_read_fixext16_marker ctx) (\<lambda>tp ctx.
     cmp_bind (on_failure DATA_READING_ERROR (ctx_read 16 ctx)) (\<lambda>data. cmp_return (tp, data)))"

definition cmp_read_ext8_marker :: "'b cmp_ctx \<Rightarrow> ('b, (uint8 \<times> uint8)) cmp_res" where
  "cmp_read_ext8_marker ctx = cmp_bind (cmp_read_object ctx) (\<lambda>obj ctx.
     if ob_type obj \<noteq> CMP_TYPE_EXT8 then cmp_fail INVALID_TYPE_ERROR ctx else cmp_return (ob_ext_type obj, ucast (ob_ext_size obj)) ctx)"

definition cmp_read_ext8 :: "'b cmp_ctx \<Rightarrow> ('b, (uint8 \<times> uint8 list)) cmp_res" where
  "cmp_read_ext8 ctx = cmp_bind (cmp_read_ext8_marker ctx) (\<lambda>(tp, sz) ctx.
     cmp_bind (on_failure DATA_READING_ERROR (ctx_read (unat sz) ctx)) (\<lambda>data. cmp_return (tp, data)))"

definition cmp_read_ext16_marker :: "'b cmp_ctx \<Rightarrow> ('b, (uint8 \<times> uint16)) cmp_res" where
  "cmp_read_ext16_marker ctx = cmp_bind (cmp_read_object ctx) (\<lambda>obj ctx.
     if ob_type obj \<noteq> CMP_TYPE_EXT16 then cmp_fail INVALID_TYPE_ERROR ctx else cmp_return (ob_ext_type obj, ucast (ob_ext_size obj)) ctx)"

definition cmp_read_ext16 :: "'b cmp_ctx \<Rightarrow> ('b, (uint8 \<times> uint8 list)) cmp_res" where
  "cmp_read_ext16 ctx = cmp_bind (cmp_read_ext16_marker ctx) (\<lambda>(tp, sz) ctx.
     cmp_bind (on_failure DATA_READING_ERROR (ctx_read (unat sz) ctx)) (\<lambda>data. cmp_return (tp, data)))"

definition cmp_read_ext32_marker :: "'b cmp_ctx \<Rightarrow> ('b, (uint8 \<times> uint32)) cmp_res" where
  "cmp_read_ext32_marker ctx = cmp_bind (cmp_read_object ctx) (\<lambda>obj ctx.
     if ob_type obj \<noteq> CMP_TYPE_EXT32 then cmp_fail INVALID_TYPE_ERROR ctx else cmp_return (ob_ext_type obj, ob_ext_size obj) ctx)"

definition cmp_read_ext32 :: "'b cmp_ctx \<Rightarrow> ('b, (uint8 \<times> uint8 list)) cmp_res" where
  "cmp_read_ext32 ctx = cmp_bind (cmp_read_ext32_marker ctx) (\<lambda>(tp, sz) ctx.
     cmp_bind (on_failure DATA_READING_ERROR (ctx_read (unat sz) ctx)) (\<lambda>data. cmp_return (tp, data)))"

definition cmp_read_ext_marker :: "'b cmp_ctx \<Rightarrow> ('b, (uint8 \<times> uint32)) cmp_res" where
  "cmp_read_ext_marker ctx = cmp_bind (cmp_read_object ctx) (\<lambda>obj ctx.
     if ob_type obj \<in> {CMP_TYPE_FIXEXT1, CMP_TYPE_FIXEXT2, CMP_TYPE_FIXEXT4, CMP_TYPE_FIXEXT8, CMP_TYPE_FIXEXT16, CMP_TYPE_EXT8, CMP_TYPE_EXT16, CMP_TYPE_EXT32} then cmp_return (ob_ext_type obj, ob_ext_size obj) ctx
     else cmp_fail INVALID_TYPE_ERROR ctx)"

definition cmp_read_ext :: "'b cmp_ctx \<Rightarrow> ('b, (uint8 \<times> uint8 list)) cmp_res" where
  "cmp_read_ext ctx = cmp_bind (cmp_read_ext_marker ctx) (\<lambda>(tp, sz) ctx.
     cmp_bind (on_failure DATA_READING_ERROR (ctx_read (unat sz) ctx)) (\<lambda>data. cmp_return (tp, data)))"

subsection \<open>Skipping\<close>

definition is_array_type :: "cmp_type \<Rightarrow> bool" where
  "is_array_type t \<longleftrightarrow> t \<in> {CMP_TYPE_FIXARRAY, CMP_TYPE_ARRAY16, CMP_TYPE_ARRAY32}"

definition is_map_type :: "cmp_type \<Rightarrow> bool" where
  "is_map_type t \<longleftrightarrow> t \<in> {CMP_TYPE_FIXMAP, CMP_TYPE_MAP16, CMP_TYPE_MAP32}"

definition is_ext_type :: "cmp_type \<Rightarrow> bool" where
  "is_ext_type t \<longleftrightarrow> t \<in> {CMP_TYPE_FIXEXT1, CMP_TYPE_FIXEXT2, CMP_TYPE_FIXEXT4, CMP_TYPE_FIXEXT8, CMP_TYPE_FIXEXT16, CMP_TYPE_EXT8, CMP_TYPE_EXT16, CMP_TYPE_EXT32}"

text \<open>The data of a value that is no container: the result of \<^verbatim>\<open>skip_bytes\<close> is not looked at.\<close>

definition skip_data :: "uint8 \<Rightarrow> cmp_type \<Rightarrow> 'b cmp_ctx \<Rightarrow> ('b, unit) cmp_res" where
  "skip_data m t ctx = cmp_bind (read_type_size m t ctx) (\<lambda>sz ctx.
     if sz \<noteq> 0 then
       let sz = (if is_ext_type t then sz + 1 else sz)
       in (Some (), snd (skip_bytes (unat sz) ctx))
     else cmp_return () ctx)"

text \<open>The number of values that a container adds to those that are to be skipped.\<close>

definition skip_elements :: "uint8 \<Rightarrow> cmp_type \<Rightarrow> uint64 \<Rightarrow> 'b cmp_ctx \<Rightarrow> ('b, uint64) cmp_res" where
  "skip_elements m t element_count ctx =
     (if is_array_type t then cmp_bind (read_type_size m t ctx) (\<lambda>sz. cmp_return (element_count + ucast sz))
      else if is_map_type t then cmp_bind (read_type_size m t ctx) (\<lambda>sz. cmp_return (element_count + ucast sz * 2))
      else cmp_return element_count ctx)"

text \<open>The loop of \<^verbatim>\<open>cmp_skip_object_limit\<close>; the object that is beyond the limit goes to the caller.\<close>

partial_function (option) skip_limit_loop ::
    "uint32 \<Rightarrow> uint64 \<Rightarrow> uint32 \<Rightarrow> cmp_object \<Rightarrow> 'b cmp_ctx \<Rightarrow> (('b, unit) cmp_res \<times> cmp_object) option" where
  "skip_limit_loop lim element_count depth obj ctx =
     (if element_count = 0 then Some (cmp_return () ctx, obj)
      else case read_type_marker ctx of
        (None, ctx) \<Rightarrow> Some ((None, ctx), obj)
      | (Some m, ctx) \<Rightarrow>
          (case type_marker_to_cmp_type m of
             None \<Rightarrow> Some (cmp_fail INVALID_TYPE_ERROR ctx, obj)
           | Some t \<Rightarrow>
               let container = is_array_type t \<or> is_map_type t;
                   depth = (if container then depth + 1 else depth)
               in if container \<and> lim < depth then
                    (case read_obj_data m t ctx of
                       (None, ctx) \<Rightarrow> Some ((None, ctx), obj\<lparr>ob_type := t\<rparr>)
                     | (Some obj', ctx) \<Rightarrow> Some (cmp_fail SKIP_DEPTH_LIMIT_EXCEEDED_ERROR ctx, obj'))
                  else case (if container then cmp_return () ctx else skip_data m t ctx) of
                    (None, ctx) \<Rightarrow> Some ((None, ctx), obj)
                  | (Some _, ctx) \<Rightarrow>
                      (case skip_elements m t (element_count - 1) ctx of
                         (None, ctx) \<Rightarrow> Some ((None, ctx), obj)
                       | (Some element_count, ctx) \<Rightarrow> skip_limit_loop lim element_count depth obj ctx)))"

definition cmp_skip_object_limit :: "uint32 \<Rightarrow> cmp_object \<Rightarrow> 'b cmp_ctx \<Rightarrow> (('b, unit) cmp_res \<times> cmp_object) option" where
  "cmp_skip_object_limit lim obj ctx = skip_limit_loop lim 1 0 obj ctx"

definition cmp_skip_object :: "cmp_object \<Rightarrow> 'b cmp_ctx \<Rightarrow> (('b, unit) cmp_res \<times> cmp_object) option" where
  "cmp_skip_object obj ctx = cmp_skip_object_limit 0 obj ctx"

text \<open>The loop of \<^verbatim>\<open>cmp_skip_object_no_limit\<close>.\<close>

partial_function (option) skip_loop :: "uint64 \<Rightarrow> 'b cmp_ctx \<Rightarrow> ('b, unit) cmp_res option" where
  "skip_loop element_count ctx =
     (if element_count = 0 then Some (cmp_return () ctx)
      else case read_type_marker ctx of
        (None, ctx) \<Rightarrow> Some (None, ctx)
      | (Some m, ctx) \<Rightarrow>
          (case type_marker_to_cmp_type m of
             None \<Rightarrow> Some (cmp_fail INVALID_TYPE_ERROR ctx)
           | Some t \<Rightarrow>
               (case (if is_array_type t \<or> is_map_type t then cmp_return () ctx else skip_data m t ctx) of
                  (None, ctx) \<Rightarrow> Some (None, ctx)
                | (Some _, ctx) \<Rightarrow>
                    (case skip_elements m t (element_count - 1) ctx of
                       (None, ctx) \<Rightarrow> Some (None, ctx)
                     | (Some element_count, ctx) \<Rightarrow> skip_loop element_count ctx))))"

definition cmp_skip_object_no_limit :: "'b cmp_ctx \<Rightarrow> ('b, unit) cmp_res option" where
  "cmp_skip_object_no_limit ctx = skip_loop 1 ctx"

subsection \<open>Objects\<close>

definition cmp_object_is_char :: "cmp_object \<Rightarrow> bool" where
  "cmp_object_is_char obj \<longleftrightarrow> ob_type obj \<in> {CMP_TYPE_NEGATIVE_FIXNUM, CMP_TYPE_SINT8}"

definition cmp_object_is_short :: "cmp_object \<Rightarrow> bool" where
  "cmp_object_is_short obj \<longleftrightarrow> ob_type obj \<in> {CMP_TYPE_NEGATIVE_FIXNUM, CMP_TYPE_SINT8, CMP_TYPE_SINT16}"

definition cmp_object_is_int :: "cmp_object \<Rightarrow> bool" where
  "cmp_object_is_int obj \<longleftrightarrow> ob_type obj \<in> {CMP_TYPE_NEGATIVE_FIXNUM, CMP_TYPE_SINT8, CMP_TYPE_SINT16, CMP_TYPE_SINT32}"

definition cmp_object_is_long :: "cmp_object \<Rightarrow> bool" where
  "cmp_object_is_long obj \<longleftrightarrow> ob_type obj \<in> {CMP_TYPE_NEGATIVE_FIXNUM, CMP_TYPE_SINT8, CMP_TYPE_SINT16, CMP_TYPE_SINT32, CMP_TYPE_SINT64}"

definition cmp_object_is_sinteger :: "cmp_object \<Rightarrow> bool" where
  "cmp_object_is_sinteger obj \<longleftrightarrow> cmp_object_is_long obj"

definition cmp_object_is_uchar :: "cmp_object \<Rightarrow> bool" where
  "cmp_object_is_uchar obj \<longleftrightarrow> ob_type obj \<in> {CMP_TYPE_POSITIVE_FIXNUM, CMP_TYPE_UINT8}"

definition cmp_object_is_ushort :: "cmp_object \<Rightarrow> bool" where
  "cmp_object_is_ushort obj \<longleftrightarrow> ob_type obj \<in> {CMP_TYPE_POSITIVE_FIXNUM, CMP_TYPE_UINT8, CMP_TYPE_UINT16}"

definition cmp_object_is_uint :: "cmp_object \<Rightarrow> bool" where
  "cmp_object_is_uint obj \<longleftrightarrow> ob_type obj \<in> {CMP_TYPE_POSITIVE_FIXNUM, CMP_TYPE_UINT8, CMP_TYPE_UINT16, CMP_TYPE_UINT32}"

definition cmp_object_is_ulong :: "cmp_object \<Rightarrow> bool" where
  "cmp_object_is_ulong obj \<longleftrightarrow> ob_type obj \<in> {CMP_TYPE_POSITIVE_FIXNUM, CMP_TYPE_UINT8, CMP_TYPE_UINT16, CMP_TYPE_UINT32, CMP_TYPE_UINT64}"

definition cmp_object_is_uinteger :: "cmp_object \<Rightarrow> bool" where
  "cmp_object_is_uinteger obj \<longleftrightarrow> cmp_object_is_ulong obj"

definition cmp_object_is_float :: "cmp_object \<Rightarrow> bool" where
  "cmp_object_is_float obj \<longleftrightarrow> ob_type obj = CMP_TYPE_FLOAT"

definition cmp_object_is_double :: "cmp_object \<Rightarrow> bool" where
  "cmp_object_is_double obj \<longleftrightarrow> ob_type obj = CMP_TYPE_DOUBLE"

definition cmp_object_is_nil :: "cmp_object \<Rightarrow> bool" where
  "cmp_object_is_nil obj \<longleftrightarrow> ob_type obj = CMP_TYPE_NIL"

definition cmp_object_is_bool :: "cmp_object \<Rightarrow> bool" where
  "cmp_object_is_bool obj \<longleftrightarrow> ob_type obj = CMP_TYPE_BOOLEAN"

definition cmp_object_is_str :: "cmp_object \<Rightarrow> bool" where
  "cmp_object_is_str obj \<longleftrightarrow> ob_type obj \<in> {CMP_TYPE_FIXSTR, CMP_TYPE_STR8, CMP_TYPE_STR16, CMP_TYPE_STR32}"

definition cmp_object_is_bin :: "cmp_object \<Rightarrow> bool" where
  "cmp_object_is_bin obj \<longleftrightarrow> ob_type obj \<in> {CMP_TYPE_BIN8, CMP_TYPE_BIN16, CMP_TYPE_BIN32}"

definition cmp_object_is_array :: "cmp_object \<Rightarrow> bool" where
  "cmp_object_is_array obj \<longleftrightarrow> ob_type obj \<in> {CMP_TYPE_FIXARRAY, CMP_TYPE_ARRAY16, CMP_TYPE_ARRAY32}"

definition cmp_object_is_map :: "cmp_object \<Rightarrow> bool" where
  "cmp_object_is_map obj \<longleftrightarrow> ob_type obj \<in> {CMP_TYPE_FIXMAP, CMP_TYPE_MAP16, CMP_TYPE_MAP32}"

definition cmp_object_is_ext :: "cmp_object \<Rightarrow> bool" where
  "cmp_object_is_ext obj \<longleftrightarrow> ob_type obj \<in> {CMP_TYPE_FIXEXT1, CMP_TYPE_FIXEXT2, CMP_TYPE_FIXEXT4, CMP_TYPE_FIXEXT8, CMP_TYPE_FIXEXT16, CMP_TYPE_EXT8, CMP_TYPE_EXT16, CMP_TYPE_EXT32}"

definition cmp_object_as_char :: "cmp_object \<Rightarrow> uint8 option" where
  "cmp_object_as_char obj =
     (if ob_type obj \<in> {CMP_TYPE_POSITIVE_FIXNUM, CMP_TYPE_NEGATIVE_FIXNUM, CMP_TYPE_SINT8} then Some (ob_u8 obj)
      else if ob_type obj = CMP_TYPE_UINT8 \<and> ob_u8 obj \<le> 127 then Some (ob_u8 obj)
      else None)"

definition cmp_object_as_short :: "cmp_object \<Rightarrow> uint16 option" where
  "cmp_object_as_short obj =
     (if ob_type obj \<in> {CMP_TYPE_POSITIVE_FIXNUM, CMP_TYPE_NEGATIVE_FIXNUM, CMP_TYPE_SINT8} then Some (scast (ob_u8 obj))
      else if ob_type obj = CMP_TYPE_UINT8 then Some (ucast (ob_u8 obj))
      else if ob_type obj = CMP_TYPE_SINT16 then Some (ob_u16 obj)
      else if ob_type obj = CMP_TYPE_UINT16 \<and> ob_u16 obj \<le> 32767 then Some (ob_u16 obj)
      else None)"

definition cmp_object_as_int :: "cmp_object \<Rightarrow> uint32 option" where
  "cmp_object_as_int obj =
     (if ob_type obj \<in> {CMP_TYPE_POSITIVE_FIXNUM, CMP_TYPE_NEGATIVE_FIXNUM, CMP_TYPE_SINT8} then Some (scast (ob_u8 obj))
      else if ob_type obj = CMP_TYPE_UINT8 then Some (ucast (ob_u8 obj))
      else if ob_type obj = CMP_TYPE_SINT16 then Some (scast (ob_u16 obj))
      else if ob_type obj = CMP_TYPE_UINT16 then Some (ucast (ob_u16 obj))
      else if ob_type obj = CMP_TYPE_SINT32 then Some (ob_u32 obj)
      else if ob_type obj = CMP_TYPE_UINT32 \<and> ob_u32 obj \<le> 2147483647 then Some (ob_u32 obj)
      else None)"

definition cmp_object_as_long :: "cmp_object \<Rightarrow> uint64 option" where
  "cmp_object_as_long obj =
     (if ob_type obj \<in> {CMP_TYPE_POSITIVE_FIXNUM, CMP_TYPE_NEGATIVE_FIXNUM, CMP_TYPE_SINT8} then Some (scast (ob_u8 obj))
      else if ob_type obj = CMP_TYPE_UINT8 then Some (ucast (ob_u8 obj))
      else if ob_type obj = CMP_TYPE_SINT16 then Some (scast (ob_u16 obj))
      else if ob_type obj = CMP_TYPE_UINT16 then Some (ucast (ob_u16 obj))
      else if ob_type obj = CMP_TYPE_SINT32 then Some (scast (ob_u32 obj))
      else if ob_type obj = CMP_TYPE_UINT32 then Some (ucast (ob_u32 obj))
      else if ob_type obj = CMP_TYPE_SINT64 then Some (ob_u64 obj)
      else if ob_type obj = CMP_TYPE_UINT64 \<and> ob_u64 obj \<le> 9223372036854775807 then Some (ob_u64 obj)
      else None)"

definition cmp_object_as_sinteger :: "cmp_object \<Rightarrow> uint64 option" where
  "cmp_object_as_sinteger obj = cmp_object_as_long obj"

definition cmp_object_as_uchar :: "cmp_object \<Rightarrow> uint8 option" where
  "cmp_object_as_uchar obj =
     (if ob_type obj \<in> {CMP_TYPE_POSITIVE_FIXNUM, CMP_TYPE_UINT8} then Some (ob_u8 obj)
      else None)"

definition cmp_object_as_ushort :: "cmp_object \<Rightarrow> uint16 option" where
  "cmp_object_as_ushort obj =
     (if ob_type obj \<in> {CMP_TYPE_POSITIVE_FIXNUM, CMP_TYPE_UINT8} then Some (ucast (ob_u8 obj))
      else if ob_type obj = CMP_TYPE_UINT16 then Some (ob_u16 obj)
      else None)"

definition cmp_object_as_uint :: "cmp_object \<Rightarrow> uint32 option" where
  "cmp_object_as_uint obj =
     (if ob_type obj \<in> {CMP_TYPE_POSITIVE_FIXNUM, CMP_TYPE_UINT8} then Some (ucast (ob_u8 obj))
      else if ob_type obj = CMP_TYPE_UINT16 then Some (ucast (ob_u16 obj))
      else if ob_type obj = CMP_TYPE_UINT32 then Some (ob_u32 obj)
      else None)"

definition cmp_object_as_ulong :: "cmp_object \<Rightarrow> uint64 option" where
  "cmp_object_as_ulong obj =
     (if ob_type obj \<in> {CMP_TYPE_POSITIVE_FIXNUM, CMP_TYPE_UINT8} then Some (ucast (ob_u8 obj))
      else if ob_type obj = CMP_TYPE_UINT16 then Some (ucast (ob_u16 obj))
      else if ob_type obj = CMP_TYPE_UINT32 then Some (ucast (ob_u32 obj))
      else if ob_type obj = CMP_TYPE_UINT64 then Some (ob_u64 obj)
      else None)"

definition cmp_object_as_uinteger :: "cmp_object \<Rightarrow> uint64 option" where
  "cmp_object_as_uinteger obj = cmp_object_as_ulong obj"

definition cmp_object_as_float :: "cmp_object \<Rightarrow> uint32 option" where
  "cmp_object_as_float obj =
     (if ob_type obj = CMP_TYPE_FLOAT then Some (ob_u32 obj)
      else None)"

definition cmp_object_as_double :: "cmp_object \<Rightarrow> uint64 option" where
  "cmp_object_as_double obj =
     (if ob_type obj = CMP_TYPE_DOUBLE then Some (ob_u64 obj)
      else None)"

definition cmp_object_as_bool :: "cmp_object \<Rightarrow> bool option" where
  "cmp_object_as_bool obj =
     (if ob_type obj = CMP_TYPE_BOOLEAN then Some (ob_boolean obj)
      else None)"

definition cmp_object_as_str :: "cmp_object \<Rightarrow> uint32 option" where
  "cmp_object_as_str obj =
     (if ob_type obj \<in> {CMP_TYPE_FIXSTR, CMP_TYPE_STR8, CMP_TYPE_STR16, CMP_TYPE_STR32} then Some (ob_u32 obj)
      else None)"

definition cmp_object_as_bin :: "cmp_object \<Rightarrow> uint32 option" where
  "cmp_object_as_bin obj =
     (if ob_type obj \<in> {CMP_TYPE_BIN8, CMP_TYPE_BIN16, CMP_TYPE_BIN32} then Some (ob_u32 obj)
      else None)"

definition cmp_object_as_array :: "cmp_object \<Rightarrow> uint32 option" where
  "cmp_object_as_array obj =
     (if ob_type obj \<in> {CMP_TYPE_FIXARRAY, CMP_TYPE_ARRAY16, CMP_TYPE_ARRAY32} then Some (ob_u32 obj)
      else None)"

definition cmp_object_as_map :: "cmp_object \<Rightarrow> uint32 option" where
  "cmp_object_as_map obj =
     (if ob_type obj \<in> {CMP_TYPE_FIXMAP, CMP_TYPE_MAP16, CMP_TYPE_MAP32} then Some (ob_u32 obj)
      else None)"

definition cmp_object_as_ext :: "cmp_object \<Rightarrow> (uint8 \<times> uint32) option" where
  "cmp_object_as_ext obj =
     (if ob_type obj \<in> {CMP_TYPE_FIXEXT1, CMP_TYPE_FIXEXT2, CMP_TYPE_FIXEXT4, CMP_TYPE_FIXEXT8, CMP_TYPE_FIXEXT16, CMP_TYPE_EXT8, CMP_TYPE_EXT16, CMP_TYPE_EXT32} then Some (ob_ext_type obj, ob_ext_size obj)
      else None)"

definition cmp_object_to_str :: "cmp_object \<Rightarrow> uint32 \<Rightarrow> 'b cmp_ctx \<Rightarrow> ('b, uint8 list) cmp_res" where
  "cmp_object_to_str obj buf_size ctx =
     (if cmp_object_is_str obj then
        let str_size = ob_u32 obj
        in if buf_size < str_size + 1 then cmp_fail STR_DATA_LENGTH_TOO_LONG_ERROR ctx
           else cmp_bind (on_failure DATA_READING_ERROR (ctx_read (unat str_size) ctx)) (\<lambda>data. cmp_return (data @ [0]))
      else (None, ctx))"

definition cmp_object_to_bin :: "cmp_object \<Rightarrow> uint32 \<Rightarrow> 'b cmp_ctx \<Rightarrow> ('b, uint8 list) cmp_res" where
  "cmp_object_to_bin obj buf_size ctx =
     (if cmp_object_is_bin obj then
        let bin_size = ob_u32 obj
        in if buf_size < bin_size then cmp_fail BIN_DATA_LENGTH_TOO_LONG_ERROR ctx
           else on_failure DATA_READING_ERROR (ctx_read (unat bin_size) ctx)
      else (None, ctx))"

end
