(* ===== verification/Msgpack_Codec.thy ===== *)
theory Msgpack_Codec
  imports Msgpack_Write Msgpack_Read
begin

text \<open>
  The format of MessagePack as a specification, and that cmp.c follows it: which bytes an object is written as, what a
  reader makes of them, and that it accepts nothing else.  The reader of the context is an interface
  (\<open>byte_reader\<close>); rdsstore.c provides one.
\<close>

unbundle bit_operations_syntax

subsection \<open>Integers, most significant byte first\<close>

definition store_be :: "nat \<Rightarrow> 'a :: len word \<Rightarrow> uint8 list" where
  "store_be n w = rev (store_le n w)"

definition load_be :: "uint8 list \<Rightarrow> 'a :: len word" where
  "load_be bs = load_le (rev bs)"

lemma length_store_be [simp]: "length (store_be n w) = n"
  by (simp add: store_be_def)

lemma store_load_le:
  assumes "8 * length bs \<le> LENGTH('a :: len)"
  shows "store_le (length bs) (load_le bs :: 'a word) = bs"
proof (rule nth_equalityI)
  fix i
  assume "i < length (store_le (length bs) (load_le bs :: 'a word))"
  then have i: "i < length bs" by simp
  have lt: "k < 8 \<Longrightarrow> 8 * i + k < LENGTH('a)" for k using i assms by linarith
  have "byte_at (load_le bs :: 'a word) i = bs ! i"
    by (rule bit_word_eqI) (use i lt in \<open>auto simp: bit_byte_at bit_load_le\<close>)
  then show "store_le (length bs) (load_le bs :: 'a word) ! i = bs ! i" using i by (simp add: store_le_def)
qed simp

lemma load_store_be: "LENGTH('a :: len) \<le> 8 * n \<Longrightarrow> load_be (store_be n (w :: 'a word)) = w"
  by (simp add: load_be_def store_be_def load_store_le)

lemma store_load_be: "length bs = n \<Longrightarrow> 8 * n \<le> LENGTH('a :: len) \<Longrightarrow> store_be n (load_be bs :: 'a word) = bs"
  using store_load_le [of "rev bs", where 'a = 'a] by (simp add: load_be_def store_be_def)

lemma be_load:
  "be16 x = load_be (store_le 2 x)" "be32 y = load_be (store_le 4 y)" "be64 z = load_be (store_le 8 z)"
  by (simp_all add: be16_def be32_def be64_def load_be_def store_le_def upt_rec eval_nat_numeral)

lemma store_le_be:
  "store_le 2 (be16 x) = store_be 2 x" "store_le 4 (be32 y) = store_be 4 y" "store_le 8 (be64 z) = store_be 8 z"
  using store_load_le [of "rev (store_le 2 x)", where 'a = 16] store_load_le [of "rev (store_le 4 y)", where 'a = 32]
    store_load_le [of "rev (store_le 8 z)", where 'a = 64]
  by (simp_all add: be_load load_be_def store_be_def)

lemma be_load_le:
  "length bs = 2 \<Longrightarrow> be16 (load_le bs) = load_be bs" "length bs = 4 \<Longrightarrow> be32 (load_le bs) = load_be bs"
  "length bs = 8 \<Longrightarrow> be64 (load_le bs) = load_be bs"
  using store_load_le [of bs, where 'a = 16] store_load_le [of bs, where 'a = 32] store_load_le [of bs, where 'a = 64]
  by (simp_all add: be_load)

lemma decode_be:
  "length bs = 4 \<Longrightarrow> decode_befloat bs = load_be bs" "length bs = 8 \<Longrightarrow> decode_bedouble bs = load_be bs"
  by (auto simp: decode_befloat_def decode_bedouble_def load_be_def length_Suc_conv numeral_eq_Suc)

lemma load_le_1: "(load_le [b] :: uint8) = b"
  by simp

subsection \<open>The format\<close>

definition is_boolean :: "cmp_object_data \<Rightarrow> bool" where
  "is_boolean d \<longleftrightarrow> (case d of As_boolean _ \<Rightarrow> True | _ \<Rightarrow> False)"

definition is_8 :: "cmp_object_data \<Rightarrow> (uint8 \<Rightarrow> bool) \<Rightarrow> bool" where
  "is_8 d P \<longleftrightarrow> (case d of As_8 x \<Rightarrow> P x | _ \<Rightarrow> False)"

definition is_16 :: "cmp_object_data \<Rightarrow> (uint16 \<Rightarrow> bool) \<Rightarrow> bool" where
  "is_16 d P \<longleftrightarrow> (case d of As_16 x \<Rightarrow> P x | _ \<Rightarrow> False)"

definition is_32 :: "cmp_object_data \<Rightarrow> (uint32 \<Rightarrow> bool) \<Rightarrow> bool" where
  "is_32 d P \<longleftrightarrow> (case d of As_32 x \<Rightarrow> P x | _ \<Rightarrow> False)"

definition is_64 :: "cmp_object_data \<Rightarrow> (uint64 \<Rightarrow> bool) \<Rightarrow> bool" where
  "is_64 d P \<longleftrightarrow> (case d of As_64 x \<Rightarrow> P x | _ \<Rightarrow> False)"

definition is_ext :: "cmp_object_data \<Rightarrow> (uint8 \<Rightarrow> uint32 \<Rightarrow> bool) \<Rightarrow> bool" where
  "is_ext d P \<longleftrightarrow> (case d of As_ext t n \<Rightarrow> P t n | _ \<Rightarrow> False)"

lemma is_data_iff:
  "is_boolean d \<longleftrightarrow> (\<exists>b. d = As_boolean b)" "is_8 d P8 \<longleftrightarrow> (\<exists>x. d = As_8 x \<and> P8 x)"
  "is_16 d P16 \<longleftrightarrow> (\<exists>x. d = As_16 x \<and> P16 x)" "is_32 d P32 \<longleftrightarrow> (\<exists>x. d = As_32 x \<and> P32 x)"
  "is_64 d P64 \<longleftrightarrow> (\<exists>x. d = As_64 x \<and> P64 x)" "is_ext d P \<longleftrightarrow> (\<exists>t n. d = As_ext t n \<and> P t n)"
  by (auto simp: is_boolean_def is_8_def is_16_def is_32_def is_64_def is_ext_def split: cmp_object_data.splits)

text \<open>The data that an object of a type has, and the bytes that begin its encoding.\<close>

primrec mp_valid :: "cmp_type \<Rightarrow> cmp_object_data \<Rightarrow> bool" where
  "mp_valid CMP_TYPE_POSITIVE_FIXNUM d = (is_8 d (\<lambda>x. x \<le> 0x7F))"
| "mp_valid CMP_TYPE_FIXMAP d = (is_32 d (\<lambda>n. n \<le> 0xF))"
| "mp_valid CMP_TYPE_FIXARRAY d = (is_32 d (\<lambda>n. n \<le> 0xF))"
| "mp_valid CMP_TYPE_FIXSTR d = (is_32 d (\<lambda>n. n \<le> 0x1F))"
| "mp_valid CMP_TYPE_NIL d = (d = As_8 0)"
| "mp_valid CMP_TYPE_BOOLEAN d = (is_boolean d)"
| "mp_valid CMP_TYPE_BIN8 d = (is_32 d (\<lambda>n. n \<le> 0xFF))"
| "mp_valid CMP_TYPE_BIN16 d = (is_32 d (\<lambda>n. n \<le> 0xFFFF))"
| "mp_valid CMP_TYPE_BIN32 d = (is_32 d (\<lambda>_. True))"
| "mp_valid CMP_TYPE_EXT8 d = (is_ext d (\<lambda>_ n. n \<le> 0xFF))"
| "mp_valid CMP_TYPE_EXT16 d = (is_ext d (\<lambda>_ n. n \<le> 0xFFFF))"
| "mp_valid CMP_TYPE_EXT32 d = (is_ext d (\<lambda>_ _. True))"
| "mp_valid CMP_TYPE_FLOAT d = (is_32 d (\<lambda>_. True))"
| "mp_valid CMP_TYPE_DOUBLE d = (is_64 d (\<lambda>_. True))"
| "mp_valid CMP_TYPE_UINT8 d = (is_8 d (\<lambda>_. True))"
| "mp_valid CMP_TYPE_UINT16 d = (is_16 d (\<lambda>_. True))"
| "mp_valid CMP_TYPE_UINT32 d = (is_32 d (\<lambda>_. True))"
| "mp_valid CMP_TYPE_UINT64 d = (is_64 d (\<lambda>_. True))"
| "mp_valid CMP_TYPE_SINT8 d = (is_8 d (\<lambda>_. True))"
| "mp_valid CMP_TYPE_SINT16 d = (is_16 d (\<lambda>_. True))"
| "mp_valid CMP_TYPE_SINT32 d = (is_32 d (\<lambda>_. True))"
| "mp_valid CMP_TYPE_SINT64 d = (is_64 d (\<lambda>_. True))"
| "mp_valid CMP_TYPE_FIXEXT1 d = (is_ext d (\<lambda>_ n. n = 1))"
| "mp_valid CMP_TYPE_FIXEXT2 d = (is_ext d (\<lambda>_ n. n = 2))"
| "mp_valid CMP_TYPE_FIXEXT4 d = (is_ext d (\<lambda>_ n. n = 4))"
| "mp_valid CMP_TYPE_FIXEXT8 d = (is_ext d (\<lambda>_ n. n = 8))"
| "mp_valid CMP_TYPE_FIXEXT16 d = (is_ext d (\<lambda>_ n. n = 16))"
| "mp_valid CMP_TYPE_STR8 d = (is_32 d (\<lambda>n. n \<le> 0xFF))"
| "mp_valid CMP_TYPE_STR16 d = (is_32 d (\<lambda>n. n \<le> 0xFFFF))"
| "mp_valid CMP_TYPE_STR32 d = (is_32 d (\<lambda>_. True))"
| "mp_valid CMP_TYPE_ARRAY16 d = (is_32 d (\<lambda>n. n \<le> 0xFFFF))"
| "mp_valid CMP_TYPE_ARRAY32 d = (is_32 d (\<lambda>_. True))"
| "mp_valid CMP_TYPE_MAP16 d = (is_32 d (\<lambda>n. n \<le> 0xFFFF))"
| "mp_valid CMP_TYPE_MAP32 d = (is_32 d (\<lambda>_. True))"
| "mp_valid CMP_TYPE_NEGATIVE_FIXNUM d = (is_8 d (\<lambda>x. 0xE0 \<le> x))"

primrec mp_encode :: "cmp_type \<Rightarrow> cmp_object_data \<Rightarrow> uint8 list" where
  "mp_encode CMP_TYPE_POSITIVE_FIXNUM d = [ucast (as_64 d)]"
| "mp_encode CMP_TYPE_FIXMAP d = [FIXMAP_MARKER OR ucast (as_64 d)]"
| "mp_encode CMP_TYPE_FIXARRAY d = [FIXARRAY_MARKER OR ucast (as_64 d)]"
| "mp_encode CMP_TYPE_FIXSTR d = [FIXSTR_MARKER OR ucast (as_64 d)]"
| "mp_encode CMP_TYPE_NIL d = [NIL_MARKER]"
| "mp_encode CMP_TYPE_BOOLEAN d = [if (ucast (as_64 d) :: uint8) \<noteq> 0 then TRUE_MARKER else FALSE_MARKER]"
| "mp_encode CMP_TYPE_BIN8 d = BIN8_MARKER # store_be 1 (ucast (as_64 d) :: uint8)"
| "mp_encode CMP_TYPE_BIN16 d = BIN16_MARKER # store_be 2 (ucast (as_64 d) :: uint16)"
| "mp_encode CMP_TYPE_BIN32 d = BIN32_MARKER # store_be 4 (ucast (as_64 d) :: uint32)"
| "mp_encode CMP_TYPE_EXT8 d = EXT8_MARKER # store_be 1 (ucast (drop_bit 32 (as_64 d)) :: uint8) @ [ucast (as_64 d)]"
| "mp_encode CMP_TYPE_EXT16 d = EXT16_MARKER # store_be 2 (ucast (drop_bit 32 (as_64 d)) :: uint16) @ [ucast (as_64 d)]"
| "mp_encode CMP_TYPE_EXT32 d = EXT32_MARKER # store_be 4 (ucast (drop_bit 32 (as_64 d)) :: uint32) @ [ucast (as_64 d)]"
| "mp_encode CMP_TYPE_FLOAT d = FLOAT_MARKER # store_be 4 (ucast (as_64 d) :: uint32)"
| "mp_encode CMP_TYPE_DOUBLE d = DOUBLE_MARKER # store_be 8 (as_64 d)"
| "mp_encode CMP_TYPE_UINT8 d = U8_MARKER # store_be 1 (ucast (as_64 d) :: uint8)"
| "mp_encode CMP_TYPE_UINT16 d = U16_MARKER # store_be 2 (ucast (as_64 d) :: uint16)"
| "mp_encode CMP_TYPE_UINT32 d = U32_MARKER # store_be 4 (ucast (as_64 d) :: uint32)"
| "mp_encode CMP_TYPE_UINT64 d = U64_MARKER # store_be 8 (ucast (as_64 d) :: uint64)"
| "mp_encode CMP_TYPE_SINT8 d = S8_MARKER # store_be 1 (ucast (as_64 d) :: uint8)"
| "mp_encode CMP_TYPE_SINT16 d = S16_MARKER # store_be 2 (ucast (as_64 d) :: uint16)"
| "mp_encode CMP_TYPE_SINT32 d = S32_MARKER # store_be 4 (ucast (as_64 d) :: uint32)"
| "mp_encode CMP_TYPE_SINT64 d = S64_MARKER # store_be 8 (ucast (as_64 d) :: uint64)"
| "mp_encode CMP_TYPE_FIXEXT1 d = [FIXEXT1_MARKER, ucast (as_64 d)]"
| "mp_encode CMP_TYPE_FIXEXT2 d = [FIXEXT2_MARKER, ucast (as_64 d)]"
| "mp_encode CMP_TYPE_FIXEXT4 d = [FIXEXT4_MARKER, ucast (as_64 d)]"
| "mp_encode CMP_TYPE_FIXEXT8 d = [FIXEXT8_MARKER, ucast (as_64 d)]"
| "mp_encode CMP_TYPE_FIXEXT16 d = [FIXEXT16_MARKER, ucast (as_64 d)]"
| "mp_encode CMP_TYPE_STR8 d = STR8_MARKER # store_be 1 (ucast (as_64 d) :: uint8)"
| "mp_encode CMP_TYPE_STR16 d = STR16_MARKER # store_be 2 (ucast (as_64 d) :: uint16)"
| "mp_encode CMP_TYPE_STR32 d = STR32_MARKER # store_be 4 (ucast (as_64 d) :: uint32)"
| "mp_encode CMP_TYPE_ARRAY16 d = ARRAY16_MARKER # store_be 2 (ucast (as_64 d) :: uint16)"
| "mp_encode CMP_TYPE_ARRAY32 d = ARRAY32_MARKER # store_be 4 (ucast (as_64 d) :: uint32)"
| "mp_encode CMP_TYPE_MAP16 d = MAP16_MARKER # store_be 2 (ucast (as_64 d) :: uint16)"
| "mp_encode CMP_TYPE_MAP32 d = MAP32_MARKER # store_be 4 (ucast (as_64 d) :: uint32)"
| "mp_encode CMP_TYPE_NEGATIVE_FIXNUM d = [ucast (as_64 d)]"

definition ob_valid :: "cmp_object \<Rightarrow> bool" where
  "ob_valid obj = mp_valid (ob_type obj) (ob_as obj)"

definition mp_bytes :: "cmp_object \<Rightarrow> uint8 list" where
  "mp_bytes obj = mp_encode (ob_type obj) (ob_as obj)"

subsection \<open>Writing\<close>

text \<open>A writer that keeps what it is given.\<close>

definition collects :: "uint8 list cmp_ctx \<Rightarrow> bool" where
  "collects ctx \<longleftrightarrow> (\<forall>b bs. cx_write ctx b bs = (length bs, b @ bs))"

definition emits :: "(uint8 list cmp_ctx \<Rightarrow> (uint8 list, unit) cmp_res) \<Rightarrow> uint8 list \<Rightarrow> bool" where
  "emits f bs \<longleftrightarrow> (\<forall>ctx. collects ctx \<longrightarrow> f ctx = (Some (), ctx\<lparr>cx_buf := cx_buf ctx @ bs\<rparr>))"

lemma collects_buf [simp]: "collects (ctx\<lparr>cx_buf := b\<rparr>) = collects ctx"
  by (simp add: collects_def)

lemma emits_return: "emits (cmp_return ()) []"
  by (simp add: emits_def cmp_return_def)

lemma emits_write: "bs \<noteq> [] \<Longrightarrow> emits (ctx_write bs) bs"
  by (simp add: emits_def ctx_write_def collects_def)

lemma emits_byte: "emits (write_byte x) [x]"
  by (simp add: emits_def write_byte_def collects_def)

lemma emits_on_failure: "emits f bs \<Longrightarrow> emits (\<lambda>ctx. on_failure e (f ctx)) bs"
  by (simp add: emits_def on_failure_def)

lemma emits_bind: "emits f bs \<Longrightarrow> emits (g ()) cs \<Longrightarrow> emits (\<lambda>ctx. cmp_bind (f ctx) g) (bs @ cs)"
  by (simp add: emits_def cmp_bind_def)

lemma emits_marker: "emits (write_type_marker m) [m]"
  unfolding write_type_marker_def by (rule emits_on_failure [OF emits_byte])

lemma emits_fixed: "emits (write_fixed_value m) [m]"
  unfolding write_fixed_value_def by (rule emits_on_failure [OF emits_byte])

lemma emits_marker_then: "emits f bs \<Longrightarrow> emits (\<lambda>ctx. cmp_bind (write_type_marker m ctx) (\<lambda>_. f)) (m # bs)"
  using emits_bind [OF emits_marker, of "\<lambda>_. f"] by simp

lemma emits_ext_head:
  "bs \<noteq> [] \<Longrightarrow> emits (\<lambda>ctx. cmp_bind (write_type_marker m ctx) (\<lambda>_ ctx. cmp_bind (on_failure e (ctx_write bs ctx)) (\<lambda>_ ctx. on_failure e' (ctx_write [tp] ctx))))
     (m # bs @ [tp])"
  by (intro emits_marker_then emits_bind emits_on_failure emits_write) simp_all

lemma emits_head:
  "bs \<noteq> [] \<Longrightarrow> emits (\<lambda>ctx. cmp_bind (write_type_marker m ctx) (\<lambda>_ ctx. on_failure e (ctx_write bs ctx))) (m # bs)"
  "bs \<noteq> [] \<Longrightarrow> emits (\<lambda>ctx. cmp_bind (write_type_marker m ctx) (\<lambda>_. ctx_write bs)) (m # bs)"
  by (intro emits_marker_then emits_on_failure emits_write; assumption)+

lemma store_be_not_Nil [simp]: "0 < n \<Longrightarrow> store_be n w \<noteq> []"
  by (auto simp: store_be_def store_le_def)

lemma store_be_1: "store_be (Suc 0) (w :: uint8) = [w]"
  by (simp add: store_be_def store_le_def byte_at_def)

lemmas emits_rules = emits_ext_head emits_ext_head [of "[x]" for x, simplified] emits_head emits_marker emits_fixed

lemmas cmp_write_defs =
  cmp_write_pfix_def cmp_write_nfix_def cmp_write_s8_def cmp_write_s16_def cmp_write_s32_def cmp_write_s64_def cmp_write_u8_def
  cmp_write_u16_def cmp_write_u32_def cmp_write_u64_def cmp_write_float_def cmp_write_double_def cmp_write_nil_def
  cmp_write_true_def cmp_write_false_def cmp_write_fixstr_marker_def cmp_write_str8_marker_def cmp_write_str16_marker_def
  cmp_write_str32_marker_def cmp_write_bin8_marker_def cmp_write_bin16_marker_def cmp_write_bin32_marker_def
  cmp_write_fixarray_def cmp_write_array16_def cmp_write_array32_def cmp_write_fixmap_def cmp_write_map16_def
  cmp_write_map32_def cmp_write_fixext1_marker_def cmp_write_fixext2_marker_def cmp_write_fixext4_marker_def
  cmp_write_fixext8_marker_def cmp_write_fixext16_marker_def cmp_write_ext8_marker_def cmp_write_ext16_marker_def
  cmp_write_ext32_marker_def

text \<open>The members of the union.\<close>

lemma ucast_up_down:
  "(ucast (ucast (x :: uint8) :: uint64) :: uint8) = x" "(ucast (ucast (y :: uint16) :: uint64) :: uint16) = y"
  "(ucast (ucast (z :: uint32) :: uint64) :: uint32) = z"
  "(ucast (ucast (z :: uint32) :: uint64) :: uint16) = ucast z" "(ucast (ucast (z :: uint32) :: uint64) :: uint8) = ucast z"
  "(ucast (ucast (x :: uint8) :: uint32) :: uint8) = x" "(ucast (ucast (y :: uint16) :: uint32) :: uint16) = y"
  by (auto intro!: bit_word_eqI simp: bit_simps dest: bit_imp_le_length)

lemma not_bit_uint8: "8 \<le> k \<Longrightarrow> \<not> bit (t :: uint8) k"
  using bit_imp_le_length [of t k] by auto

lemma ext_members:
  "(ucast (as_64 (As_ext t n)) :: uint8) = t" "(ucast (drop_bit 32 (as_64 (As_ext t n))) :: uint32) = n"
  "(ucast (drop_bit 32 (as_64 (As_ext t n))) :: uint16) = ucast n" "(ucast (drop_bit 32 (as_64 (As_ext t n))) :: uint8) = ucast n"
  by (auto intro!: bit_word_eqI simp: bit_simps not_bit_uint8)

declare as_64.simps(6) [simp del]
lemmas members = ucast_up_down ext_members

lemma unat_ucast_le: "unat (ucast (x :: 'a :: len word) :: 'b :: len word) \<le> unat x"
  by (simp add: unsigned_ucast_eq unsigned_take_bit_eq take_bit_nat_less_eq_self)

lemma ucast_le_small: "x \<le> 0xF \<Longrightarrow> (ucast (x :: uint32) :: uint8) \<le> 0xF" "x \<le> 0x1F \<Longrightarrow> (ucast (x :: uint32) :: uint8) \<le> 0x1F"
  using unat_ucast_le [of x, where 'b = 8] by (simp_all add: word_le_nat_alt)

lemma sint_cases: "sint (x :: 'a :: len word) = (if uint x < 2 ^ (LENGTH('a) - 1) then uint x else uint x - 2 ^ LENGTH('a))"
proof -
  define h :: int where "h = 2 ^ (LENGTH('a) - Suc 0)"
  have p: "(2 :: int) ^ LENGTH('a) = 2 * h" unfolding h_def by (cases "LENGTH('a)") simp_all
  have x: "0 \<le> uint x" "uint x < 2 * h" using unsigned_less [of x, where 'a = int] by (simp_all add: p)
  have s: "sint x = (uint x + h) mod (2 * h) - h"
    by (simp add: sint_uint signed_take_bit_eq_take_bit_shift take_bit_eq_mod p h_def [symmetric])
  have "sint x = (if uint x < h then uint x else uint x - 2 * h)"
  proof (cases "uint x < h")
    case True
    then have "(uint x + h) mod (2 * h) = uint x + h" using x by (intro mod_pos_pos_trivial) linarith+
    then show ?thesis using s True by simp
  next
    case False
    then have "(uint x + h) mod (2 * h) = uint x - h"
      using mod_add_self2 [of "uint x - h" "2 * h"] mod_pos_pos_trivial [of "uint x - h" "2 * h"] x by (simp add: algebra_simps)
    then show ?thesis using s False by simp
  qed
  then show ?thesis by (simp add: p h_def)
qed

lemma nfix_range: "0xE0 \<le> (x :: uint8) \<Longrightarrow> -32 \<le> sint x \<and> sint x \<le> -1"
  using unsigned_less [of x, where 'a = int] by (simp add: word_le_def sint_cases)

lemma emits_object: "ob_valid obj \<Longrightarrow> emits (cmp_write_object obj) (mp_bytes obj)"
  unfolding cmp_write_object_def cmp_write_defs mp_bytes_def ob_valid_def
  by (cases "ob_type obj")
    (auto simp: is_data_iff store_le_be fix_size_defs nfix_range ucast_le_small members store_be_1 store_be_def [symmetric] intro!: emits_rules)

subsection \<open>Reading\<close>

text \<open>
  What a reader promises: asked for some bytes, it gives the next ones when there are enough, and otherwise
  fails and takes nothing; a part of the buffer, its frame, does not change.
\<close>

locale byte_reader =
  fixes rd :: "'b \<Rightarrow> nat \<Rightarrow> uint8 list option \<times> 'b"
    and content :: "'b \<Rightarrow> uint8 list"
    and frame :: "'b \<Rightarrow> 'f"
  assumes rd_enough: "0 < n \<Longrightarrow> n \<le> length (content b) \<Longrightarrow> fst (rd b n) = Some (take n (content b)) \<and> content (snd (rd b n)) = drop n (content b)"
    and rd_short: "length (content b) < n \<Longrightarrow> rd b n = (None, b)"
    and rd_frame: "frame (snd (rd b n)) = frame b"

text \<open>\<open>f\<close> succeeds with a value exactly when the content begins with bytes that are in the relation \<open>Q\<close> with it, and takes them.\<close>

definition parses :: "('b \<Rightarrow> nat \<Rightarrow> uint8 list option \<times> 'b) \<Rightarrow> ('b \<Rightarrow> uint8 list) \<Rightarrow> ('b \<Rightarrow> 'f) \<Rightarrow> ('b cmp_ctx \<Rightarrow> ('b, 'a) cmp_res) \<Rightarrow>
    ('a \<Rightarrow> uint8 list \<Rightarrow> bool) \<Rightarrow> bool" where
  "parses rd content frame f Q \<longleftrightarrow> (\<forall>ctx. cx_read ctx = rd \<longrightarrow> cx_read (snd (f ctx)) = rd \<and> frame (cx_buf (snd (f ctx))) = frame (cx_buf ctx) \<and>
     (\<forall>x rest. fst (f ctx) = Some x \<and> content (cx_buf (snd (f ctx))) = rest \<longleftrightarrow>
       (\<exists>bs. content (cx_buf ctx) = bs @ rest \<and> Q x bs)))"

lemma parses_return: "parses rd content frame (cmp_return x) (\<lambda>y bs. y = x \<and> bs = [])"
  by (auto simp: parses_def cmp_return_def)

lemma parses_fail: "parses rd content frame (cmp_fail e) (\<lambda>_ _. False)"
  by (simp add: parses_def cmp_fail_def)

lemma on_failure_simps [simp]:
  "fst (on_failure e r) = fst r" "cx_buf (snd (on_failure e r)) = cx_buf (snd r)" "cx_read (snd (on_failure e r)) = cx_read (snd r)"
  by (simp_all add: on_failure_def cmp_fail_def split: prod.split option.split)

lemma parses_on_failure: "parses rd content frame f Q \<Longrightarrow> parses rd content frame (\<lambda>ctx. on_failure e (f ctx)) Q"
  by (simp add: parses_def)

lemma parses_bind:
  assumes f: "parses rd content frame f Q" and g: "\<And>x bs. Q x bs \<Longrightarrow> parses rd content frame (g x) (R x)"
  shows "parses rd content frame (\<lambda>ctx. cmp_bind (f ctx) g) (\<lambda>y cs. \<exists>x as bs. cs = as @ bs \<and> Q x as \<and> R x y bs)"
  unfolding parses_def
proof (intro allI impI)
  fix ctx :: "'a cmp_ctx"
  assume rd: "cx_read ctx = rd"
  obtain r ctx' where r: "f ctx = (r, ctx')" by (cases "f ctx")
  note fc = f [unfolded parses_def, rule_format, OF rd, unfolded r fst_conv snd_conv]
  show "cx_read (snd (cmp_bind (f ctx) g)) = rd \<and> frame (cx_buf (snd (cmp_bind (f ctx) g))) = frame (cx_buf ctx) \<and>
     (\<forall>y rest. fst (cmp_bind (f ctx) g) = Some y \<and> content (cx_buf (snd (cmp_bind (f ctx) g))) = rest \<longleftrightarrow>
       (\<exists>cs. content (cx_buf ctx) = cs @ rest \<and> (\<exists>x as bs. cs = as @ bs \<and> Q x as \<and> R x y bs)))"
  proof (cases r)
    case None
    then show ?thesis using fc by (fastforce simp: r cmp_bind_def)
  next
    case (Some x)
    have u: "content (cx_buf ctx) = as @ rest \<and> Q x' as \<Longrightarrow> x' = x \<and> rest = content (cx_buf ctx')" for x' as rest
      using fc [THEN conjunct2, THEN conjunct2, THEN spec, of x', THEN spec, of rest] Some by auto
    obtain as where as: "content (cx_buf ctx) = as @ content (cx_buf ctx')" "Q x as" using fc Some by blast
    have rd': "cx_read ctx' = rd" using fc by simp
    note gc = g [OF as(2), unfolded parses_def, rule_format, OF rd']
    show ?thesis
    proof (intro conjI allI iffI)
      show "cx_read (snd (cmp_bind (f ctx) g)) = rd" using gc by (simp add: r Some cmp_bind_def)
      show "frame (cx_buf (snd (cmp_bind (f ctx) g))) = frame (cx_buf ctx)" using gc fc by (simp add: r Some cmp_bind_def)
    next
      fix y rest
      assume "fst (cmp_bind (f ctx) g) = Some y \<and> content (cx_buf (snd (cmp_bind (f ctx) g))) = rest"
      then obtain bs where "content (cx_buf ctx') = bs @ rest" "R x y bs" using gc by (auto simp: r Some cmp_bind_def)
      then show "\<exists>cs. content (cx_buf ctx) = cs @ rest \<and> (\<exists>x as bs. cs = as @ bs \<and> Q x as \<and> R x y bs)"
        using as by (intro exI [of _ "as @ bs"]) auto
    next
      fix y rest
      assume "\<exists>cs. content (cx_buf ctx) = cs @ rest \<and> (\<exists>x as bs. cs = as @ bs \<and> Q x as \<and> R x y bs)"
      then obtain x' as' bs where c: "content (cx_buf ctx) = as' @ bs @ rest" "Q x' as'" "R x' y bs" by auto
      with u [of as' "bs @ rest" x'] have "x' = x" "content (cx_buf ctx') = bs @ rest" by auto
      then have "\<exists>bs. content (cx_buf ctx') = bs @ rest \<and> R x y bs" using c by auto
      then have "fst (g x ctx') = Some y \<and> content (cx_buf (snd (g x ctx'))) = rest" using gc by blast
      then show "fst (cmp_bind (f ctx) g) = Some y" "content (cx_buf (snd (cmp_bind (f ctx) g))) = rest"
        by (simp_all add: r Some cmp_bind_def)
    qed
  qed
qed

lemma parses_cong: "parses rd content frame f Q \<Longrightarrow> (\<And>x bs. Q x bs \<longleftrightarrow> R x bs) \<Longrightarrow> parses rd content frame f R"
  by (simp add: parses_def)

text \<open>Markers that carry a small number.\<close>

lemma unat_drop_bit: "unat (drop_bit k (m :: 'a :: len word)) = unat m div 2 ^ k"
  using unsigned_less [of m, where 'a = nat] by (simp add: unsigned_drop_bit_eq take_bit_nat_eq_self flip: drop_bit_eq_div)

lemma fix_ranges:
  "drop_bit 4 (m :: uint8) = 8 \<longleftrightarrow> 0x80 \<le> m \<and> m \<le> 0x8F" "drop_bit 4 m = 9 \<longleftrightarrow> 0x90 \<le> m \<and> m \<le> 0x9F"
  "drop_bit 5 m = 5 \<longleftrightarrow> 0xA0 \<le> m \<and> m \<le> 0xBF"
  unfolding word_eq_iff_unsigned [where 'a = nat] word_le_nat_alt unat_drop_bit by auto

lemma fix_masks: "m AND 0xF = take_bit 4 (m :: uint8)" "m AND 0x1F = take_bit 5 (m :: uint8)"
  by (simp_all add: take_bit_eq_mask mask_eq_exp_minus_1)

lemma fix_small: "x \<le> 0xF \<longleftrightarrow> take_bit 4 (x :: uint8) = x" "x \<le> 0x1F \<longleftrightarrow> take_bit 5 (x :: uint8) = x"
  unfolding word_eq_iff_unsigned [where 'a = nat] word_le_nat_alt unsigned_take_bit_eq by (auto simp: take_bit_nat_eq_self_iff)

lemma fix_split:
  assumes "take_bit k (x :: uint8) = x"
  shows "take_bit k (push_bit k c OR x) = x" "drop_bit k (push_bit k c OR x) = take_bit (8 - k) c"
proof -
  have x: "k \<le> n \<Longrightarrow> \<not> bit x n" for n using arg_cong [OF assms, of "\<lambda>x. bit x n"] by (simp add: bit_take_bit_iff)
  show "take_bit k (push_bit k c OR x) = x"
  proof (rule bit_word_eqI)
    fix n
    show "bit (take_bit k (push_bit k c OR x)) n = bit x n" using x [of n] by (cases "n < k") (simp_all add: bit_simps)
  qed
  show "drop_bit k (push_bit k c OR x) = take_bit (8 - k) c"
  proof (rule bit_word_eqI)
    fix n
    show "bit (drop_bit k (push_bit k c OR x)) n = bit (take_bit (8 - k) c) n" using x [of "k + n"] by (auto simp: bit_simps)
  qed
qed

lemma fix_marker:
  assumes "drop_bit k (m :: uint8) = c"
  shows "push_bit k c OR take_bit k m = m"
  unfolding assms [symmetric] by (rule bit_word_eqI) (auto simp: bit_simps dest: bit_imp_le_length)

lemma fix_encoded:
  "x \<le> 0xF \<Longrightarrow> 0x80 \<le> 0x80 OR x \<and> 0x80 OR x \<le> 0x8F \<and> (0x80 OR x) AND 0xF = (x :: uint8)"
  "x \<le> 0xF \<Longrightarrow> 0x90 \<le> 0x90 OR x \<and> 0x90 OR x \<le> 0x9F \<and> (0x90 OR x) AND 0xF = x"
  "x \<le> 0x1F \<Longrightarrow> 0xA0 \<le> 0xA0 OR x \<and> 0xA0 OR x \<le> 0xBF \<and> (0xA0 OR x) AND 0x1F = x"
  using fix_split [of 4 x 8] fix_split [of 4 x 9] fix_split [of 5 x 5] fix_ranges(1) [of "0x80 OR x"] fix_ranges(2) [of "0x90 OR x"]
    fix_ranges(3) [of "0xA0 OR x"]
  by (simp_all add: fix_masks fix_small)

lemma fix_decoded:
  "0x80 \<le> m \<Longrightarrow> m \<le> 0x8F \<Longrightarrow> 0x80 OR (m AND 0xF) = (m :: uint8) \<and> m AND 0xF \<le> 0xF"
  "0x90 \<le> m \<Longrightarrow> m \<le> 0x9F \<Longrightarrow> 0x90 OR (m AND 0xF) = m \<and> m AND 0xF \<le> 0xF"
  "0xA0 \<le> m \<Longrightarrow> m \<le> 0xBF \<Longrightarrow> 0xA0 OR (m AND 0x1F) = m \<and> m AND 0x1F \<le> 0x1F"
  using fix_marker [of 4 m 8] fix_marker [of 4 m 9] fix_marker [of 5 m 5] fix_ranges [of m]
  by (simp_all add: fix_masks fix_small)

lemma ucast_down_up: "n \<le> 0xFF \<Longrightarrow> (ucast (ucast (n :: uint32) :: uint8) :: uint32) = n" "n \<le> 0xFFFF \<Longrightarrow> (ucast (ucast (n :: uint32) :: uint16) :: uint32) = n"
  by (simp_all add: word_le_nat_alt word_eq_iff_unsigned [where 'a = nat] unsigned_ucast_eq unsigned_take_bit_eq take_bit_nat_eq_self)

lemma ucast_le_max: "(ucast (x :: uint8) :: uint32) \<le> 0xFF" "(ucast (y :: uint16) :: uint32) \<le> 0xFFFF"
  using unsigned_less [of x, where 'a = nat] unsigned_less [of y, where 'a = nat]
  by (simp_all add: word_le_nat_alt unsigned_ucast_eq unsigned_take_bit_eq take_bit_nat_eq_self)

lemma ucast_le_small_up: "x \<le> 0xF \<Longrightarrow> (ucast (x :: uint8) :: uint32) \<le> 0xF" "x \<le> 0x1F \<Longrightarrow> (ucast (x :: uint8) :: uint32) \<le> 0x1F"
  using unat_ucast_le [of x, where 'b = 32] by (simp_all add: word_le_nat_alt)

lemma fix_number:
  "0x80 \<le> m \<Longrightarrow> m \<le> 0x8F \<Longrightarrow> n = ucast (m AND 0xF) \<longleftrightarrow> n \<le> 0xF \<and> (m :: uint8) = 0x80 OR ucast (n :: uint32)"
  "0x90 \<le> m \<Longrightarrow> m \<le> 0x9F \<Longrightarrow> n = ucast (m AND 0xF) \<longleftrightarrow> n \<le> 0xF \<and> m = 0x90 OR ucast n"
  "0xA0 \<le> m \<Longrightarrow> m \<le> 0xBF \<Longrightarrow> n = ucast (m AND 0x1F) \<longleftrightarrow> n \<le> 0x1F \<and> m = 0xA0 OR ucast n"
  using fix_decoded [of m] fix_encoded [of "ucast n"] ucast_le_small [of n] order.trans [of n "0x1F" "0xFF"] order.trans [of n "0xF" "0xFF"]
  by (auto simp: ucast_up_down ucast_down_up ucast_le_small_up)

text \<open>The first bytes that an object of a type may have.\<close>

primrec mp_marker :: "cmp_type \<Rightarrow> uint8 \<Rightarrow> bool" where
  "mp_marker CMP_TYPE_POSITIVE_FIXNUM m = (m \<le> 0x7F)"
| "mp_marker CMP_TYPE_FIXMAP m = (0x80 \<le> m \<and> m \<le> 0x8F)"
| "mp_marker CMP_TYPE_FIXARRAY m = (0x90 \<le> m \<and> m \<le> 0x9F)"
| "mp_marker CMP_TYPE_FIXSTR m = (0xA0 \<le> m \<and> m \<le> 0xBF)"
| "mp_marker CMP_TYPE_NIL m = (m = NIL_MARKER)"
| "mp_marker CMP_TYPE_BOOLEAN m = (m = FALSE_MARKER \<or> m = TRUE_MARKER)"
| "mp_marker CMP_TYPE_BIN8 m = (m = BIN8_MARKER)"
| "mp_marker CMP_TYPE_BIN16 m = (m = BIN16_MARKER)"
| "mp_marker CMP_TYPE_BIN32 m = (m = BIN32_MARKER)"
| "mp_marker CMP_TYPE_EXT8 m = (m = EXT8_MARKER)"
| "mp_marker CMP_TYPE_EXT16 m = (m = EXT16_MARKER)"
| "mp_marker CMP_TYPE_EXT32 m = (m = EXT32_MARKER)"
| "mp_marker CMP_TYPE_FLOAT m = (m = FLOAT_MARKER)"
| "mp_marker CMP_TYPE_DOUBLE m = (m = DOUBLE_MARKER)"
| "mp_marker CMP_TYPE_UINT8 m = (m = U8_MARKER)"
| "mp_marker CMP_TYPE_UINT16 m = (m = U16_MARKER)"
| "mp_marker CMP_TYPE_UINT32 m = (m = U32_MARKER)"
| "mp_marker CMP_TYPE_UINT64 m = (m = U64_MARKER)"
| "mp_marker CMP_TYPE_SINT8 m = (m = S8_MARKER)"
| "mp_marker CMP_TYPE_SINT16 m = (m = S16_MARKER)"
| "mp_marker CMP_TYPE_SINT32 m = (m = S32_MARKER)"
| "mp_marker CMP_TYPE_SINT64 m = (m = S64_MARKER)"
| "mp_marker CMP_TYPE_FIXEXT1 m = (m = FIXEXT1_MARKER)"
| "mp_marker CMP_TYPE_FIXEXT2 m = (m = FIXEXT2_MARKER)"
| "mp_marker CMP_TYPE_FIXEXT4 m = (m = FIXEXT4_MARKER)"
| "mp_marker CMP_TYPE_FIXEXT8 m = (m = FIXEXT8_MARKER)"
| "mp_marker CMP_TYPE_FIXEXT16 m = (m = FIXEXT16_MARKER)"
| "mp_marker CMP_TYPE_STR8 m = (m = STR8_MARKER)"
| "mp_marker CMP_TYPE_STR16 m = (m = STR16_MARKER)"
| "mp_marker CMP_TYPE_STR32 m = (m = STR32_MARKER)"
| "mp_marker CMP_TYPE_ARRAY16 m = (m = ARRAY16_MARKER)"
| "mp_marker CMP_TYPE_ARRAY32 m = (m = ARRAY32_MARKER)"
| "mp_marker CMP_TYPE_MAP16 m = (m = MAP16_MARKER)"
| "mp_marker CMP_TYPE_MAP32 m = (m = MAP32_MARKER)"
| "mp_marker CMP_TYPE_NEGATIVE_FIXNUM m = (0xE0 \<le> m)"

lemma next_range: "\<not> m \<le> (0x7F :: uint8) \<longleftrightarrow> 0x80 \<le> m" "\<not> m \<le> (0x8F :: uint8) \<longleftrightarrow> 0x90 \<le> m" "\<not> m \<le> (0x9F :: uint8) \<longleftrightarrow> 0xA0 \<le> m"
  by (auto simp: word_le_nat_alt)

lemma type_marker_some: "mp_marker t m \<Longrightarrow> type_marker_to_cmp_type m = Some t"
  by (cases t) (auto simp: type_marker_to_cmp_type_def marker_defs word_le_nat_alt)

lemma type_marker_only: "type_marker_to_cmp_type m = Some t \<Longrightarrow> mp_marker t m"
  unfolding type_marker_to_cmp_type_def by (simp add: next_range split: if_splits; clarsimp)

lemma marker_of_bytes: "mp_valid t d \<Longrightarrow> \<exists>m bs. mp_encode t d = m # bs \<and> mp_marker t m"
  by (cases t) (auto simp: is_data_iff members marker_defs ucast_le_small fix_encoded)

lemma object_iff: "obj = object t d \<longleftrightarrow> ob_type obj = t \<and> ob_as obj = d"
  by (cases obj) (auto simp: object_def)

lemma boolean_member: "ucast (if b then 1 else 0 :: uint64) = (0 :: uint8) \<longleftrightarrow> \<not> b"
  by (cases b) simp_all

lemma boolean_bytes:
  assumes "m = FALSE_MARKER \<or> m = TRUE_MARKER"
  shows "obj = object CMP_TYPE_BOOLEAN (As_boolean (m = TRUE_MARKER)) \<and> cs = [] \<longleftrightarrow>
    ob_type obj = CMP_TYPE_BOOLEAN \<and> ob_valid obj \<and> m # cs = mp_bytes obj"
proof -
  have "FALSE_MARKER \<noteq> TRUE_MARKER" by (simp add: marker_defs)
  then show ?thesis using assms
    by (cases "ob_as obj") (auto simp: object_iff ob_valid_def mp_bytes_def is_boolean_def boolean_member split: if_splits)
qed

context byte_reader
begin

lemma parses_read: "0 < n \<Longrightarrow> parses rd content frame (ctx_read n) (\<lambda>bs cs. cs = bs \<and> length bs = n)"
  unfolding parses_def
proof (intro allI impI)
  fix ctx :: "'b cmp_ctx"
  assume "0 < n" and "cx_read ctx = rd"
  then show "cx_read (snd (ctx_read n ctx)) = rd \<and> frame (cx_buf (snd (ctx_read n ctx))) = frame (cx_buf ctx) \<and> (\<forall>x rest. fst (ctx_read n ctx) = Some x \<and> content (cx_buf (snd (ctx_read n ctx))) = rest \<longleftrightarrow>
       (\<exists>bs. content (cx_buf ctx) = bs @ rest \<and> bs = x \<and> length x = n))"
    using rd_enough [of n "cx_buf ctx"] rd_short [of "cx_buf ctx" n] rd_frame [of "cx_buf ctx" n]
    by (cases "n \<le> length (content (cx_buf ctx))") (auto simp: ctx_read_def split: prod.splits)
qed


lemma parses_sized: "0 < n \<Longrightarrow> parses rd content frame (\<lambda>ctx. cmp_bind (on_failure e (ctx_read n ctx)) (\<lambda>bs. cmp_return (h bs))) (\<lambda>x cs. length cs = n \<and> x = h cs)"
  by (rule parses_cong [OF parses_bind [OF parses_on_failure [OF parses_read] parses_return]]) auto

lemma parses_type_marker: "parses rd content frame read_type_marker (\<lambda>m cs. cs = [m])"
  unfolding read_type_marker_def read_byte_def
  by (rule parses_cong [OF parses_on_failure [OF parses_bind [OF parses_read parses_return]]]) (auto simp: length_Suc_conv)

lemma parses_size8: "parses rd content frame (read_size8 e) (\<lambda>sz cs. sz \<le> 0xFF \<and> cs = [ucast sz])"
  unfolding read_size8_def
  by (rule parses_cong [OF parses_sized]) (auto simp: length_Suc_conv ucast_le_max ucast_down_up ucast_up_down)

lemma parses_size16: "parses rd content frame (read_size16 e) (\<lambda>sz cs. sz \<le> 0xFFFF \<and> cs = store_be 2 (ucast sz :: uint16))"
  unfolding read_size16_def
  by (rule parses_cong [OF parses_sized]) (auto simp: be_load_le ucast_le_max ucast_down_up ucast_up_down store_load_be load_store_be)

lemma parses_size32: "parses rd content frame (read_size32 e) (\<lambda>sz cs. cs = store_be 4 sz)"
  unfolding read_size32_def
  by (rule parses_cong [OF parses_sized]) (auto simp: be_load_le store_load_be load_store_be)

lemma parses_data8: "parses rd content frame (read_data8 t) (\<lambda>obj cs. \<exists>x. obj = object t (As_8 x) \<and> cs = [x])"
  unfolding read_data8_def by (rule parses_cong [OF parses_sized]) (auto simp: length_Suc_conv)

lemma parses_data16: "parses rd content frame (read_data16 t) (\<lambda>obj cs. \<exists>x. obj = object t (As_16 x) \<and> cs = store_be 2 x)"
  unfolding read_data16_def by (rule parses_cong [OF parses_sized]) (auto simp: be_load_le store_load_be load_store_be)

lemma parses_data32: "parses rd content frame (read_data32 t) (\<lambda>obj cs. \<exists>x. obj = object t (As_32 x) \<and> cs = store_be 4 x)"
  unfolding read_data32_def by (rule parses_cong [OF parses_sized]) (auto simp: be_load_le store_load_be load_store_be)

lemma parses_data64: "parses rd content frame (read_data64 t) (\<lambda>obj cs. \<exists>x. obj = object t (As_64 x) \<and> cs = store_be 8 x)"
  unfolding read_data64_def by (rule parses_cong [OF parses_sized]) (auto simp: be_load_le store_load_be load_store_be)

lemma parses_float:
  "parses rd content frame (\<lambda>ctx. cmp_bind (on_failure e (ctx_read 4 ctx)) (\<lambda>bs. cmp_return (object t (As_32 (decode_befloat bs)))))
     (\<lambda>obj cs. \<exists>x. obj = object t (As_32 x) \<and> cs = store_be 4 x)"
  by (rule parses_cong [OF parses_sized]) (auto simp: decode_be store_load_be load_store_be)

lemma parses_double:
  "parses rd content frame (\<lambda>ctx. cmp_bind (on_failure e (ctx_read 8 ctx)) (\<lambda>bs. cmp_return (object t (As_64 (decode_bedouble bs)))))
     (\<lambda>obj cs. \<exists>x. obj = object t (As_64 x) \<and> cs = store_be 8 x)"
  by (rule parses_cong [OF parses_sized]) (auto simp: decode_be store_load_be load_store_be)

lemma parses_ext_type: "parses rd content frame (read_ext_type t sz) (\<lambda>obj cs. \<exists>x. obj = object t (As_ext x sz) \<and> cs = [x])"
  unfolding read_ext_type_def by (rule parses_cong [OF parses_sized]) (auto simp: length_Suc_conv)

lemma parses_of_size:
  "parses rd content frame f Q \<Longrightarrow> parses rd content frame (\<lambda>ctx. cmp_bind (f ctx) (\<lambda>sz. cmp_return (object t (As_32 sz)))) (\<lambda>obj cs. \<exists>sz. obj = object t (As_32 sz) \<and> Q sz cs)"
  by (rule parses_cong [OF parses_bind [OF _ parses_return]]) auto

lemma parses_of_ext_size:
  "parses rd content frame f Q \<Longrightarrow> parses rd content frame (\<lambda>ctx. cmp_bind (f ctx) (read_ext_type t))
     (\<lambda>obj cs. \<exists>x sz bs. obj = object t (As_ext x sz) \<and> Q sz bs \<and> cs = bs @ [x])"
  by (rule parses_cong [OF parses_bind [OF _ parses_ext_type]]) auto

lemmas parses_data =
  parses_data8 parses_data16 parses_data32 parses_data64 parses_float parses_double parses_ext_type
  parses_of_size [OF parses_size8] parses_of_size [OF parses_size16] parses_of_size [OF parses_size32]
  parses_of_ext_size [OF parses_size8] parses_of_ext_size [OF parses_size16] parses_of_ext_size [OF parses_size32]

lemma parses_boolean:
  "m = FALSE_MARKER \<or> m = TRUE_MARKER \<Longrightarrow> parses rd content frame (\<lambda>ctx. if m = TRUE_MARKER then cmp_return (object t (As_boolean True)) ctx
     else if m = FALSE_MARKER then cmp_return (object t (As_boolean False)) ctx else cmp_fail INTERNAL_ERROR ctx)
     (\<lambda>obj cs. obj = object t (As_boolean (m = TRUE_MARKER)) \<and> cs = [])"
  by (auto simp: parses_return marker_defs)

lemma parses_obj_data:
  assumes "mp_marker t m"
  shows "parses rd content frame (\<lambda>ctx. read_obj_data m t ctx) (\<lambda>obj cs. ob_type obj = t \<and> ob_valid obj \<and> m # cs = mp_bytes obj)"
  by (insert assms, cases t; simp only: read_obj_data.simps [abs_def] read_type_size.simps [abs_def];
      (rule parses_cong, rule parses_data parses_return parses_of_size [OF parses_return] parses_boolean);
      (simp add: boolean_bytes; fail | auto simp: object_iff ob_valid_def mp_bytes_def is_data_iff members store_be_1 marker_defs fix_size_defs fix_number))

lemma parses_object: "parses rd content frame cmp_read_object (\<lambda>obj cs. ob_valid obj \<and> cs = mp_bytes obj)"
proof -
  have "parses rd content frame (\<lambda>ctx. case type_marker_to_cmp_type m of None \<Rightarrow> cmp_fail INVALID_TYPE_ERROR ctx | Some t \<Rightarrow> read_obj_data m t ctx)
      (\<lambda>obj cs. type_marker_to_cmp_type m = Some (ob_type obj) \<and> ob_valid obj \<and> m # cs = mp_bytes obj)" for m
  proof (cases "type_marker_to_cmp_type m")
    case None
    then show ?thesis by (simp add: parses_fail)
  next
    case (Some t)
    then show ?thesis using parses_obj_data [OF type_marker_only [OF Some]] by (auto elim!: parses_cong)
  qed
  then show ?thesis unfolding cmp_read_object_def
    by (rule parses_cong [OF parses_bind [OF parses_type_marker]]) (fastforce simp: ob_valid_def mp_bytes_def dest: marker_of_bytes type_marker_some)
qed

end

end
