(* ===== verification/Msgpack_Values.thy ===== *)
theory Msgpack_Values
  imports Msgpack_Codec
begin

text \<open>
  The values that the Redis store reads: integers, the sizes of strings and of arrays.  The functions of cmp.c that write
  an integer choose an encoding of its value; the ones that read one accept every encoding whose value they can hold.
\<close>

unbundle bit_operations_syntax

text \<open>The value of an object, if it is an integer.\<close>

definition ob_integer :: "cmp_object \<Rightarrow> int option" where
  "ob_integer obj =
     (case ob_type obj of
        CMP_TYPE_POSITIVE_FIXNUM \<Rightarrow> Some (uint (ob_u8 obj))
      | CMP_TYPE_UINT8 \<Rightarrow> Some (uint (ob_u8 obj))
      | CMP_TYPE_UINT16 \<Rightarrow> Some (uint (ob_u16 obj))
      | CMP_TYPE_UINT32 \<Rightarrow> Some (uint (ob_u32 obj))
      | CMP_TYPE_UINT64 \<Rightarrow> Some (uint (ob_u64 obj))
      | CMP_TYPE_NEGATIVE_FIXNUM \<Rightarrow> Some (sint (ob_u8 obj))
      | CMP_TYPE_SINT8 \<Rightarrow> Some (sint (ob_u8 obj))
      | CMP_TYPE_SINT16 \<Rightarrow> Some (sint (ob_u16 obj))
      | CMP_TYPE_SINT32 \<Rightarrow> Some (sint (ob_u32 obj))
      | CMP_TYPE_SINT64 \<Rightarrow> Some (sint (ob_u64 obj))
      | _ \<Rightarrow> None)"

definition encodes_integer :: "int \<Rightarrow> uint8 list \<Rightarrow> bool" where
  "encodes_integer i bs \<longleftrightarrow> (\<exists>obj. ob_valid obj \<and> bs = mp_bytes obj \<and> ob_integer obj = Some i)"

lemma sint_small: "x \<le> 0x7F \<Longrightarrow> sint (x :: uint8) = uint x"
  by (simp add: sint_cases word_le_def)

lemma word_max:
  "x \<le> 127 \<longleftrightarrow> uint (x :: uint8) < 2 ^ 7" "y \<le> 32767 \<longleftrightarrow> uint (y :: uint16) < 2 ^ 15" "z \<le> 2147483647 \<longleftrightarrow> uint (z :: uint32) < 2 ^ 31"
  "w \<le> 9223372036854775807 \<longleftrightarrow> uint (w :: uint64) < 2 ^ 63"
  by (auto simp: word_le_def)

lemma sint_bounds:
  "sint (x :: uint8) < 2 ^ 7" "sint (y :: uint16) < 2 ^ 15" "sint (z :: uint32) < 2 ^ 31" "sint (w :: uint64) < 2 ^ 63"
  "- (2 ^ 7) \<le> sint x" "- (2 ^ 15) \<le> sint y" "- (2 ^ 31) \<le> sint z" "- (2 ^ 63) \<le> sint w"
  using sint_lt [of x] sint_lt [of y] sint_lt [of z] sint_lt [of w] sint_ge [of x] sint_ge [of y] sint_ge [of z] sint_ge [of w]
  by simp_all

lemma uint_bounds:
  "uint (x :: uint8) < 2 ^ 8" "uint (y :: uint16) < 2 ^ 16" "uint (z :: uint32) < 2 ^ 32" "uint (w :: uint64) < 2 ^ 64" "0 \<le> uint (v :: 'a :: len word)"
  using uint_lt2p [of x] uint_lt2p [of y] uint_lt2p [of z] uint_lt2p [of w] by simp_all

lemma fits_63:
  "uint (x :: uint8) < 9223372036854775808" "uint (y :: uint16) < 9223372036854775808" "uint (z :: uint32) < 9223372036854775808"
  "sint (x :: uint8) < 9223372036854775808" "sint (y :: uint16) < 9223372036854775808" "sint (z :: uint32) < 9223372036854775808"
  "sint (w :: uint64) < 9223372036854775808"
  using uint_bounds(1) [of x] uint_bounds(2) [of y] uint_bounds(3) [of z] sint_bounds(1) [of x] sint_bounds(2) [of y] sint_bounds(3) [of z]
    sint_bounds(4) [of w] by simp_all

lemma scast_small: "x \<le> 0x7F \<Longrightarrow> scast (x :: uint8) = ucast x"
  using sint_small [of x] by (metis of_int_sint of_int_uint)

text \<open>The last part of every function that reads an integer: the value, if it is one that the result holds.\<close>

definition give_integer :: "(cmp_object \<Rightarrow> int option) \<Rightarrow> (int \<Rightarrow> bool) \<Rightarrow> cmp_object \<Rightarrow> 'b cmp_ctx \<Rightarrow> ('b, 'a :: len word) cmp_res" where
  "give_integer V P obj ctx =
     (case V obj of
        None \<Rightarrow> cmp_fail INVALID_TYPE_ERROR ctx
      | Some i \<Rightarrow> if P i then cmp_return (word_of_int i) ctx else cmp_fail INVALID_TYPE_ERROR ctx)"

lemma long_value:
  assumes "ob_valid obj"
  shows "(if ob_type obj \<in> {CMP_TYPE_POSITIVE_FIXNUM, CMP_TYPE_NEGATIVE_FIXNUM, CMP_TYPE_SINT8} then cmp_return (scast (ob_u8 obj)) ctx
     else if ob_type obj = CMP_TYPE_UINT8 then cmp_return (ucast (ob_u8 obj)) ctx
     else if ob_type obj = CMP_TYPE_SINT16 then cmp_return (scast (ob_u16 obj)) ctx
     else if ob_type obj = CMP_TYPE_UINT16 then cmp_return (ucast (ob_u16 obj)) ctx
     else if ob_type obj = CMP_TYPE_SINT32 then cmp_return (scast (ob_u32 obj)) ctx
     else if ob_type obj = CMP_TYPE_UINT32 then cmp_return (ucast (ob_u32 obj)) ctx
     else if ob_type obj = CMP_TYPE_SINT64 then cmp_return (ob_u64 obj) ctx
     else if ob_type obj = CMP_TYPE_UINT64 \<and> ob_u64 obj \<le> 9223372036854775807 then cmp_return (ob_u64 obj) ctx
     else cmp_fail INVALID_TYPE_ERROR ctx)
     = give_integer ob_integer (\<lambda>i. i < 2 ^ 63) obj ctx"
  using assms unfolding ob_valid_def give_integer_def ob_integer_def word_max
  by (cases "ob_type obj") (auto simp: is_data_iff members fits_63 scast_small)

lemma ulong_value:
  assumes "ob_valid obj"
  shows "(if ob_type obj \<in> {CMP_TYPE_POSITIVE_FIXNUM, CMP_TYPE_UINT8} then cmp_return (ucast (ob_u8 obj)) ctx
     else if ob_type obj = CMP_TYPE_UINT16 then cmp_return (ucast (ob_u16 obj)) ctx
     else if ob_type obj = CMP_TYPE_UINT32 then cmp_return (ucast (ob_u32 obj)) ctx
     else if ob_type obj = CMP_TYPE_UINT64 then cmp_return (ob_u64 obj) ctx
     else if ob_type obj \<in> {CMP_TYPE_NEGATIVE_FIXNUM, CMP_TYPE_SINT8} \<and> 0 \<le> sint (ob_u8 obj) then cmp_return (scast (ob_u8 obj)) ctx
     else if ob_type obj = CMP_TYPE_SINT16 \<and> 0 \<le> sint (ob_u16 obj) then cmp_return (scast (ob_u16 obj)) ctx
     else if ob_type obj = CMP_TYPE_SINT32 \<and> 0 \<le> sint (ob_u32 obj) then cmp_return (scast (ob_u32 obj)) ctx
     else if ob_type obj = CMP_TYPE_SINT64 \<and> 0 \<le> sint (ob_u64 obj) then cmp_return (ob_u64 obj) ctx
     else cmp_fail INVALID_TYPE_ERROR ctx)
     = give_integer ob_integer (\<lambda>i. 0 \<le> i) obj ctx"
  using assms unfolding ob_valid_def give_integer_def ob_integer_def word_max
  by (cases "ob_type obj") (auto simp: is_data_iff members scast_small dest: nfix_range)


text \<open>\<^verbatim>\<open>cmp_read_int\<close> takes no 64-bit encoding, whatever its value.\<close>

definition ob_integer32 :: "cmp_object \<Rightarrow> int option" where
  "ob_integer32 obj = (if ob_type obj \<in> {CMP_TYPE_UINT64, CMP_TYPE_SINT64} then None else ob_integer obj)"

definition encodes_int32 :: "int \<Rightarrow> uint8 list \<Rightarrow> bool" where
  "encodes_int32 i bs \<longleftrightarrow> (\<exists>obj. ob_valid obj \<and> bs = mp_bytes obj \<and> ob_integer32 obj = Some i)"

lemma fits_31:
  "uint (x :: uint8) < 2147483648" "uint (y :: uint16) < 2147483648" "sint (x :: uint8) < 2147483648" "sint (y :: uint16) < 2147483648"
  "sint (z :: uint32) < 2147483648"
  using uint_bounds(1) [of x] uint_bounds(2) [of y] sint_bounds(1) [of x] sint_bounds(2) [of y] sint_bounds(3) [of z] by simp_all

lemma int_value:
  assumes "ob_valid obj"
  shows "(if ob_type obj \<in> {CMP_TYPE_POSITIVE_FIXNUM, CMP_TYPE_NEGATIVE_FIXNUM, CMP_TYPE_SINT8} then cmp_return (scast (ob_u8 obj)) ctx
     else if ob_type obj = CMP_TYPE_UINT8 then cmp_return (ucast (ob_u8 obj)) ctx
     else if ob_type obj = CMP_TYPE_SINT16 then cmp_return (scast (ob_u16 obj)) ctx
     else if ob_type obj = CMP_TYPE_UINT16 then cmp_return (ucast (ob_u16 obj)) ctx
     else if ob_type obj = CMP_TYPE_SINT32 then cmp_return (ob_u32 obj) ctx
     else if ob_type obj = CMP_TYPE_UINT32 \<and> ob_u32 obj \<le> 2147483647 then cmp_return (ob_u32 obj) ctx
     else cmp_fail INVALID_TYPE_ERROR ctx)
     = give_integer ob_integer32 (\<lambda>i. i < 2 ^ 31) obj ctx"
  using assms unfolding ob_valid_def give_integer_def ob_integer32_def ob_integer_def word_max
  by (cases "ob_type obj") (auto simp: is_data_iff members fits_31 scast_small)

lemma ob_integer_bounds: "ob_integer obj = Some i \<Longrightarrow> - (2 ^ 63) \<le> i \<and> i < 2 ^ 64"
  using uint_bounds(1) [of "ob_u8 obj"] uint_bounds(2) [of "ob_u16 obj"] uint_bounds(3) [of "ob_u32 obj"] uint_bounds(4) [of "ob_u64 obj"]
    sint_bounds(1,5) [of "ob_u8 obj"] sint_bounds(2,6) [of "ob_u16 obj"] sint_bounds(3,7) [of "ob_u32 obj"] sint_bounds(4,8) [of "ob_u64 obj"]
    uint_bounds(5) [of "ob_u8 obj"] uint_bounds(5) [of "ob_u16 obj"] uint_bounds(5) [of "ob_u32 obj"] uint_bounds(5) [of "ob_u64 obj"]
  unfolding ob_integer_def by (cases "ob_type obj"; simp)

lemma sint_word_of_int: "- (2 ^ 63) \<le> i \<Longrightarrow> i < 2 ^ 63 \<and> x = word_of_int i \<longleftrightarrow> i = sint (x :: uint64)"
  using sint_bounds(4) [of x] by (auto simp: sint_sbintrunc' signed_take_bit_int_eq_self)

lemma uint_word_of_int: "i < 2 ^ 64 \<Longrightarrow> 0 \<le> i \<and> x = word_of_int i \<longleftrightarrow> i = uint (x :: uint64)"
  by (auto simp: uint_word_of_int_eq take_bit_int_eq_self)

lemma ob_integer32_bounds: "ob_integer32 obj = Some i \<Longrightarrow> - (2 ^ 31) \<le> i"
  using sint_bounds(5) [of "ob_u8 obj"] sint_bounds(6) [of "ob_u16 obj"] sint_bounds(7) [of "ob_u32 obj"]
    uint_bounds(5) [of "ob_u8 obj"] uint_bounds(5) [of "ob_u16 obj"] uint_bounds(5) [of "ob_u32 obj"]
  unfolding ob_integer32_def ob_integer_def by (cases "ob_type obj"; simp)

lemma sint_word_of_int32: "- (2 ^ 31) \<le> i \<Longrightarrow> i < 2 ^ 31 \<and> x = word_of_int i \<longleftrightarrow> i = sint (x :: uint32)"
  using sint_bounds(3) [of x] by (auto simp: sint_sbintrunc' signed_take_bit_int_eq_self)

lemma value32_iff: "ob_integer32 obj = Some i \<Longrightarrow> i < 2 ^ 31 \<and> x = word_of_int i \<longleftrightarrow> i = sint (x :: uint32)"
  by (drule ob_integer32_bounds; simp only: sint_word_of_int32)

lemma value_iff:
  "ob_integer obj = Some i \<Longrightarrow> i < 2 ^ 63 \<and> x = word_of_int i \<longleftrightarrow> i = sint (x :: uint64)"
  "ob_integer obj = Some i \<Longrightarrow> 0 \<le> i \<and> x = word_of_int i \<longleftrightarrow> i = uint x"
  by (drule ob_integer_bounds; simp only: sint_word_of_int uint_word_of_int)+

text \<open>The beginning of a string, and of an array.\<close>

definition encodes_str_size :: "uint32 \<Rightarrow> uint8 list \<Rightarrow> bool" where
  "encodes_str_size n bs \<longleftrightarrow> (\<exists>obj. ob_valid obj \<and> bs = mp_bytes obj \<and>
     ob_type obj \<in> {CMP_TYPE_FIXSTR, CMP_TYPE_STR8, CMP_TYPE_STR16, CMP_TYPE_STR32} \<and> n = ob_u32 obj)"

definition encodes_array :: "uint32 \<Rightarrow> uint8 list \<Rightarrow> bool" where
  "encodes_array n bs \<longleftrightarrow> (\<exists>obj. ob_valid obj \<and> bs = mp_bytes obj \<and>
     ob_type obj \<in> {CMP_TYPE_FIXARRAY, CMP_TYPE_ARRAY16, CMP_TYPE_ARRAY32} \<and> n = ob_u32 obj)"

context byte_reader
begin

lemma parses_give_integer:
  assumes "\<And>obj ctx. ob_valid obj \<Longrightarrow> h obj ctx = give_integer V P obj ctx"
  shows "parses rd content frame (\<lambda>ctx. cmp_bind (cmp_read_object ctx) h)
    (\<lambda>x cs. \<exists>obj i. ob_valid obj \<and> cs = mp_bytes obj \<and> V obj = Some i \<and> P i \<and> x = word_of_int i)"
proof -
  have "parses rd content frame (h obj) (\<lambda>x cs. cs = [] \<and> (\<exists>i. V obj = Some i \<and> P i \<and> x = word_of_int i))" if v: "ob_valid obj" for obj
  proof (cases "\<exists>i. V obj = Some i \<and> P i")
    case True
    then have "h obj = cmp_return (word_of_int (the (V obj)))" by (auto simp: assms [OF v] give_integer_def)
    then show ?thesis using True by (auto intro: parses_cong [OF parses_return])
  next
    case False
    then have "h obj = cmp_fail INVALID_TYPE_ERROR" by (auto simp: assms [OF v] give_integer_def split: option.split)
    then show ?thesis using False by (auto intro: parses_cong [OF parses_fail])
  qed
  then show ?thesis by (intro parses_cong [OF parses_bind [OF parses_object]]) auto
qed

lemma parses_integer: "parses rd content frame cmp_read_integer (\<lambda>x cs. encodes_integer (sint x) cs)"
  unfolding cmp_read_integer_def [abs_def] cmp_read_long_def [abs_def]
  by (rule parses_cong [OF parses_give_integer [OF long_value]]) (assumption, auto simp only: encodes_integer_def value_iff cong: conj_cong)

lemma parses_uinteger: "parses rd content frame cmp_read_uinteger (\<lambda>x cs. encodes_integer (uint x) cs)"
  unfolding cmp_read_uinteger_def [abs_def] cmp_read_ulong_def [abs_def]
  by (rule parses_cong [OF parses_give_integer [OF ulong_value]]) (assumption, auto simp only: encodes_integer_def value_iff cong: conj_cong)

lemma parses_int: "parses rd content frame cmp_read_int (\<lambda>x cs. encodes_int32 (sint x) cs)"
  unfolding cmp_read_int_def [abs_def]
  by (rule parses_cong [OF parses_give_integer [OF int_value]]) (assumption, auto simp only: encodes_int32_def value32_iff cong: conj_cong)

lemma parses_typed:
  "parses rd content frame (\<lambda>ctx. cmp_bind (cmp_read_object ctx) (\<lambda>obj ctx. if P obj then cmp_return (g obj) ctx else cmp_fail e ctx))
     (\<lambda>x cs. \<exists>obj. ob_valid obj \<and> cs = mp_bytes obj \<and> P obj \<and> x = g obj)"
proof -
  have "parses rd content frame (\<lambda>ctx. if P obj then cmp_return (g obj) ctx else cmp_fail e ctx) (\<lambda>x cs. cs = [] \<and> P obj \<and> x = g obj)" for obj
    by (cases "P obj") (auto intro: parses_cong [OF parses_return] parses_cong [OF parses_fail])
  then show ?thesis by (rule parses_cong [OF parses_bind [OF parses_object]]) auto
qed

lemma parses_str_size: "parses rd content frame cmp_read_str_size (\<lambda>n cs. encodes_str_size n cs)"
  unfolding cmp_read_str_size_def [abs_def]
  by (rule parses_cong [OF parses_typed]) (auto simp: encodes_str_size_def)

lemma parses_array: "parses rd content frame cmp_read_array (\<lambda>n cs. encodes_array n cs)"
  unfolding cmp_read_array_def [abs_def]
  by (rule parses_cong [OF parses_typed]) (auto simp: encodes_array_def)

end

text \<open>The objects that are written.\<close>

definition uint_object :: "uint64 \<Rightarrow> cmp_object" where
  "uint_object u =
     (if u \<le> 0x7F then object CMP_TYPE_POSITIVE_FIXNUM (As_8 (ucast u))
      else if u \<le> 0xFF then object CMP_TYPE_UINT8 (As_8 (ucast u))
      else if u \<le> 0xFFFF then object CMP_TYPE_UINT16 (As_16 (ucast u))
      else if u \<le> 0xFFFFFFFF then object CMP_TYPE_UINT32 (As_32 (ucast u))
      else object CMP_TYPE_UINT64 (As_64 u))"

definition sint_object :: "uint64 \<Rightarrow> cmp_object" where
  "sint_object d =
     (if 0 \<le> sint d then uint_object d
      else if -32 \<le> sint d then object CMP_TYPE_NEGATIVE_FIXNUM (As_8 (ucast d))
      else if -128 \<le> sint d then object CMP_TYPE_SINT8 (As_8 (ucast d))
      else if -32768 \<le> sint d then object CMP_TYPE_SINT16 (As_16 (ucast d))
      else if -2147483647 - 1 \<le> sint d then object CMP_TYPE_SINT32 (As_32 (ucast d))
      else object CMP_TYPE_SINT64 (As_64 d))"

lemma object_simps [simp]: "ob_type (object t d) = t" "ob_as (object t d) = d"
  by (simp_all add: object_def)

lemma write_uinteger_object: "cmp_write_uinteger u ctx = cmp_write_object (uint_object u) ctx"
  by (simp add: cmp_write_uinteger_def uint_object_def cmp_write_object_def members)

lemma write_integer_object: "cmp_write_integer d ctx = cmp_write_object (sint_object d) ctx"
  by (simp add: cmp_write_integer_def sint_object_def write_uinteger_object) (simp add: cmp_write_object_def members)

lemma uint_ucast_eq: "uint (w :: uint64) < 2 ^ LENGTH('a :: len) \<Longrightarrow> uint (ucast w :: 'a word) = uint w"
  by (simp add: unsigned_ucast_eq unsigned_take_bit_eq take_bit_int_eq_self)

lemma sint_ucast_eq:
  assumes "- (2 ^ (LENGTH('a) - 1)) \<le> sint (w :: uint64)" "sint w < 2 ^ (LENGTH('a) - 1)" and le: "LENGTH('a) \<le> 64"
  shows "sint (ucast w :: 'a :: len word) = sint w"
proof -
  let ?k = "LENGTH('a) - 1"
  have "sint (ucast w :: 'a word) = signed_take_bit ?k (take_bit LENGTH('a) (uint w))"
    by (simp add: sint_uint unsigned_ucast_eq unsigned_take_bit_eq)
  also have "\<dots> = signed_take_bit ?k (uint w)" by (simp add: signed_take_bit_take_bit)
  also have "\<dots> = signed_take_bit ?k (sint w)" using le by (simp add: sint_uint [of w] signed_take_bit_signed_take_bit)
  also have "\<dots> = sint w" using assms by (intro signed_take_bit_int_eq_self) simp_all
  finally show ?thesis .
qed

lemma uint_object_valid: "ob_valid (uint_object u)"
  by (auto simp: uint_object_def ob_valid_def is_data_iff word_le_def uint_ucast_eq)

lemma uint_object_value: "ob_integer (uint_object u) = Some (uint u)"
  by (auto simp: uint_object_def ob_integer_def members word_le_def uint_ucast_eq)

lemma nfix_valid:
  assumes "-32 \<le> sint d" "sint d < 0"
  shows "0xE0 \<le> (ucast (d :: uint64) :: uint8)"
proof -
  let ?x = "ucast d :: uint8"
  have "sint ?x = sint d" using sint_ucast_eq [of d, where 'a = 8] assms by simp
  moreover have "\<not> uint ?x < 128" using calculation assms(2) uint_bounds(5) [of ?x] sint_cases [of ?x] by fastforce
  ultimately show ?thesis using assms(1) by (simp add: word_le_def sint_cases [of ?x])
qed

lemma sint_object_valid: "ob_valid (sint_object d)"
  by (auto simp: sint_object_def uint_object_valid) (auto simp: ob_valid_def is_data_iff nfix_valid)

lemma sint_nonneg: "0 \<le> sint (d :: uint64) \<Longrightarrow> uint d = sint d"
  using uint_bounds(4) [of d] by (simp add: sint_cases split: if_splits)

lemma sint_object_value: "ob_integer (sint_object d) = Some (sint d)"
  using sint_ucast_eq [of d, where 'a = 8] sint_ucast_eq [of d, where 'a = 16] sint_ucast_eq [of d, where 'a = 32]
  by (auto simp: sint_object_def uint_object_value sint_nonneg) (auto simp: ob_integer_def members)

end
