(* ===== verification/Redis_Msg.thy ===== *)
theory Redis_Msg
  imports Msgpack_Values Msg_Id
begin

text \<open>
  rdsstore.c: the messages that the store gets from Redis in MessagePack.

  The bytes of a reply are memory, a buffer is a range of it; a string that is taken from the buffer points into the
  same memory.
\<close>

unbundle bit_operations_syntax

subsection \<open>Buffers and strings\<close>

record mp_buf =
  mb_mem :: "nat \<Rightarrow> uint8"
  mb_pos :: nat
  mb_last :: nat

text \<open>\<^verbatim>\<open>ngx_str_t\<close>: address and length.\<close>

type_synonym ngx_str = "nat \<times> nat"

definition str_bytes :: "(nat \<Rightarrow> uint8) \<Rightarrow> ngx_str \<Rightarrow> uint8 list" where
  "str_bytes m s = map m [fst s ..< fst s + snd s]"

definition set_buf :: "(nat \<Rightarrow> uint8) \<Rightarrow> nat \<Rightarrow> nat \<Rightarrow> mp_buf" where
  "set_buf m start len = \<lparr>mb_mem = m, mb_pos = start, mb_last = start + len\<rparr>"

text \<open>\<^verbatim>\<open>strncmp\<close> with the terminated string \<open>m\<close> gives 0.\<close>

fun strncmp_eq :: "uint8 list \<Rightarrow> uint8 list \<Rightarrow> bool" where
  "strncmp_eq [] m \<longleftrightarrow> True"
| "strncmp_eq (c # cs) [] \<longleftrightarrow> c = 0"
| "strncmp_eq (c # cs) (d # m) \<longleftrightarrow> c = d \<and> (c = 0 \<or> strncmp_eq cs m)"

definition c_str :: "string \<Rightarrow> uint8 list" where
  "c_str s = map of_char s"

definition ngx_strmatch :: "(nat \<Rightarrow> uint8) \<Rightarrow> ngx_str \<Rightarrow> string \<Rightarrow> bool" where
  "ngx_strmatch m str match = strncmp_eq (str_bytes m str) (c_str match)"

text \<open>The loop of \<^verbatim>\<open>ngx_str_chop_if_startswith\<close>: the number of bytes before the place where the prefix ends.\<close>

fun chop_loop :: "uint8 list \<Rightarrow> uint8 list \<Rightarrow> nat \<Rightarrow> nat option" where
  "chop_loop [] match k = None"
| "chop_loop (c # cs) [] k = Some k"
| "chop_loop (c # cs) (d # match) k = (if d \<noteq> c then None else chop_loop cs match (Suc k))"

definition ngx_str_chop_if_startswith :: "(nat \<Rightarrow> uint8) \<Rightarrow> ngx_str \<Rightarrow> string \<Rightarrow> bool \<times> ngx_str" where
  "ngx_str_chop_if_startswith m str match =
     (case chop_loop (str_bytes m str) (c_str match) 0 of
        Some k \<Rightarrow> (True, (fst str + k, snd str - k))
      | None \<Rightarrow> (False, str))"

definition fwd_buf :: "mp_buf \<Rightarrow> nat \<Rightarrow> nat \<times> mp_buf" where
  "fwd_buf buf sz = (mb_pos buf, buf\<lparr>mb_pos := mb_pos buf + sz\<rparr>)"

definition fwd_buf_to_str :: "mp_buf \<Rightarrow> nat \<Rightarrow> ngx_str \<times> mp_buf" where
  "fwd_buf_to_str buf sz = (case fwd_buf buf sz of (d, buf) \<Rightarrow> ((d, sz), buf))"

definition ngx_buf_reader :: "mp_buf \<Rightarrow> nat \<Rightarrow> uint8 list option \<times> mp_buf" where
  "ngx_buf_reader buf limit =
     (if mb_last buf < mb_pos buf + limit then (None, buf)
      else (Some (map (mb_mem buf) [mb_pos buf ..< mb_pos buf + limit]), buf\<lparr>mb_pos := mb_pos buf + limit\<rparr>))"

definition ngx_buf_writer :: "mp_buf \<Rightarrow> uint8 list \<Rightarrow> nat \<times> mp_buf" where
  "ngx_buf_writer buf data = (0, buf)"

text \<open>The context that the callback of a subscription makes.\<close>

definition reply_cmp :: "(nat \<Rightarrow> uint8) \<Rightarrow> nat \<Rightarrow> nat \<Rightarrow> mp_buf cmp_ctx" where
  "reply_cmp m start len = cmp_init (set_buf m start len) ngx_buf_reader None ngx_buf_writer"

subsection \<open>Messages\<close>

definition cmp_to_str :: "mp_buf cmp_ctx \<Rightarrow> (mp_buf, ngx_str) cmp_res" where
  "cmp_to_str cmp = cmp_bind (cmp_read_str_size cmp) (\<lambda>sz cmp.
     case fwd_buf_to_str (cx_buf cmp) (unat sz) of (str, buf) \<Rightarrow> cmp_return str (cmp\<lparr>cx_buf := buf\<rparr>))"

text \<open>Of a message what is set from the reply.\<close>

record redis_msg =
  rm_expires :: int
  rm_id :: nchan_msg_id
  rm_prev_id :: nchan_msg_id
  rm_buf :: ngx_str
  rm_content_type :: "ngx_str option"
  rm_eventsource_event :: "ngx_str option"
  rm_compressed :: "int option"

definition set_single_tag :: "ptr_bytes \<Rightarrow> uint64 \<Rightarrow> nchan_msg_id \<Rightarrow> nchan_msg_id" where
  "set_single_tag pb msgtag i = i\<lparr>tag := Fixed ((fixed_view pb (tag i))[0 := ucast msgtag]), tagactive := 0, tagcount := 1\<rparr>"

text \<open>
  \<^verbatim>\<open>if(!read(cmp, &x)) return cmp_err(cmp);\<close>
\<close>

definition or_cmp_err :: "(mp_buf, 'a) cmp_res \<Rightarrow> redis_msg \<Rightarrow> ('a \<Rightarrow> mp_buf cmp_ctx \<Rightarrow> (bool \<times> redis_msg \<times> mp_buf cmp_ctx) option)
    \<Rightarrow> (bool \<times> redis_msg \<times> mp_buf cmp_ctx) option" where
  "or_cmp_err r msg f = (case r of (None, cmp) \<Rightarrow> Some (False, msg, cmp) | (Some x, cmp) \<Rightarrow> f x cmp)"

text \<open>
  \<open>now\<close> is the time and \<open>compression\<close> what the uninitialised variable holds.
\<close>

definition cmp_to_msg :: "ptr_bytes \<Rightarrow> int \<Rightarrow> uint32 \<Rightarrow> mp_buf cmp_ctx \<Rightarrow> redis_msg \<Rightarrow> (bool \<times> redis_msg \<times> mp_buf cmp_ctx) option" where
  "cmp_to_msg pb now compression cmp msg =
     or_cmp_err (cmp_read_int cmp) msg (\<lambda>ttl cmp. do {
       c_assert (0 \<le> sint ttl);
       let ttl = (if ttl = 0 then ttl + 1 else ttl);
       let msg = msg\<lparr>rm_expires := now + sint ttl\<rparr>;
       or_cmp_err (cmp_read_uinteger cmp) msg (\<lambda>t cmp.
         let msg = msg\<lparr>rm_id := (rm_id msg)\<lparr>time := sint t\<rparr>\<rparr> in
       or_cmp_err (cmp_read_uinteger cmp) msg (\<lambda>msgtag cmp.
         let msg = msg\<lparr>rm_id := set_single_tag pb msgtag (rm_id msg)\<rparr> in
       or_cmp_err (cmp_read_uinteger cmp) msg (\<lambda>t cmp.
         let msg = msg\<lparr>rm_prev_id := (rm_prev_id msg)\<lparr>time := sint t\<rparr>\<rparr> in
       or_cmp_err (cmp_read_uinteger cmp) msg (\<lambda>msgtag cmp.
         let msg = msg\<lparr>rm_prev_id := set_single_tag pb msgtag (rm_prev_id msg)\<rparr> in
       or_cmp_err (cmp_to_str cmp) msg (\<lambda>data cmp.
         let msg = msg\<lparr>rm_buf := data\<rparr> in
       or_cmp_err (cmp_to_str cmp) msg (\<lambda>content_type cmp.
         let msg = msg\<lparr>rm_content_type := (if 0 < snd content_type then Some content_type else None)\<rparr> in
       or_cmp_err (cmp_to_str cmp) msg (\<lambda>eventsource_event cmp.
         let msg = msg\<lparr>rm_eventsource_event := (if 0 < snd eventsource_event then Some eventsource_event else None)\<rparr> in
       (case cmp_read_int cmp of
          (r, cmp) \<Rightarrow>
            let compression = (case r of Some x \<Rightarrow> x | None \<Rightarrow> compression)
            in Some (True, msg\<lparr>rm_compressed := (if 0 < sint compression then Some (sint compression) else None)\<rparr>, cmp))))))))) })"

subsection \<open>The reader\<close>

definition unread :: "mp_buf \<Rightarrow> uint8 list" where
  "unread buf = map (mb_mem buf) [mb_pos buf ..< mb_last buf]"

definition fixed_part :: "mp_buf \<Rightarrow> (nat \<Rightarrow> uint8) \<times> nat \<times> bool" where
  "fixed_part buf = (mb_mem buf, mb_last buf, mb_pos buf \<le> mb_last buf)"

lemma take_upt_map: "p + n \<le> l \<Longrightarrow> take n (map f [p ..< l]) = map f [p ..< p + n]" "drop n (map f [p ..< l]) = map f [p + n ..< l]"
  by (simp_all add: take_map drop_map)

interpretation ngx_reader: byte_reader ngx_buf_reader unread fixed_part
proof
  fix n b
  show "0 < n \<Longrightarrow> n \<le> length (unread b) \<Longrightarrow> fst (ngx_buf_reader b n) = Some (take n (unread b)) \<and> unread (snd (ngx_buf_reader b n)) = drop n (unread b)"
    by (simp add: unread_def ngx_buf_reader_def take_upt_map)
  show "length (unread b) < n \<Longrightarrow> ngx_buf_reader b n = (None, b)" by (auto simp: unread_def ngx_buf_reader_def)
  show "fixed_part (snd (ngx_buf_reader b n)) = fixed_part b" by (simp add: fixed_part_def ngx_buf_reader_def)
qed

text \<open>The context reads from \<open>p\<close> on, where the memory holds \<open>xs\<close> up to the end of the buffer.\<close>

definition reading :: "(nat \<Rightarrow> uint8) \<Rightarrow> nat \<Rightarrow> uint8 list \<Rightarrow> mp_buf cmp_ctx \<Rightarrow> bool" where
  "reading m p xs cmp \<longleftrightarrow> cx_read cmp = ngx_buf_reader \<and> mb_mem (cx_buf cmp) = m \<and> mb_pos (cx_buf cmp) = p \<and>
     mb_last (cx_buf cmp) = p + length xs \<and> map m [p ..< p + length xs] = xs"

lemma reading_reply:
  assumes "str_bytes m (p, n) = xs"
  shows "reading m p xs (reply_cmp m p n)"
proof -
  have x: "map m [p ..< p + n] = xs" using assms by (simp add: str_bytes_def)
  then have "length xs = n" by (metis add_diff_cancel_left' length_map length_upt)
  then show ?thesis using x by (simp add: reading_def reply_cmp_def cmp_init_def set_buf_def)
qed

lemma map_upt_append:
  assumes "map m [p ..< p + length (as @ bs)] = as @ bs"
  shows "map m [p ..< p + length as] = as" "map m [p + length as ..< p + length as + length bs] = bs"
proof -
  have "[p ..< p + length (as @ bs)] = [p ..< p + length as] @ [p + length as ..< p + length as + length bs]"
    using upt_add_eq_append [of p "p + length as" "length bs"] by (simp add: add.assoc)
  then have "map m [p ..< p + length as] @ map m [p + length as ..< p + length as + length bs] = as @ bs" using assms by simp
  moreover have "length (map m [p ..< p + length as]) = length as" by simp
  ultimately show "map m [p ..< p + length as] = as" "map m [p + length as ..< p + length as + length bs] = bs"
    by (blast dest: append_eq_append_conv [THEN iffD1, OF disjI1])+
qed

lemma reading_parses:
  assumes f: "parses ngx_buf_reader unread fixed_part f Q" and r: "reading m p (as @ bs) cmp" and q: "Q x as"
  obtains cmp' where "f cmp = (Some x, cmp')" "reading m (p + length as) bs cmp'"
proof -
  have u: "unread (cx_buf cmp) = as @ bs" and rd: "cx_read cmp = ngx_buf_reader"
    using r by (simp_all add: reading_def unread_def)
  obtain cmp' where c: "f cmp = (fst (f cmp), cmp')" by (cases "f cmp") simp
  have "fst (f cmp) = Some x \<and> unread (cx_buf (snd (f cmp))) = bs" "cx_read (snd (f cmp)) = ngx_buf_reader"
      "fixed_part (cx_buf (snd (f cmp))) = fixed_part (cx_buf cmp)"
    using f rd u q unfolding parses_def by blast+
  then have c': "f cmp = (Some x, cmp')" "unread (cx_buf cmp') = bs" "cx_read cmp' = ngx_buf_reader" "mb_mem (cx_buf cmp') = m"
      "mb_last (cx_buf cmp') = p + length as + length bs" "mb_pos (cx_buf cmp') \<le> mb_last (cx_buf cmp')"
    using c r by (simp_all add: fixed_part_def reading_def)
  have "mb_last (cx_buf cmp') - mb_pos (cx_buf cmp') = length bs" unfolding c'(2) [symmetric] by (simp add: unread_def)
  then have "mb_pos (cx_buf cmp') = p + length as" using c'(5,6) by simp
  then have "reading m (p + length as) bs cmp'" using c' by (simp add: reading_def unread_def)
  then show ?thesis using that c'(1) by blast
qed

subsection \<open>What publish.lua packs\<close>

text \<open>A string: its size and its bytes.\<close>

definition encodes_str :: "uint8 list \<Rightarrow> uint8 list \<Rightarrow> bool" where
  "encodes_str s bs \<longleftrightarrow> (\<exists>hd n. bs = hd @ s \<and> encodes_str_size n hd \<and> unat n = length s)"

lemma reading_str:
  assumes "reading m p (as @ bs) cmp" "encodes_str s as"
  obtains str cmp' where "cmp_to_str cmp = (Some str, cmp')" "reading m (p + length as) bs cmp'" "str_bytes m str = s" "snd str = length s"
proof -
  obtain hd n where hd: "as = hd @ s" "encodes_str_size n hd" "unat n = length s" using assms(2) by (auto simp: encodes_str_def)
  have r: "reading m p (hd @ s @ bs) cmp" using assms(1) hd(1) by simp
  obtain cmp1 where c: "cmp_read_str_size cmp = (Some n, cmp1)" "reading m (p + length hd) (s @ bs) cmp1"
    by (rule reading_parses [OF ngx_reader.parses_str_size r hd(2)])
  let ?str = "(p + length hd, length s)"
  let ?cmp = "cmp1\<lparr>cx_buf := (cx_buf cmp1)\<lparr>mb_pos := p + length hd + length s\<rparr>\<rparr>"
  have m: "map m [p + length hd ..< p + length hd + length (s @ bs)] = s @ bs" using c(2) by (simp add: reading_def)
  have "cmp_to_str cmp = (Some ?str, ?cmp)"
    using c by (simp add: cmp_to_str_def cmp_bind_def cmp_return_def fwd_buf_to_str_def fwd_buf_def hd(3) reading_def)
  moreover have "reading m (p + length as) bs ?cmp" using c(2) map_upt_append(2) [OF m] by (simp add: reading_def hd(1) add.assoc)
  moreover have "str_bytes m ?str = s" using map_upt_append(1) [OF m] by (simp add: str_bytes_def)
  ultimately show ?thesis using that by simp
qed

text \<open>The fields of a published message, in the order in which publish.lua puts them after the type of the message.\<close>

record published =
  pm_ttl :: uint32
  pm_time :: uint64
  pm_tag :: uint64
  pm_prev_time :: uint64
  pm_prev_tag :: uint64
  pm_data :: "uint8 list"
  pm_content_type :: "uint8 list"
  pm_eventsource_event :: "uint8 list"
  pm_compression :: uint32

definition packs_msg :: "published \<Rightarrow> uint8 list list \<Rightarrow> bool" where
  "packs_msg r es \<longleftrightarrow>
     (case es of
        [e1, e2, e3, e4, e5, e6, e7, e8, e9] \<Rightarrow>
          encodes_int32 (sint (pm_ttl r)) e1 \<and> encodes_integer (uint (pm_time r)) e2 \<and> encodes_integer (uint (pm_tag r)) e3 \<and>
          encodes_integer (uint (pm_prev_time r)) e4 \<and> encodes_integer (uint (pm_prev_tag r)) e5 \<and>
          encodes_str (pm_data r) e6 \<and> encodes_str (pm_content_type r) e7 \<and> encodes_str (pm_eventsource_event r) e8 \<and>
          encodes_int32 (sint (pm_compression r)) e9
      | _ \<Rightarrow> False)"

text \<open>The message that the subscribers are to get.\<close>

definition single_id :: "uint64 \<Rightarrow> uint64 \<Rightarrow> nchan_msg_id \<Rightarrow> bool" where
  "single_id t msgtag i \<longleftrightarrow> time i = sint t \<and> tagcount i = 1 \<and> tagactive i = 0 \<and>
     (\<exists>u v w. tag i = Fixed [ucast msgtag, u, v, w])"

text \<open>Memory for a message: an id has room for four tags.\<close>

definition msg_memory :: "ptr_bytes \<Rightarrow> redis_msg \<Rightarrow> bool" where
  "msg_memory pb msg \<longleftrightarrow> length (fixed_view pb (tag (rm_id msg))) = NCHAN_FIXED_MULTITAG_MAX \<and>
     length (fixed_view pb (tag (rm_prev_id msg))) = NCHAN_FIXED_MULTITAG_MAX"

definition represents :: "(nat \<Rightarrow> uint8) \<Rightarrow> int \<Rightarrow> published \<Rightarrow> redis_msg \<Rightarrow> bool" where
  "represents m now r msg \<longleftrightarrow>
     rm_expires msg = now + max 1 (sint (pm_ttl r)) \<and>
     single_id (pm_time r) (pm_tag r) (rm_id msg) \<and> single_id (pm_prev_time r) (pm_prev_tag r) (rm_prev_id msg) \<and>
     str_bytes m (rm_buf msg) = pm_data r \<and>
     map_option (str_bytes m) (rm_content_type msg) = (if pm_content_type r = [] then None else Some (pm_content_type r)) \<and>
     map_option (str_bytes m) (rm_eventsource_event msg) = (if pm_eventsource_event r = [] then None else Some (pm_eventsource_event r)) \<and>
     rm_compressed msg = (if 0 < sint (pm_compression r) then Some (sint (pm_compression r)) else None)"

text \<open>One step of reading a message.\<close>

definition reads_from :: "(nat \<Rightarrow> uint8) \<Rightarrow> uint8 list \<Rightarrow> mp_buf cmp_ctx \<Rightarrow> bool" where
  "reads_from m xs cmp \<longleftrightarrow> (\<exists>p. reading m p xs cmp)"

lemma reads_from_parses:
  assumes f: "parses ngx_buf_reader unread fixed_part f Q" and "reads_from m (as @ bs) cmp" and q: "Q x as"
  obtains cmp' where "f cmp = (Some x, cmp')" "reads_from m bs cmp'"
proof -
  obtain p where p: "reading m p (as @ bs) cmp" using assms(2) by (auto simp: reads_from_def)
  show ?thesis by (rule reading_parses [OF f p q]) (use that in \<open>auto simp: reads_from_def\<close>)
qed

lemma reads_from_str:
  assumes "reads_from m (as @ bs) cmp" and s: "encodes_str s as"
  obtains str cmp' where "cmp_to_str cmp = (Some str, cmp')" "reads_from m bs cmp'" "str_bytes m str = s" "snd str = length s"
proof -
  obtain p where p: "reading m p (as @ bs) cmp" using assms(1) by (auto simp: reads_from_def)
  show ?thesis by (rule reading_str [OF p s]) (use that in \<open>auto simp: reads_from_def\<close>)
qed

lemma step_parses:
  assumes f: "parses ngx_buf_reader unread fixed_part f Q" and r: "reads_from m (as @ bs) cmp" and q: "Q x as"
    and k: "\<And>cmp. reads_from m bs cmp \<Longrightarrow> P (k x cmp)"
  shows "P (or_cmp_err (f cmp) msg k)"
  by (rule reads_from_parses [OF f r q]) (simp add: or_cmp_err_def k)

lemma step_str:
  assumes r: "reads_from m (as @ bs) cmp" and s: "encodes_str s as"
    and k: "\<And>str cmp. reads_from m bs cmp \<Longrightarrow> str_bytes m str = s \<Longrightarrow> snd str = length s \<Longrightarrow> P (k str cmp)"
  shows "P (or_cmp_err (cmp_to_str cmp) msg k)"
  by (rule reads_from_str [OF r s]) (simp add: or_cmp_err_def k)

lemmas step_int = step_parses [OF ngx_reader.parses_int]
lemmas step_uint = step_parses [OF ngx_reader.parses_uinteger]

definition decoded :: "(nat \<Rightarrow> uint8) \<Rightarrow> int \<Rightarrow> published \<Rightarrow> uint8 list \<Rightarrow> (bool \<times> redis_msg \<times> mp_buf cmp_ctx) option \<Rightarrow> bool" where
  "decoded m now r rest res \<longleftrightarrow> (\<exists>msg cmp. res = Some (True, msg, cmp) \<and> reads_from m rest cmp \<and> represents m now r msg)"

lemma single_idI:
  assumes "length (fixed_view pb (tag i)) = NCHAN_FIXED_MULTITAG_MAX"
  shows "single_id t g (set_single_tag pb g (i\<lparr>time := sint t\<rparr>))"
proof -
  obtain a b c d where "fixed_view pb (tag i) = [a, b, c, d]"
    using assms by (auto simp: NCHAN_FIXED_MULTITAG_MAX_def length_Suc_conv numeral_eq_Suc)
  then show ?thesis by (simp add: single_id_def set_single_tag_def)
qed

lemma at_least_a_second: "0 \<le> sint (ttl :: uint32) \<Longrightarrow> sint (if ttl = 0 then ttl + 1 else ttl) = max 1 (sint ttl)"
  using signed_eq_0_iff [of ttl, where 'a = int] by (auto simp: max_def)

lemma decoded_last:
  assumes r: "reads_from m (as @ bs) cmp" and e: "encodes_int32 (sint x) as" and k: "\<And>cmp. reads_from m bs cmp \<Longrightarrow> decoded m now r rest (Some (True, k x, cmp))"
  shows "decoded m now r rest (case cmp_read_int cmp of (y, cmp) \<Rightarrow> Some (True, k (case y of Some x \<Rightarrow> x | None \<Rightarrow> c), cmp))"
  by (rule reads_from_parses [OF ngx_reader.parses_int r e]) (simp add: k)

lemma cmp_to_msg_packed:
  assumes r: "reads_from m (concat es @ rest) cmp" and es: "packs_msg r es" and ttl: "0 \<le> sint (pm_ttl r)" and mem: "msg_memory pb msg"
  shows "decoded m now r rest (cmp_to_msg pb now compression cmp msg)"
proof -
  obtain e1 e2 e3 e4 e5 e6 e7 e8 e9 where es': "es = [e1, e2, e3, e4, e5, e6, e7, e8, e9]"
    using es by (auto simp: packs_msg_def split: list.splits)
  then have e: "encodes_int32 (sint (pm_ttl r)) e1" "encodes_integer (uint (pm_time r)) e2" "encodes_integer (uint (pm_tag r)) e3"
      "encodes_integer (uint (pm_prev_time r)) e4" "encodes_integer (uint (pm_prev_tag r)) e5" "encodes_str (pm_data r) e6"
      "encodes_str (pm_content_type r) e7" "encodes_str (pm_eventsource_event r) e8" "encodes_int32 (sint (pm_compression r)) e9"
    using es by (simp_all add: packs_msg_def)
  have "reads_from m (e1 @ e2 @ e3 @ e4 @ e5 @ e6 @ e7 @ e8 @ e9 @ rest) cmp" using r by (simp add: es')
  then show ?thesis
    unfolding cmp_to_msg_def Let_def
    apply (rule step_int [OF _ e(1)])
    apply (simp only: c_assert_bind ttl if_True)
    apply (rule step_uint [OF _ e(2)], assumption, rule step_uint [OF _ e(3)], assumption)
    apply (rule step_uint [OF _ e(4)], assumption, rule step_uint [OF _ e(5)], assumption)
    apply (rule step_str [OF _ e(6)], assumption, rule step_str [OF _ e(7)], assumption, rule step_str [OF _ e(8)], assumption)
    apply (rule decoded_last [OF _ e(9)], assumption)
    apply (use mem ttl in \<open>auto simp: decoded_def represents_def single_idI msg_memory_def at_least_a_second simp del: if_split\<close>)
    done
qed

subsection \<open>Properties\<close>

text \<open>
  C14 The reader of the Redis store takes an object from a buffer exactly when the buffer begins with the object's
  encoding, and then takes exactly these bytes.
\<close>

theorem object_codec:
  assumes "cx_read cmp = ngx_buf_reader"
  shows "fst (cmp_read_object cmp) = Some obj \<and> unread (cx_buf (snd (cmp_read_object cmp))) = rest \<longleftrightarrow>
    ob_valid obj \<and> unread (cx_buf cmp) = mp_bytes obj @ rest"
  using ngx_reader.parses_object assms unfolding parses_def by blast

definition sample_mem :: "nat \<Rightarrow> uint8" where
  "sample_mem p = (if p = 0 then 0xCD else if p = 1 then 1 else if p = 2 then 2 else 0xC0)"

theorem object_codec_witness:
  "fst (cmp_read_object (reply_cmp sample_mem 0 4)) = Some (object CMP_TYPE_UINT16 (As_16 0x102)) \<and>
    unread (cx_buf (snd (cmp_read_object (reply_cmp sample_mem 0 4)))) = [0xC0]"
proof -
  have "cx_read (reply_cmp sample_mem 0 4) = ngx_buf_reader" by (simp add: reply_cmp_def cmp_init_def)
  moreover have "ob_valid (object CMP_TYPE_UINT16 (As_16 0x102))" by (simp add: ob_valid_def object_def is_data_iff)
  moreover have "unread (cx_buf (reply_cmp sample_mem 0 4)) = mp_bytes (object CMP_TYPE_UINT16 (As_16 0x102)) @ [0xC0]"
    by (simp add: unread_def reply_cmp_def cmp_init_def set_buf_def sample_mem_def mp_bytes_def object_def store_be_def store_le_def byte_at_def
        marker_defs upt_rec)
  ultimately show ?thesis using object_codec by blast
qed

text \<open>
  C15 An integer that is written, signed or unsigned, is read back as the same value, whatever follows it.
\<close>

theorem integers_roundtrip:
  assumes "collects w" and "cx_buf w = []"
  shows "(str_bytes m (p, n) = cx_buf (snd (cmp_write_integer d w)) @ rest \<longrightarrow>
      (\<exists>cmp. cmp_read_integer (reply_cmp m p n) = (Some d, cmp) \<and> unread (cx_buf cmp) = rest)) \<and>
    (str_bytes m (p, n) = cx_buf (snd (cmp_write_uinteger d w)) @ rest \<longrightarrow>
      (\<exists>cmp. cmp_read_uinteger (reply_cmp m p n) = (Some d, cmp) \<and> unread (cx_buf cmp) = rest))"
proof -
  have b: "cx_buf (snd (cmp_write_integer d w)) = mp_bytes (sint_object d)" "cx_buf (snd (cmp_write_uinteger d w)) = mp_bytes (uint_object d)"
    using emits_object [OF sint_object_valid] emits_object [OF uint_object_valid] assms
    by (simp_all add: emits_def write_integer_object write_uinteger_object)
  have e: "encodes_integer (sint d) (mp_bytes (sint_object d))" "encodes_integer (uint d) (mp_bytes (uint_object d))"
    unfolding encodes_integer_def using sint_object_valid sint_object_value uint_object_valid uint_object_value by blast+
  have u: "reading m q xs cmp \<Longrightarrow> unread (cx_buf cmp) = xs" for q xs cmp by (simp add: reading_def unread_def)
  show ?thesis
    unfolding b using reading_parses [OF ngx_reader.parses_integer reading_reply e(1)] reading_parses [OF ngx_reader.parses_uinteger reading_reply e(2)] u
    by metis
qed

definition collecting :: "uint8 list cmp_ctx" where
  "collecting = cmp_init [] (\<lambda>b n. (None, b)) None (\<lambda>b bs. (length bs, b @ bs))"

theorem integers_roundtrip_witness:
  "\<exists>cmp. cmp_read_integer (reply_cmp (\<lambda>_. 0xFB) 0 1) = (Some (-5), cmp) \<and> unread (cx_buf cmp) = []"
proof -
  have w: "collects collecting" "cx_buf collecting = []" by (simp_all add: collects_def collecting_def cmp_init_def)
  have "str_bytes (\<lambda>_. 0xFB) (0, 1) = cx_buf (snd (cmp_write_integer (-5) collecting)) @ []"
    by (simp add: str_bytes_def cmp_write_integer_def cmp_write_nfix_def write_fixed_value_def on_failure_def write_byte_def collecting_def cmp_init_def)
  then show ?thesis using integers_roundtrip [OF w, of "\<lambda>_. 0xFB" 0 1 "-5" "[]"] by blast
qed

text \<open>
  C38 A string whose size reaches beyond the end of the buffer is not refused: the store takes it as lying outside of the
  memory that the reply has.
\<close>

theorem string_outside_buffer:
  assumes "str_bytes m (p, k) = hdr" and "encodes_str_size n hdr" and "0 < n"
  shows "\<exists>cmp. cmp_to_str (reply_cmp m p k) = (Some (p + k, unat n), cmp) \<and> mb_last (cx_buf cmp) = p + k"
proof -
  have len: "length hdr = k" unfolding assms(1) [symmetric] by (simp add: str_bytes_def)
  have r: "reading m p (hdr @ []) (reply_cmp m p k)" using reading_reply [OF assms(1)] by simp
  obtain c where "cmp_read_str_size (reply_cmp m p k) = (Some n, c)" "reading m (p + length hdr) [] c"
    by (rule reading_parses [OF ngx_reader.parses_str_size r assms(2)])
  then show ?thesis
    by (simp add: cmp_to_str_def cmp_bind_def cmp_return_def fwd_buf_to_str_def fwd_buf_def reading_def len)
qed

theorem string_outside_buffer_witness:
  "\<exists>cmp. cmp_to_str (reply_cmp (\<lambda>_. 0xBF) 0 1) = (Some (1, 31), cmp) \<and> mb_last (cx_buf cmp) = 1"
proof -
  let ?obj = "object CMP_TYPE_FIXSTR (As_32 31)"
  have "encodes_str_size 31 (mp_bytes ?obj)"
    unfolding encodes_str_size_def by (intro exI [of _ ?obj]) (simp add: ob_valid_def is_data_iff members)
  moreover have "str_bytes (\<lambda>_. 0xBF) (0, 1) = mp_bytes ?obj" by (simp add: str_bytes_def mp_bytes_def members marker_defs)
  ultimately show ?thesis using string_outside_buffer [of "\<lambda>_. 0xBF" 0 1 "mp_bytes ?obj" 31] by simp
qed

end
