(* ===== verification/Redis_Callback.thy ===== *)
theory Redis_Callback
  imports Redis_Msg Msg_Text
begin

text \<open>
  rdsstore.c: \<^verbatim>\<open>redis_subscriber_callback\<close>, what the store does with what Redis sends on a PUBSUB connection.

  The handler looks up channels and asks other parts to act on them.  Whether a channel is found, or can be made, is a
  parameter; what is asked for is the list of actions, in order; of the log only the handler's own messages are in it.
  The result is \<open>None\<close> where an assertion fails or
  \<^verbatim>\<open>NULL\<close> is dereferenced.
\<close>

unbundle bit_operations_syntax

subsection \<open>Replies\<close>

datatype redis_reply =
    Reply_string ngx_str
  | Reply_array "redis_reply list"
  | Reply_integer int
  | Reply_nil
  | Reply_status ngx_str
  | Reply_error ngx_str

fun check_reply_str :: "redis_reply \<Rightarrow> bool" where
  "check_reply_str (Reply_string _) = True"
| "check_reply_str _ = False"

fun check_reply_int :: "redis_reply \<Rightarrow> bool" where
  "check_reply_int (Reply_integer _) = True"
| "check_reply_int _ = False"

text \<open>The strings of a reply are terminated; \<^verbatim>\<open>strcmp\<close> stops at the first zero.\<close>

fun check_reply_strval :: "(nat \<Rightarrow> uint8) \<Rightarrow> redis_reply \<Rightarrow> string \<Rightarrow> bool" where
  "check_reply_strval m (Reply_string s) v \<longleftrightarrow> takeWhile (\<lambda>c. c \<noteq> 0) (str_bytes m s) = c_str v"
| "check_reply_strval m _ v \<longleftrightarrow> False"

text \<open>\<^verbatim>\<open>reply->str\<close> and \<^verbatim>\<open>reply->len\<close>; a reply that is no string has neither.\<close>

fun reply_str :: "redis_reply \<Rightarrow> ngx_str" where
  "reply_str (Reply_string s) = s"
| "reply_str _ = (0, 0)"

subsection \<open>Names of PUBSUB channels\<close>

text \<open>
  \<open>wid\<close> is the name of the worker's own channel with its terminating zero, as \<^verbatim>\<open>redis_subscriber_id_len\<close> counts it.
\<close>

definition str_match_redis_subscriber_channel :: "(nat \<Rightarrow> uint8) \<Rightarrow> uint8 list \<Rightarrow> ngx_str \<Rightarrow> uint8 list \<Rightarrow> bool" where
  "str_match_redis_subscriber_channel m wid ch ns =
     (if snd ch \<noteq> length ns + length wid \<or> snd ch < length ns then False
      else if str_bytes m (fst ch, length ns) \<noteq> ns then False
      else strncmp_eq (str_bytes m (fst ch + length ns, snd ch - length ns)) wid)"

text \<open>The length is computed without a check, modulo the size of the type.\<close>

definition get_channel_id_from_pubsub_channel :: "(nat \<Rightarrow> uint8) \<Rightarrow> uint8 list \<Rightarrow> ngx_str \<Rightarrow> uint8 list \<Rightarrow> ngx_str option" where
  "get_channel_id_from_pubsub_channel m wid ch ns =
     (if str_match_redis_subscriber_channel m wid ch ns then None
      else Some (fst ch + length ns + 9, nat ((int (snd ch) - int (length ns) - 17) mod 2 ^ 64)))"

subsection \<open>The handler\<close>

datatype redis_pubsub_status = REDIS_PUBSUB_SUBSCRIBING | REDIS_PUBSUB_SUBSCRIBED | REDIS_PUBSUB_UNSUBSCRIBED

datatype rd_action =
    Publish_msg ngx_str redis_msg
  | Publish_status ngx_str nat
  | Notice_buffer_size ngx_str uint64
  | Notice_subscriber_info ngx_str uint64
  | Get_chanhead ngx_str
  | Get_msg_from_msgkey ngx_str nchan_msg_id ngx_str
  | Chanhead_gc_add ngx_str
  | Set_pubsub_status ngx_str redis_pubsub_status
  | Log_error
  | Echo

record rd_env =
  re_mem :: "nat \<Rightarrow> uint8"
  re_pb :: ptr_bytes
  re_now :: int
  re_namespace :: "uint8 list"
  re_worker_id :: "uint8 list"
  re_find_chanhead :: "uint8 list \<Rightarrow> bool"
  re_get_chanhead :: "uint8 list \<Rightarrow> bool"
  re_pubsub_status :: "uint8 list \<Rightarrow> redis_pubsub_status"
  re_garbage :: uint32
  re_garbage64 :: uint64
  re_msg :: redis_msg

text \<open>The lookups dereference the id.\<close>

definition find_chanhead :: "rd_env \<Rightarrow> ngx_str option \<Rightarrow> bool option" where
  "find_chanhead e chid = map_option (\<lambda>s. re_find_chanhead e (str_bytes (re_mem e) s)) chid"

definition get_chanhead :: "rd_env \<Rightarrow> ngx_str option \<Rightarrow> bool option" where
  "get_chanhead e chid = map_option (\<lambda>s. re_get_chanhead e (str_bytes (re_mem e) s)) chid"

definition callback_msg :: "rd_env \<Rightarrow> uint32 \<Rightarrow> nat \<Rightarrow> bool \<Rightarrow> ngx_str \<Rightarrow> mp_buf cmp_ctx \<Rightarrow> rd_action list option" where
  "callback_msg e array_sz changed chanhead chid cmp = do {
     c_assert (9 + changed \<le> unat array_sz);
     if \<not> chanhead then Some []
     else do {
       (ok, msg, _) \<leftarrow> cmp_to_msg (re_pb e) (re_now e) (re_garbage e) cmp (re_msg e);
       Some (if ok then [Publish_msg chid msg] else [])
     }
   }"

definition callback_msgkey :: "rd_env \<Rightarrow> uint32 \<Rightarrow> nat \<Rightarrow> bool \<Rightarrow> ngx_str \<Rightarrow> mp_buf cmp_ctx \<Rightarrow> rd_action list option" where
  "callback_msgkey e array_sz changed chanhead chid cmp = do {
     c_assert (unat array_sz = 4 + changed);
     Some (if \<not> chanhead then [Log_error]
       else case cmp_read_uinteger cmp of
         (None, _) \<Rightarrow> []
       | (Some t, cmp) \<Rightarrow>
           (case cmp_read_uinteger cmp of
              (None, _) \<Rightarrow> []
            | (Some msgtag, cmp) \<Rightarrow>
                let msgid = set_single_tag (re_pb e) msgtag ((rm_id (re_msg e))\<lparr>time := sint t\<rparr>)
                in case cmp_to_str cmp of
                     (None, _) \<Rightarrow> []
                   | (Some key, _) \<Rightarrow> [Get_msg_from_msgkey chid msgid key]))
   }"

definition callback_alert :: "rd_env \<Rightarrow> uint32 \<Rightarrow> ngx_str option \<Rightarrow> mp_buf cmp_ctx \<Rightarrow> rd_action list option" where
  "callback_alert e array_sz chid cmp =
     (case cmp_to_str cmp of
        (None, _) \<Rightarrow> Some []
      | (Some alerttype, cmp) \<Rightarrow>
          if ngx_strmatch (re_mem e) alerttype ''delete channel'' \<and> 2 < array_sz then
            (case cmp_to_str cmp of
               (Some ch, _) \<Rightarrow> do {
                 found \<leftarrow> get_chanhead e (Some ch);
                 c_assert found;
                 Some [Publish_status ch 410, Get_chanhead ch, Chanhead_gc_add ch]
               }
             | (None, _) \<Rightarrow> Some [Log_error])
          else if ngx_strmatch (re_mem e) alerttype ''unsub one'' \<and> 3 < array_sz then Some [Log_error]
          else if ngx_strmatch (re_mem e) alerttype ''unsub all'' \<and> 1 < array_sz then
            (case cmp_to_str cmp of
               (Some ch, _) \<Rightarrow> Some [Publish_status ch 409]
             | (None, _) \<Rightarrow> Some [])
          else if ngx_strmatch (re_mem e) alerttype ''unsub all except'' then Some [Log_error]
          else if ngx_strmatch (re_mem e) alerttype ''subscriber info'' then do {
            let request_id = (case cmp_read_uinteger cmp of (Some x, _) \<Rightarrow> x | (None, _) \<Rightarrow> re_garbage64 e);
            found \<leftarrow> get_chanhead e chid;
            ch \<leftarrow> chid;
            Some (if found then [Get_chanhead ch, Notice_subscriber_info ch request_id] else [Get_chanhead ch, Log_error])
          }
          else Some [Log_error])"

text \<open>
  A message on a channel is an array that begins with its type, with two optional prefixes; the first is followed by a new
  size of the channel's buffer, the second by the id of the channel.
\<close>

definition callback_typed :: "rd_env \<Rightarrow> ngx_str option \<Rightarrow> uint32 \<Rightarrow> ngx_str \<Rightarrow> uint64 option \<Rightarrow> mp_buf cmp_ctx \<Rightarrow> rd_action list option" where
  "callback_typed e chid array_sz msg_type msgbuf_size cmp =
     (let (has_ch, msg_type) = ngx_str_chop_if_startswith (re_mem e) msg_type ''ch+'';
          (chid', cmp) = (if has_ch then cmp_to_str cmp else (None, cmp));
          chid = (case chid' of Some s \<Rightarrow> Some s | None \<Rightarrow> chid);
          changed = (if msgbuf_size = None then 0 else 1)
      in do {
        made \<leftarrow> (if msgbuf_size \<noteq> None then get_chanhead e chid else Some False);
        chanhead \<leftarrow> (if made then Some True else find_chanhead e chid);
        ch \<leftarrow> chid;
        let notices = (case msgbuf_size of
            None \<Rightarrow> []
          | Some n \<Rightarrow> Get_chanhead ch # (if made then [Notice_buffer_size ch n] else []));
        acts \<leftarrow>
          (if ngx_strmatch (re_mem e) msg_type ''msg'' then callback_msg e array_sz changed chanhead ch cmp
           else if ngx_strmatch (re_mem e) msg_type ''msgkey'' then callback_msgkey e array_sz changed chanhead ch cmp
           else if ngx_strmatch (re_mem e) msg_type ''alert'' \<and> 1 < array_sz then callback_alert e array_sz (Some ch) cmp
           else Some [Log_error]);
        Some (notices @ acts)
      })"

definition callback_packed :: "rd_env \<Rightarrow> ngx_str option \<Rightarrow> ngx_str \<Rightarrow> rd_action list option" where
  "callback_packed e chid el =
     (case cmp_read_array (reply_cmp (re_mem e) (fst el) (snd el)) of
        (None, _) \<Rightarrow> Some [Log_error]
      | (Some array_sz, cmp) \<Rightarrow>
          if array_sz = 0 then Some [Log_error]
          else
            let (r, cmp) = cmp_read_str_size cmp;
                (msg_type, buf) = fwd_buf_to_str (cx_buf cmp) (unat (case r of Some sz \<Rightarrow> sz | None \<Rightarrow> re_garbage e));
                cmp = cmp\<lparr>cx_buf := buf\<rparr>;
                (max_msgs, msg_type) = ngx_str_chop_if_startswith (re_mem e) msg_type ''max_msgs+'';
                (msgbuf_size, cmp) = (if max_msgs then cmp_read_integer cmp else (None, cmp))
            in callback_typed e chid array_sz msg_type msgbuf_size cmp)"

definition redis_subscriber_callback :: "rd_env \<Rightarrow> redis_reply option \<Rightarrow> rd_action list option" where
  "redis_subscriber_callback e reply =
     (case reply of
        None \<Rightarrow> Some []
      | Some (Reply_array (r0 # r1 # r2 # rs)) \<Rightarrow>
          if \<not> (check_reply_str r0 \<and> (check_reply_str r1 \<or> check_reply_int r1)) then Some [Log_error, Echo]
          else
            let m = re_mem e;
                pubsub_channel = reply_str r1;
                chid = get_channel_id_from_pubsub_channel m (re_worker_id e) pubsub_channel (re_namespace e)
            in if (check_reply_strval m r0 ''message'' \<or> check_reply_strval m r0 ''smessage'') \<and> check_reply_str r2 then
                 (if check_reply_strval m r2 ''ping'' \<and> str_match_redis_subscriber_channel m (re_worker_id e) pubsub_channel (re_namespace e)
                  then Some [] else callback_packed e chid (reply_str r2))
               else if (check_reply_strval m r0 ''subscribe'' \<or> check_reply_strval m r0 ''ssubscribe'') \<and> check_reply_int r2 then
                 (case chid of
                    None \<Rightarrow> Some []
                  | Some ch \<Rightarrow>
                      Some (if re_find_chanhead e (str_bytes m ch) then [Set_pubsub_status ch REDIS_PUBSUB_SUBSCRIBED] else [Log_error]))
               else if (check_reply_strval m r0 ''unsubscribe'' \<or> check_reply_strval m r0 ''sunsubscribe'') \<and> check_reply_int r2 then
                 (case chid of
                    None \<Rightarrow> Some []
                  | Some ch \<Rightarrow>
                      Some (if re_find_chanhead e (str_bytes m ch) \<and> re_pubsub_status e (str_bytes m ch) \<noteq> REDIS_PUBSUB_UNSUBSCRIBED
                            then [Set_pubsub_status ch REDIS_PUBSUB_UNSUBSCRIBED] else []))
               else Some [Log_error, Echo]
      | Some _ \<Rightarrow> Some [Log_error, Echo])"

subsection \<open>What publish.lua publishes\<close>

text \<open>
  The table that \<^verbatim>\<open>publish.lua\<close> packs: the whole message if it is not stored or is shorter than the limit, otherwise the key it is
  stored under; before that a new size of the channel's buffer, if it changed.
\<close>

datatype lua_value = Lua_int int | Lua_string "uint8 list"

definition msg_key :: "uint8 list \<Rightarrow> uint8 list \<Rightarrow> published \<Rightarrow> uint8 list" where
  "msg_key ns chid r = ns @ c_str ''{channel:'' @ chid @ c_str ''}'' @ c_str '':msg:''
     @ c_str (dec_nat (unat (pm_time r))) @ c_str '':'' @ c_str (dec_nat (unat (pm_tag r)))"

definition sent_whole :: "nat \<Rightarrow> bool \<Rightarrow> published \<Rightarrow> bool" where
  "sent_whole cutoff unbuffered r \<longleftrightarrow> unbuffered \<or> length (pm_data r) < cutoff"

definition sent_msg :: "bool \<Rightarrow> published \<Rightarrow> published" where
  "sent_msg unbuffered r = (if unbuffered then r\<lparr>pm_prev_time := 0, pm_prev_tag := 0\<rparr> else r)"

definition publish_unpacked :: "nat \<Rightarrow> bool \<Rightarrow> uint64 option \<Rightarrow> uint8 list \<Rightarrow> uint8 list \<Rightarrow> published \<Rightarrow> lua_value list" where
  "publish_unpacked cutoff unbuffered buffer_size ns chid r =
     (let (ty, fields) =
        (if sent_whole cutoff unbuffered r
         then (c_str ''msg'',
           [Lua_int (sint (pm_ttl r)), Lua_int (uint (pm_time r)), Lua_int (uint (pm_tag r)),
            Lua_int (uint (pm_prev_time (sent_msg unbuffered r))), Lua_int (uint (pm_prev_tag (sent_msg unbuffered r))),
            Lua_string (pm_data r), Lua_string (pm_content_type r), Lua_string (pm_eventsource_event r), Lua_int (sint (pm_compression r))])
         else (c_str ''msgkey'', [Lua_int (uint (pm_time r)), Lua_int (uint (pm_tag r)), Lua_string (msg_key ns chid r)]))
      in case buffer_size of
           None \<Rightarrow> Lua_string ty # fields
         | Some n \<Rightarrow> Lua_string (c_str ''max_msgs+'' @ ty) # Lua_int (sint n) # fields)"

text \<open>
  \<^verbatim>\<open>cmsgpack.pack\<close> of Redis: an array whose elements are in any encoding of MessagePack, except that an integer is in 64 bits only if
  it does not fit into 32, because the shortest encoding is chosen.
\<close>

definition cmsgpack_value :: "lua_value \<Rightarrow> uint8 list \<Rightarrow> bool" where
  "cmsgpack_value v bs \<longleftrightarrow>
     (case v of
        Lua_int i \<Rightarrow> if - (2 ^ 31) \<le> i \<and> i < 2 ^ 32 then encodes_int32 i bs else encodes_integer i bs
      | Lua_string str \<Rightarrow> encodes_str str bs)"

definition cmsgpack_pack :: "lua_value list \<Rightarrow> uint8 list \<Rightarrow> bool" where
  "cmsgpack_pack vs bs \<longleftrightarrow> (\<exists>hdr es. encodes_array (word_of_nat (length vs)) hdr \<and> list_all2 cmsgpack_value vs es \<and> bs = hdr @ concat es)"

lemma int32_integer: "encodes_int32 i bs \<Longrightarrow> encodes_integer i bs"
  by (auto simp: encodes_int32_def encodes_integer_def ob_integer32_def split: if_splits)

lemma cmsgpack_int: "cmsgpack_value (Lua_int i) bs \<Longrightarrow> encodes_integer i bs"
  by (auto simp: cmsgpack_value_def int32_integer split: if_splits)

lemma cmsgpack_int32: "cmsgpack_value (Lua_int (sint (x :: uint32))) bs \<Longrightarrow> encodes_int32 (sint x) bs"
  using sint_bounds(3,7) [of x] by (simp add: cmsgpack_value_def split: if_splits)

lemma cmsgpack_string: "cmsgpack_value (Lua_string s) bs \<Longrightarrow> encodes_str s bs"
  by (simp add: cmsgpack_value_def)

lemma str_bytes_drop: "str_bytes m (fst s + k, snd s - k) = drop k (str_bytes m s)"
  by (cases "k \<le> snd s") (simp_all add: str_bytes_def drop_map)

lemma chop_max_msgs:
  assumes "str_bytes m s = c_str ''max_msgs+'' @ t" "t \<noteq> []"
  shows "ngx_str_chop_if_startswith m s ''max_msgs+'' = (True, (fst s + 9, snd s - 9))" "str_bytes m (fst s + 9, snd s - 9) = t"
  using str_bytes_drop [of m s 9] assms(2) by (cases t; simp add: ngx_str_chop_if_startswith_def assms(1) c_str_def)+

lemma chop_msg:
  assumes "str_bytes m s = c_str ''msg''"
  shows "ngx_str_chop_if_startswith m s ''max_msgs+'' = (False, s)" "ngx_str_chop_if_startswith m s ''ch+'' = (False, s)"
    "ngx_strmatch m s ''msg''"
  by (simp_all add: ngx_str_chop_if_startswith_def ngx_strmatch_def assms c_str_def)

lemma chop_msgkey:
  assumes "str_bytes m s = c_str ''msgkey''"
  shows "ngx_str_chop_if_startswith m s ''max_msgs+'' = (False, s)" "ngx_str_chop_if_startswith m s ''ch+'' = (False, s)"
    "\<not> ngx_strmatch m s ''msg''" "ngx_strmatch m s ''msgkey''"
  by (simp_all add: ngx_str_chop_if_startswith_def ngx_strmatch_def assms c_str_def)

lemma callback_msg_packed:
  assumes "reads_from (re_mem e) (concat es @ rest) cmp" "packs_msg r es" "0 \<le> sint (pm_ttl r)" "msg_memory (re_pb e) (re_msg e)"
    "9 + changed \<le> unat array_sz"
  obtains msg where "callback_msg e array_sz changed True ch cmp = Some [Publish_msg ch msg]" "represents (re_mem e) (re_now e) r msg"
  using cmp_to_msg_packed [OF assms(1-4), of "re_now e" "re_garbage e"] assms(5) that
  by (auto simp: decoded_def callback_msg_def)

lemma cmp_to_str_parts:
  assumes "cmp_to_str cmp = (Some str, cmp')"
  obtains sz c where "cmp_read_str_size cmp = (Some sz, c)" "fwd_buf_to_str (cx_buf c) (unat sz) = (str, cx_buf cmp')" "cmp' = c\<lparr>cx_buf := cx_buf cmp'\<rparr>"
  using assms by (auto simp: cmp_to_str_def cmp_bind_def cmp_return_def split: prod.splits option.splits)

lemma reads_from_reply: "str_bytes m el = bs \<Longrightarrow> reads_from m bs (reply_cmp m (fst el) (snd el))"
  using reading_reply [of m "fst el" "snd el" bs] by (auto simp: reads_from_def)

lemma callback_packed_typed:
  assumes rd: "reads_from (re_mem e) (hdr @ ty @ xs) (reply_cmp (re_mem e) (fst el) (snd el))" and hdr: "encodes_array n hdr" and n: "n \<noteq> 0"
    and ty: "encodes_str t ty"
  obtains ty' cmp where "str_bytes (re_mem e) ty' = t" "reads_from (re_mem e) xs cmp"
    "callback_packed e (Some ch) el =
       (let (max_msgs, msg_type) = ngx_str_chop_if_startswith (re_mem e) ty' ''max_msgs+'';
            (msgbuf_size, cmp) = (if max_msgs then cmp_read_integer cmp else (None, cmp))
        in callback_typed e (Some ch) n msg_type msgbuf_size cmp)"
proof -
  let ?m = "re_mem e"
  obtain c1 where c1: "cmp_read_array (reply_cmp ?m (fst el) (snd el)) = (Some n, c1)" "reads_from ?m (ty @ xs) c1"
    by (rule reads_from_parses [OF ngx_reader.parses_array rd hdr])
  obtain ty' c2 where c2: "cmp_to_str c1 = (Some ty', c2)" "reads_from ?m xs c2" "str_bytes ?m ty' = t"
    by (rule reads_from_str [OF c1(2) ty])
  obtain sz c3 where c3: "cmp_read_str_size c1 = (Some sz, c3)" "fwd_buf_to_str (cx_buf c3) (unat sz) = (ty', cx_buf c2)" "c2 = c3\<lparr>cx_buf := cx_buf c2\<rparr>"
    by (rule cmp_to_str_parts [OF c2(1)])
  show ?thesis
    by (rule that [OF c2(3,2)]) (simp add: callback_packed_def c1(1) n c3(1,2) c3(3) [symmetric])
qed

lemma small_word: "\<lbrakk>0 < k; k < 2 ^ 32\<rbrakk> \<Longrightarrow> word_of_nat k \<noteq> (0 :: uint32)"
  by (simp add: word_of_nat_eq_0_iff nat_dvd_not_less)

text \<open>After the type and the size of the buffer, the fields are left to read.\<close>

definition changed :: "uint64 option \<Rightarrow> nat" where
  "changed buffer_size = (if buffer_size = None then 0 else 1)"

lemma callback_packed_fields:
  assumes el: "str_bytes (re_mem e) el = bs"
    and bs: "cmsgpack_pack (case buffer_size of None \<Rightarrow> Lua_string t # vs | Some n \<Rightarrow> Lua_string (c_str ''max_msgs+'' @ t) # Lua_int (sint n) # vs) bs"
    and t: "t \<in> {c_str ''msg'', c_str ''msgkey''}" and n: "length vs \<le> 9"
  obtains ty cmp es where "str_bytes (re_mem e) ty = t" "list_all2 cmsgpack_value vs es" "reads_from (re_mem e) (concat es) cmp"
    "callback_packed e (Some ch) el = callback_typed e (Some ch) (word_of_nat (1 + changed buffer_size + length vs)) ty buffer_size cmp"
proof -
  let ?m = "re_mem e"
  have ne: "t \<noteq> []" using t by (auto simp: c_str_def)
  show ?thesis
  proof (cases buffer_size)
    case None
    obtain hdr x es where b: "bs = hdr @ x @ concat es" "encodes_array (word_of_nat (Suc (length vs))) hdr" "encodes_str t x" "list_all2 cmsgpack_value vs es"
      using bs None by (auto simp: cmsgpack_pack_def list_all2_Cons1 dest: cmsgpack_string)
    have rd: "reads_from ?m (hdr @ x @ concat es) (reply_cmp ?m (fst el) (snd el))" using reads_from_reply [OF el] b(1) by simp
    have nz: "word_of_nat (Suc (length vs)) \<noteq> (0 :: uint32)" by (rule small_word) (use n in simp_all)
    obtain ty c where c: "str_bytes ?m ty = t" "reads_from ?m (concat es) c" and
      eq: "callback_packed e (Some ch) el = (let (max_msgs, msg_type) = ngx_str_chop_if_startswith ?m ty ''max_msgs+'';
            (msgbuf_size, cmp) = (if max_msgs then cmp_read_integer c else (None, c)) in callback_typed e (Some ch) (word_of_nat (Suc (length vs))) msg_type msgbuf_size cmp)"
      by (rule callback_packed_typed [OF rd b(2) nz b(3)])
    have "ngx_str_chop_if_startswith ?m ty ''max_msgs+'' = (False, ty)" using t c(1) chop_msg(1) [of ?m ty] chop_msgkey(1) [of ?m ty] by auto
    then show ?thesis using that [OF c(1) b(4) c(2)] None by (simp add: eq changed_def)
  next
    case (Some k)
    obtain hdr x y es where b: "bs = hdr @ x @ y @ concat es" "encodes_array (word_of_nat (Suc (Suc (length vs)))) hdr"
        "encodes_str (c_str ''max_msgs+'' @ t) x" "encodes_integer (sint k) y" "list_all2 cmsgpack_value vs es"
      using bs Some by (auto simp: cmsgpack_pack_def list_all2_Cons1 dest!: cmsgpack_string cmsgpack_int)
    have rd: "reads_from ?m (hdr @ x @ y @ concat es) (reply_cmp ?m (fst el) (snd el))" using reads_from_reply [OF el] b(1) by simp
    have nz: "word_of_nat (Suc (Suc (length vs))) \<noteq> (0 :: uint32)" by (rule small_word) (use n in simp_all)
    obtain ty c where c: "str_bytes ?m ty = c_str ''max_msgs+'' @ t" "reads_from ?m (y @ concat es) c" and
      eq: "callback_packed e (Some ch) el = (let (max_msgs, msg_type) = ngx_str_chop_if_startswith ?m ty ''max_msgs+'';
            (msgbuf_size, cmp) = (if max_msgs then cmp_read_integer c else (None, c)) in callback_typed e (Some ch) (word_of_nat (Suc (Suc (length vs)))) msg_type msgbuf_size cmp)"
      by (rule callback_packed_typed [OF rd b(2) nz b(3)])
    obtain c' where c': "cmp_read_integer c = (Some k, c')" "reads_from ?m (concat es) c'"
      by (rule reads_from_parses [OF ngx_reader.parses_integer c(2) b(4)])
    show ?thesis using that [OF chop_max_msgs(2) [OF c(1) ne] b(5) c'(2)] Some by (simp add: eq chop_max_msgs(1) [OF c(1) ne] c'(1) changed_def)
  qed
qed

definition size_notices :: "ngx_str \<Rightarrow> uint64 option \<Rightarrow> rd_action list" where
  "size_notices ch buffer_size = (case buffer_size of None \<Rightarrow> [] | Some n \<Rightarrow> [Get_chanhead ch, Notice_buffer_size ch n])"

lemma callback_packed_whole:
  assumes el: "str_bytes (re_mem e) el = bs" and bs: "cmsgpack_pack (publish_unpacked cutoff unbuffered buffer_size ns chid r) bs"
    and whole: "sent_whole cutoff unbuffered r" and ttl: "0 \<le> sint (pm_ttl r)"
    and mem: "msg_memory (re_pb e) (re_msg e)" and ch: "re_find_chanhead e (str_bytes (re_mem e) ch)" "re_get_chanhead e (str_bytes (re_mem e) ch)"
  obtains msg where "represents (re_mem e) (re_now e) (sent_msg unbuffered r) msg"
    "callback_packed e (Some ch) el = Some (size_notices ch buffer_size @ [Publish_msg ch msg])"
proof -
  let ?vs = "[Lua_int (sint (pm_ttl r)), Lua_int (uint (pm_time r)), Lua_int (uint (pm_tag r)),
      Lua_int (uint (pm_prev_time (sent_msg unbuffered r))), Lua_int (uint (pm_prev_tag (sent_msg unbuffered r))),
      Lua_string (pm_data r), Lua_string (pm_content_type r), Lua_string (pm_eventsource_event r), Lua_int (sint (pm_compression r))]"
  have bs': "cmsgpack_pack (case buffer_size of None \<Rightarrow> Lua_string (c_str ''msg'') # ?vs
      | Some n \<Rightarrow> Lua_string (c_str ''max_msgs+'' @ c_str ''msg'') # Lua_int (sint n) # ?vs) bs"
    using bs whole by (simp add: publish_unpacked_def)
  obtain ty cmp es where c: "str_bytes (re_mem e) ty = c_str ''msg''" "list_all2 cmsgpack_value ?vs es" "reads_from (re_mem e) (concat es) cmp"
    "callback_packed e (Some ch) el = callback_typed e (Some ch) (word_of_nat (1 + changed buffer_size + length ?vs)) ty buffer_size cmp"
    by (rule callback_packed_fields [OF el bs']) simp_all
  have "pm_ttl (sent_msg unbuffered r) = pm_ttl r" "packs_msg (sent_msg unbuffered r) es"
    using c(2) by (auto simp: packs_msg_def sent_msg_def list_all2_Cons1 dest!: cmsgpack_string cmsgpack_int32 dest: cmsgpack_int)
  moreover have "9 + changed buffer_size \<le> unat (word_of_nat (1 + changed buffer_size + length ?vs) :: uint32)"
    by (cases buffer_size) (simp_all add: changed_def)
  ultimately obtain msg where m: "callback_msg e (word_of_nat (1 + changed buffer_size + length ?vs)) (changed buffer_size) True ch cmp = Some [Publish_msg ch msg]"
      "represents (re_mem e) (re_now e) (sent_msg unbuffered r) msg"
    using callback_msg_packed [of e es "[]" cmp "sent_msg unbuffered r" "changed buffer_size" "word_of_nat (1 + changed buffer_size + length ?vs)" ch] c(3) ttl mem
    by (metis append_Nil2)
  show ?thesis
    by (rule that [OF m(2)]) (use m(1) ch in \<open>cases buffer_size; simp add: c(4) callback_typed_def chop_msg [OF c(1)] find_chanhead_def get_chanhead_def
      changed_def size_notices_def\<close>)
qed

lemma callback_packed_key:
  assumes el: "str_bytes (re_mem e) el = bs" and bs: "cmsgpack_pack (publish_unpacked cutoff unbuffered buffer_size ns chid r) bs"
    and whole: "\<not> sent_whole cutoff unbuffered r"
    and mem: "msg_memory (re_pb e) (re_msg e)" and ch: "re_find_chanhead e (str_bytes (re_mem e) ch)" "re_get_chanhead e (str_bytes (re_mem e) ch)"
  obtains msgid key where "single_id (pm_time r) (pm_tag r) msgid" "str_bytes (re_mem e) key = msg_key ns chid r"
    "callback_packed e (Some ch) el = Some (size_notices ch buffer_size @ [Get_msg_from_msgkey ch msgid key])"
proof -
  let ?vs = "[Lua_int (uint (pm_time r)), Lua_int (uint (pm_tag r)), Lua_string (msg_key ns chid r)]"
  have bs': "cmsgpack_pack (case buffer_size of None \<Rightarrow> Lua_string (c_str ''msgkey'') # ?vs
      | Some n \<Rightarrow> Lua_string (c_str ''max_msgs+'' @ c_str ''msgkey'') # Lua_int (sint n) # ?vs) bs"
    using bs whole by (simp add: publish_unpacked_def)
  obtain ty cmp es where c: "str_bytes (re_mem e) ty = c_str ''msgkey''" "list_all2 cmsgpack_value ?vs es" "reads_from (re_mem e) (concat es) cmp"
    "callback_packed e (Some ch) el = callback_typed e (Some ch) (word_of_nat (1 + changed buffer_size + length ?vs)) ty buffer_size cmp"
    by (rule callback_packed_fields [OF el bs']) simp_all
  obtain e1 e2 e3 where es: "es = [e1, e2, e3]" "encodes_integer (uint (pm_time r)) e1" "encodes_integer (uint (pm_tag r)) e2" "encodes_str (msg_key ns chid r) e3"
    using c(2) by (auto simp: list_all2_Cons1 dest!: cmsgpack_string dest: cmsgpack_int)
  have r1: "reads_from (re_mem e) (e1 @ e2 @ e3 @ []) cmp" using c(3) es(1) by simp
  obtain c1 where c1: "cmp_read_uinteger cmp = (Some (pm_time r), c1)" "reads_from (re_mem e) (e2 @ e3 @ []) c1"
    by (rule reads_from_parses [OF ngx_reader.parses_uinteger r1 es(2)])
  obtain c2 where c2: "cmp_read_uinteger c1 = (Some (pm_tag r), c2)" "reads_from (re_mem e) (e3 @ []) c2"
    by (rule reads_from_parses [OF ngx_reader.parses_uinteger c1(2) es(3)])
  obtain key c3 where c3: "cmp_to_str c2 = (Some key, c3)" "str_bytes (re_mem e) key = msg_key ns chid r"
    by (rule reads_from_str [OF c2(2) es(4)])
  let ?id = "set_single_tag (re_pb e) (pm_tag r) ((rm_id (re_msg e))\<lparr>time := sint (pm_time r)\<rparr>)"
  have "single_id (pm_time r) (pm_tag r) ?id" using mem by (intro single_idI) (simp add: msg_memory_def)
  then show ?thesis
    by (rule that [OF _ c3(2)]) (use ch in \<open>cases buffer_size; simp add: c(4) callback_typed_def chop_msgkey [OF c(1)] find_chanhead_def get_chanhead_def
      changed_def size_notices_def callback_msgkey_def c1(1) c2(1) c3(1)\<close>)
qed

text \<open>The name of the PUBSUB channel of a channel, and the worker's own name, which begins as rdsstore.c makes it.\<close>

definition pubsub_name :: "uint8 list \<Rightarrow> uint8 list \<Rightarrow> uint8 list" where
  "pubsub_name ns chid = ns @ c_str ''{channel:'' @ chid @ c_str ''}:pubsub''"

definition worker_name :: "uint8 list \<Rightarrow> bool" where
  "worker_name wid \<longleftrightarrow> take 14 wid = c_str ''nchan_worker:{''"

lemma length_str_bytes [simp]: "length (str_bytes m s) = snd s"
  by (simp add: str_bytes_def)

lemma str_bytes_part: "a + n \<le> snd s \<Longrightarrow> str_bytes m (fst s + a, n) = take n (drop a (str_bytes m s))"
  by (simp add: str_bytes_def drop_map take_map add.assoc)

lemma pubsub_name_id:
  assumes s: "str_bytes m s = pubsub_name ns chid" and w: "worker_name wid" and len: "snd s < 2 ^ 64"
  obtains ch where "get_channel_id_from_pubsub_channel m wid s ns = Some ch" "str_bytes m ch = chid"
    "\<not> str_match_redis_subscriber_channel m wid s ns"
proof -
  have l: "snd s = length ns + length chid + 17" using arg_cong [OF s, of length] by (simp add: pubsub_name_def c_str_def)
  have "str_bytes m (fst s + length ns, snd s - length ns) = drop (length ns) (str_bytes m s)"
    using str_bytes_part [of "length ns" "snd s - length ns" s m] l by simp
  then have rest: "str_bytes m (fst s + length ns, snd s - length ns) = c_str ''{channel:'' @ chid @ c_str ''}:pubsub''" by (simp add: s pubsub_name_def)
  obtain d where wid: "wid = of_char (CHR ''n'') # d" using w by (cases wid) (auto simp: worker_name_def c_str_def)
  have no: "\<not> str_match_redis_subscriber_channel m wid s ns"
    unfolding str_match_redis_subscriber_channel_def rest by (simp add: wid c_str_def)
  have "nat ((int (snd s) - int (length ns) - 17) mod 2 ^ 64) = length chid" using l len by (simp add: mod_pos_pos_trivial)
  then have "get_channel_id_from_pubsub_channel m wid s ns = Some (fst s + (length ns + 9), length chid)"
    using no by (simp add: get_channel_id_from_pubsub_channel_def add.assoc)
  moreover have "str_bytes m (fst s + (length ns + 9), length chid) = chid"
    using str_bytes_part [of "length ns + 9" "length chid" s m] l by (simp add: s pubsub_name_def c_str_def)
  ultimately show ?thesis using that no by blast
qed

lemma strval_bytes: "str_bytes m s = c_str v \<Longrightarrow> 0 \<notin> set (c_str v) \<Longrightarrow> check_reply_strval m (Reply_string s) v"
  by (simp add: takeWhile_eq_all_conv) (metis takeWhile_eq_all_conv)

lemma callback_message:
  assumes s0: "str_bytes (re_mem e) s0 \<in> {c_str ''message'', c_str ''smessage''}" and s1: "str_bytes (re_mem e) s1 = pubsub_name (re_namespace e) chid"
    and worker: "worker_name (re_worker_id e)" and len: "snd s1 < 2 ^ 64"
  obtains ch where "str_bytes (re_mem e) ch = chid"
    "redis_subscriber_callback e (Some (Reply_array [Reply_string s0, Reply_string s1, Reply_string s2])) = callback_packed e (Some ch) s2"
proof -
  obtain ch where ch: "get_channel_id_from_pubsub_channel (re_mem e) (re_worker_id e) s1 (re_namespace e) = Some ch" "str_bytes (re_mem e) ch = chid"
    "\<not> str_match_redis_subscriber_channel (re_mem e) (re_worker_id e) s1 (re_namespace e)"
    by (rule pubsub_name_id [OF s1 worker len])
  have "check_reply_strval (re_mem e) (Reply_string s0) ''message'' \<or> check_reply_strval (re_mem e) (Reply_string s0) ''smessage''"
    using s0 strval_bytes [of "re_mem e" s0 "''message''"] strval_bytes [of "re_mem e" s0 "''smessage''"] by (auto simp: c_str_def simp del: check_reply_strval.simps)
  then show ?thesis using that ch by (simp add: redis_subscriber_callback_def del: check_reply_strval.simps)
qed

text \<open>
  C8 What publish.lua publishes on the PUBSUB channel of a message, sharded or not, reaches exactly that channel of the store.
  A message that is sent whole is published there: its id, the id of the message before it, its data, content type and event,
  when it expires and how it is compressed.  Of a longer message that is stored in Redis, the key is sent, and the store asks for
  the message of that id under exactly that key.  A new size of the channel's buffer that comes with it is announced first.
  The packer is required to use the shortest encodings of integers: a time to live in 64 bits would be refused.
\<close>

theorem published_reaches_channel:
  assumes s0: "str_bytes (re_mem e) s0 \<in> {c_str ''message'', c_str ''smessage''}" and s1: "str_bytes (re_mem e) s1 = pubsub_name (re_namespace e) chid"
    and s2: "cmsgpack_pack (publish_unpacked cutoff unbuffered buffer_size (re_namespace e) chid r) (str_bytes (re_mem e) s2)"
    and worker: "worker_name (re_worker_id e)" and len: "snd s1 < 2 ^ 64"
    and ttl: "0 \<le> sint (pm_ttl r)" and mem: "msg_memory (re_pb e) (re_msg e)" and known: "re_find_chanhead e chid" "re_get_chanhead e chid"
  shows "\<exists>ch act. redis_subscriber_callback e (Some (Reply_array [Reply_string s0, Reply_string s1, Reply_string s2])) =
      Some ((case buffer_size of None \<Rightarrow> [] | Some n \<Rightarrow> [Get_chanhead ch, Notice_buffer_size ch n]) @ [act]) \<and>
    str_bytes (re_mem e) ch = chid \<and>
    (if unbuffered \<or> length (pm_data r) < cutoff
     then \<exists>msg. act = Publish_msg ch msg \<and> represents (re_mem e) (re_now e) (sent_msg unbuffered r) msg
     else \<exists>msgid key. act = Get_msg_from_msgkey ch msgid key \<and> single_id (pm_time r) (pm_tag r) msgid \<and>
       str_bytes (re_mem e) key = msg_key (re_namespace e) chid r)"
proof -
  obtain ch where ch: "str_bytes (re_mem e) ch = chid" and
    eq: "redis_subscriber_callback e (Some (Reply_array [Reply_string s0, Reply_string s1, Reply_string s2])) = callback_packed e (Some ch) s2"
    by (rule callback_message [OF s0 s1 worker len])
  have k: "re_find_chanhead e (str_bytes (re_mem e) ch)" "re_get_chanhead e (str_bytes (re_mem e) ch)" using known by (simp_all add: ch)
  show ?thesis
  proof (cases "sent_whole cutoff unbuffered r")
    case True
    obtain msg where "represents (re_mem e) (re_now e) (sent_msg unbuffered r) msg"
      "callback_packed e (Some ch) s2 = Some (size_notices ch buffer_size @ [Publish_msg ch msg])"
      by (rule callback_packed_whole [OF refl s2 True ttl mem k])
    with True ch show ?thesis unfolding eq sent_whole_def size_notices_def by (intro exI [of _ ch] exI [of _ "Publish_msg ch msg"]) simp
  next
    case False
    obtain msgid key where "single_id (pm_time r) (pm_tag r) msgid" "str_bytes (re_mem e) key = msg_key (re_namespace e) chid r"
      "callback_packed e (Some ch) s2 = Some (size_notices ch buffer_size @ [Get_msg_from_msgkey ch msgid key])"
      by (rule callback_packed_key [OF refl s2 False mem k])
    with False ch show ?thesis unfolding eq sent_whole_def size_notices_def
      by (intro exI [of _ ch] exI [of _ "Get_msg_from_msgkey ch msgid key"]) simp
  qed
qed

text \<open>
  C39 A message of fewer than nine elements that anyone publishes on the channel of a message ends the worker: the handler
  asserts the number of elements.
\<close>

theorem short_message_aborts:
  assumes s0: "str_bytes (re_mem e) s0 \<in> {c_str ''message'', c_str ''smessage''}" and s1: "str_bytes (re_mem e) s1 = pubsub_name (re_namespace e) chid"
    and s2: "str_bytes (re_mem e) s2 = hdr @ ty @ rest" "encodes_array n hdr" "encodes_str (c_str ''msg'') ty" and n: "0 < n" "n < 9"
    and worker: "worker_name (re_worker_id e)" and len: "snd s1 < 2 ^ 64"
  shows "redis_subscriber_callback e (Some (Reply_array [Reply_string s0, Reply_string s1, Reply_string s2])) = None"
proof -
  obtain ch where eq: "redis_subscriber_callback e (Some (Reply_array [Reply_string s0, Reply_string s1, Reply_string s2])) = callback_packed e (Some ch) s2"
    by (rule callback_message [OF s0 s1 worker len])
  have rd: "reads_from (re_mem e) (hdr @ ty @ rest) (reply_cmp (re_mem e) (fst s2) (snd s2))" by (rule reads_from_reply [OF s2(1)])
  obtain ty' c where "str_bytes (re_mem e) ty' = c_str ''msg''" and
    "callback_packed e (Some ch) s2 = (let (max_msgs, msg_type) = ngx_str_chop_if_startswith (re_mem e) ty' ''max_msgs+'';
            (msgbuf_size, cmp) = (if max_msgs then cmp_read_integer c else (None, c)) in callback_typed e (Some ch) n msg_type msgbuf_size cmp)"
    by (rule callback_packed_typed [OF rd s2(2) _ s2(3)]) (use n in simp_all)
  moreover have "\<not> 9 \<le> unat n" using n(2) by (simp add: word_less_nat_alt)
  ultimately show ?thesis unfolding eq by (simp add: callback_typed_def chop_msg find_chanhead_def callback_msg_def)
qed

subsection \<open>A sample reply\<close>

definition mem_of :: "uint8 list \<Rightarrow> nat \<Rightarrow> uint8" where
  "mem_of xs p = (if p < length xs then xs ! p else 0)"

definition packed_str :: "uint8 list \<Rightarrow> uint8 list" where
  "packed_str s = mp_bytes (object CMP_TYPE_FIXSTR (As_32 (of_nat (length s)))) @ s"

definition packed_uint :: "uint64 \<Rightarrow> uint8 list" where
  "packed_uint u = mp_bytes (uint_object u)"

definition sample_msg :: published where
  "sample_msg = \<lparr>pm_ttl = 60, pm_time = 1700000000, pm_tag = 1, pm_prev_time = 1699999999, pm_prev_tag = 0, pm_data = c_str ''hello'',
     pm_content_type = c_str ''text/plain'', pm_eventsource_event = [], pm_compression = 0\<rparr>"

definition sample_fields :: "uint8 list list" where
  "sample_fields = [packed_uint 60, packed_uint 1700000000, packed_uint 1, packed_uint 1699999999, packed_uint 0, packed_str (c_str ''hello''),
     packed_str (c_str ''text/plain''), packed_str [], packed_uint 0]"

definition sample_packed :: "uint8 list" where
  "sample_packed = mp_bytes (object CMP_TYPE_FIXARRAY (As_32 11)) @ packed_str (c_str ''max_msgs+msg'') @ packed_uint 20 @ concat sample_fields"

definition sample_reply :: "uint8 list" where
  "sample_reply = c_str ''message'' @ pubsub_name (c_str ''ns'') (c_str ''chat'') @ sample_packed"

definition sample_rd_env :: rd_env where
  "sample_rd_env = \<lparr>re_mem = mem_of sample_reply, re_pb = (\<lambda>_. [0, 0, 0, 0]), re_now = 1700000001, re_namespace = c_str ''ns'',
     re_worker_id = c_str ''nchan_worker:{1}'' @ [0], re_find_chanhead = (\<lambda>c. c = c_str ''chat''), re_get_chanhead = (\<lambda>_. True),
     re_pubsub_status = (\<lambda>_. REDIS_PUBSUB_SUBSCRIBED), re_garbage = 0, re_garbage64 = 0,
     re_msg = \<lparr>rm_expires = 0, rm_id = NCHAN_ZERO_MSGID, rm_prev_id = NCHAN_ZERO_MSGID, rm_buf = (0, 0), rm_content_type = None,
       rm_eventsource_event = None, rm_compressed = None\<rparr>\<rparr>"

lemma str_bytes_mem_of: "a + n \<le> length xs \<Longrightarrow> str_bytes (mem_of xs) (a, n) = take n (drop a xs)"
  by (auto simp: str_bytes_def mem_of_def intro!: nth_equalityI)

lemma packed_str_encodes: "length s \<le> 31 \<Longrightarrow> encodes_str s (packed_str s)"
proof -
  assume l: "length s \<le> 31"
  let ?n = "of_nat (length s) :: uint32"
  have u: "unat ?n = length s" using l by (simp add: unsigned_of_nat take_bit_nat_eq_self)
  then have "encodes_str_size ?n (mp_bytes (object CMP_TYPE_FIXSTR (As_32 ?n)))"
    using l unfolding encodes_str_size_def
    by (intro exI [of _ "object CMP_TYPE_FIXSTR (As_32 ?n)"]) (simp add: ob_valid_def is_data_iff members word_le_nat_alt)
  then show ?thesis using u by (auto simp: encodes_str_def packed_str_def)
qed

lemma packed_uint_encodes: "encodes_integer (uint u) (packed_uint u)"
  unfolding encodes_integer_def packed_uint_def using uint_object_valid uint_object_value by blast

lemma packed_uint_int32: "u \<le> 0xFFFFFFFF \<Longrightarrow> encodes_int32 (uint u) (packed_uint u)"
proof -
  assume "u \<le> 0xFFFFFFFF"
  then have "ob_type (uint_object u) \<notin> {CMP_TYPE_UINT64, CMP_TYPE_SINT64}" by (simp add: uint_object_def)
  then have "ob_integer32 (uint_object u) = Some (uint u)" using uint_object_value [of u] by (simp add: ob_integer32_def)
  then show ?thesis unfolding encodes_int32_def packed_uint_def using uint_object_valid by blast
qed

lemma packed_uint_cmsgpack: "cmsgpack_value (Lua_int (uint u)) (packed_uint u)"
  using packed_uint_int32 [of u] packed_uint_encodes [of u] by (auto simp: cmsgpack_value_def word_le_def)

lemma packed_str_cmsgpack: "length s \<le> 31 \<Longrightarrow> cmsgpack_value (Lua_string s) (packed_str s)"
  by (simp add: cmsgpack_value_def packed_str_encodes)

theorem published_reaches_channel_witness:
  "\<exists>ch msg. redis_subscriber_callback sample_rd_env (Some (Reply_array [Reply_string (0, 7), Reply_string (7, 23), Reply_string (30, length sample_packed)])) =
      Some [Get_chanhead ch, Notice_buffer_size ch 20, Publish_msg ch msg] \<and>
    str_bytes (mem_of sample_reply) ch = c_str ''chat'' \<and> represents (mem_of sample_reply) 1700000001 sample_msg msg"
proof -
  have e: "re_mem sample_rd_env = mem_of sample_reply" "re_namespace sample_rd_env = c_str ''ns''" "re_now sample_rd_env = 1700000001"
    by (simp_all add: sample_rd_env_def)
  have l: "length sample_reply = 30 + length sample_packed" by (simp add: sample_reply_def pubsub_name_def c_str_def)
  have s: "str_bytes (re_mem sample_rd_env) (0, 7) = c_str ''message''"
      "str_bytes (re_mem sample_rd_env) (7, 23) = pubsub_name (re_namespace sample_rd_env) (c_str ''chat'')"
      "str_bytes (re_mem sample_rd_env) (30, length sample_packed) = sample_packed"
    unfolding e using l by (simp_all add: str_bytes_mem_of) (simp_all add: sample_reply_def pubsub_name_def c_str_def)
  let ?vs = "publish_unpacked 512 False (Some 20) (c_str ''ns'') (c_str ''chat'') sample_msg"
  have vs: "?vs = [Lua_string (c_str ''max_msgs+msg''), Lua_int (uint (20 :: uint64)), Lua_int (uint (60 :: uint64)), Lua_int (uint (1700000000 :: uint64)),
      Lua_int (uint (1 :: uint64)), Lua_int (uint (1699999999 :: uint64)), Lua_int (uint (0 :: uint64)), Lua_string (c_str ''hello''),
      Lua_string (c_str ''text/plain''), Lua_string [], Lua_int (uint (0 :: uint64))]"
    by (simp add: publish_unpacked_def sent_whole_def sent_msg_def sample_msg_def c_str_def)
  have "list_all2 cmsgpack_value ?vs (packed_str (c_str ''max_msgs+msg'') # packed_uint 20 # sample_fields)"
    unfolding vs sample_fields_def list_all2_Cons list_all2_Nil by (intro conjI packed_uint_cmsgpack packed_str_cmsgpack) (simp_all add: c_str_def)
  moreover have "encodes_array 11 (mp_bytes (object CMP_TYPE_FIXARRAY (As_32 11)))"
    unfolding encodes_array_def by (intro exI [of _ "object CMP_TYPE_FIXARRAY (As_32 11)"]) (simp add: ob_valid_def is_data_iff members)
  ultimately have "cmsgpack_pack ?vs sample_packed"
    unfolding cmsgpack_pack_def
    by (intro exI [of _ "mp_bytes (object CMP_TYPE_FIXARRAY (As_32 11))"] exI [of _ "packed_str (c_str ''max_msgs+msg'') # packed_uint 20 # sample_fields"])
      (simp add: vs sample_packed_def)
  then have packed: "cmsgpack_pack (publish_unpacked 512 False (Some 20) (re_namespace sample_rd_env) (c_str ''chat'') sample_msg)
      (str_bytes (re_mem sample_rd_env) (30, length sample_packed))" by (simp only: s(3) e(2))
  have h: "worker_name (re_worker_id sample_rd_env)" "snd (7 :: nat, 23 :: nat) < 2 ^ 64" "0 \<le> sint (pm_ttl sample_msg)"
      "msg_memory (re_pb sample_rd_env) (re_msg sample_rd_env)" "re_find_chanhead sample_rd_env (c_str ''chat'')" "re_get_chanhead sample_rd_env (c_str ''chat'')"
    by (simp_all add: sample_rd_env_def sample_msg_def worker_name_def msg_memory_def fixed_view_def NCHAN_ZERO_MSGID_def NCHAN_FIXED_MULTITAG_MAX_def c_str_def)
  have short: "length (pm_data sample_msg) < 512" "sent_msg False sample_msg = sample_msg" by (simp_all add: sample_msg_def c_str_def sent_msg_def)
  show ?thesis
    using published_reaches_channel [OF _ s(2) packed h, of "(0, 7)"] s(1) short unfolding e by (auto simp del: split_paired_Ex)
qed

definition sample_short :: "uint8 list" where
  "sample_short = c_str ''message'' @ pubsub_name [] (c_str ''chat'') @ [0x91, 0xA3, 0x6D, 0x73, 0x67]"

theorem short_message_aborts_witness:
  "redis_subscriber_callback (sample_rd_env\<lparr>re_mem := mem_of sample_short, re_namespace := []\<rparr>)
     (Some (Reply_array [Reply_string (0, 7), Reply_string (7, 21), Reply_string (28, 5)])) = None"
proof -
  let ?e = "sample_rd_env\<lparr>re_mem := mem_of sample_short, re_namespace := []\<rparr>"
  let ?a = "object CMP_TYPE_FIXARRAY (As_32 1)"
  have s0: "str_bytes (re_mem ?e) (0, 7) \<in> {c_str ''message'', c_str ''smessage''}"
    by (simp add: str_bytes_mem_of sample_short_def c_str_def)
  have s: "str_bytes (re_mem ?e) (7, 21) = pubsub_name (re_namespace ?e) (c_str ''chat'')"
      "str_bytes (re_mem ?e) (28, 5) = mp_bytes ?a @ packed_str (c_str ''msg'') @ []"
    by (simp_all add: str_bytes_mem_of sample_short_def pubsub_name_def c_str_def packed_str_def mp_bytes_def members marker_defs)
  have "encodes_array 1 (mp_bytes ?a)" unfolding encodes_array_def by (intro exI [of _ ?a]) (simp add: ob_valid_def is_data_iff members)
  moreover have "encodes_str (c_str ''msg'') (packed_str (c_str ''msg''))" by (rule packed_str_encodes) (simp add: c_str_def)
  ultimately show ?thesis
    by (rule short_message_aborts [OF s0 s]) (simp_all add: sample_rd_env_def worker_name_def c_str_def)
qed

end
