(* ===== verification/Rbtree.thy ===== *)
theory Rbtree
  imports Nchan_Prelude "HOL-Library.Tree" "HOL-Library.Multiset"
begin

text \<open>
  \<^verbatim>\<open>util/nchan_rbtree.c\<close>: the trees in which groups, the spools of a channel and the key slots of a cluster are found.

  A node is found by a hash of the id of its data, nodes with the same hash by comparing ids.  The shape of the tree is a
  value of type \<open>addr tree\<close>, the nodes with their keys and data are a memory.  nginx's own functions keep the tree balanced:
  \<open>insert_fixup\<close> is what \<^verbatim>\<open>ngx_rbtree_insert\<close> does after the new node is in its place, \<open>delete_node\<close> is
  \<^verbatim>\<open>ngx_rbtree_delete\<close>.  What is relied upon of them is that they keep the order of the nodes (\<open>keeps_order\<close>).
  A callback takes the state it works on and returns it; callbacks that change the shape of the tree while it is walked
  are the reason for \<^verbatim>\<open>rbtree_walk_writesafe\<close>.
  The locale \<open>rb_order\<close> is what the tree relies on of the hash and the comparison: the latter need only be an interval
  order.
\<close>

record 'd rb_node =
  node_key :: uint32
  node_data :: 'd

type_synonym 'd rb_mem = "addr \<Rightarrow> 'd rb_node option"

record ('d, 'k) rb_fns =
  fn_id :: "'d \<Rightarrow> 'k"
  fn_hash :: "'k \<Rightarrow> uint32"
  fn_compare :: "'k \<Rightarrow> 'k \<Rightarrow> int option"

record rbtree_seed =
  rb_tree :: "addr tree"
  allocd_nodes :: uint64
  active_nodes :: uint64

record ngx_rbtree =
  insert_fixup :: "addr tree \<Rightarrow> addr tree"
  delete_node :: "addr \<Rightarrow> addr tree \<Rightarrow> addr tree"

definition keeps_order :: "ngx_rbtree \<Rightarrow> bool" where
  "keeps_order ngx \<longleftrightarrow> (\<forall>t. inorder (insert_fixup ngx t) = inorder t)
     \<and> (\<forall>t a. a \<in> set_tree t \<longrightarrow> inorder (delete_node ngx a t) = remove1 a (inorder t))"

datatype rbtree_walk_direction =
  RBTREE_WALK_LEFT | RBTREE_WALK_RIGHT | RBTREE_WALK_LEFT_RIGHT | RBTREE_WALK_STOP

subsection \<open>Operations, in the order of the source\<close>

fun rbtree_find_node_generic ::
  "('d, 'k) rb_fns \<Rightarrow> 'd rb_mem \<Rightarrow> 'k \<Rightarrow> uint32 \<Rightarrow> addr tree \<Rightarrow> ptr option" where
  "rbtree_find_node_generic f m i hash Leaf = Some None"
| "rbtree_find_node_generic f m i hash (Node l a r) = do {
     nd \<leftarrow> m a;
     if hash < node_key nd then rbtree_find_node_generic f m i hash l
     else if hash > node_key nd then rbtree_find_node_generic f m i hash r
     else do {
       rc \<leftarrow> fn_compare f i (fn_id f (node_data nd));
       if rc = 0 then Some (Some a)
       else if rc < 0 then rbtree_find_node_generic f m i hash l
       else rbtree_find_node_generic f m i hash r
     }
   }"

definition rbtree_find_node :: "('d, 'k) rb_fns \<Rightarrow> 'd rb_mem \<Rightarrow> rbtree_seed \<Rightarrow> 'k \<Rightarrow> ptr option" where
  "rbtree_find_node f m seed i = rbtree_find_node_generic f m i (fn_hash f i) (rb_tree seed)"

text \<open>The new node replaces the sentinel that the loop ends at.\<close>

fun rbtree_insert_generic ::
  "('d, 'k) rb_fns \<Rightarrow> 'd rb_mem \<Rightarrow> addr \<Rightarrow> addr tree \<Rightarrow> addr tree option" where
  "rbtree_insert_generic f m a Leaf = Some (Node Leaf a Leaf)"
| "rbtree_insert_generic f m a (Node l b r) = do {
     nd \<leftarrow> m a;
     tmp \<leftarrow> m b;
     left \<leftarrow> (if node_key nd \<noteq> node_key tmp then Some (node_key nd < node_key tmp)
              else do {
                rc \<leftarrow> fn_compare f (fn_id f (node_data nd)) (fn_id f (node_data tmp));
                Some (rc < 0)
              });
     if left then do { l \<leftarrow> rbtree_insert_generic f m a l; Some (Node l b r) }
     else do { r \<leftarrow> rbtree_insert_generic f m a r; Some (Node l b r) }
   }"

text \<open>The data of a new node is not initialised: \<open>d\<close> is what the memory holds.\<close>

definition rbtree_create_node ::
  "'d \<Rightarrow> ptr \<Rightarrow> 'd rb_mem \<Rightarrow> rbtree_seed \<Rightarrow> ptr \<times> 'd rb_mem \<times> rbtree_seed" where
  "rbtree_create_node d alloc m seed =
     (case alloc of
        None \<Rightarrow> (None, m, seed)
      | Some a \<Rightarrow> (Some a, m(a \<mapsto> \<lparr>node_key = 0, node_data = d\<rparr>), seed\<lparr>allocd_nodes := allocd_nodes seed + 1\<rparr>))"

definition rbtree_destroy_node :: "addr \<Rightarrow> 'd rb_mem \<Rightarrow> rbtree_seed \<Rightarrow> ('d rb_mem \<times> rbtree_seed) option" where
  "rbtree_destroy_node a m seed = do {
     c_assert (m a \<noteq> None);
     Some (m(a := None), seed\<lparr>allocd_nodes := allocd_nodes seed - 1\<rparr>)
   }"

definition rbtree_insert_node ::
  "ngx_rbtree \<Rightarrow> ('d, 'k) rb_fns \<Rightarrow> addr \<Rightarrow> 'd rb_mem \<Rightarrow> rbtree_seed \<Rightarrow> ('d rb_mem \<times> rbtree_seed) option" where
  "rbtree_insert_node ngx f a m seed = do {
     nd \<leftarrow> m a;
     let m = m(a \<mapsto> nd\<lparr>node_key := fn_hash f (fn_id f (node_data nd))\<rparr>);
     t \<leftarrow> rbtree_insert_generic f m a (rb_tree seed);
     Some (m, seed\<lparr>rb_tree := insert_fixup ngx t, active_nodes := active_nodes seed + 1\<rparr>)
   }"

definition rbtree_remove_node :: "ngx_rbtree \<Rightarrow> addr \<Rightarrow> rbtree_seed \<Rightarrow> rbtree_seed option" where
  "rbtree_remove_node ngx a seed = do {
     c_assert (a \<in> set_tree (rb_tree seed));
     Some (seed\<lparr>rb_tree := delete_node ngx a (rb_tree seed), active_nodes := active_nodes seed - 1\<rparr>)
   }"

type_synonym 's rb_callback = "addr \<Rightarrow> 's \<Rightarrow> 's option"

fun rbtree_walk_real :: "'s rb_callback \<Rightarrow> addr tree \<Rightarrow> 's \<Rightarrow> 's option" where
  "rbtree_walk_real cb Leaf s = Some s"
| "rbtree_walk_real cb (Node l a r) s = do {
     s \<leftarrow> rbtree_walk_real cb l s;
     s \<leftarrow> rbtree_walk_real cb r s;
     cb a s
   }"

definition rbtree_walk_ordered_incr_real :: "'s rb_callback \<Rightarrow> addr tree \<Rightarrow> 's \<Rightarrow> 's option" where
  "rbtree_walk_ordered_incr_real cb t s =
     (case t of
        Leaf \<Rightarrow> Some s
      | Node l a r \<Rightarrow> do {
          s \<leftarrow> rbtree_walk_real cb l s;
          s \<leftarrow> cb a s;
          rbtree_walk_real cb r s
        })"

definition rbtree_walk_ordered_decr_real :: "'s rb_callback \<Rightarrow> addr tree \<Rightarrow> 's \<Rightarrow> 's option" where
  "rbtree_walk_ordered_decr_real cb t s =
     (case t of
        Leaf \<Rightarrow> Some s
      | Node l a r \<Rightarrow> do {
          s \<leftarrow> rbtree_walk_real cb r s;
          s \<leftarrow> cb a s;
          rbtree_walk_real cb l s
        })"

definition rbtree_walk :: "rbtree_seed \<Rightarrow> 's rb_callback \<Rightarrow> 's \<Rightarrow> (ngx_rc \<times> 's) option" where
  "rbtree_walk seed cb s = do { s \<leftarrow> rbtree_walk_real cb (rb_tree seed) s; Some (NGX_OK, s) }"

definition rbtree_walk_incr :: "rbtree_seed \<Rightarrow> 's rb_callback \<Rightarrow> 's \<Rightarrow> (ngx_rc \<times> 's) option" where
  "rbtree_walk_incr seed cb s = do { s \<leftarrow> rbtree_walk_ordered_incr_real cb (rb_tree seed) s; Some (NGX_OK, s) }"

definition rbtree_walk_decr :: "rbtree_seed \<Rightarrow> 's rb_callback \<Rightarrow> 's \<Rightarrow> (ngx_rc \<times> 's) option" where
  "rbtree_walk_decr seed cb s = do { s \<leftarrow> rbtree_walk_ordered_decr_real cb (rb_tree seed) s; Some (NGX_OK, s) }"

text \<open>
  \<^verbatim>\<open>rbtree_walk_writesafe\<close> first collects the nodes that \<open>incl\<close> chooses, in an array of 32 elements or in an allocated one
  with an element for each active node; \<open>cap\<close> is its length.
\<close>

definition rbtree_walk_writesafe_callback ::
  "nat \<Rightarrow> (addr \<Rightarrow> 's \<Rightarrow> (bool \<times> 's) option) \<Rightarrow> (addr list \<times> 's) rb_callback" where
  "rbtree_walk_writesafe_callback cap incl a d = (case d of (els, s) \<Rightarrow> do {
     (yes, s) \<leftarrow> incl a s;
     if yes then do { c_assert (length els < cap); Some (els @ [a], s) } else Some (els, s)
   })"

fun visit :: "'s rb_callback \<Rightarrow> addr list \<Rightarrow> 's \<Rightarrow> 's option" where
  "visit cb [] s = Some s"
| "visit cb (a # as) s = do { s \<leftarrow> cb a s; visit cb as s }"

definition rbtree_walk_writesafe ::
  "bool \<Rightarrow> rbtree_seed \<Rightarrow> (addr \<Rightarrow> 's \<Rightarrow> (bool \<times> 's) option) \<Rightarrow> 's rb_callback \<Rightarrow> 's \<Rightarrow> (ngx_rc \<times> 's) option" where
  "rbtree_walk_writesafe alloc_ok seed incl cb s = do {
     let cap = (if active_nodes seed > 32 then if alloc_ok then unat (active_nodes seed) else 0 else 32);
     (rc, els, s) \<leftarrow> rbtree_walk seed (rbtree_walk_writesafe_callback cap incl) ([], s);
     s \<leftarrow> visit cb els s;
     Some (NGX_OK, s)
   }"

text \<open>\<^verbatim>\<open>rbtree_empty\<close>: the fuel bounds the number of rounds; running out of it is \<open>None\<close>.\<close>

fun rbtree_empty ::
  "nat \<Rightarrow> ngx_rbtree \<Rightarrow> 's rb_callback option \<Rightarrow> nat \<Rightarrow> 'd rb_mem \<Rightarrow> rbtree_seed \<Rightarrow> 's
     \<Rightarrow> (nat \<times> 'd rb_mem \<times> rbtree_seed \<times> 's) option" where
  "rbtree_empty fuel ngx cb n m seed s =
     (case rb_tree seed of
        Leaf \<Rightarrow> Some (n, m, seed, s)
      | Node l a r \<Rightarrow> (case fuel of
          0 \<Rightarrow> None
        | Suc k \<Rightarrow> do {
            s \<leftarrow> (case cb of None \<Rightarrow> Some s | Some g \<Rightarrow> g a s);
            seed \<leftarrow> rbtree_remove_node ngx a seed;
            (m, seed) \<leftarrow> rbtree_destroy_node a m seed;
            rbtree_empty k ngx cb (n + 1) m seed s
          }))"

declare rbtree_empty.simps [simp del]

fun rbtree_conditional_walk_real ::
  "(addr \<Rightarrow> 's \<Rightarrow> (rbtree_walk_direction \<times> 's) option) \<Rightarrow> addr tree \<Rightarrow> 's \<Rightarrow> 's option" where
  "rbtree_conditional_walk_real cb Leaf s = Some s"
| "rbtree_conditional_walk_real cb (Node l a r) s = do {
     (direction, s) \<leftarrow> cb a s;
     case direction of
       RBTREE_WALK_LEFT \<Rightarrow> rbtree_conditional_walk_real cb l s
     | RBTREE_WALK_RIGHT \<Rightarrow> rbtree_conditional_walk_real cb r s
     | RBTREE_WALK_LEFT_RIGHT \<Rightarrow> do {
         s \<leftarrow> rbtree_conditional_walk_real cb l s;
         rbtree_conditional_walk_real cb r s
       }
     | RBTREE_WALK_STOP \<Rightarrow> Some s
   }"

definition rbtree_conditional_walk ::
  "rbtree_seed \<Rightarrow> (addr \<Rightarrow> 's \<Rightarrow> (rbtree_walk_direction \<times> 's) option) \<Rightarrow> 's \<Rightarrow> (ngx_rc \<times> 's) option" where
  "rbtree_conditional_walk seed cb s = do { s \<leftarrow> rbtree_conditional_walk_real cb (rb_tree seed) s; Some (NGX_OK, s) }"

text \<open>\<^verbatim>\<open>rbtree_init\<close>: the functions are an argument of every operation instead of fields of the seed.\<close>

definition rbtree_init :: rbtree_seed where
  "rbtree_init = \<lparr>rb_tree = Leaf, allocd_nodes = 0, active_nodes = 0\<rparr>"

subsection \<open>Walks\<close>

lemma visit_append: "visit cb (as @ bs) s = visit cb as s \<bind> visit cb bs"
  by (induction as arbitrary: s) (auto split: Option.bind_splits)

lemma visit_single: "visit cb [a] = cb a"
  by (auto simp: fun_eq_iff split: Option.bind_splits)

lemma walk_real_visits: "rbtree_walk_real cb t s = visit cb (postorder t) s"
  by (induction t arbitrary: s) (simp_all add: visit_append [abs_def] visit_single Option.bind_assoc del: visit.simps(2))

lemma postorder_same: "mset (postorder t) = mset (inorder t)"
  by (induction t) auto

text \<open>What a callback that cannot fail makes of the state.\<close>

lemma visit_total: "visit (\<lambda>a s. Some (g a s)) as s = Some (fold g as s)"
  by (induction as arbitrary: s) simp_all

text \<open>
  The collected nodes are the chosen ones when choosing neither fails nor depends on what was chosen before, and the array
  is long enough, which it is as long as the counter of nodes is right.
\<close>

definition counts_nodes :: "rbtree_seed \<Rightarrow> bool" where
  "counts_nodes seed \<longleftrightarrow> size (rb_tree seed) < 2 ^ 64 \<and> active_nodes seed = of_nat (size (rb_tree seed))"

lemma counts_nodes_unat: "counts_nodes seed \<Longrightarrow> unat (active_nodes seed) = size (rb_tree seed)"
  by (simp add: counts_nodes_def unat_of_nat take_bit_nat_eq_self)

lemma collecting:
  assumes "length els + length as \<le> cap"
    and "\<And>a s. a \<in> set as \<Longrightarrow> incl a s = Some (P a, g a s)"
  shows "visit (rbtree_walk_writesafe_callback cap incl) as (els, s) = Some (els @ filter P as, fold g as s)"
  using assms
proof (induction as arbitrary: els s)
  case (Cons a as)
  then show ?case by (simp add: rbtree_walk_writesafe_callback_def)
qed simp

lemma walk_writesafe_visits:
  assumes n: "counts_nodes seed"
    and sel: "\<And>a s. a \<in> set_tree (rb_tree seed) \<Longrightarrow> incl a s = Some (P a, g a s)"
  shows "rbtree_walk_writesafe True seed incl cb s =
     map_option (Pair NGX_OK) (visit cb (filter P (postorder (rb_tree seed))) (fold g (postorder (rb_tree seed)) s))"
proof -
  let ?cap = "if active_nodes seed > 32 then unat (active_nodes seed) else 32"
  have "length (postorder (rb_tree seed)) = size (rb_tree seed)" by (metis postorder_same size_mset length_inorder)
  moreover have "size (rb_tree seed) \<le> 32" if "\<not> active_nodes seed > 32"
    using that counts_nodes_unat [OF n] by (simp add: word_less_nat_alt)
  ultimately have "length ([] :: addr list) + length (postorder (rb_tree seed)) \<le> ?cap"
    using counts_nodes_unat [OF n] by auto
  from collecting [where incl = incl and P = P and g = g and s = s, OF this] sel
  have "visit (rbtree_walk_writesafe_callback ?cap incl) (postorder (rb_tree seed)) ([], s) =
     Some (filter P (postorder (rb_tree seed)), fold g (postorder (rb_tree seed)) s)" by simp
  then show ?thesis
    by (cases "active_nodes seed > 32") (auto simp: rbtree_walk_writesafe_def rbtree_walk_def walk_real_visits map_option_case split: option.splits)
qed

text \<open>
  A walk with directions: when the callback says left of everything that is too large and right of everything that is too
  small, in the order of the tree, then it is applied to exactly the nodes in between.
\<close>

lemma conditional_walk_range:
  fixes pos :: "addr \<Rightarrow> int"
  assumes "sorted_wrt (\<lambda>a b. pos a \<le> pos b) (inorder t)"
    and "\<And>a s. a \<in> set_tree t \<Longrightarrow> cb a s =
       (if pos a < 0 then Some (RBTREE_WALK_RIGHT, s) else if pos a > 0 then Some (RBTREE_WALK_LEFT, s)
        else map_option (Pair RBTREE_WALK_LEFT_RIGHT) (g a s))"
  shows "rbtree_conditional_walk_real cb t s = visit g (filter (\<lambda>a. pos a = 0) (preorder t)) s"
  using assms
proof (induction t arbitrary: s)
  case (Node l a r)
  have none: "filter (\<lambda>b. pos b = 0) (preorder t) = []" if "\<forall>b \<in> set_tree t. pos b \<noteq> 0" for t
    using that by (auto simp: filter_empty_conv)
  have l: "rbtree_conditional_walk_real cb l s = visit g (filter (\<lambda>a. pos a = 0) (preorder l)) s"
    and r: "rbtree_conditional_walk_real cb r s = visit g (filter (\<lambda>a. pos a = 0) (preorder r)) s" for s
    using Node by (auto simp: sorted_wrt_append)
  consider "pos a < 0" | "pos a > 0" | "pos a = 0" by linarith
  then show ?case
  proof cases
    case 1
    then have "\<forall>b \<in> set_tree l. pos b \<noteq> 0" using Node.prems(1) by (fastforce simp: sorted_wrt_append)
    with 1 r none [of l] show ?thesis by (simp add: Node.prems(2))
  next
    case 2
    then have "\<forall>b \<in> set_tree r. pos b \<noteq> 0" using Node.prems(1) by (fastforce simp: sorted_wrt_append)
    with 2 l none [of r] show ?thesis by (simp add: Node.prems(2))
  next
    case 3
    have r': "rbtree_conditional_walk_real cb r = visit g (filter (\<lambda>a. pos a = 0) (preorder r))" using r by (simp add: fun_eq_iff)
    from 3 show ?thesis using l r'
      by (simp add: Node.prems(2) visit_append [abs_def] Option.bind_assoc bind_map_option o_def)
  qed
qed simp

subsection \<open>Finding, inserting and removing\<close>

locale rb_order =
  fixes f :: "('d, 'k) rb_fns" and ok :: "'k \<Rightarrow> bool"
  assumes compare_total: "\<lbrakk>ok x; ok y\<rbrakk> \<Longrightarrow> \<exists>c. fn_compare f x y = Some c"
    and compare_anti: "\<lbrakk>ok x; ok y\<rbrakk> \<Longrightarrow> the (fn_compare f x y) < 0 \<longleftrightarrow> 0 < the (fn_compare f y x)"
    and compare_trans: "\<lbrakk>ok x; ok y; ok z; the (fn_compare f x y) < 0; the (fn_compare f y z) < 0\<rbrakk>
      \<Longrightarrow> the (fn_compare f x z) < 0"
begin

definition before :: "'k \<Rightarrow> 'k \<Rightarrow> bool" where
  "before x y \<longleftrightarrow> fn_hash f x < fn_hash f y \<or> fn_hash f x = fn_hash f y \<and> the (fn_compare f x y) < 0"

definition matches :: "'k \<Rightarrow> 'k \<Rightarrow> bool" where
  "matches x y \<longleftrightarrow> fn_hash f x = fn_hash f y \<and> the (fn_compare f x y) = 0"

definition node_id :: "'d rb_mem \<Rightarrow> addr \<Rightarrow> 'k" where
  "node_id m a = fn_id f (node_data (the (m a)))"

definition node_ok :: "'d rb_mem \<Rightarrow> addr \<Rightarrow> bool" where
  "node_ok m a \<longleftrightarrow> (\<exists>nd. m a = Some nd \<and> node_key nd = fn_hash f (fn_id f (node_data nd)) \<and> ok (fn_id f (node_data nd)))"

definition tree_ok :: "'d rb_mem \<Rightarrow> addr tree \<Rightarrow> bool" where
  "tree_ok m t \<longleftrightarrow> (\<forall>a \<in> set_tree t. node_ok m a) \<and> sorted_wrt (\<lambda>a b. before (node_id m a) (node_id m b)) (inorder t)"

lemma before_trans: "\<lbrakk>ok x; ok y; ok z; before x y; before y z\<rbrakk> \<Longrightarrow> before x z"
  using compare_trans [of x y z] by (auto simp: before_def)

lemma trichotomy: "\<lbrakk>ok x; ok y\<rbrakk> \<Longrightarrow> before x y \<or> matches x y \<or> before y x"
  using compare_anti [of x y] compare_anti [of y x] by (auto simp: before_def matches_def)

lemma exclusive:
  assumes "ok x" "ok y"
  shows "before x y \<Longrightarrow> \<not> matches x y" "before x y \<Longrightarrow> \<not> before y x" "matches x y \<Longrightarrow> matches y x"
  using compare_anti [OF assms] compare_anti [OF assms(2,1)] by (auto simp: before_def matches_def)

lemma node_okD:
  "node_ok m a \<Longrightarrow> \<exists>nd. m a = Some nd \<and> node_key nd = fn_hash f (node_id m a) \<and> fn_id f (node_data nd) = node_id m a \<and> ok (node_id m a)"
  by (auto simp: node_ok_def node_id_def)

lemma tree_ok_Node:
  "tree_ok m (Node l a r) \<longleftrightarrow> tree_ok m l \<and> tree_ok m r \<and> node_ok m a
     \<and> (\<forall>b \<in> set_tree l. before (node_id m b) (node_id m a)) \<and> (\<forall>b \<in> set_tree r. before (node_id m a) (node_id m b))
     \<and> (\<forall>b \<in> set_tree l. \<forall>c \<in> set_tree r. before (node_id m b) (node_id m c))"
  by (auto simp: tree_ok_def sorted_wrt_append)

lemma find_node_step:
  assumes "node_ok m a" and "ok i"
  shows "rbtree_find_node_generic f m i (fn_hash f i) (Node l a r) =
     (if matches i (node_id m a) then Some (Some a)
      else rbtree_find_node_generic f m i (fn_hash f i) (if before i (node_id m a) then l else r))"
proof -
  obtain nd where nd: "m a = Some nd" "node_key nd = fn_hash f (node_id m a)" "fn_id f (node_data nd) = node_id m a" "ok (node_id m a)"
    using node_okD [OF assms(1)] by blast
  with compare_total [OF assms(2) nd(4)] show ?thesis by (auto simp: matches_def before_def)
qed

text \<open>Finding returns a node with a matching id exactly when there is one.\<close>

lemma find_node_ok:
  assumes "tree_ok m t" and "ok i"
  shows "\<exists>p. rbtree_find_node_generic f m i (fn_hash f i) t = Some p
     \<and> (case p of Some a \<Rightarrow> a \<in> set_tree t \<and> matches i (node_id m a) | None \<Rightarrow> \<forall>a \<in> set_tree t. \<not> matches i (node_id m a))"
  using assms(1)
proof (induction t)
  case (Node l a r)
  note t = Node.prems [unfolded tree_ok_Node]
  have oks: "ok (node_id m b)" if "b \<in> set_tree (Node l a r)" for b
    using Node.prems that node_okD [of m b] unfolding tree_ok_def by blast
  note step = find_node_step [OF _ assms(2), of m a l r]
  consider "matches i (node_id m a)" | "before i (node_id m a)" | "before (node_id m a) i"
    using trichotomy [OF assms(2) oks [of a]] by auto
  then show ?case
  proof cases
    case 2
    then have "\<not> matches i (node_id m b)" if "b \<in> insert a (set_tree r)" for b
      using that t before_trans [OF assms(2) oks oks, of a b] exclusive(1) [OF assms(2) oks, of b] 2 by auto
    with 2 step t Node.IH(1) exclusive(1) [OF assms(2) oks, of a] show ?thesis
      by (auto split: option.splits)
  next
    case 3
    then have "\<not> matches i (node_id m b)" if "b \<in> insert a (set_tree l)" for b
      using that t before_trans [OF oks oks assms(2), of b a] exclusive [OF oks assms(2), of b] exclusive(3) [OF assms(2) oks, of b] by auto
    with 3 step t Node.IH(2) exclusive [OF oks assms(2), of a] show ?thesis
      by (auto split: option.splits)
  qed (use step t in auto)
qed simp

lemma insert_step:
  assumes "node_ok m a" "node_ok m b"
  shows "rbtree_insert_generic f m a (Node l b r) =
     (if before (node_id m a) (node_id m b) then map_option (\<lambda>t. Node t b r) (rbtree_insert_generic f m a l)
      else map_option (\<lambda>t. Node l b t) (rbtree_insert_generic f m a r))"
proof -
  obtain x y where x: "m a = Some x" "node_key x = fn_hash f (node_id m a)" "fn_id f (node_data x) = node_id m a" "ok (node_id m a)"
    and y: "m b = Some y" "node_key y = fn_hash f (node_id m b)" "fn_id f (node_data y) = node_id m b" "ok (node_id m b)"
    using node_okD assms by meson
  with compare_total [OF x(4) y(4)] show ?thesis
    by (auto simp: before_def map_option_case split: option.splits)
qed

lemma insert_generic_ok:
  assumes "tree_ok m t" and "node_ok m a" and "\<forall>b \<in> set_tree t. \<not> matches (node_id m a) (node_id m b)"
  shows "\<exists>t'. rbtree_insert_generic f m a t = Some t' \<and> tree_ok m t' \<and> set_tree t' = insert a (set_tree t) \<and> size t' = Suc (size t)"
  using assms(1,3)
proof (induction t)
  case Leaf
  then show ?case using assms(2) by (simp add: tree_ok_def)
next
  case (Node l b r)
  note t = Node.prems(1) [unfolded tree_ok_Node]
  have oks: "ok (node_id m a)" "ok (node_id m b)" using t assms(2) node_okD by blast+
  have c: "\<not> matches (node_id m a) (node_id m b)" using Node.prems(2) by simp
  have okt: "ok (node_id m c)" if "c \<in> set_tree l \<union> set_tree r" for c using that t node_okD unfolding tree_ok_def by blast
  show ?case
  proof (cases "before (node_id m a) (node_id m b)")
    case True
    obtain t' where t': "rbtree_insert_generic f m a l = Some t'" "tree_ok m t'" "set_tree t' = insert a (set_tree l)" "size t' = Suc (size l)"
      using Node.IH(1) t Node.prems(2) by auto
    have "before (node_id m a) (node_id m c)" if "c \<in> set_tree r" for c
      using before_trans [OF oks(1) oks(2) okt [of c] True] that t by auto
    with True t' t insert_step [OF assms(2), of b l r] have "tree_ok m (Node t' b r)" by (auto simp: tree_ok_Node)
    with True t' t insert_step [OF assms(2), of b l r] show ?thesis by auto
  next
    case False
    with trichotomy [OF oks] c have after: "before (node_id m b) (node_id m a)" by auto
    obtain t' where t': "rbtree_insert_generic f m a r = Some t'" "tree_ok m t'" "set_tree t' = insert a (set_tree r)" "size t' = Suc (size r)"
      using Node.IH(2) t Node.prems(2) by auto
    have "before (node_id m c) (node_id m a)" if "c \<in> set_tree l" for c
      using before_trans [OF okt [of c] oks(2) oks(1) _ after] that t by auto
    with after t' t have "tree_ok m (Node l b t')" by (auto simp: tree_ok_Node)
    with False t' t insert_step [OF assms(2), of b l r] show ?thesis by auto
  qed
qed

lemma tree_ok_inorder: "inorder t = inorder t' \<Longrightarrow> tree_ok m t = tree_ok m t'"
  using set_inorder [of t] set_inorder [of t'] by (simp add: tree_ok_def)

lemma tree_ok_cong:
  assumes "\<And>a. a \<in> set_tree t \<Longrightarrow> m a = m' a" shows "tree_ok m t = tree_ok m' t"
proof -
  have "sorted_wrt (\<lambda>a b. before (node_id m a) (node_id m b)) (inorder t) =
      sorted_wrt (\<lambda>a b. before (node_id m' a) (node_id m' b)) (inorder t)"
    by (intro iffI; erule sorted_wrt_mono_rel [rotated]) (use assms in \<open>auto simp: node_id_def\<close>)
  then show ?thesis using assms by (auto simp: tree_ok_def node_ok_def)
qed

lemma tree_ok_distinct:
  assumes "tree_ok m t" shows "distinct (inorder t)"
proof -
  have irrefl: "\<not> before (node_id m a) (node_id m a)" if "a \<in> set_tree t" for a
  proof -
    have "ok (node_id m a)" using assms that node_okD [of m a] by (auto simp: tree_ok_def)
    then show ?thesis using exclusive(2) [of "node_id m a" "node_id m a"] by blast
  qed
  have "distinct xs" if "sorted_wrt (\<lambda>a b. before (node_id m a) (node_id m b)) xs" "set xs \<subseteq> set_tree t" for xs
    using that irrefl by (induction xs) auto
  then show ?thesis using assms by (simp add: tree_ok_def)
qed

text \<open>No two nodes match.\<close>

lemma tree_ok_unique:
  assumes "tree_ok m t" "a \<in> set_tree t" "b \<in> set_tree t" "matches (node_id m a) (node_id m b)"
  shows "a = b"
proof (rule ccontr)
  assume ne: "a \<noteq> b"
  have oks: "ok (node_id m a)" "ok (node_id m b)" using assms node_okD by (auto simp: tree_ok_def)
  have "before (node_id m x) (node_id m y) \<or> before (node_id m y) (node_id m x)"
    if "sorted_wrt (\<lambda>a b. before (node_id m a) (node_id m b)) xs" "x \<in> set xs" "y \<in> set xs" "x \<noteq> y" for xs x y
    using that by (induction xs) auto
  from this [of "inorder t" a b] have "before (node_id m a) (node_id m b) \<or> before (node_id m b) (node_id m a)"
    using assms ne by (simp add: tree_ok_def)
  with exclusive(1) [OF oks] exclusive(1) [OF oks(2,1)] exclusive(3) [OF oks] assms(4) show False by blast
qed

definition seed_ok :: "'d rb_mem \<Rightarrow> rbtree_seed \<Rightarrow> bool" where
  "seed_ok m seed \<longleftrightarrow> tree_ok m (rb_tree seed) \<and> counts_nodes seed"

lemma insert_node_ok:
  assumes ngx: "keeps_order ngx" and t: "seed_ok m seed" and nd: "m a = Some nd" and fresh: "a \<notin> set_tree (rb_tree seed)"
    and okid: "ok (fn_id f (node_data nd))" and no: "\<forall>b \<in> set_tree (rb_tree seed). \<not> matches (fn_id f (node_data nd)) (node_id m b)"
    and len: "size (rb_tree seed) + 1 < 2 ^ 64"
  shows "\<exists>seed'. rbtree_insert_node ngx f a m seed = Some (m(a \<mapsto> nd\<lparr>node_key := fn_hash f (fn_id f (node_data nd))\<rparr>), seed')
     \<and> seed_ok (m(a \<mapsto> nd\<lparr>node_key := fn_hash f (fn_id f (node_data nd))\<rparr>)) seed'
     \<and> set_tree (rb_tree seed') = insert a (set_tree (rb_tree seed)) \<and> allocd_nodes seed' = allocd_nodes seed
     \<and> size (rb_tree seed') = Suc (size (rb_tree seed))"
proof -
  let ?m = "m(a \<mapsto> nd\<lparr>node_key := fn_hash f (fn_id f (node_data nd))\<rparr>)"
  have other: "?m b = m b" if "b \<in> set_tree (rb_tree seed)" for b using fresh that by auto
  then have t': "tree_ok ?m (rb_tree seed)" using t tree_ok_cong [of "rb_tree seed" ?m m] by (simp add: seed_ok_def)
  have na: "node_ok ?m a" "node_id ?m a = fn_id f (node_data nd)" using okid by (simp_all add: node_ok_def node_id_def)
  have "node_id ?m b = node_id m b" if "b \<in> set_tree (rb_tree seed)" for b using other [OF that] by (simp add: node_id_def)
  then obtain t2 where t2: "rbtree_insert_generic f ?m a (rb_tree seed) = Some t2" "tree_ok ?m t2"
      "set_tree t2 = insert a (set_tree (rb_tree seed))" "size t2 = Suc (size (rb_tree seed))"
    using insert_generic_ok [OF t' na(1)] no na(2) by auto
  have io: "inorder (insert_fixup ngx t2) = inorder t2" using ngx by (simp add: keeps_order_def)
  have s: "set_tree (insert_fixup ngx t2) = set_tree t2" using arg_cong [OF io, of set] by simp
  have z: "size (insert_fixup ngx t2) = size t2" using arg_cong [OF io, of length] by simp
  show ?thesis using t t2 nd s z tree_ok_inorder [OF io] len
    by (auto simp: rbtree_insert_node_def seed_ok_def counts_nodes_def Let_def)
qed

lemma remove_node_ok:
  assumes ngx: "keeps_order ngx" and t: "seed_ok m seed" and a: "a \<in> set_tree (rb_tree seed)"
  shows "\<exists>seed'. rbtree_remove_node ngx a seed = Some seed' \<and> seed_ok m seed'
     \<and> set_tree (rb_tree seed') = set_tree (rb_tree seed) - {a} \<and> allocd_nodes seed' = allocd_nodes seed
     \<and> Suc (size (rb_tree seed')) = size (rb_tree seed)"
proof -
  let ?t = "delete_node ngx a (rb_tree seed)"
  have io: "inorder ?t = remove1 a (inorder (rb_tree seed))" using ngx a by (simp add: keeps_order_def)
  have tok: "tree_ok m (rb_tree seed)" using t by (simp add: seed_ok_def)
  have st: "set_tree ?t = set_tree (rb_tree seed) - {a}"
    using arg_cong [OF io, of set] tree_ok_distinct [OF tok] by simp
  have sz: "Suc (size ?t) = size (rb_tree seed)"
    using arg_cong [OF io, of length] a by (simp add: length_remove1) (metis Suc_pred length_inorder length_pos_if_in_set set_inorder)
  have "sorted_wrt (\<lambda>a b. before (node_id m a) (node_id m b)) (inorder ?t)"
    unfolding io using tok tree_ok_distinct [OF tok] by (simp add: tree_ok_def distinct_remove1_removeAll removeAll_filter_not_eq sorted_wrt_filter)
  then have "tree_ok m ?t" using tok st by (auto simp: tree_ok_def)
  moreover have "of_nat (size (rb_tree seed)) - 1 = (of_nat (size ?t) :: uint64)" using sz [symmetric] by simp
  ultimately show ?thesis using t a st sz by (auto simp: rbtree_remove_node_def seed_ok_def counts_nodes_def)
qed

text \<open>Emptying a tree takes as many rounds as it has nodes, hands each node to the callback once and frees all of them.\<close>

lemma empty_ok:
  assumes ngx: "keeps_order ngx"
  shows "\<lbrakk>seed_ok m seed; size (rb_tree seed) \<le> fuel\<rbrakk> \<Longrightarrow>
    \<exists>as m' seed'. rbtree_empty fuel ngx (Some (\<lambda>a s. Some (g a s))) n m seed s =
        Some (n + size (rb_tree seed), m', seed', fold g as s)
      \<and> mset as = mset (inorder (rb_tree seed)) \<and> rb_tree seed' = Leaf \<and> active_nodes seed' = 0
      \<and> m' = (\<lambda>a. if a \<in> set_tree (rb_tree seed) then None else m a)
      \<and> allocd_nodes seed' = allocd_nodes seed - of_nat (size (rb_tree seed))"
proof (induction fuel arbitrary: n m seed s)
  case 0
  then show ?case by (auto simp: rbtree_empty.simps seed_ok_def counts_nodes_def)
next
  case (Suc fuel)
  show ?case
  proof (cases "rb_tree seed")
    case Leaf
    then show ?thesis using Suc.prems by (auto simp: rbtree_empty.simps seed_ok_def counts_nodes_def)
  next
    case (Node l a r)
    then have a: "a \<in> set_tree (rb_tree seed)" by simp
    obtain s1 where s1: "rbtree_remove_node ngx a seed = Some s1" "seed_ok m s1" "set_tree (rb_tree s1) = set_tree (rb_tree seed) - {a}"
        "allocd_nodes s1 = allocd_nodes seed" "Suc (size (rb_tree s1)) = size (rb_tree seed)"
      using remove_node_ok [OF ngx Suc.prems(1) a] by blast
    let ?m = "m(a := None)" and ?s2 = "s1\<lparr>allocd_nodes := allocd_nodes s1 - 1\<rparr>"
    have ma: "m a \<noteq> None" using Suc.prems(1) a by (auto simp: seed_ok_def tree_ok_def node_ok_def)
    have io: "inorder (rb_tree s1) = remove1 a (inorder (rb_tree seed))"
      using s1(1) ngx a by (auto simp: rbtree_remove_node_def keeps_order_def)
    have ok2: "seed_ok ?m ?s2"
      using s1(2,3) tree_ok_cong [of "rb_tree s1" ?m m] by (auto simp: seed_ok_def counts_nodes_def)
    obtain as m' seed' where r: "rbtree_empty fuel ngx (Some (\<lambda>a s. Some (g a s))) (n + 1) ?m ?s2 (g a s) =
        Some (n + 1 + size (rb_tree ?s2), m', seed', fold g as (g a s))"
      "mset as = mset (inorder (rb_tree ?s2))" "rb_tree seed' = Leaf" "active_nodes seed' = 0"
      "m' = (\<lambda>x. if x \<in> set_tree (rb_tree ?s2) then None else ?m x)"
      "allocd_nodes seed' = allocd_nodes ?s2 - of_nat (size (rb_tree ?s2))"
    proof -
      have "size (rb_tree ?s2) \<le> fuel" using Suc.prems(2) s1(5) by simp
      from Suc.IH [OF ok2 this, of "n + 1" "g a s"] that show ?thesis by blast
    qed
    have "rbtree_empty (Suc fuel) ngx (Some (\<lambda>a s. Some (g a s))) n m seed s =
        rbtree_empty fuel ngx (Some (\<lambda>a s. Some (g a s))) (n + 1) ?m ?s2 (g a s)"
      using Node s1(1) ma by (subst rbtree_empty.simps) (auto simp: rbtree_destroy_node_def)
    moreover have "mset (a # as) = mset (inorder (rb_tree seed))" using r(2) io a by simp
    moreover have "m' = (\<lambda>x. if x \<in> set_tree (rb_tree seed) then None else m x)" using r(5) s1(3) a by (auto simp: fun_eq_iff)
    moreover have "allocd_nodes seed' = allocd_nodes seed - of_nat (size (rb_tree seed))"
      using r(6) s1(4) unfolding s1(5) [symmetric] by simp
    ultimately show ?thesis using r(1,3,4) s1(5) by (intro exI [of _ "a # as"]) auto
  qed
qed

end

end
