(* ===== verification/Str_Scan.thy ===== *)
theory Str_Scan
  imports Nchan_Prelude "HOL-Library.Sublist"
begin

text \<open>
  The string functions of \<^verbatim>\<open>util/nchan_util.c\<close>.

  An \<^verbatim>\<open>ngx_str_t\<close> is the list of its bytes; a pointer that a function advances is the list from the pointer on.  A string
  that ends with a zero byte is given without it.  The functions of the C library that the source calls
  (\<^verbatim>\<open>memchr\<close>, \<^verbatim>\<open>strstr\<close>, \<^verbatim>\<open>strncmp\<close>) come first.
\<close>

definition NUL :: char where "NUL = CHR 0x00"

definition memchr :: "char \<Rightarrow> string \<Rightarrow> nat option" where
  "memchr c s = (if c \<in> set s then Some (length (takeWhile (\<lambda>x. x \<noteq> c) s)) else None)"

fun strstr :: "string \<Rightarrow> string \<Rightarrow> nat option" where
  "strstr s p = (if prefix p s then Some 0 else (case s of [] \<Rightarrow> None | _ # s \<Rightarrow> map_option Suc (strstr s p)))"

declare strstr.simps [simp del]

text \<open>Whether \<^verbatim>\<open>strncmp\<close> returns 0; reading past the end of one of the strings is a fault.\<close>

fun strncmp_same :: "string \<Rightarrow> string \<Rightarrow> nat \<Rightarrow> bool option" where
  "strncmp_same s t 0 = Some True"
| "strncmp_same (a # s) (b # t) (Suc n) =
     (if a \<noteq> b then Some False else if a = NUL then Some True else strncmp_same s t n)"
| "strncmp_same s t (Suc n) = None"

subsection \<open>Operations, in the order of the source\<close>

fun memrchr :: "string \<Rightarrow> char \<Rightarrow> nat \<Rightarrow> nat option option" where
  "memrchr s c 0 = Some None"
| "memrchr s c (Suc n) = do {
     x \<leftarrow> arr_get s n;
     if c = x then Some (Some n) else memrchr s c n
   }"

definition nchan_ngx_str_match :: "string \<Rightarrow> string \<Rightarrow> bool" where
  "nchan_ngx_str_match str1 str2 =
     (if length str1 \<noteq> length str2 then False
      else if length str1 = 0 then True
      else str1 = str2)"

definition nchan_ngx_str_nonzero_match :: "string \<Rightarrow> string \<Rightarrow> bool" where
  "nchan_ngx_str_nonzero_match str1 str2 = (if length str1 = 0 then False else nchan_ngx_str_match str1 str2)"

text \<open>\<^verbatim>\<open>nchan_strscanstr\<close>: the result is the text after the occurrence that was found.\<close>

fun nchan_strscanstr :: "string \<Rightarrow> string \<Rightarrow> string option option" where
  "nchan_strscanstr fnd [] = (if fnd = [] then None else Some None)"
| "nchan_strscanstr fnd (c1 # s1) =
     (case fnd of
        [] \<Rightarrow> None
      | c2 # s2 \<Rightarrow>
          if c1 = NUL then Some None
          else if c1 \<noteq> c2 then nchan_strscanstr fnd s1
          else if length s2 > length s1 then Some None
          else do {
            eq \<leftarrow> strncmp_same s1 s2 (length s2);
            if eq then Some (Some (drop (length s2) s1)) else nchan_strscanstr fnd s1
          })"

text \<open>
  \<^verbatim>\<open>nchan_strsplit\<close> on the text from \<^verbatim>\<open>*s1\<close> to \<^verbatim>\<open>last_char\<close>: the piece before the delimiter and what follows it, or
  \<^verbatim>\<open>NULL\<close>.  \<open>k\<close> is the position of \<^verbatim>\<open>cur\<close>.
\<close>

function strsplit_from :: "nat \<Rightarrow> string \<Rightarrow> string \<Rightarrow> (string \<times> string) option option" where
  "strsplit_from k sub s =
     (if k + length sub < length s then do {
        eq \<leftarrow> strncmp_same (drop k s) sub (length sub);
        if eq then Some (Some (take k s, drop (k + length sub) s)) else strsplit_from (Suc k) sub s
      }
      else if k + length sub = length s then Some (Some (s, []))
      else Some None)"
  by auto
termination by (relation "measure (\<lambda>(k, sub, s). length s - k)") auto

declare strsplit_from.simps [simp del]

definition nchan_strsplit :: "string \<Rightarrow> string \<Rightarrow> (string \<times> string) option option" where
  "nchan_strsplit sub s = strsplit_from 0 sub s"

fun nchan_cstr_startswith :: "string \<Rightarrow> string \<Rightarrow> bool" where
  "nchan_cstr_startswith cstr [] = True"
| "nchan_cstr_startswith [] (m # ms) = False"
| "nchan_cstr_startswith (c # cs) (m # ms) = (if c \<noteq> m then False else nchan_cstr_startswith cs ms)"

definition nchan_str_startswith :: "string \<Rightarrow> string \<Rightarrow> bool" where
  "nchan_str_startswith str match =
     (if length match > length str then False else take (length match) str = match)"

definition nchan_str_after :: "string \<Rightarrow> string \<Rightarrow> bool \<times> string" where
  "nchan_str_after str match =
     (if nchan_str_startswith str match then (True, drop (length match) str) else (False, str))"

text \<open>
  \<^verbatim>\<open>nchan_scan_split_by_chr\<close> looks at the first byte even if \<^verbatim>\<open>max_len\<close> is 0.  \<open>s\<close> is the memory from \<^verbatim>\<open>*cur\<close> on; the
  result is the piece (\<open>None\<close> is \<^verbatim>\<open>NULL\<close>) and the memory from the new \<^verbatim>\<open>*cur\<close> on.
\<close>

fun split_scan :: "nat \<Rightarrow> nat \<Rightarrow> string \<Rightarrow> char \<Rightarrow> nat option option" where
  "split_scan k 0 s chr = Some None"
| "split_scan k (Suc n) s chr = do {
     c \<leftarrow> arr_get s k;
     if c = chr then Some (Some k) else split_scan (Suc k) n s chr
   }"

definition nchan_scan_split_by_chr :: "string \<Rightarrow> nat \<Rightarrow> char \<Rightarrow> (string option \<times> string) option" where
  "nchan_scan_split_by_chr s max_len chr = do {
     shortest \<leftarrow> split_scan 0 (max 1 max_len) s chr;
     Some (case shortest of
        Some k \<Rightarrow> (Some (take k s), drop (Suc k) s)
      | None \<Rightarrow> if max 1 max_len = max_len then (Some (take max_len s), drop max_len s) else (None, s))
   }"

definition nchan_scan_until_chr_on_line :: "string \<Rightarrow> char \<Rightarrow> string \<times> string" where
  "nchan_scan_until_chr_on_line line chr =
     (case memchr chr line of
        None \<Rightarrow> (line, [])
      | Some k \<Rightarrow> (take k line, drop (k + 1) line))"

text \<open>\<^verbatim>\<open>nchan_strcpy\<close> into a buffer of \<open>cap\<close> bytes.\<close>

definition nchan_strcpy :: "nat \<Rightarrow> string \<Rightarrow> nat \<Rightarrow> string option" where
  "nchan_strcpy cap src maxlen = do {
     let len = (if length src > maxlen \<and> maxlen > 0 then maxlen else length src);
     c_assert (len \<le> cap);
     Some (take len src)
   }"

text \<open>\<^verbatim>\<open>nchan_match_origin_header\<close>: the loop over the allowed origins.  Each round consumes something.\<close>

function match_origin_loop :: "string \<Rightarrow> string \<Rightarrow> bool option" where
  "match_origin_loop origin allowed =
     (if allowed = [] then Some False
      else do {
        (cur, rest) \<leftarrow> nchan_scan_split_by_chr allowed (length allowed) (CHR '' '');
        curstr \<leftarrow> cur;
        if length curstr = 1 \<and> curstr ! 0 = CHR ''*'' then Some True
        else if nchan_ngx_str_match curstr origin then Some True
        else match_origin_loop origin rest
      })"
  by auto
termination
  by (relation "measure (\<lambda>(origin, allowed). length allowed)")
    (auto simp: nchan_scan_split_by_chr_def split: Option.bind_splits option.splits if_splits)

declare match_origin_loop.simps [simp del]

definition nchan_match_origin_header :: "string option \<Rightarrow> string option \<Rightarrow> bool option" where
  "nchan_match_origin_header allow_origin origin_header =
     (case allow_origin of
        None \<Rightarrow> Some True
      | Some allowed \<Rightarrow> (case origin_header of
          None \<Rightarrow> Some True
        | Some origin \<Rightarrow> match_origin_loop origin allowed))"

fun nchan_ngx_str_char_substr :: "string \<Rightarrow> string \<Rightarrow> bool option" where
  "nchan_ngx_str_char_substr str substr =
     (if length str < length substr then Some False
      else do {
        eq \<leftarrow> strncmp_same str substr (length substr);
        if eq then Some True
        else (case str of [] \<Rightarrow> Some False | _ # str \<Rightarrow> nchan_ngx_str_char_substr str substr)
      })"

declare nchan_ngx_str_char_substr.simps [simp del]

text \<open>
  \<^verbatim>\<open>nchan_get_rest_of_line_in_cstr\<close>.  \<open>cur\<close> is an offset, \<open>None\<close> is \<^verbatim>\<open>NULL\<close>.  The second part of the result is \<^verbatim>\<open>*rest\<close>,
  \<open>None\<close> where it is not written.  Each round uses one unit of fuel; \<open>None\<close> as the result is that the fuel is used up, or a
  rest that ends before it begins.
\<close>

definition NL :: char where "NL = CHR 0x0A"
definition CR :: char where "CR = CHR 0x0D"

definition line_end :: "string \<Rightarrow> nat \<Rightarrow> nat" where
  "line_end cstr first =
     (case memchr NL (drop first cstr) of
        None \<Rightarrow> length cstr
      | Some j \<Rightarrow> if j > 0 \<and> cstr ! (first + j - 1) = CR then first + j - 1 else first + j)"

fun rest_of_line_from :: "nat \<Rightarrow> string \<Rightarrow> string \<Rightarrow> nat option \<Rightarrow> (bool \<times> string option) option" where
  "rest_of_line_from 0 cstr line_start cur = None"
| "rest_of_line_from (Suc fuel) cstr line_start cur =
     (case cur of
        None \<Rightarrow> Some (False, None)
      | Some k \<Rightarrow>
          if k < length cstr then
            (case strstr cstr line_start of
               None \<Rightarrow> Some (False, Some [])
             | Some first \<Rightarrow>
                 if first = 0 \<or> cstr ! (first - 1) = NL then do {
                   let start = first + length line_start;
                   c_assert (start \<le> line_end cstr first);
                   Some (True, Some (take (line_end cstr first - start) (drop start cstr)))
                 }
                 else rest_of_line_from fuel cstr line_start (map_option ((+) k) (memchr NL (drop k cstr))))
          else Some (False, None))"

definition nchan_get_rest_of_line_in_cstr :: "nat \<Rightarrow> string \<Rightarrow> string \<Rightarrow> (bool \<times> string option) option" where
  "nchan_get_rest_of_line_in_cstr fuel cstr line_start = rest_of_line_from fuel cstr line_start (Some 0)"

definition nchan_cstr_match_line :: "nat \<Rightarrow> string \<Rightarrow> string \<Rightarrow> bool option" where
  "nchan_cstr_match_line fuel cstr line = do {
     (found, rest) \<leftarrow> nchan_get_rest_of_line_in_cstr fuel cstr line;
     if found then do { rest \<leftarrow> rest; Some (length rest = 0) } else Some False
   }"

subsection \<open>What they compute\<close>

lemma memchr_Some: "memchr c s = Some k \<longleftrightarrow> k < length s \<and> s ! k = c \<and> c \<notin> set (take k s)"
proof -
  have "c \<in> set s \<Longrightarrow> length (takeWhile (\<lambda>x. x \<noteq> c) s) < length s \<and> s ! length (takeWhile (\<lambda>x. x \<noteq> c) s) = c"
    by (induction s) auto
  moreover have "c \<notin> set (take (length (takeWhile (\<lambda>x. x \<noteq> c) s)) s)" by (simp add: takeWhile_eq_take [symmetric]) (metis set_takeWhileD)
  moreover have "length (takeWhile (\<lambda>x. x \<noteq> c) s) = k" if "k < length s" "s ! k = c" "c \<notin> set (take k s)"
    using that
  proof (induction s arbitrary: k)
    case (Cons x s)
    then show ?case by (cases k) auto
  qed simp
  ultimately show ?thesis unfolding memchr_def by (auto dest: nth_mem)
qed

lemma memchr_None: "memchr c s = None \<longleftrightarrow> c \<notin> set s"
  by (simp add: memchr_def)

lemma memchr_append: "c \<notin> set s \<Longrightarrow> memchr c (s @ c # t) = Some (length s)"
  by (simp add: memchr_Some nth_append)

lemma scan_until_chr: "c \<notin> set s \<Longrightarrow> nchan_scan_until_chr_on_line (s @ c # t) c = (s, t)"
  by (simp add: nchan_scan_until_chr_on_line_def memchr_append)

lemma scan_until_chr_last: "c \<notin> set s \<Longrightarrow> nchan_scan_until_chr_on_line s c = (s, [])"
  by (simp add: nchan_scan_until_chr_on_line_def memchr_def)

lemma strncmp_same_prefix:
  "\<lbrakk>length t \<le> length s; NUL \<notin> set t\<rbrakk> \<Longrightarrow> strncmp_same s t (length t) = Some (prefix t s)"
proof (induction t arbitrary: s)
  case (Cons b t)
  then show ?case by (cases s) auto
qed simp

lemma strstr_Some: "strstr s p = Some k \<longleftrightarrow> k \<le> length s \<and> prefix p (drop k s) \<and> (\<forall>j < k. \<not> prefix p (drop j s))"
proof (induction s arbitrary: k)
  case Nil
  then show ?case by (subst strstr.simps) auto
next
  case (Cons c s)
  show ?case
  proof (cases "prefix p (c # s)")
    case True
    then show ?thesis by (subst strstr.simps) (auto intro: gr0I)
  next
    case False
    have "strstr (c # s) p = Some k \<longleftrightarrow> (\<exists>j. k = Suc j \<and> strstr s p = Some j)"
      using False by (subst strstr.simps) auto
    also have "\<dots> \<longleftrightarrow> k \<le> length (c # s) \<and> prefix p (drop k (c # s)) \<and> (\<forall>j < k. \<not> prefix p (drop j (c # s)))"
      using False unfolding Cons.IH by (cases k) (auto simp: less_Suc_eq_0_disj)
    finally show ?thesis .
  qed
qed

lemma strstr_None: "strstr s p = None \<longleftrightarrow> (\<forall>k \<le> length s. \<not> prefix p (drop k s))"
proof (induction s)
  case Nil
  then show ?case by (subst strstr.simps) auto
next
  case (Cons c s)
  have "\<forall>k. k \<le> length (c # s) \<longrightarrow> k = 0 \<or> (\<exists>j \<le> length s. k = Suc j)"
    by (metis Suc_le_mono length_Cons not0_implies_Suc)
  then have "(\<forall>k \<le> length (c # s). \<not> prefix p (drop k (c # s))) \<longleftrightarrow> \<not> prefix p (c # s) \<and> (\<forall>k \<le> length s. \<not> prefix p (drop k s))"
    by fastforce
  with Cons show ?case by (subst strstr.simps) auto
qed

text \<open>Looking for a piece of text finds its first occurrence.\<close>

lemma strscanstr_first:
  assumes "fnd \<noteq> []" and "NUL \<notin> set fnd" and "NUL \<notin> set s"
  shows "nchan_strscanstr fnd s = Some (map_option (\<lambda>k. drop (k + length fnd) s) (strstr s fnd))"
  using assms(3)
proof (induction s)
  case Nil
  then show ?case using assms(1) by (subst strstr.simps) simp
next
  case (Cons c1 s1)
  obtain c2 s2 where f: "fnd = c2 # s2" using assms(1) by (cases fnd) auto
  have rec: "nchan_strscanstr fnd s1 = Some (map_option (\<lambda>k. drop (k + length fnd) (c1 # s1)) (strstr (c1 # s1) fnd))"
    if "\<not> prefix fnd (c1 # s1)"
  proof -
    have "strstr (c1 # s1) fnd = map_option Suc (strstr s1 fnd)" using that by (subst strstr.simps) simp
    with Cons f show ?thesis by (simp add: option.map_comp o_def)
  qed
  consider "c1 \<noteq> c2" | "c1 = c2" "length s2 > length s1" | "c1 = c2" "length s2 \<le> length s1" by linarith
  then show ?case
  proof cases
    case 2
    then have "\<not> prefix fnd (drop k (c1 # s1))" if "k \<le> Suc (length s1)" for k
      using f that by (auto dest!: prefix_length_le)
    then have "strstr (c1 # s1) fnd = None" by (simp add: strstr_None)
    with 2 f Cons.prems show ?thesis by simp
  next
    case 3
    then have "strncmp_same s1 s2 (length s2) = Some (prefix s2 s1)" using assms(2) f by (intro strncmp_same_prefix) auto
    with 3 f Cons.prems rec show ?thesis by (cases "prefix s2 s1") (auto simp: strstr.simps)
  qed (use rec f Cons.prems in auto)
qed

lemma strsplit_from_spec:
  assumes "sub \<noteq> []" "NUL \<notin> set sub" "k + length sub \<le> length s" "\<forall>j < k. \<not> prefix sub (drop j s)"
  shows "strsplit_from k sub s = Some (Some (case strstr s sub of
     None \<Rightarrow> (s, []) | Some i \<Rightarrow> if i + length sub < length s then (take i s, drop (i + length sub) s) else (s, [])))"
  using assms(3,4)
proof (induction "length s - k" arbitrary: k)
  case 0
  then have "length sub = 0" by linarith
  then show ?case using assms(1) by simp
next
  case (Suc n)
  have cmp: "strncmp_same (drop k s) sub (length sub) = Some (prefix sub (drop k s))"
    using assms(2) Suc.prems by (intro strncmp_same_prefix) auto
  consider "prefix sub (drop k s)" "k + length sub < length s" | "\<not> prefix sub (drop k s)" "k + length sub < length s"
    | "k + length sub = length s" using Suc.prems by linarith
  then show ?case
  proof cases
    case 1
    then have "strstr s sub = Some k" using Suc.prems by (simp add: strstr_Some)
    with 1 cmp show ?thesis by (simp add: strsplit_from.simps [of k])
  next
    case 2
    then have "strsplit_from k sub s = strsplit_from (Suc k) sub s" using cmp by (simp add: strsplit_from.simps [of k])
    also have "\<dots> = Some (Some (case strstr s sub of
       None \<Rightarrow> (s, []) | Some i \<Rightarrow> if i + length sub < length s then (take i s, drop (i + length sub) s) else (s, [])))"
      using 2 Suc by (intro Suc.hyps(1)) (auto simp: less_Suc_eq)
    finally show ?thesis .
  next
    case 3
    have "\<not> i + length sub < length s" if "strstr s sub = Some i" for i
      using that Suc.prems 3 unfolding strstr_Some by (metis add_less_cancel_right)
    with 3 show ?thesis by (auto simp: strsplit_from.simps [of k] split: option.splits)
  qed
qed

text \<open>
  The first piece of a text that is to be split: it is lost when it is shorter than the delimiter, and a delimiter at the
  very end is taken for a part of the piece.
\<close>

lemma strsplit_spec:
  assumes "sub \<noteq> []" "NUL \<notin> set sub"
  shows "nchan_strsplit sub s = Some (if length s < length sub then None else Some (case strstr s sub of
     None \<Rightarrow> (s, []) | Some i \<Rightarrow> if i + length sub < length s then (take i s, drop (i + length sub) s) else (s, [])))"
  using strsplit_from_spec [OF assms, of 0 s] by (auto simp: nchan_strsplit_def strsplit_from.simps [of 0])

lemma cstr_startswith: "nchan_cstr_startswith s p \<longleftrightarrow> prefix p s"
  by (induction s p rule: nchan_cstr_startswith.induct) auto

lemma str_startswith: "nchan_str_startswith s p \<longleftrightarrow> prefix p s"
  by (auto simp: nchan_str_startswith_def prefix_def dest: sym) (metis append_take_drop_id)

lemma char_substr: "NUL \<notin> set p \<Longrightarrow> nchan_ngx_str_char_substr s p = Some (sublist p s)"
proof (induction s)
  case Nil
  then show ?case by (subst nchan_ngx_str_char_substr.simps) auto
next
  case (Cons c s)
  have "length (c # s) < length p \<Longrightarrow> \<not> sublist p (c # s)" using sublist_length_le by fastforce
  moreover have "sublist p (c # s) \<longleftrightarrow> prefix p (c # s) \<or> sublist p s" by (simp add: sublist_Cons_right)
  ultimately show ?case using Cons strncmp_same_prefix [of p "c # s"]
    by (subst nchan_ngx_str_char_substr.simps) (auto simp: not_less)
qed

lemma memrchr_last:
  "n \<le> length s \<Longrightarrow> memrchr s c n = Some (if c \<in> set (take n s) then Some (n - 1 - length (takeWhile (\<lambda>x. x \<noteq> c) (rev (take n s)))) else None)"
proof (induction n)
  case (Suc n)
  then show ?case by (auto simp: take_Suc_conv_app_nth)
qed simp

lemma memrchr_append: "c \<notin> set t \<Longrightarrow> memrchr (s @ c # t) c (length (s @ c # t)) = Some (Some (length s))"
proof -
  assume "c \<notin> set t"
  then have "takeWhile (\<lambda>x. x \<noteq> c) (rev t @ c # rev s) = rev t" by (subst takeWhile_append2) auto
  then show ?thesis using memrchr_last [of "length (s @ c # t)" "s @ c # t" c] by (simp del: memrchr.simps)
qed

lemma memrchr_none: "c \<notin> set s \<Longrightarrow> memrchr s c (length s) = Some None"
  using memrchr_last [of "length s" s c] by simp

lemma split_scan_memchr:
  "k + n \<le> length s \<Longrightarrow> split_scan k n s c = Some (map_option ((+) k) (memchr c (take n (drop k s))))"
proof (induction n arbitrary: k)
  case (Suc n)
  then have "take (Suc n) (drop k s) = s ! k # take n (drop (Suc k) s)" by (metis Cons_nth_drop_Suc add_Suc_right less_eq_Suc_le take_Suc_Cons le_add1 order_trans not_less_eq_eq)
  with Suc show ?case by (auto simp: memchr_def option.map_comp)
qed (simp add: memchr_def)

lemma scan_split_whole:
  assumes "s \<noteq> []"
  shows "nchan_scan_split_by_chr (s @ r) (length s) c = Some (case memchr c s of
     Some k \<Rightarrow> (Some (take k s), drop (Suc k) s @ r) | None \<Rightarrow> (Some s, r))"
proof -
  have m: "max 1 (length s) = length s" using assms by (cases s) auto
  have sc: "split_scan 0 (length s) (s @ r) c = Some (memchr c s)"
    using split_scan_memchr [of 0 "length s" "s @ r" c] by (cases "memchr c s") simp_all
  show ?thesis
  proof (cases "memchr c s")
    case (Some k)
    then have "k < length s" by (simp add: memchr_Some)
    with Some show ?thesis unfolding nchan_scan_split_by_chr_def m sc by simp
  next
    case None
    then show ?thesis unfolding nchan_scan_split_by_chr_def m sc by simp
  qed
qed

text \<open>The origins of a request: those allowed are separated by single spaces.\<close>

fun join :: "string \<Rightarrow> string list \<Rightarrow> string" where
  "join sep [] = []"
| "join sep [s] = s"
| "join sep (s # t # ss) = s @ sep @ join sep (t # ss)"

lemma join_Cons: "ss \<noteq> [] \<Longrightarrow> join sep (s # ss) = s @ sep @ join sep ss"
  by (cases ss) auto

lemma match_origin_list:
  assumes "\<forall>t \<in> set ts. t \<noteq> [] \<and> CHR '' '' \<notin> set t"
  shows "match_origin_loop origin (join '' '' ts) = Some (''*'' \<in> set ts \<or> origin \<in> set ts)"
  using assms
proof (induction ts)
  case Nil
  then show ?case by (simp add: match_origin_loop.simps)
next
  case (Cons t ts)
  have star: "(length t = 1 \<and> t ! 0 = CHR ''*'') = (t = ''*'')" by (cases t) auto
  have eq: "nchan_ngx_str_match t origin = (t = origin)" by (auto simp: nchan_ngx_str_match_def)
  have t: "t \<noteq> []" "CHR '' '' \<notin> set t" using Cons.prems by auto
  have "nchan_scan_split_by_chr (join '' '' (t # ts)) (length (join '' '' (t # ts))) (CHR '' '') = Some (Some t, join '' '' ts)"
    using scan_split_whole [of "join '' '' (t # ts)" "[]" "CHR '' ''"] t memchr_append [OF t(2)]
    by (cases ts) (simp_all add: memchr_def)
  moreover have "join '' '' (t # ts) \<noteq> []" using t by (cases ts) auto
  ultimately show ?case using Cons star eq by (subst match_origin_loop.simps) auto
qed

subsection \<open>Looking for a line of a reply\<close>

lemma line_end_bound:
  assumes "prefix ls (drop first cstr)" and "NL \<notin> set ls" "CR \<notin> set ls" and "first \<le> length cstr"
  shows "first + length ls \<le> line_end cstr first"
proof -
  have len: "first + length ls \<le> length cstr" using prefix_length_le [OF assms(1)] assms(4) by simp
  have in_ls: "cstr ! (first + i) = ls ! i" if "i < length ls" for i
    using assms(1) that len by (auto simp: prefix_def) (metis nth_append nth_drop le_add1 order_trans)
  show ?thesis
  proof (cases "memchr NL (drop first cstr)")
    case None
    then show ?thesis using len by (simp add: line_end_def)
  next
    case (Some j)
    then have j: "j < length cstr - first" "cstr ! (first + j) = NL" using assms(4) by (auto simp: memchr_Some)
    have "\<not> j < length ls" using in_ls [of j] j assms(2) by (metis nth_mem)
    moreover have "\<not> j - 1 < length ls" if "0 < j" "cstr ! (first + j - 1) = CR"
    proof
      assume l: "j - 1 < length ls"
      then have "ls ! (j - 1) = CR" using in_ls [of "j - 1"] that by simp
      with l assms(3) show False by (metis nth_mem)
    qed
    ultimately show ?thesis using Some by (auto simp: line_end_def)
  qed
qed

lemma rest_of_line_stuck:
  assumes "strstr cstr ls = Some first" "0 < first" "cstr ! (first - 1) \<noteq> NL" "k < length cstr" "cstr ! k = NL"
  shows "rest_of_line_from fuel cstr ls (Some k) = None"
proof (induction fuel)
  case (Suc fuel)
  have "memchr NL (drop k cstr) = Some 0" using assms(4,5) by (simp add: memchr_Some)
  with Suc assms show ?case by simp
qed simp

lemma rest_of_line_value:
  assumes "strstr cstr ls = Some first" "first = 0 \<or> cstr ! (first - 1) = NL" "NL \<notin> set ls" "CR \<notin> set ls" "cstr \<noteq> []"
  shows "nchan_get_rest_of_line_in_cstr (Suc fuel) cstr ls =
     Some (True, Some (take (line_end cstr first - (first + length ls)) (drop (first + length ls) cstr)))"
proof -
  have "first + length ls \<le> line_end cstr first" using assms by (intro line_end_bound) (auto simp: strstr_Some)
  with assms show ?thesis by (auto simp: nchan_get_rest_of_line_in_cstr_def Let_def)
qed

lemma rest_of_line_found:
  assumes ls: "NL \<notin> set ls" "CR \<notin> set ls" "ls \<noteq> []"
    and c: "cstr = before @ ls @ rest @ eol @ after" and e: "eol = [NL] \<or> eol = [CR, NL]" and s: "strstr cstr ls = Some (length before)"
    and b: "before = [] \<or> last before = NL" and r: "NL \<notin> set rest" "rest = [] \<or> last rest \<noteq> CR"
  shows "nchan_get_rest_of_line_in_cstr (Suc fuel) cstr ls = Some (True, Some rest)"
proof -
  have start: "length before = 0 \<or> cstr ! (length before - 1) = NL"
    using b by (cases before rule: rev_cases) (auto simp: c nth_append)
  have upto: "line_end cstr (length before) = length before + length ls + length rest"
  proof (cases "eol = [NL]")
    case True
    obtain xs x where x: "ls @ rest = xs @ [x]" using ls(3) by (cases "ls @ rest" rule: rev_cases) auto
    then have "x \<noteq> CR" using r(2) ls(2,3) by (cases rest rule: rev_cases) auto
    moreover have "length ls + length rest = Suc (length xs)" using arg_cong [OF x, of length] by simp
    moreover have "cstr = before @ xs @ x # NL # after" using x by (simp add: c True)
    moreover have "memchr NL (drop (length before) cstr) = Some (length ls + length rest)"
      using memchr_append [of NL "ls @ rest" after] ls r(1) by (simp add: c True)
    ultimately show ?thesis by (simp add: line_end_def nth_append)
  next
    case False
    then have e': "eol = [CR, NL]" using e by simp
    have "memchr NL (drop (length before) cstr) = Some (length ls + length rest + 1)"
      using memchr_append [of NL "ls @ rest @ [CR]" after] ls r(1) by (simp add: c e' NL_def CR_def)
    moreover have "cstr ! (length before + (length ls + length rest)) = CR" by (simp add: c e' nth_append)
    ultimately show ?thesis by (simp add: line_end_def)
  qed
  have "cstr \<noteq> []" using ls(3) c by simp
  with rest_of_line_value [OF s start ls(1,2)] upto show ?thesis by (simp add: c)
qed

lemma rest_of_line_hangs:
  assumes "strstr cstr ls = Some first" "0 < first" "cstr ! (first - 1) \<noteq> NL" "NL \<in> set cstr"
  shows "nchan_get_rest_of_line_in_cstr fuel cstr ls = None"
proof (cases fuel)
  case (Suc n)
  obtain k where k: "memchr NL cstr = Some k" "k < length cstr" "cstr ! k = NL"
    using assms(4) memchr_None [of NL cstr] by (cases "memchr NL cstr") (auto simp: memchr_Some)
  then have "nchan_get_rest_of_line_in_cstr fuel cstr ls = rest_of_line_from n cstr ls (Some k)"
    using Suc assms by (auto simp: nchan_get_rest_of_line_in_cstr_def)
  then show ?thesis using rest_of_line_stuck [OF assms(1-3) k(2,3)] by simp
qed (simp add: nchan_get_rest_of_line_in_cstr_def)

lemma rest_of_line_returns:
  assumes ls: "NL \<notin> set ls" "CR \<notin> set ls" "ls \<noteq> []"
    and no: "\<nexists>first. strstr cstr ls = Some first \<and> 0 < first \<and> cstr ! (first - 1) \<noteq> NL \<and> NL \<in> set cstr"
  shows "nchan_get_rest_of_line_in_cstr (Suc (Suc 0)) cstr ls \<noteq> None"
proof (cases "strstr cstr ls")
  case (Some first)
  then have ne: "cstr \<noteq> []" using ls(3) by (auto simp: strstr_Some)
  show ?thesis
  proof (cases "first = 0 \<or> cstr ! (first - 1) = NL")
    case True
    then show ?thesis using rest_of_line_value [OF Some True ls(1,2) ne] by simp
  next
    case False
    with no Some have "memchr NL cstr = None" by (auto simp: memchr_None)
    with False Some ne show ?thesis by (simp add: nchan_get_rest_of_line_in_cstr_def)
  qed
qed (cases "cstr = []", auto simp: nchan_get_rest_of_line_in_cstr_def)

text \<open>
  Looking in a reply for the line that starts with a given text.  If the first occurrence of the text is at the start
  of a line, the rest of that line is found, without the end of the line.  If the first occurrence is within a line and the
  reply has an end of line, the loop never ends, whatever the lines after it are: it looks from the start of the reply
  again and again.  In all other cases it returns.
\<close>

theorem line_lookup:
  assumes ls: "NL \<notin> set ls" "CR \<notin> set ls" "ls \<noteq> []"
  shows "((\<forall>fuel. nchan_get_rest_of_line_in_cstr fuel cstr ls = None) \<longleftrightarrow>
      (\<exists>first. strstr cstr ls = Some first \<and> 0 < first \<and> cstr ! (first - 1) \<noteq> NL \<and> NL \<in> set cstr))
    \<and> (cstr = before @ ls @ rest @ eol @ after \<and> (eol = [NL] \<or> eol = [CR, NL]) \<and> strstr cstr ls = Some (length before)
        \<and> (before = [] \<or> last before = NL) \<and> NL \<notin> set rest \<and> (rest = [] \<or> last rest \<noteq> CR)
        \<longrightarrow> nchan_get_rest_of_line_in_cstr (Suc fuel) cstr ls = Some (True, Some rest))"
proof (intro conjI impI)
  show "(\<forall>fuel. nchan_get_rest_of_line_in_cstr fuel cstr ls = None) \<longleftrightarrow>
      (\<exists>first. strstr cstr ls = Some first \<and> 0 < first \<and> cstr ! (first - 1) \<noteq> NL \<and> NL \<in> set cstr)"
    (is "?stuck \<longleftrightarrow> ?inside")
  proof
    assume ?stuck
    then have "nchan_get_rest_of_line_in_cstr (Suc (Suc 0)) cstr ls = None" by blast
    with rest_of_line_returns [OF ls, of cstr] show ?inside by argo
  qed (elim exE conjE, intro allI, rule rest_of_line_hangs)
qed (elim conjE, rule rest_of_line_found [OF ls])

definition sample_info :: string where
  "sample_info = ''loading:0'' @ [CR, NL] @ ''async_loading:1'' @ [CR, NL] @ ''role:master'' @ [CR, NL]"

theorem line_lookup_witness:
  "(\<forall>fuel. nchan_get_rest_of_line_in_cstr fuel sample_info ''loading:1'' = None)
    \<and> nchan_get_rest_of_line_in_cstr 1 sample_info ''role:'' = Some (True, Some ''master'')"
proof -
  have 1: "strstr sample_info ''loading:1'' = Some 17" and 2: "strstr sample_info ''role:'' = Some 28" by code_simp+
  have 3: "sample_info = (''loading:0'' @ [CR, NL] @ ''async_loading:1'' @ [CR, NL]) @ ''role:'' @ ''master'' @ [CR, NL] @ []"
    by (simp add: sample_info_def)
  have 4: "\<not> (0::nat) < 0" "CR \<noteq> NL" "NL \<in> set sample_info" "sample_info ! 16 \<noteq> NL" by (simp_all add: sample_info_def CR_def NL_def)
  show ?thesis
    using line_lookup [of "''loading:1''" sample_info]
      line_lookup [of "''role:''" sample_info "''loading:0'' @ [CR, NL] @ ''async_loading:1'' @ [CR, NL]" "''master''" "[CR, NL]" "[]" 0]
      1 2 3 4 by (simp add: NL_def CR_def)
qed

end
