(* ===== verification/Cluster_Parser.thy ===== *)
theory Cluster_Parser
  imports Str_Scan Msg_Text
begin

text \<open>
  \<^verbatim>\<open>store/redis/redis_nodeset_parser.c\<close>: the replies of a Redis server about its replicas and its cluster.

  The static arrays for the results are lists; a write outside of them is a fault.  \<^verbatim>\<open>ngx_atoi\<close> is nginx's, its
  \<^verbatim>\<open>NGX_ERROR\<close> is -1 also where it is stored as a number.  The parameters of the node's own connection are the argument
  \<open>own\<close>; \<open>rcp\<close> is the local variable for those of another, which is not initialised.  The number of rounds of the loops over replies is bounded by fuel; \<open>None\<close>
  is a fault or that it is used up.
\<close>

definition MAX_CLUSTER_NODE_PARSED_LINES :: nat where "MAX_CLUSTER_NODE_PARSED_LINES = 512"
definition MAX_NODE_SLAVES_PARSED :: nat where "MAX_NODE_SLAVES_PARSED = 512"

record redis_slot_range =
  sr_min :: uint16
  sr_max :: uint16

record redis_connect_params =
  rcp_hostname :: string
  rcp_peername :: string
  rcp_port :: int
  rcp_username :: string
  rcp_password :: string
  rcp_db :: int
  rcp_use_tls :: int
  rcp_forced_role :: int

record cluster_nodes_line =
  cl_line :: string
  cl_id :: string
  cl_address :: string
  cl_hostname :: string
  cl_port :: int
  cl_flags :: string
  cl_master_id :: string
  cl_ping_sent :: string
  cl_pong_recv :: string
  cl_config_epoch :: string
  cl_link_state :: string
  cl_slots :: string
  cl_slot_ranges_count :: nat
  cl_connected :: bool
  cl_master :: bool
  cl_noaddr :: bool
  cl_failed :: bool
  cl_maybe_failed :: bool
  cl_handshake :: bool
  cl_self :: bool

definition atoi_value :: "ngx_env \<Rightarrow> string \<Rightarrow> int" where
  "atoi_value e s = (case ngx_atoi e s of None \<Rightarrow> -1 | Some n \<Rightarrow> n)"

text \<open>
  The next slot or range of slots.  \<open>cur\<close> is the offset in the string; the macro \<^verbatim>\<open>nchan_scan_str\<close> leaves it behind the
  separator, or one past the end.
\<close>

function nodeset_parser_scan_cluster_nodes_slots_string ::
  "ngx_env \<Rightarrow> string \<Rightarrow> nat option \<Rightarrow> (nat \<times> redis_slot_range) option" where
  "nodeset_parser_scan_cluster_nodes_slots_string e str cur =
     (let c = (case cur of None \<Rightarrow> 0 | Some c \<Rightarrow> c)
      in if cur \<noteq> None \<and> c \<ge> length str then None
         else if length str = 0 then None
         else
           let len = (case memchr (CHR '' '') (drop c str) of None \<Rightarrow> length str - c | Some k \<Rightarrow> k);
               slot = take len (drop c str);
               next = c + len + 1
           in if slot \<noteq> [] \<and> slot ! 0 = CHR ''['' then nodeset_parser_scan_cluster_nodes_slots_string e str (Some next)
              else
                let (min_str, max_str) =
                      (case memchr (CHR ''-'') slot of
                         None \<Rightarrow> (slot, slot)
                       | Some d \<Rightarrow> (take d slot, drop (d + 1) slot))
                in Some (next, \<lparr>sr_min = of_int (atoi_value e min_str), sr_max = of_int (atoi_value e max_str)\<rparr>))"
  by pat_completeness auto
termination
  by (relation "measure (\<lambda>(e, str, cur). length str + 1 - (case cur of None \<Rightarrow> 0 | Some c \<Rightarrow> c))")
    (auto simp: memchr_Some split: option.splits)

declare nodeset_parser_scan_cluster_nodes_slots_string.simps [simp del]

lemma slots_string_advances:
  "nodeset_parser_scan_cluster_nodes_slots_string e str cur = Some (c, r) \<Longrightarrow>
     c > (case cur of None \<Rightarrow> 0 | Some c \<Rightarrow> c) \<and> c \<le> length str + 1 \<and> (case cur of None \<Rightarrow> 0 | Some c \<Rightarrow> c) \<le> length str"
proof (induction e str cur rule: nodeset_parser_scan_cluster_nodes_slots_string.induct)
  case (1 e str cur)
  let ?c = "case cur of None \<Rightarrow> 0 | Some c \<Rightarrow> c"
  let ?len = "case memchr (CHR '' '') (drop ?c str) of None \<Rightarrow> length str - ?c | Some k \<Rightarrow> k"
  let ?slot = "take ?len (drop ?c str)"
  have c: "?c \<le> length str" "?c + ?len \<le> length str"
    using "1.prems" by (subst (asm) nodeset_parser_scan_cluster_nodes_slots_string.simps;
      force simp: memchr_Some Let_def split: option.splits if_splits)+
  show ?case
  proof (cases "?slot \<noteq> [] \<and> ?slot ! 0 = CHR ''[''")
    case True
    then have "nodeset_parser_scan_cluster_nodes_slots_string e str (Some (?c + ?len + 1)) = Some (c, r)"
      using "1.prems" by (subst (asm) nodeset_parser_scan_cluster_nodes_slots_string.simps) (auto simp: Let_def split: if_splits)
    then show ?thesis using "1.IH" [OF refl _ _ refl refl refl True] "1.prems" c
      by (subst (asm) (3) nodeset_parser_scan_cluster_nodes_slots_string.simps) (auto simp: Let_def split: if_splits)
  next
    case False
    then have "c = ?c + ?len + 1"
      using "1.prems" by (subst (asm) nodeset_parser_scan_cluster_nodes_slots_string.simps) (auto simp: Let_def split: if_splits prod.splits)
    with c show ?thesis by simp
  qed
qed

function slots_loop ::
  "ngx_env \<Rightarrow> nat \<Rightarrow> string \<Rightarrow> nat \<Rightarrow> nat option \<Rightarrow> redis_slot_range list \<Rightarrow> (bool \<times> redis_slot_range list) option" where
  "slots_loop e cap slots n cur ranges =
     (case nodeset_parser_scan_cluster_nodes_slots_string e slots cur of
        None \<Rightarrow> Some (length ranges = n, ranges)
      | Some (c, r) \<Rightarrow>
          if length ranges > n then Some (False, ranges)
          else if length ranges \<ge> cap then None
          else slots_loop e cap slots n (Some c) (ranges @ [r]))"
  by pat_completeness auto
termination
  by (relation "measure (\<lambda>(e, cap, slots, n, cur, ranges). length slots + 2 - (case cur of None \<Rightarrow> 0 | Some c \<Rightarrow> c))")
    (auto dest: slots_string_advances split: option.splits)

declare slots_loop.simps [simp del]

text \<open>\<open>cap\<close> is the length of the array for the ranges.\<close>

definition parse_cluster_node_slots ::
  "ngx_env \<Rightarrow> nat \<Rightarrow> cluster_nodes_line \<Rightarrow> (bool \<times> redis_slot_range list) option" where
  "parse_cluster_node_slots e cap l = slots_loop e cap (cl_slots l) (cl_slot_ranges_count l) None []"

function count_slot_ranges :: "ngx_env \<Rightarrow> string \<Rightarrow> nat option \<Rightarrow> nat \<Rightarrow> nat" where
  "count_slot_ranges e slots cur i =
     (case nodeset_parser_scan_cluster_nodes_slots_string e slots cur of
        None \<Rightarrow> i
      | Some (c, r) \<Rightarrow> count_slot_ranges e slots (Some c) (i + 1))"
  by pat_completeness auto
termination
  by (relation "measure (\<lambda>(e, slots, cur, i). length slots + 2 - (case cur of None \<Rightarrow> 0 | Some c \<Rightarrow> c))")
    (auto dest: slots_string_advances split: option.splits)

declare count_slot_ranges.simps [simp del]

text \<open>
  One line of the reply to \<^verbatim>\<open>CLUSTER NODES\<close>.  \<open>l0\<close> is what the variable holds before: the fields \<^verbatim>\<open>failed\<close>, \<^verbatim>\<open>hostname\<close> and
  \<^verbatim>\<open>port\<close> are not always set.  The outer \<open>option\<close> is a fault; the inner one is \<^verbatim>\<open>NULL\<close>.  The byte before the new position is
  part of the text and so never 0.
\<close>

definition set_address :: "ngx_env \<Rightarrow> cluster_nodes_line \<Rightarrow> cluster_nodes_line option" where
  "set_address e l = do {
     at \<leftarrow> memrchr (cl_address l) (CHR ''@'') (length (cl_address l));
     let l = (case at of None \<Rightarrow> l | Some k \<Rightarrow> l\<lparr>cl_address := take k (cl_address l)\<rparr>);
     colon \<leftarrow> memrchr (cl_address l) (CHR '':'') (length (cl_address l));
     Some (case colon of
        None \<Rightarrow> l
      | Some k \<Rightarrow> l\<lparr>cl_hostname := take k (cl_address l), cl_port := atoi_value e (drop (k + 1) (cl_address l))\<rparr>)
   }"

definition line_fields :: "ngx_env \<Rightarrow> string \<Rightarrow> cluster_nodes_line \<Rightarrow> cluster_nodes_line option" where
  "line_fields e rest_line l0 = do {
     let l = l0\<lparr>cl_line := rest_line\<rparr>;
     let (f_id, rest_line) = nchan_scan_until_chr_on_line rest_line (CHR '' '');
     let (f_address, rest_line) = nchan_scan_until_chr_on_line rest_line (CHR '' '');
     let (f_flags, rest_line) = nchan_scan_until_chr_on_line rest_line (CHR '' '');
     let (f_master_id, rest_line) = nchan_scan_until_chr_on_line rest_line (CHR '' '');
     let (f_ping_sent, rest_line) = nchan_scan_until_chr_on_line rest_line (CHR '' '');
     let (f_pong_recv, rest_line) = nchan_scan_until_chr_on_line rest_line (CHR '' '');
     let (f_config_epoch, rest_line) = nchan_scan_until_chr_on_line rest_line (CHR '' '');
     let (f_link_state, rest_line) = nchan_scan_until_chr_on_line rest_line (CHR '' '');
     let l = l\<lparr>cl_id := f_id, cl_address := f_address, cl_flags := f_flags, cl_master_id := f_master_id,
       cl_ping_sent := f_ping_sent, cl_pong_recv := f_pong_recv, cl_config_epoch := f_config_epoch, cl_link_state := f_link_state\<rparr>;
     master \<leftarrow> nchan_ngx_str_char_substr f_flags ''master'';
     let l = (if master
       then l\<lparr>cl_slots := rest_line, cl_master := True, cl_slot_ranges_count := count_slot_ranges e rest_line None 0\<rparr>
       else l\<lparr>cl_slots := [], cl_slot_ranges_count := 0, cl_master := False\<rparr>);
     maybe_failed \<leftarrow> nchan_ngx_str_char_substr f_flags ''fail?'';
     failed \<leftarrow> (if \<not> maybe_failed then nchan_ngx_str_char_substr f_flags ''fail'' else Some (cl_failed l));
     self \<leftarrow> nchan_ngx_str_char_substr f_flags ''myself'';
     noaddr \<leftarrow> nchan_ngx_str_char_substr f_flags ''noaddr'';
     handshake \<leftarrow> nchan_ngx_str_char_substr f_flags ''handshake'';
     let l = l\<lparr>cl_maybe_failed := maybe_failed, cl_failed := failed, cl_self := self, cl_noaddr := noaddr,
       cl_handshake := handshake, cl_connected := (f_link_state \<noteq> [] \<and> f_link_state ! 0 = CHR ''c'')\<rparr>;
     set_address e l
   }"

definition nodeset_parser_scan_cluster_nodes_line ::
  "ngx_env \<Rightarrow> string \<Rightarrow> cluster_nodes_line \<Rightarrow> (string \<times> cluster_nodes_line) option option" where
  "nodeset_parser_scan_cluster_nodes_line e line l0 =
     (if line = [] then Some None
      else do {
        (rest_line, max) \<leftarrow> nchan_scan_split_by_chr (line @ [NUL]) (length line) NL;
        rest_line \<leftarrow> rest_line;
        l \<leftarrow> line_fields e rest_line l0;
        Some (Some (takeWhile (\<lambda>c. c \<noteq> NUL) max, l))
      })"

fun slaves_loop ::
  "nat \<Rightarrow> ngx_env \<Rightarrow> redis_connect_params \<Rightarrow> redis_connect_params \<Rightarrow> string \<Rightarrow> nat \<Rightarrow> redis_connect_params list
     \<Rightarrow> (nat \<times> redis_connect_params list) option" where
  "slaves_loop 0 e own rcp info i parsed = None"
| "slaves_loop (Suc fuel) e own rcp info i parsed = do {
     (found, line) \<leftarrow> nchan_get_rest_of_line_in_cstr (Suc fuel) info (''slave'' @ dec_nat i @ '':'');
     if \<not> found then Some (i, parsed)
     else do {
       line \<leftarrow> line;
       let (_, line) = nchan_scan_until_chr_on_line line (CHR ''='');
       let (hostname, line) = nchan_scan_until_chr_on_line line (CHR '','');
       let (_, line) = nchan_scan_until_chr_on_line line (CHR ''='');
       let (port, line) = nchan_scan_until_chr_on_line line (CHR '','');
       let rcp = rcp\<lparr>rcp_hostname := hostname, rcp_port := atoi_value e port, rcp_password := rcp_password own,
         rcp_username := [], rcp_peername := [], rcp_db := rcp_db own\<rparr>;
       slaves_loop fuel e own rcp info (i + 1) (if i < MAX_NODE_SLAVES_PARSED then parsed @ [rcp] else parsed)
     }
   }"

text \<open>The number of replicas, and the array with their parameters.\<close>

definition parse_info_slaves ::
  "nat \<Rightarrow> ngx_env \<Rightarrow> redis_connect_params \<Rightarrow> redis_connect_params \<Rightarrow> string \<Rightarrow> (nat \<times> redis_connect_params list) option" where
  "parse_info_slaves fuel e own rcp info = slaves_loop fuel e own rcp info 0 []"

definition parse_info_master ::
  "nat \<Rightarrow> ngx_env \<Rightarrow> redis_connect_params \<Rightarrow> redis_connect_params \<Rightarrow> string \<Rightarrow> redis_connect_params option option" where
  "parse_info_master fuel e own rcp info = do {
     (found, host) \<leftarrow> nchan_get_rest_of_line_in_cstr fuel info ''master_host:'';
     if \<not> found then Some None
     else do {
       host \<leftarrow> host;
       (found, port) \<leftarrow> nchan_get_rest_of_line_in_cstr fuel info ''master_port:'';
       if \<not> found then Some None
       else do {
         port \<leftarrow> port;
         if ngx_atoi e port = None then Some None
         else Some (Some (rcp\<lparr>rcp_hostname := host, rcp_port := atoi_value e port, rcp_db := rcp_db own,
           rcp_password := rcp_password own, rcp_peername := []\<rparr>))
       }
     }
   }"

lemma scan_line_shorter:
  assumes "nodeset_parser_scan_cluster_nodes_line e line l = Some (Some (rest, l'))"
  shows "length rest < length line"
proof -
  have tw: "length (takeWhile (\<lambda>c. c \<noteq> NUL) (xs @ [NUL])) \<le> length xs" for xs
    by (induction xs) auto
  have "line \<noteq> []" using assms by (auto simp: nodeset_parser_scan_cluster_nodes_line_def)
  with assms show ?thesis
    using tw [of "drop (Suc k) line" for k] scan_split_whole [of line "[NUL]" NL]
    by (auto simp: nodeset_parser_scan_cluster_nodes_line_def split: Option.bind_splits option.splits)
      (metis diff_less le_less_trans length_greater_0_conv tw zero_less_Suc length_drop)
qed

function cluster_nodes_loop ::
  "ngx_env \<Rightarrow> string \<Rightarrow> cluster_nodes_line \<Rightarrow> cluster_nodes_line list \<Rightarrow> cluster_nodes_line list option" where
  "cluster_nodes_loop e line l parsed = do {
     r \<leftarrow> nodeset_parser_scan_cluster_nodes_line e line l;
     case r of
       None \<Rightarrow> Some parsed
     | Some (line, l) \<Rightarrow>
         if length parsed > MAX_CLUSTER_NODE_PARSED_LINES then cluster_nodes_loop e line l parsed
         else if length parsed \<ge> MAX_CLUSTER_NODE_PARSED_LINES then None
         else cluster_nodes_loop e line l (parsed @ [l])
   }"
  by auto
termination
  by (relation "measure (\<lambda>(e, line, l, parsed). length line)") (auto dest: scan_line_shorter)

declare cluster_nodes_loop.simps [simp del]

text \<open>\<open>l0\<close> is the variable for a line, which is not initialised.\<close>

definition parse_cluster_nodes ::
  "ngx_env \<Rightarrow> cluster_nodes_line \<Rightarrow> string \<Rightarrow> cluster_nodes_line list option" where
  "parse_cluster_nodes e l0 clusternodes = cluster_nodes_loop e clusternodes l0 []"

subsection \<open>The slots of a node\<close>

lemma dec_nat_digits: "c \<in> set (dec_nat n) \<Longrightarrow> 48 \<le> (of_char c :: nat) \<and> (of_char c :: nat) \<le> 57"
  using sample_atoi [of n] by (auto simp: list_all_iff)

lemma dec_nat_chars: "dec_nat n \<noteq> []" "CHR '' '' \<notin> set (dec_nat n)" "CHR ''-'' \<notin> set (dec_nat n)" "CHR ''['' \<notin> set (dec_nat n)"
    "CHR '':'' \<notin> set (dec_nat n)" "CHR ''@'' \<notin> set (dec_nat n)" "NL \<notin> set (dec_nat n)"
  using sample_atoi [of n] by (auto dest!: dec_nat_digits simp: NL_def)

text \<open>What Redis prints: slots and ranges of slots, and slots that are being moved, in brackets.\<close>

datatype slot_token = Slots redis_slot_range | Moving string

definition range_text :: "redis_slot_range \<Rightarrow> string" where
  "range_text r = (if sr_min r = sr_max r then dec_nat (unat (sr_min r))
     else dec_nat (unat (sr_min r)) @ ''-'' @ dec_nat (unat (sr_max r)))"

fun token_text :: "slot_token \<Rightarrow> string" where
  "token_text (Slots r) = range_text r"
| "token_text (Moving s) = CHR ''['' # s"

definition token_ok :: "slot_token \<Rightarrow> bool" where
  "token_ok t \<longleftrightarrow> CHR '' '' \<notin> set (token_text t) \<and> NL \<notin> set (token_text t)"

fun token_ranges :: "slot_token list \<Rightarrow> redis_slot_range list" where
  "token_ranges [] = []"
| "token_ranges (Slots r # ts) = r # token_ranges ts"
| "token_ranges (Moving s # ts) = token_ranges ts"

definition slots_text :: "slot_token list \<Rightarrow> string" where
  "slots_text ts = join '' '' (map token_text ts)"

abbreviation "scan_slots \<equiv> nodeset_parser_scan_cluster_nodes_slots_string"

lemma token_text_nonempty: "token_text t \<noteq> []"
  by (cases t) (auto simp: range_text_def dec_nat_chars)

lemma scan_slots_end: "length str \<le> c \<Longrightarrow> scan_slots e str (Some c) = None"
  by (subst nodeset_parser_scan_cluster_nodes_slots_string.simps) simp

lemma scan_slots_start: "scan_slots e str None = scan_slots e str (Some 0)"
  by (subst (1 2) nodeset_parser_scan_cluster_nodes_slots_string.simps) (simp add: Let_def)

lemma atoi_value_dec: "\<lbrakk>ngx_env_ok e; n < 2 ^ 63\<rbrakk> \<Longrightarrow> atoi_value e (dec_nat n) = int n"
  by (simp add: atoi_value_def ngx_env_ok_def)

lemma unat16: "unat (x :: uint16) < 2 ^ 63"
  using unsigned_less [of x, where 'a = nat] by simp

definition read_token :: "ngx_env \<Rightarrow> string \<Rightarrow> redis_slot_range" where
  "read_token e slot = (case memchr (CHR ''-'') slot of
     None \<Rightarrow> \<lparr>sr_min = of_int (atoi_value e slot), sr_max = of_int (atoi_value e slot)\<rparr>
   | Some d \<Rightarrow> \<lparr>sr_min = of_int (atoi_value e (take d slot)), sr_max = of_int (atoi_value e (drop (d + 1) slot))\<rparr>)"

lemma read_token_text: "ngx_env_ok e \<Longrightarrow> read_token e (range_text r) = r"
proof -
  assume e: "ngx_env_ok e"
  have v: "of_int (atoi_value e (dec_nat (unat (x :: uint16)))) = x" for x
    using atoi_value_dec [OF e unat16, of x] by simp
  show ?thesis
  proof (cases "sr_min r = sr_max r")
    case True
    then show ?thesis using v dec_nat_chars(3) by (simp add: read_token_def range_text_def memchr_def)
  next
    case False
    then show ?thesis using v memchr_append [OF dec_nat_chars(3), of "unat (sr_min r)" "dec_nat (unat (sr_max r))"]
      by (simp add: read_token_def range_text_def)
  qed
qed

text \<open>One token at the position: \<open>rest\<close> is what follows.\<close>

lemma scan_slots_token:
  assumes "c < length str" and "drop c str = slot @ rest" and "slot \<noteq> []" "CHR '' '' \<notin> set slot" "rest = [] \<or> rest ! 0 = CHR '' ''"
  shows "scan_slots e str (Some c) = (if slot ! 0 = CHR ''['' then scan_slots e str (Some (c + length slot + 1))
     else Some (c + length slot + 1, read_token e slot))"
proof -
  have len: "(case memchr (CHR '' '') (drop c str) of None \<Rightarrow> length str - c | Some k \<Rightarrow> k) = length slot"
  proof (cases rest)
    case Nil
    then have "length str - c = length slot" using assms(2) by (metis append_Nil2 length_drop)
    with Nil assms show ?thesis by (simp add: memchr_def)
  next
    case (Cons x xs)
    then show ?thesis using assms memchr_append [OF assms(4), of xs] by simp
  qed
  have slot: "take (length slot) (drop c str) = slot" using assms(2) by simp
  have c: "\<not> length str \<le> c" "str \<noteq> []" using assms(1) by auto
  show ?thesis
    unfolding nodeset_parser_scan_cluster_nodes_slots_string.simps [of e str "Some c"] read_token_def
    by (simp only: Let_def option.case len slot c assms(3) simp_thms if_False list.size length_0_conv split: option.split prod.split) simp
qed

lemma slots_text_Cons:
  "slots_text (t # ts) = token_text t @ (if ts = [] then [] else CHR '' '' # slots_text ts)"
  by (cases ts) (simp_all add: slots_text_def)

text \<open>The position after a token is the start of the next one, or past the end.\<close>

definition at_tokens :: "string \<Rightarrow> nat \<Rightarrow> slot_token list \<Rightarrow> bool" where
  "at_tokens str c ts \<longleftrightarrow> (if ts = [] then length str \<le> c else c < length str \<and> drop c str = slots_text ts) \<and> (\<forall>t \<in> set ts. token_ok t)"

lemma at_tokens_next:
  assumes "at_tokens str c (t # ts)" shows "at_tokens str (c + length (token_text t) + 1) ts"
proof -
  let ?n = "length (token_text t)"
  have d: "drop c str = token_text t @ (if ts = [] then [] else CHR '' '' # slots_text ts)" "c < length str"
    using assms by (simp_all add: at_tokens_def slots_text_Cons)
  have "drop (c + ?n + 1) str = drop (?n + 1) (drop c str)" by (simp add: add.commute add.left_commute)
  then have dd: "drop (c + ?n + 1) str = (if ts = [] then [] else slots_text ts)" unfolding d by auto
  moreover have "length str = c + ?n + (if ts = [] then 0 else 1 + length (slots_text ts))"
    using arg_cong [OF d(1), of length] d(2) by auto
  moreover have "ts \<noteq> [] \<Longrightarrow> slots_text ts \<noteq> []" by (cases ts) (auto simp: slots_text_Cons token_text_nonempty)
  ultimately show ?thesis using assms by (auto simp: at_tokens_def)
qed

lemma scan_slots_tokens:
  assumes e: "ngx_env_ok e"
  shows "at_tokens str c ts \<Longrightarrow> (case scan_slots e str (Some c) of
     None \<Rightarrow> token_ranges ts = []
   | Some (c', r) \<Rightarrow> \<exists>ts'. at_tokens str c' ts' \<and> token_ranges ts = r # token_ranges ts' \<and> length ts' < length ts)"
proof (induction ts arbitrary: c)
  case Nil
  then show ?case by (simp add: at_tokens_def scan_slots_end)
next
  case (Cons t ts)
  let ?rest = "if ts = [] then [] else CHR '' '' # slots_text ts"
  have d: "drop c str = token_text t @ ?rest" "c < length str" "CHR '' '' \<notin> set (token_text t)"
    using Cons.prems by (simp_all add: at_tokens_def slots_text_Cons token_ok_def)
  have step: "scan_slots e str (Some c) = (if token_text t ! 0 = CHR ''['' then scan_slots e str (Some (c + length (token_text t) + 1))
     else Some (c + length (token_text t) + 1, read_token e (token_text t)))"
    by (rule scan_slots_token [OF d(2,1) token_text_nonempty d(3)]) auto
  note nxt = at_tokens_next [OF Cons.prems]
  show ?case
  proof (cases t)
    case (Slots r)
    have "range_text r ! 0 \<in> set (dec_nat (unat (sr_min r)))"
      using dec_nat_chars(1) [of "unat (sr_min r)"] by (auto simp: range_text_def nth_append)
    then have "token_text t ! 0 \<noteq> CHR ''[''" using dec_nat_chars(4) Slots by fastforce
    with step Slots nxt show ?thesis using read_token_text [OF e] by (auto intro: exI [of _ ts])
  next
    case (Moving s)
    then have "scan_slots e str (Some c) = scan_slots e str (Some (c + length (token_text t) + 1))" using step by simp
    with Cons.IH [OF nxt] Moving show ?thesis by (auto split: option.splits)
  qed
qed

lemma at_tokens_slots_text: "\<forall>t \<in> set ts. token_ok t \<Longrightarrow> at_tokens (slots_text ts) 0 ts"
  by (cases ts) (auto simp: at_tokens_def slots_text_Cons token_text_nonempty slots_text_def [of "[]"])

lemma count_slot_ranges_tokens:
  assumes e: "ngx_env_ok e"
  shows "at_tokens str c ts \<Longrightarrow> count_slot_ranges e str (Some c) i = i + length (token_ranges ts)"
proof (induction ts arbitrary: c i rule: length_induct)
  case (1 ts)
  show ?case
  proof (cases "scan_slots e str (Some c)")
    case None
    then show ?thesis using scan_slots_tokens [OF e "1.prems"] by (subst count_slot_ranges.simps) simp
  next
    case (Some a)
    obtain c' r where a: "a = (c', r)" by force
    then obtain ts' where ts': "at_tokens str c' ts'" "token_ranges ts = r # token_ranges ts'" "length ts' < length ts"
      using scan_slots_tokens [OF e "1.prems"] Some by auto
    with 1 Some a show ?thesis by (subst count_slot_ranges.simps) simp
  qed
qed

lemma slots_loop_tokens:
  assumes e: "ngx_env_ok e" and n: "n \<le> cap"
  shows "\<lbrakk>at_tokens str c ts; length ranges + length (token_ranges ts) = n\<rbrakk>
    \<Longrightarrow> slots_loop e cap str n (Some c) ranges = Some (True, ranges @ token_ranges ts)"
proof (induction ts arbitrary: c ranges rule: length_induct)
  case (1 ts)
  show ?case
  proof (cases "scan_slots e str (Some c)")
    case None
    then show ?thesis using scan_slots_tokens [OF e "1.prems"(1)] "1.prems"(2) by (subst slots_loop.simps) simp
  next
    case (Some a)
    obtain c' r where a: "a = (c', r)" by force
    then obtain ts' where ts': "at_tokens str c' ts'" "token_ranges ts = r # token_ranges ts'" "length ts' < length ts"
      using scan_slots_tokens [OF e "1.prems"(1)] Some by auto
    with 1 Some a n show ?thesis by (subst slots_loop.simps) simp
  qed
qed

text \<open>Reading the slots of a node, as many as were counted, gives what was printed.\<close>

lemma slots_roundtrip:
  assumes e: "ngx_env_ok e" and ts: "\<forall>t \<in> set ts. token_ok t"
  shows "count_slot_ranges e (slots_text ts) None 0 = length (token_ranges ts)"
    and "length (token_ranges ts) \<le> cap \<Longrightarrow> slots_loop e cap (slots_text ts) (length (token_ranges ts)) None [] = Some (True, token_ranges ts)"
proof -
  note at = at_tokens_slots_text [OF ts]
  have "count_slot_ranges e (slots_text ts) None 0 = count_slot_ranges e (slots_text ts) (Some 0) 0"
    by (subst (1 2) count_slot_ranges.simps) (simp add: scan_slots_start)
  then show "count_slot_ranges e (slots_text ts) None 0 = length (token_ranges ts)"
    using count_slot_ranges_tokens [OF e at] by simp
  have "slots_loop e cap (slots_text ts) (length (token_ranges ts)) None [] = slots_loop e cap (slots_text ts) (length (token_ranges ts)) (Some 0) []"
    by (subst (1 2) slots_loop.simps) (simp add: scan_slots_start)
  then show "slots_loop e cap (slots_text ts) (length (token_ranges ts)) None [] = Some (True, token_ranges ts)" if "length (token_ranges ts) \<le> cap"
    using slots_loop_tokens [OF e that at] by simp
qed

subsection \<open>The nodes of a cluster\<close>

text \<open>A node as Redis describes it, and the line it prints.\<close>

record node_desc =
  d_id :: string
  d_host :: string
  d_port :: nat
  d_cport :: "string option"
  d_flags :: string
  d_master_id :: string
  d_ping :: string
  d_pong :: string
  d_epoch :: string
  d_link :: string
  d_slots :: "slot_token list"

definition host_port :: "node_desc \<Rightarrow> string" where
  "host_port d = d_host d @ '':'' @ dec_nat (d_port d)"

definition address_text :: "node_desc \<Rightarrow> string" where
  "address_text d = host_port d @ (case d_cport d of None \<Rightarrow> [] | Some c \<Rightarrow> CHR ''@'' # c)"

definition line_text :: "node_desc \<Rightarrow> string" where
  "line_text d = d_id d @ '' '' @ address_text d @ '' '' @ d_flags d @ '' '' @ d_master_id d @ '' '' @ d_ping d @ '' ''
     @ d_pong d @ '' '' @ d_epoch d @ '' '' @ d_link d @ (if d_slots d = [] then [] else CHR '' '' # slots_text (d_slots d))"

definition is_word :: "string \<Rightarrow> bool" where
  "is_word s \<longleftrightarrow> CHR '' '' \<notin> set s \<and> NL \<notin> set s \<and> NUL \<notin> set s"

definition desc_ok :: "node_desc \<Rightarrow> bool" where
  "desc_ok d \<longleftrightarrow> list_all is_word [d_id d, address_text d, d_flags d, d_master_id d, d_ping d, d_pong d, d_epoch d, d_link d]
     \<and> (\<forall>t \<in> set (d_slots d). token_ok t \<and> is_word (token_text t)) \<and> d_port d < 2 ^ 63 \<and> CHR ''@'' \<notin> set (d_host d)
     \<and> (\<forall>c. d_cport d = Some c \<longrightarrow> CHR ''@'' \<notin> set c)"

definition expected_line :: "cluster_nodes_line \<Rightarrow> node_desc \<Rightarrow> cluster_nodes_line" where
  "expected_line l0 d = (let master = sublist ''master'' (d_flags d) in
     \<lparr>cl_line = line_text d, cl_id = d_id d, cl_address = host_port d, cl_hostname = d_host d, cl_port = int (d_port d),
      cl_flags = d_flags d, cl_master_id = d_master_id d, cl_ping_sent = d_ping d, cl_pong_recv = d_pong d,
      cl_config_epoch = d_epoch d, cl_link_state = d_link d,
      cl_slots = (if master then slots_text (d_slots d) else []),
      cl_slot_ranges_count = (if master then length (token_ranges (d_slots d)) else 0),
      cl_connected = prefix ''c'' (d_link d), cl_master = master, cl_noaddr = sublist ''noaddr'' (d_flags d),
      cl_failed = (if sublist ''fail?'' (d_flags d) then cl_failed l0 else sublist ''fail'' (d_flags d)),
      cl_maybe_failed = sublist ''fail?'' (d_flags d), cl_handshake = sublist ''handshake'' (d_flags d),
      cl_self = sublist ''myself'' (d_flags d)\<rparr>)"

lemma set_address_ok:
  assumes e: "ngx_env_ok e" and d: "desc_ok d" and la: "cl_address l = address_text d"
  shows "set_address e l =
     Some (l\<lparr>cl_address := host_port d, cl_hostname := d_host d, cl_port := int (d_port d)\<rparr>)"
proof -
  have hp: "CHR ''@'' \<notin> set (host_port d)" using d dec_nat_chars(6) by (auto simp: host_port_def desc_ok_def)
  have colon: "memrchr (host_port d) (CHR '':'') (length (host_port d)) = Some (Some (length (d_host d)))"
    using memrchr_append [OF dec_nat_chars(5), of "d_host d" "d_port d"] by (simp add: host_port_def)
  have port: "atoi_value e (dec_nat (d_port d)) = int (d_port d)" using atoi_value_dec [OF e] d by (simp add: desc_ok_def)
  have at: "memrchr (address_text d) (CHR ''@'') (length (address_text d)) =
     Some (case d_cport d of None \<Rightarrow> None | Some c \<Rightarrow> Some (length (host_port d)))"
  proof (cases "d_cport d")
    case None
    then show ?thesis using memrchr_none [OF hp] by (simp add: address_text_def)
  next
    case (Some c)
    then have "CHR ''@'' \<notin> set c" using d by (simp add: desc_ok_def)
    from memrchr_append [OF this, of "host_port d"] Some show ?thesis by (simp add: address_text_def)
  qed
  have tk: "take (length (d_host d)) (host_port d) = d_host d" "drop (Suc (length (d_host d))) (host_port d) = dec_nat (d_port d)"
    by (simp_all add: host_port_def)
  show ?thesis
  proof (cases "d_cport d")
    case None
    then have "address_text d = host_port d" by (simp add: address_text_def)
    with None at colon port tk la show ?thesis by (cases l) (simp add: set_address_def)
  next
    case (Some c)
    then have "take (length (host_port d)) (address_text d) = host_port d" by (simp add: address_text_def)
    with Some at colon port tk la show ?thesis by (simp add: set_address_def)
  qed
qed

lemma link_connected: "(s \<noteq> [] \<and> s ! 0 = CHR ''c'') = prefix ''c'' s"
  by (cases s) auto

lemma line_fields_ok:
  assumes e: "ngx_env_ok e" and d: "desc_ok d"
  shows "line_fields e (line_text d) l0 = Some (expected_line l0 d)"
proof -
  have w: "CHR '' '' \<notin> set (d_id d)" "CHR '' '' \<notin> set (address_text d)" "CHR '' '' \<notin> set (d_flags d)" "CHR '' '' \<notin> set (d_master_id d)"
    "CHR '' '' \<notin> set (d_ping d)" "CHR '' '' \<notin> set (d_pong d)" "CHR '' '' \<notin> set (d_epoch d)" "CHR '' '' \<notin> set (d_link d)"
    using d by (simp_all add: desc_ok_def is_word_def)
  define sl where "sl = (if d_slots d = [] then [] else CHR '' '' # slots_text (d_slots d))"
  have scan: "nchan_scan_until_chr_on_line (d_link d @ sl) (CHR '' '') = (d_link d, slots_text (d_slots d))"
    using scan_until_chr [OF w(8)] scan_until_chr_last [OF w(8)] by (auto simp: sl_def slots_text_def)
  have flags: "nchan_ngx_str_char_substr (d_flags d) ''master'' = Some (sublist ''master'' (d_flags d))"
    "nchan_ngx_str_char_substr (d_flags d) ''fail?'' = Some (sublist ''fail?'' (d_flags d))"
    "nchan_ngx_str_char_substr (d_flags d) ''fail'' = Some (sublist ''fail'' (d_flags d))"
    "nchan_ngx_str_char_substr (d_flags d) ''myself'' = Some (sublist ''myself'' (d_flags d))"
    "nchan_ngx_str_char_substr (d_flags d) ''noaddr'' = Some (sublist ''noaddr'' (d_flags d))"
    "nchan_ngx_str_char_substr (d_flags d) ''handshake'' = Some (sublist ''handshake'' (d_flags d))"
    by (simp_all add: char_substr NUL_def)
  have cnt: "count_slot_ranges e (slots_text (d_slots d)) None 0 = length (token_ranges (d_slots d))"
    using slots_roundtrip(1) [OF e, of "d_slots d"] d by (simp add: desc_ok_def)
  have ln: "line_text d = d_id d @ CHR '' '' # address_text d @ CHR '' '' # d_flags d @ CHR '' '' # d_master_id d @ CHR '' '' # d_ping d
      @ CHR '' '' # d_pong d @ CHR '' '' # d_epoch d @ CHR '' '' # (d_link d @ sl)" by (simp add: line_text_def sl_def)
  note f = scan_until_chr [OF w(1)] scan_until_chr [OF w(2)] scan_until_chr [OF w(3)] scan_until_chr [OF w(4)] scan_until_chr [OF w(5)]
    scan_until_chr [OF w(6)] scan_until_chr [OF w(7)] scan
  show ?thesis
    unfolding line_fields_def ln Let_def f prod.case flags Option.bind_lunit
    by (cases l0) (auto simp: cnt expected_line_def link_connected ln set_address_ok [OF e d] Let_def)
qed

lemma scan_line_ok:
  assumes e: "ngx_env_ok e" and d: "desc_ok d" and r: "NUL \<notin> set rest"
  shows "nodeset_parser_scan_cluster_nodes_line e (line_text d @ NL # rest) l0 = Some (Some (rest, expected_line l0 d))"
proof -
  have slots_nl: "NL \<notin> set (slots_text ts)" if "\<forall>t \<in> set ts. token_ok t" for ts
    using that by (induction ts) (auto simp: slots_text_def [of "[]"] token_ok_def slots_text_Cons NL_def)
  have nl: "NL \<notin> set (line_text d)"
    using d slots_nl [of "d_slots d"] by (auto simp: desc_ok_def is_word_def line_text_def NL_def)
  have "nchan_scan_split_by_chr ((line_text d @ NL # rest) @ [NUL]) (length (line_text d @ NL # rest)) NL =
      Some (Some (line_text d), rest @ [NUL])"
    using scan_split_whole [of "line_text d @ NL # rest" "[NUL]" NL] memchr_append [OF nl, of rest] by simp
  moreover have "takeWhile (\<lambda>c. c \<noteq> NUL) (rest @ [NUL]) = rest" using r by (subst takeWhile_append2) auto
  ultimately show ?thesis using line_fields_ok [OF e d] by (simp add: nodeset_parser_scan_cluster_nodes_line_def)
qed

fun expected_lines :: "cluster_nodes_line \<Rightarrow> node_desc list \<Rightarrow> cluster_nodes_line list" where
  "expected_lines l0 [] = []"
| "expected_lines l0 (d # ds) = expected_line l0 d # expected_lines (expected_line l0 d) ds"

definition nodes_text :: "node_desc list \<Rightarrow> string" where
  "nodes_text ds = concat (map (\<lambda>d. line_text d @ [NL]) ds)"

lemma line_text_no_nul: "desc_ok d \<Longrightarrow> NUL \<notin> set (line_text d)"
proof -
  assume d: "desc_ok d"
  have "NUL \<notin> set (slots_text ts)" if "\<forall>t \<in> set ts. is_word (token_text t)" for ts
    using that by (induction ts) (auto simp: slots_text_def [of "[]"] is_word_def slots_text_Cons NUL_def)
  from this [of "d_slots d"] d show ?thesis by (auto simp: desc_ok_def is_word_def line_text_def NUL_def)
qed

lemma nodes_text_no_nul: "\<forall>d \<in> set ds. desc_ok d \<Longrightarrow> NUL \<notin> set (nodes_text ds)"
  using line_text_no_nul by (auto simp: nodes_text_def NL_def NUL_def)

lemma nodes_text_Cons: "nodes_text (d # ds) = line_text d @ NL # nodes_text ds"
  by (simp add: nodes_text_def)

lemma cluster_nodes_loop_ok:
  assumes e: "ngx_env_ok e"
  shows "\<lbrakk>\<forall>d \<in> set ds. desc_ok d; length parsed + length ds \<le> MAX_CLUSTER_NODE_PARSED_LINES\<rbrakk>
    \<Longrightarrow> cluster_nodes_loop e (nodes_text ds) l parsed = Some (parsed @ expected_lines l ds)"
proof (induction ds arbitrary: l parsed)
  case Nil
  then show ?case
    by (subst cluster_nodes_loop.simps) (simp add: nodes_text_def nodeset_parser_scan_cluster_nodes_line_def)
next
  case (Cons d ds)
  have "nodeset_parser_scan_cluster_nodes_line e (nodes_text (d # ds)) l = Some (Some (nodes_text ds, expected_line l d))"
    using scan_line_ok [OF e] nodes_text_no_nul [of ds] Cons.prems(1) by (simp add: nodes_text_Cons)
  with Cons show ?case by (subst cluster_nodes_loop.simps) simp
qed

lemma cluster_nodes_loop_overflow:
  assumes e: "ngx_env_ok e"
  shows "\<lbrakk>\<forall>d \<in> set ds. desc_ok d; length parsed \<le> MAX_CLUSTER_NODE_PARSED_LINES; length parsed + length ds > MAX_CLUSTER_NODE_PARSED_LINES\<rbrakk>
    \<Longrightarrow> cluster_nodes_loop e (nodes_text ds) l parsed = None"
proof (induction ds arbitrary: l parsed)
  case (Cons d ds)
  have "nodeset_parser_scan_cluster_nodes_line e (nodes_text (d # ds)) l = Some (Some (nodes_text ds, expected_line l d))"
    using scan_line_ok [OF e] nodes_text_no_nul [of ds] Cons.prems(1) by (simp add: nodes_text_Cons)
  with Cons show ?case
    by (subst cluster_nodes_loop.simps) (cases "length parsed = MAX_CLUSTER_NODE_PARSED_LINES"; auto)
qed simp

text \<open>
  C13: the reply to \<^verbatim>\<open>CLUSTER NODES\<close>.  If it describes at most 512 nodes in the documented form, every node is read as it was
  described: its id, address, role, flags, the slots of a master and how many ranges they are.  The flag for a node that has
  failed is right except for a node that is only suspected of it: there it is what it was for the node before.  With more
  than 512 nodes the array for the results is written outside of its bounds.
\<close>

theorem cluster_nodes_parsed:
  assumes "ngx_env_ok e" and "\<forall>d \<in> set ds. desc_ok d"
  shows "parse_cluster_nodes e l0 (nodes_text ds) =
     (if length ds \<le> MAX_CLUSTER_NODE_PARSED_LINES then Some (expected_lines l0 ds) else None)"
  using cluster_nodes_loop_ok [OF assms(1,2), of "[]" l0] cluster_nodes_loop_overflow [OF assms(1,2), of "[]" l0]
  by (simp add: parse_cluster_nodes_def)

definition blank_line :: cluster_nodes_line where
  "blank_line = \<lparr>cl_line = [], cl_id = [], cl_address = [], cl_hostname = [], cl_port = 0, cl_flags = [], cl_master_id = [],
     cl_ping_sent = [], cl_pong_recv = [], cl_config_epoch = [], cl_link_state = [], cl_slots = [], cl_slot_ranges_count = 0,
     cl_connected = False, cl_master = False, cl_noaddr = False, cl_failed = False, cl_maybe_failed = False, cl_handshake = False,
     cl_self = False\<rparr>"

definition sample_desc :: "string \<Rightarrow> node_desc" where
  "sample_desc flags = \<lparr>d_id = ''e7d1'', d_host = ''127.0.0.1'', d_port = 30002, d_cport = Some ''31002'', d_flags = flags,
     d_master_id = ''-'', d_ping = ''0'', d_pong = ''1426'', d_epoch = ''2'', d_link = ''connected'',
     d_slots = [Slots \<lparr>sr_min = 5461, sr_max = 10922\<rparr>, Moving ''93-<-292f]'', Slots \<lparr>sr_min = 16383, sr_max = 16383\<rparr>]\<rparr>"

lemma sample_desc_ok: "is_word flags \<Longrightarrow> desc_ok (sample_desc flags)"
proof -
  assume f: "is_word flags"
  have n: "CHR '' '' \<notin> set (dec_nat k)" "NL \<notin> set (dec_nat k)" "NUL \<notin> set (dec_nat k)" for k
    using dec_nat_chars dec_nat_digits [of NUL k] by (auto simp: NUL_def)
  show ?thesis using f n
    by (simp add: desc_ok_def sample_desc_def token_ok_def is_word_def address_text_def host_port_def range_text_def NL_def NUL_def)
qed

theorem cluster_nodes_parsed_witness:
  "\<exists>l1 l2. parse_cluster_nodes sample_env blank_line (nodes_text [sample_desc ''master,fail'', sample_desc ''master,fail?'']) = Some [l1, l2]
     \<and> cl_port l1 = 30002 \<and> cl_hostname l1 = ''127.0.0.1'' \<and> cl_slot_ranges_count l1 = 2 \<and> cl_failed l1 \<and> cl_maybe_failed l2 \<and> cl_failed l2"
proof -
  let ?ds = "[sample_desc ''master,fail'', sample_desc ''master,fail?'']"
  have ok: "\<forall>d \<in> set ?ds. desc_ok d" by (simp add: sample_desc_ok is_word_def NL_def NUL_def)
  have p: "parse_cluster_nodes sample_env blank_line (nodes_text ?ds) = Some (expected_lines blank_line ?ds)"
    using cluster_nodes_parsed [OF sample_env_ok ok, of blank_line] by (simp add: MAX_CLUSTER_NODE_PARSED_LINES_def)
  have s: "sublist ''master'' ''master,fail''" "\<not> sublist ''fail?'' ''master,fail''" "sublist ''fail'' ''master,fail''"
    "sublist ''fail?'' ''master,fail?''" by code_simp+
  show ?thesis unfolding p
    by (intro exI [of _ "expected_line blank_line (sample_desc ''master,fail'')"]
        exI [of _ "expected_line (expected_line blank_line (sample_desc ''master,fail'')) (sample_desc ''master,fail?'')"])
      (simp add: expected_line_def sample_desc_def s)
qed

text \<open>The replicas of a server: as many as are found are reported, but no more than 512 are stored.\<close>

lemma slaves_loop_count:
  "\<lbrakk>slaves_loop fuel e own rcp info i parsed = Some (n, out); length parsed = min i MAX_NODE_SLAVES_PARSED\<rbrakk>
    \<Longrightarrow> length out = min n MAX_NODE_SLAVES_PARSED"
proof (induction fuel e own rcp info i parsed rule: slaves_loop.induct)
  case (2 fuel e own rcp info i parsed)
  then show ?case by (auto simp: Let_def split: Option.bind_splits if_splits prod.splits)
qed simp

lemma parse_info_slaves_count:
  "parse_info_slaves fuel e own rcp info = Some (n, out) \<Longrightarrow> length out = min n MAX_NODE_SLAVES_PARSED"
  using slaves_loop_count by (fastforce simp: parse_info_slaves_def)

end
