(* ===== verification/Channel_Id.thy ===== *)
theory Channel_Id
  imports Str_Scan Msg_Text
begin

text \<open>
  \<^verbatim>\<open>util/nchan_channel_id.c\<close>: how the id of a channel is made from a request, and how the memory store takes the id of several
  channels apart again (\<^verbatim>\<open>parse_multi_id\<close> of \<^verbatim>\<open>memstore.c\<close>).

  The values that nginx computes from the configuration and the request are given: the name of the group, the ids, the
  variable \<^verbatim>\<open>$push_channel_id\<close>.  \<open>alloc_ok\<close> is whether the request's pool has memory.  The id that is built is a pair of the
  bytes that are written and the length it is given.
\<close>

definition NCHAN_MULTI_SEP_CHR :: char where "NCHAN_MULTI_SEP_CHR = NUL"

record chid_conf =
  max_channel_id_length :: int
  channel_id_split_delimiter :: string
  chid_redis_enabled :: bool
  pub_chid :: "string list"
  sub_chid :: "string list"
  pubsub_chid :: "string list"

datatype pub_or_sub = PUB | SUB

definition validate_id :: "chid_conf \<Rightarrow> string \<Rightarrow> ngx_rc" where
  "validate_id cf i =
     (if length i > unat (word_of_int (max_channel_id_length cf) :: uint32) then NGX_ERROR else NGX_OK)"

definition nchan_channel_id_is_multi :: "string \<Rightarrow> bool" where
  "nchan_channel_id_is_multi i \<longleftrightarrow>
     length i \<ge> 3 \<and> i ! 0 = CHR ''m'' \<and> i ! 1 = CHR ''/'' \<and> i ! 2 = NCHAN_MULTI_SEP_CHR"

text \<open>The loop that splits one value at the delimiter; \<open>out\<close> are the ids so far, \<open>Inl\<close> is the return in the loop.\<close>

lemma strsplit_shorter: "\<lbrakk>strsplit_from k sub s = Some (Some (t, r)); sub \<noteq> []\<rbrakk> \<Longrightarrow> length r < length s"
proof (induction k sub s rule: strsplit_from.induct)
  case (1 k sub s)
  obtain c sub' where pos: "sub = c # sub'" using "1.prems"(2) by (cases sub) auto
  from "1.prems"(1) show ?case
    by (subst (asm) strsplit_from.simps) (use pos in \<open>auto split: if_splits Option.bind_splits intro: "1.IH"\<close>)
qed

function split_ids :: "string \<Rightarrow> string \<Rightarrow> string list \<Rightarrow> (ngx_rc + string list) option" where
  "split_ids delim s out =
     (if delim = [] then None
      else (case nchan_strsplit delim s of
        None \<Rightarrow> None
      | Some None \<Rightarrow> Some (Inr out)
      | Some (Some (tok, rest)) \<Rightarrow>
          if length out \<ge> NCHAN_MULTITAG_MAX then Some (Inl NGX_DECLINED)
          else split_ids delim rest (out @ [tok])))"
  by auto
termination
  by (relation "measure (\<lambda>(delim, s, out). length s)") (auto simp: nchan_strsplit_def dest: strsplit_shorter)

declare split_ids.simps [simp del]

fun collect_ids :: "chid_conf \<Rightarrow> string list \<Rightarrow> string list \<Rightarrow> (ngx_rc + string list) option" where
  "collect_ids cf [] out = Some (Inr out)"
| "collect_ids cf (v # vs) out =
     (if \<not> length out < NCHAN_MULTITAG_MAX then Some (Inr out)
      else if validate_id cf v \<noteq> NGX_OK then Some (Inl NGX_DECLINED)
      else if channel_id_split_delimiter cf \<noteq> [] then do {
        r \<leftarrow> split_ids (channel_id_split_delimiter cf) v out;
        case r of Inl rc \<Rightarrow> Some (Inl rc) | Inr out \<Rightarrow> collect_ids cf vs out
      }
      else collect_ids cf vs (out @ [v]))"

definition multi_id_size :: "string \<Rightarrow> string list \<Rightarrow> nat" where
  "multi_id_size grp out =
     sum_list (map (\<lambda>i. length i + 1 + length grp) out) + (if length out > 1 then 3 + length out else 0)"

definition multi_id_text :: "string \<Rightarrow> string list \<Rightarrow> string" where
  "multi_id_text grp out =
     (if length out > 1 then [CHR ''m'', CHR ''/'', NCHAN_MULTI_SEP_CHR] else [])
     @ concat (map (\<lambda>i. grp @ [CHR ''/''] @ i @ (if length out > 1 then [NCHAN_MULTI_SEP_CHR] else [])) out)"

definition nchan_process_multi_channel_id ::
  "bool \<Rightarrow> chid_conf \<Rightarrow> string option \<Rightarrow> string list \<Rightarrow> (ngx_rc \<times> (string \<times> nat) option \<times> string list) option" where
  "nchan_process_multi_channel_id alloc_ok cf grp idcf =
     (case grp of
        None \<Rightarrow> Some (NGX_ERROR, None, [])
      | Some grp \<Rightarrow> do {
          r \<leftarrow> collect_ids cf idcf [];
          case r of
            Inl rc \<Rightarrow> Some (rc, None, [])
          | Inr out \<Rightarrow>
              if \<not> alloc_ok then Some (NGX_ERROR, None, out)
              else do {
                let sz = multi_id_size grp out;
                c_assert (length (multi_id_text grp out) \<le> sz);
                Some (NGX_OK, Some (multi_id_text grp out, sz), out)
              }
        })"

definition nchan_process_legacy_channel_id ::
  "bool \<Rightarrow> chid_conf \<Rightarrow> string \<Rightarrow> string option \<Rightarrow> (ngx_rc \<times> (string \<times> nat) option \<times> string list) option" where
  "nchan_process_legacy_channel_id alloc_ok cf grp push_channel_id =
     (case push_channel_id of
        None \<Rightarrow> Some (NGX_ABORT, None, [])
      | Some v \<Rightarrow>
          if length v = 0 then Some (NGX_ABORT, None, [])
          else if validate_id cf v \<noteq> NGX_OK then Some (NGX_DECLINED, None, [])
          else if \<not> alloc_ok then Some (NGX_ERROR, None, [])
          else do {
            let sz = length grp + 1 + length v;
            let i = grp @ [CHR ''/''] @ v;
            c_assert (length i \<le> sz);
            Some (NGX_OK, Some (i, sz), [i])
          })"

definition nchan_get_group_from_channel_id :: "string \<Rightarrow> string option" where
  "nchan_get_group_from_channel_id i = do {
     let cur = (if nchan_channel_id_is_multi i then drop 3 i else i);
     k \<leftarrow> memchr (CHR ''/'') cur;
     Some (take k cur)
   }"

text \<open>The loop that replaces closing braces.\<close>

definition brace_substitute :: char where "brace_substitute = CHR 0x19"

function replace_braces :: "string \<Rightarrow> string" where
  "replace_braces s =
     (case memchr (CHR ''}'') s of
        None \<Rightarrow> s
      | Some k \<Rightarrow> take k s @ [brace_substitute] @ replace_braces (drop (k + 1) s))"
  by auto
termination by (relation "measure length") (auto simp: memchr_Some)

declare replace_braces.simps [simp del]

datatype chid_response = Respond_internal_error | Respond_forbidden | Respond_no_channel_id

definition failed_response :: "ngx_rc \<Rightarrow> chid_response option" where
  "failed_response rc = (case rc of
     NGX_ERROR \<Rightarrow> Some Respond_internal_error
   | NGX_DECLINED \<Rightarrow> Some Respond_forbidden
   | NGX_ABORT \<Rightarrow> Some Respond_no_channel_id
   | _ \<Rightarrow> None)"

definition nchan_get_channel_id ::
  "bool \<Rightarrow> chid_conf \<Rightarrow> string \<Rightarrow> string option \<Rightarrow> pub_or_sub \<Rightarrow> bool
     \<Rightarrow> ((string \<times> nat) option \<times> chid_response option) option" where
  "nchan_get_channel_id alloc_ok cf grp push_channel_id what fail_hard = do {
     (rc, i) \<leftarrow> (if length grp = 1 \<and> grp ! 0 = CHR ''m'' then Some (NGX_DECLINED, None)
       else if memchr (CHR ''/'') grp \<noteq> None then Some (NGX_DECLINED, None)
       else do {
         let conf = (case what of PUB \<Rightarrow> pub_chid cf | SUB \<Rightarrow> sub_chid cf);
         let conf = (if length conf = 0 then pubsub_chid cf else conf);
         (rc, i, ctx) \<leftarrow> (if length conf > 0 then nchan_process_multi_channel_id alloc_ok cf (Some grp) conf
            else nchan_process_legacy_channel_id alloc_ok cf grp push_channel_id);
         Some (if chid_redis_enabled cf then
            (case i of
               None \<Rightarrow> (rc, None)
             | Some (t, n) \<Rightarrow>
                 if memchr brace_substitute t \<noteq> None then (NGX_DECLINED, None)
                 else (rc, Some (replace_braces t, n)))
          else (rc, i))
       });
     if i = None \<and> fail_hard then do {
       c_assert (rc \<noteq> NGX_OK);
       Some (None, failed_response rc)
     }
     else Some (i, None)
   }"

text \<open>memstore.c: the ids of several channels, in an array of \<^verbatim>\<open>NCHAN_MULTITAG_MAX\<close>.\<close>

function multi_id_pieces :: "ngx_env \<Rightarrow> string \<Rightarrow> string list \<Rightarrow> string list option" where
  "multi_id_pieces e cur ids =
     (case ngx_strlchr e cur NCHAN_MULTI_SEP_CHR of
        None \<Rightarrow> Some ids
      | Some k \<Rightarrow>
          if length ids < NCHAN_MULTITAG_MAX \<and> k < length cur
          then multi_id_pieces e (drop (k + 1) cur) (ids @ [take k cur]) else None)"
  by auto
termination by (relation "measure (\<lambda>(e, cur, ids). length cur)") auto

declare multi_id_pieces.simps [simp del]

definition parse_multi_id :: "ngx_env \<Rightarrow> string \<Rightarrow> string list option" where
  "parse_multi_id e i = (if nchan_channel_id_is_multi i then multi_id_pieces e (drop 3 i) [] else Some [])"

function count_pieces :: "ngx_env \<Rightarrow> string \<Rightarrow> nat \<Rightarrow> nat option" where
  "count_pieces e cur n =
     (case ngx_strlchr e cur NCHAN_MULTI_SEP_CHR of
        None \<Rightarrow> Some n
      | Some k \<Rightarrow> if k < length cur then count_pieces e (drop (k + 1) cur) (n + 1) else None)"
  by auto
termination by (relation "measure (\<lambda>(e, cur, n). length cur)") auto

declare count_pieces.simps [simp del]

definition count_channel_id :: "ngx_env \<Rightarrow> string \<Rightarrow> nat option" where
  "count_channel_id e i = (if nchan_channel_id_is_multi i then count_pieces e (drop 3 i) 0 else Some 1)"

subsection \<open>The parts\<close>

lemma multi_id_exact: "length (multi_id_text grp out) = multi_id_size grp out"
proof -
  have "length (concat (map (\<lambda>i. grp @ [CHR ''/''] @ i @ (if b then [NCHAN_MULTI_SEP_CHR] else [])) out)) =
      sum_list (map (\<lambda>i. length i + 1 + length grp) out) + (if b then length out else 0)" for b
    by (induction out) auto
  from this [of "length out > 1"] show ?thesis by (auto simp: multi_id_text_def multi_id_size_def)
qed

lemma replace_braces_map: "replace_braces s = map (\<lambda>c. if c = CHR ''}'' then brace_substitute else c) s"
proof (induction s rule: replace_braces.induct)
  case (1 s)
  show ?case
  proof (cases "memchr (CHR ''}'') s")
    case None
    then have "map (\<lambda>c. if c = CHR ''}'' then brace_substitute else c) s = s" by (intro map_idI) (auto simp: memchr_None)
    with None show ?thesis by (subst replace_braces.simps) simp
  next
    case (Some k)
    then have k: "k < length s" "s ! k = CHR ''}''" "CHR ''}'' \<notin> set (take k s)" by (auto simp: memchr_Some)
    have s: "s = take k s @ CHR ''}'' # drop (Suc k) s" using id_take_nth_drop [OF k(1)] k(2) by simp
    have "map (\<lambda>c. if c = CHR ''}'' then brace_substitute else c) (take k s) = take k s" using k(3) by (intro map_idI) auto
    moreover have "replace_braces s = take k s @ brace_substitute # replace_braces (drop (Suc k) s)"
      using Some by (subst replace_braces.simps) simp
    moreover have "map (\<lambda>c. if c = CHR ''}'' then brace_substitute else c) s =
        map (\<lambda>c. if c = CHR ''}'' then brace_substitute else c) (take k s @ CHR ''}'' # drop (Suc k) s)"
      using s by simp
    ultimately show ?thesis using 1 [OF Some] by simp
  qed
qed

text \<open>The substitution can be undone, since the substitute does not occur in an id before.\<close>

definition restore_braces :: "string \<Rightarrow> string" where
  "restore_braces = map (\<lambda>c. if c = brace_substitute then CHR ''}'' else c)"

lemma restore_replace: "brace_substitute \<notin> set s \<Longrightarrow> restore_braces (replace_braces s) = s"
  by (auto simp: restore_braces_def replace_braces_map intro!: map_idI)

lemma multi_id_pieces_concat:
  assumes e: "ngx_env_ok e" and "\<forall>p \<in> set ps. NUL \<notin> set p" and "length ids + length ps \<le> NCHAN_MULTITAG_MAX"
  shows "multi_id_pieces e (concat (map (\<lambda>p. p @ [NCHAN_MULTI_SEP_CHR]) ps)) ids = Some (ids @ ps)"
  using assms(2,3)
proof (induction ps arbitrary: ids)
  case Nil
  then show ?case using e by (subst multi_id_pieces.simps) (simp add: ngx_env_ok_def)
next
  case (Cons p ps)
  let ?r = "concat (map (\<lambda>p. p @ [NCHAN_MULTI_SEP_CHR]) ps)"
  have "ngx_strlchr e (p @ NCHAN_MULTI_SEP_CHR # ?r) NCHAN_MULTI_SEP_CHR = Some (length p)"
    using e Cons.prems memchr_append [of NCHAN_MULTI_SEP_CHR p] by (simp add: ngx_env_ok_def memchr_def NCHAN_MULTI_SEP_CHR_def)
  then have "multi_id_pieces e (concat (map (\<lambda>p. p @ [NCHAN_MULTI_SEP_CHR]) (p # ps))) ids = multi_id_pieces e ?r (ids @ [p])"
    using Cons.prems by (subst multi_id_pieces.simps) auto
  with Cons show ?case by simp
qed

lemma count_pieces_concat:
  assumes e: "ngx_env_ok e" and "\<forall>p \<in> set ps. NUL \<notin> set p"
  shows "count_pieces e (concat (map (\<lambda>p. p @ [NCHAN_MULTI_SEP_CHR]) ps)) n = Some (n + length ps)"
  using assms(2)
proof (induction ps arbitrary: n)
  case Nil
  then show ?case using e by (subst count_pieces.simps) (simp add: ngx_env_ok_def)
next
  case (Cons p ps)
  let ?r = "concat (map (\<lambda>p. p @ [NCHAN_MULTI_SEP_CHR]) ps)"
  have "ngx_strlchr e (p @ NCHAN_MULTI_SEP_CHR # ?r) NCHAN_MULTI_SEP_CHR = Some (length p)"
    using e Cons.prems memchr_append [of NCHAN_MULTI_SEP_CHR p] by (simp add: ngx_env_ok_def memchr_def NCHAN_MULTI_SEP_CHR_def)
  then have "count_pieces e (concat (map (\<lambda>p. p @ [NCHAN_MULTI_SEP_CHR]) (p # ps))) n = count_pieces e ?r (n + 1)"
    by (subst count_pieces.simps) auto
  with Cons show ?case by simp
qed

text \<open>Splitting at a delimiter of one character.\<close>

lemma strstr_char: "strstr s [d] = memchr d s"
proof (cases "memchr d s")
  case (Some k)
  then have k: "k < length s" "s ! k = d" "d \<notin> set (take k s)" by (auto simp: memchr_Some)
  have "prefix [d] (drop j s) \<longleftrightarrow> s ! j = d" if "j < length s" for j using that by (auto simp: Cons_nth_drop_Suc [symmetric])
  moreover have "\<forall>j < k. s ! j \<noteq> d" using k by (auto simp: in_set_conv_nth)
  ultimately have "strstr s [d] = Some k" using k by (simp add: strstr_Some)
  with Some show ?thesis by simp
next
  case None
  then have "\<forall>k \<le> length s. \<not> prefix [d] (drop k s)"
    by (auto simp: memchr_None prefix_def dest!: arg_cong [where f = set]) (metis in_set_dropD insertI1)
  with None show ?thesis by (simp add: strstr_None)
qed

lemma join_nonempty: "\<lbrakk>ts \<noteq> []; last ts \<noteq> []\<rbrakk> \<Longrightarrow> join sep ts \<noteq> []"
  by (induction ts rule: list_nonempty_induct) (auto simp: join_Cons)

lemma split_ids_join:
  assumes "d \<noteq> NUL" and "ts \<noteq> []" "last ts \<noteq> []" "\<forall>t \<in> set ts. d \<notin> set t" and "length out + length ts \<le> NCHAN_MULTITAG_MAX"
  shows "split_ids [d] (join [d] ts) out = Some (Inr (out @ ts))"
  using assms(2-5)
proof (induction ts arbitrary: out rule: list_nonempty_induct)
  case (single t)
  have "nchan_strsplit [d] t = Some (Some (t, []))"
    using strsplit_spec [of "[d]" t] single assms(1) by (auto simp: strstr_char memchr_def Suc_le_eq)
  moreover have "nchan_strsplit [d] [] = Some None" using strsplit_spec [of "[d]" "[]"] assms(1) by simp
  ultimately show ?case using single
    by (subst split_ids.simps, simp, subst split_ids.simps) simp
next
  case (cons t ts)
  have r: "join [d] ts \<noteq> []" using cons by (intro join_nonempty) auto
  have m: "memchr d (join [d] (t # ts)) = Some (length t)"
    using cons memchr_append [of d t "join [d] ts"] by (simp add: join_Cons)
  have "nchan_strsplit [d] (join [d] (t # ts)) = Some (Some (t, join [d] ts))"
    using strsplit_spec [of "[d]" "join [d] (t # ts)"] assms(1) m r cons(1) by (simp add: strstr_char join_Cons)
  then have "split_ids [d] (join [d] (t # ts)) out = split_ids [d] (join [d] ts) (out @ [t])"
    using cons.prems by (subst split_ids.simps) simp
  with cons show ?case by simp
qed

subsection \<open>Ids that are given, one by one or separated by a delimiter\<close>

text \<open>The values \<open>vs\<close> of the configuration stand for the channels \<open>out\<close>.\<close>

definition ids_given :: "chid_conf \<Rightarrow> string list \<Rightarrow> string list \<Rightarrow> bool" where
  "ids_given cf vs out \<longleftrightarrow> vs \<noteq> [] \<and> (\<forall>v \<in> set vs. validate_id cf v = NGX_OK) \<and> length out \<le> NCHAN_MULTITAG_MAX
     \<and> (channel_id_split_delimiter cf = [] \<and> out = vs
       \<or> (\<exists>d tss. channel_id_split_delimiter cf = [d] \<and> d \<noteq> NUL \<and> vs = map (join [d]) tss \<and> out = concat tss
            \<and> (\<forall>ts \<in> set tss. ts \<noteq> [] \<and> last ts \<noteq> [] \<and> (\<forall>t \<in> set ts. d \<notin> set t))))"

lemma collect_plain:
  "\<lbrakk>channel_id_split_delimiter cf = []; \<forall>v \<in> set vs. validate_id cf v = NGX_OK; length out + length vs \<le> NCHAN_MULTITAG_MAX\<rbrakk>
    \<Longrightarrow> collect_ids cf vs out = Some (Inr (out @ vs))"
  by (induction vs arbitrary: out) auto

lemma collect_split:
  assumes "channel_id_split_delimiter cf = [d]" "d \<noteq> NUL" "\<forall>ts \<in> set tss. ts \<noteq> [] \<and> last ts \<noteq> [] \<and> (\<forall>t \<in> set ts. d \<notin> set t)"
    and "\<forall>ts \<in> set tss. validate_id cf (join [d] ts) = NGX_OK" "length out + length (concat tss) \<le> NCHAN_MULTITAG_MAX"
  shows "collect_ids cf (map (join [d]) tss) out = Some (Inr (out @ concat tss))"
  using assms(3-5)
proof (induction tss arbitrary: out)
  case (Cons ts tss)
  have "length ts > 0" using Cons.prems by simp
  then have ne: "length out < NCHAN_MULTITAG_MAX" using Cons.prems(3) by (simp del: msgid_consts length_greater_0_conv)
  have "split_ids [d] (join [d] ts) out = Some (Inr (out @ ts))"
    using Cons.prems assms(2) by (intro split_ids_join) auto
  with Cons assms(1) ne show ?case by simp
qed simp

lemma collect_given: "ids_given cf vs out \<Longrightarrow> collect_ids cf vs [] = Some (Inr out)"
  using collect_plain [of cf vs "[]"] collect_split [of cf _ _ "[]"] by (auto simp: ids_given_def)

lemma given_nonempty: "ids_given cf vs out \<Longrightarrow> out \<noteq> []"
  by (auto simp: ids_given_def)

definition group_name_ok :: "string \<Rightarrow> bool" where
  "group_name_ok grp \<longleftrightarrow> grp \<noteq> ''m'' \<and> CHR ''/'' \<notin> set grp \<and> NUL \<notin> set grp"

lemma channel_id_text:
  assumes "group_name_ok grp" and "ids_given cf vs out" and "vs = (let c = (case what of PUB \<Rightarrow> pub_chid cf | SUB \<Rightarrow> sub_chid cf)
      in if length c = 0 then pubsub_chid cf else c)"
    and "chid_redis_enabled cf \<Longrightarrow> brace_substitute \<notin> set (multi_id_text grp out)"
  defines "esc \<equiv> (if chid_redis_enabled cf then replace_braces else id)"
  shows "nchan_get_channel_id True cf grp pv what fail_hard = Some (Some (esc (multi_id_text grp out), length (esc (multi_id_text grp out))), None)"
proof -
  have g: "\<not> (length grp = 1 \<and> grp ! 0 = CHR ''m'')" "memchr (CHR ''/'') grp = None"
    using assms(1) by (auto simp: group_name_ok_def memchr_None length_Suc_conv)
  have "length vs > 0" using assms(2) by (simp add: ids_given_def)
  moreover have "nchan_process_multi_channel_id True cf (Some grp) vs = Some (NGX_OK, Some (multi_id_text grp out, length (multi_id_text grp out)), out)"
    using collect_given [OF assms(2)] by (simp add: nchan_process_multi_channel_id_def multi_id_exact)
  ultimately show ?thesis using g assms(4) unfolding assms(3)
    by (auto simp: nchan_get_channel_id_def Let_def esc_def replace_braces_map memchr_None)
qed

lemma multi_id_text_many:
  "length out > 1 \<Longrightarrow> multi_id_text grp out =
     CHR ''m'' # CHR ''/'' # NCHAN_MULTI_SEP_CHR # concat (map (\<lambda>p. p @ [NCHAN_MULTI_SEP_CHR]) (map (\<lambda>i. grp @ CHR ''/'' # i) out))"
  by (simp add: multi_id_text_def o_def)

lemma multi_id_text_one: "multi_id_text grp [i] = grp @ CHR ''/'' # i"
  by (simp add: multi_id_text_def)

lemma not_multi:
  assumes "group_name_ok grp" shows "\<not> nchan_channel_id_is_multi (grp @ CHR ''/'' # i)"
proof (cases grp)
  case (Cons c cs)
  with assms show ?thesis by (cases cs) (auto simp: nchan_channel_id_is_multi_def group_name_ok_def)
qed (simp add: nchan_channel_id_is_multi_def)

lemma is_multi_text:
  assumes "group_name_ok grp" "out \<noteq> []"
  shows "nchan_channel_id_is_multi (multi_id_text grp out) \<longleftrightarrow> length out > 1"
proof (cases "length out > 1")
  case True
  then show ?thesis by (simp add: multi_id_text_many nchan_channel_id_is_multi_def)
next
  case False
  then obtain i where "out = [i]" using assms(2) by (cases out) auto
  then show ?thesis using not_multi [OF assms(1)] by (simp add: multi_id_text_one)
qed

text \<open>Taking the text of an id apart.\<close>

lemma id_parts:
  assumes e: "ngx_env_ok e" and g: "group_name_ok grp" and out: "out \<noteq> []" "length out \<le> NCHAN_MULTITAG_MAX" "\<forall>i \<in> set out. NUL \<notin> set i"
  shows "nchan_get_group_from_channel_id (multi_id_text grp out) = Some grp"
    and "parse_multi_id e (multi_id_text grp out) = Some (if length out > 1 then map (\<lambda>i. grp @ CHR ''/'' # i) out else [])"
    and "count_channel_id e (multi_id_text grp out) = Some (length out)"
proof -
  let ?ps = "map (\<lambda>i. grp @ CHR ''/'' # i) out"
  have ps: "\<forall>p \<in> set ?ps. NUL \<notin> set p" using g out(3) by (auto simp: group_name_ok_def NUL_def)
  have slash: "memchr (CHR ''/'') (grp @ CHR ''/'' # r) = Some (length grp)" for r
    using g by (intro memchr_append) (simp add: group_name_ok_def)
  note multi = is_multi_text [OF g out(1)]
  have one: "\<exists>i. out = [i]" if "\<not> length out > 1" using that out(1) by (cases out) auto
  show "nchan_get_group_from_channel_id (multi_id_text grp out) = Some grp"
  proof (cases "length out > 1")
    case True
    then obtain i ii where "out = i # ii" by (cases out) auto
    with True multi slash show ?thesis by (simp add: nchan_get_group_from_channel_id_def multi_id_text_many Let_def)
  next
    case False
    with one multi slash show ?thesis by (auto simp: nchan_get_group_from_channel_id_def multi_id_text_one Let_def)
  qed
  show "parse_multi_id e (multi_id_text grp out) = Some (if length out > 1 then ?ps else [])"
    using multi multi_id_pieces_concat [OF e ps, of "[]"] out(2) multi_id_text_many [of out grp] by (simp add: parse_multi_id_def)
  show "count_channel_id e (multi_id_text grp out) = Some (length out)"
    using multi count_pieces_concat [OF e ps, of 0] multi_id_text_many [of out grp] one by (auto simp: count_channel_id_def)
qed

lemma replace_braces_text:
  "replace_braces (multi_id_text grp out) = multi_id_text (replace_braces grp) (map replace_braces out)"
  by (simp add: replace_braces_map multi_id_text_def map_concat o_def NCHAN_MULTI_SEP_CHR_def NUL_def)

lemma replace_braces_ok:
  "group_name_ok grp \<Longrightarrow> group_name_ok (replace_braces grp)" "NUL \<notin> set i \<Longrightarrow> NUL \<notin> set (replace_braces i)"
  by (auto simp: group_name_ok_def replace_braces_map brace_substitute_def NUL_def map_eq_Cons_conv split: if_splits)

text \<open>
  C12: the id of one or of several channels.  If the name of the group and the ids are well formed, given one by one or
  separated by a delimiter of one character, a request gets an id whose length is the number of bytes written.  From it
  the memory store takes the name of the group, the number of the channels and the id of each of them as they were given,
  except that with Redis each closing brace is replaced by another character, which can be undone.
\<close>

theorem channel_id_roundtrip:
  assumes e: "ngx_env_ok e" and g: "group_name_ok grp" and given: "ids_given cf vs out" "\<forall>i \<in> set out. NUL \<notin> set i"
    and cfg: "vs = (let c = (case what of PUB \<Rightarrow> pub_chid cf | SUB \<Rightarrow> sub_chid cf) in if length c = 0 then pubsub_chid cf else c)"
    and sub: "chid_redis_enabled cf \<Longrightarrow> brace_substitute \<notin> set grp \<and> (\<forall>i \<in> set out. brace_substitute \<notin> set i)"
  shows "\<exists>t grp' out'. nchan_get_channel_id True cf grp pv what fail_hard = Some (Some (t, length t), None)
     \<and> nchan_get_group_from_channel_id t = Some grp' \<and> count_channel_id e t = Some (length out')
     \<and> parse_multi_id e t = Some (if length out' > 1 then map (\<lambda>i. grp' @ CHR ''/'' # i) out' else [])
     \<and> (length out' = 1 \<longrightarrow> t = grp' @ CHR ''/'' # hd out')
     \<and> (if chid_redis_enabled cf then CHR ''}'' \<notin> set t \<and> restore_braces grp' = grp \<and> map restore_braces out' = out
        else grp' = grp \<and> out' = out)"
proof -
  let ?f = "if chid_redis_enabled cf then replace_braces else id"
  let ?t = "multi_id_text (?f grp) (map ?f out)"
  have no: "brace_substitute \<notin> set (multi_id_text grp out)" if "chid_redis_enabled cf"
    using sub [OF that] by (auto simp: multi_id_text_def brace_substitute_def NCHAN_MULTI_SEP_CHR_def NUL_def split: if_splits)
  have t: "nchan_get_channel_id True cf grp pv what fail_hard = Some (Some (?t, length ?t), None)"
    using channel_id_text [OF g given(1) cfg no] by (auto simp: replace_braces_text)
  have ok: "group_name_ok (?f grp)" "map ?f out \<noteq> []" "length (map ?f out) \<le> NCHAN_MULTITAG_MAX" "\<forall>i \<in> set (map ?f out). NUL \<notin> set i"
    using g given given_nonempty [OF given(1)] replace_braces_ok by (auto simp: ids_given_def)
  note parts = id_parts [OF e ok]
  have one: "length (map ?f out) = 1 \<longrightarrow> ?t = ?f grp @ CHR ''/'' # hd (map ?f out)"
    by (cases out) (auto simp: multi_id_text_one)
  have brace: "CHR ''}'' \<notin> set ?t" if "chid_redis_enabled cf"
    using that replace_braces_text [of grp out, symmetric] by (auto simp: replace_braces_map brace_substitute_def)
  have undo: "restore_braces (replace_braces grp) = grp" "map restore_braces (map replace_braces out) = out" if "chid_redis_enabled cf"
    using sub [OF that] restore_replace by (auto intro: map_idI)
  show ?thesis
    by (intro exI [of _ ?t] exI [of _ "?f grp"] exI [of _ "map ?f out"] conjI t parts one)
      (use brace undo in \<open>auto\<close>)
qed

definition sample_conf :: chid_conf where
  "sample_conf = \<lparr>max_channel_id_length = 1024, channel_id_split_delimiter = '','', chid_redis_enabled = True,
     pub_chid = [], sub_chid = [''a}b,c''], pubsub_chid = []\<rparr>"

theorem channel_id_roundtrip_witness:
  "\<exists>t grp' out'. nchan_get_channel_id True sample_conf ''g'' None SUB True = Some (Some (t, length t), None)
     \<and> nchan_get_group_from_channel_id t = Some grp' \<and> count_channel_id sample_env t = Some (length out')
     \<and> restore_braces grp' = ''g'' \<and> map restore_braces out' = [''a}b'', ''c'']"
proof -
  have 1: "group_name_ok ''g''" by (simp add: group_name_ok_def NUL_def)
  have 2: "ids_given sample_conf [''a}b,c''] [''a}b'', ''c'']"
    unfolding ids_given_def
    by (intro conjI disjI2 exI [of _ "CHR '',''"] exI [of _ "[[''a}b'', ''c'']]"])
      (simp_all add: sample_conf_def validate_id_def NUL_def unat_word_ariths)
  have 3: "\<forall>i \<in> set [''a}b'', ''c'']. NUL \<notin> set i" by (simp add: NUL_def)
  have 4: "[''a}b,c''] = (let c = (case SUB of PUB \<Rightarrow> pub_chid sample_conf | SUB \<Rightarrow> sub_chid sample_conf)
      in if length c = 0 then pubsub_chid sample_conf else c)" by (simp add: sample_conf_def)
  have 5: "brace_substitute \<notin> set ''g'' \<and> (\<forall>i \<in> set [''a}b'', ''c'']. brace_substitute \<notin> set i)" by (simp add: brace_substitute_def)
  have 6: "chid_redis_enabled sample_conf" by (simp add: sample_conf_def)
  from channel_id_roundtrip [OF sample_env_ok 1 2 3 4 5, of None True] show ?thesis unfolding if_P [OF 6]
    by (elim exE conjE) (intro exI conjI)
qed

text \<open>
  With a delimiter, values that are all shorter than the delimiter name no channel at all: the request is not refused
  but gets an id without any character, on which looking for the name of the group aborts the worker.
\<close>

theorem short_ids_abort:
  assumes "group_name_ok grp" "channel_id_split_delimiter cf \<noteq> []" "NUL \<notin> set (channel_id_split_delimiter cf)"
    and "vs \<noteq> []" "\<forall>v \<in> set vs. validate_id cf v = NGX_OK \<and> length v < length (channel_id_split_delimiter cf)"
    and "vs = (let c = (case what of PUB \<Rightarrow> pub_chid cf | SUB \<Rightarrow> sub_chid cf) in if length c = 0 then pubsub_chid cf else c)"
  shows "nchan_get_channel_id True cf grp pv what fail_hard = Some (Some ([], 0), None)
     \<and> nchan_get_group_from_channel_id [] = None"
proof -
  have "split_ids (channel_id_split_delimiter cf) v out = Some (Inr out)" if "length v < length (channel_id_split_delimiter cf)" for v out
    using strsplit_spec [OF assms(2,3), of v] that assms(2) by (subst split_ids.simps) simp
  then have "collect_ids cf vs [] = Some (Inr [])" if "\<forall>v \<in> set vs. validate_id cf v = NGX_OK \<and> length v < length (channel_id_split_delimiter cf)" for vs
    using that assms(2) by (induction vs) auto
  from this [OF assms(5)] have p: "nchan_process_multi_channel_id True cf (Some grp) vs = Some (NGX_OK, Some ([], 0), [])"
    by (simp add: nchan_process_multi_channel_id_def multi_id_text_def multi_id_size_def)
  have g: "\<not> (length grp = 1 \<and> grp ! 0 = CHR ''m'')" "memchr (CHR ''/'') grp = None" "length vs > 0"
    using assms(1,4) by (auto simp: group_name_ok_def memchr_None length_Suc_conv)
  show ?thesis using p g unfolding assms(6)
    by (auto simp: nchan_get_channel_id_def Let_def replace_braces_map memchr_def nchan_get_group_from_channel_id_def nchan_channel_id_is_multi_def)
qed

theorem short_ids_abort_witness:
  "nchan_get_channel_id True (sample_conf\<lparr>sub_chid := ['''']\<rparr>) ''g'' None SUB True = Some (Some ([], 0), None)
     \<and> nchan_get_group_from_channel_id [] = None"
  by (rule short_ids_abort [where vs = "['''']"])
    (simp_all add: sample_conf_def group_name_ok_def NUL_def validate_id_def)

end
