(* ===== verification/Keyslots.thy ===== *)
theory Keyslots
  imports Rbtree Cluster_Parser Channel_Id
begin

unbundle bit_operations_syntax

text \<open>
  \<^verbatim>\<open>store/redis/redis_nodeset.c\<close>: which node of a Redis cluster has the keys of a channel.

  A node's slots are an array of ranges; the nodeset has a tree of all ranges of all nodes.  A node is its address; what is
  kept of it is the record \<open>redis_node\<close>.  The addresses of new tree nodes are an argument, as are the rotations of the tree
  (\<open>ngx_rbtree\<close>).  A raised \<^verbatim>\<open>SIGABRT\<close> is a fault.
\<close>

datatype redis_node_role =
  REDIS_NODE_ROLE_ANY | REDIS_NODE_ROLE_UNKNOWN | REDIS_NODE_ROLE_MASTER | REDIS_NODE_ROLE_SLAVE

definition REDIS_NODE_READY :: int where "REDIS_NODE_READY = 100"

record redis_node =
  n_state :: int
  n_role :: redis_node_role
  n_cluster_enabled :: bool
  n_cluster_id :: string
  n_range :: "redis_slot_range list option"  \<comment> \<open>\<^verbatim>\<open>slot_range.range\<close>\<close>
  n_range_n :: nat                            \<comment> \<open>\<^verbatim>\<open>slot_range.n\<close>\<close>
  n_indexed :: bool

record slot_range_node =
  srn_range :: redis_slot_range
  srn_node :: addr

record redis_nodeset =
  ns_nodes :: "addr list"
  ns_node :: "addr \<Rightarrow> redis_node option"
  ns_cluster_enabled :: bool
  ns_keyslots :: rbtree_seed
  ns_mem :: "slot_range_node rb_mem"

subsection \<open>Operations, in the order of the source\<close>

definition rbtree_cluster_keyslots_bucketer :: "redis_slot_range \<Rightarrow> uint32" where
  "rbtree_cluster_keyslots_bucketer r = 1"

definition rbtree_cluster_keyslots_compare :: "redis_slot_range \<Rightarrow> redis_slot_range \<Rightarrow> int" where
  "rbtree_cluster_keyslots_compare r1 r2 =
     (if sr_max r1 < sr_min r2 then -1 else if sr_min r1 > sr_max r2 then 1 else 0)"

definition keyslot_fns :: "(slot_range_node, redis_slot_range) rb_fns" where
  "keyslot_fns = \<lparr>fn_id = srn_range, fn_hash = rbtree_cluster_keyslots_bucketer,
     fn_compare = (\<lambda>r1 r2. Some (rbtree_cluster_keyslots_compare r1 r2))\<rparr>"

definition keyslot_ranges_overlap :: "redis_slot_range \<Rightarrow> redis_slot_range \<Rightarrow> bool" where
  "keyslot_ranges_overlap r1 r2 \<longleftrightarrow> rbtree_cluster_keyslots_compare r1 r2 = 0"

definition nodeset_node_find_by_range :: "redis_nodeset \<Rightarrow> redis_slot_range \<Rightarrow> ptr option" where
  "nodeset_node_find_by_range ns rg = do {
     p \<leftarrow> rbtree_find_node keyslot_fns (ns_mem ns) (ns_keyslots ns) rg;
     case p of
       None \<Rightarrow> Some None
     | Some a \<Rightarrow> do {
         nd \<leftarrow> ns_mem ns a;
         c_assert (keyslot_ranges_overlap rg (srn_range (node_data nd)));
         Some (Some (srn_node (node_data nd)))
       }
   }"

definition nodeset_node_find_by_slot :: "redis_nodeset \<Rightarrow> uint16 \<Rightarrow> ptr option" where
  "nodeset_node_find_by_slot ns slot = nodeset_node_find_by_range ns \<lparr>sr_min = slot, sr_max = slot\<rparr>"

text \<open>The two loops of \<^verbatim>\<open>nodeset_cluster_node_index_keyslot_ranges\<close>.  Inserting a node never fails.\<close>

fun overlaps_index :: "redis_nodeset \<Rightarrow> redis_slot_range list \<Rightarrow> bool option" where
  "overlaps_index ns [] = Some False"
| "overlaps_index ns (r # rs) = do {
     p \<leftarrow> nodeset_node_find_by_range ns r;
     if p \<noteq> None then Some True else overlaps_index ns rs
   }"

fun insert_ranges :: "ngx_rbtree \<Rightarrow> ptr list \<Rightarrow> addr \<Rightarrow> redis_slot_range list \<Rightarrow> redis_nodeset \<Rightarrow> redis_nodeset option" where
  "insert_ranges ngx allocs node [] ns = Some ns"
| "insert_ranges ngx allocs node (r # rs) ns = (case allocs of
     [] \<Rightarrow> None
   | p # allocs \<Rightarrow> do {
       let (q, m, seed) = rbtree_create_node \<lparr>srn_range = r, srn_node = node\<rparr> p (ns_mem ns) (ns_keyslots ns);
       a \<leftarrow> q;
       (m, seed) \<leftarrow> rbtree_insert_node ngx keyslot_fns a m seed;
       insert_ranges ngx allocs node rs (ns\<lparr>ns_mem := m, ns_keyslots := seed\<rparr>)
     })"

text \<open>The array of a node, up to \<^verbatim>\<open>slot_range.n\<close>.\<close>

definition range_array :: "redis_node \<Rightarrow> redis_slot_range list option" where
  "range_array nd = (if n_range_n nd = 0 then Some []
     else do { rs \<leftarrow> n_range nd; c_assert (n_range_n nd \<le> length rs); Some (take (n_range_n nd) rs) })"

definition upd_node :: "addr \<Rightarrow> (redis_node \<Rightarrow> redis_node) \<Rightarrow> redis_nodeset \<Rightarrow> redis_nodeset" where
  "upd_node a f ns = ns\<lparr>ns_node := (ns_node ns)(a := map_option f (ns_node ns a))\<rparr>"

definition nodeset_cluster_node_index_keyslot_ranges ::
  "ngx_rbtree \<Rightarrow> ptr list \<Rightarrow> addr \<Rightarrow> redis_nodeset \<Rightarrow> (bool \<times> redis_nodeset) option" where
  "nodeset_cluster_node_index_keyslot_ranges ngx allocs node ns = do {
     nd \<leftarrow> ns_node ns node;
     if n_indexed nd then Some (False, ns)
     else do {
       rs \<leftarrow> range_array nd;
       overlap \<leftarrow> overlaps_index ns rs;
       if overlap then Some (False, ns)
       else do {
         ns \<leftarrow> insert_ranges ngx allocs node rs ns;
         Some (True, upd_node node (\<lambda>nd. nd\<lparr>n_indexed := True\<rparr>) ns)
       }
     }
   }"

fun remove_ranges :: "ngx_rbtree \<Rightarrow> redis_slot_range list \<Rightarrow> redis_nodeset \<Rightarrow> redis_nodeset option" where
  "remove_ranges ngx [] ns = Some ns"
| "remove_ranges ngx (r # rs) ns = do {
     p \<leftarrow> rbtree_find_node keyslot_fns (ns_mem ns) (ns_keyslots ns) r;
     a \<leftarrow> p;
     seed \<leftarrow> rbtree_remove_node ngx a (ns_keyslots ns);
     (m, seed) \<leftarrow> rbtree_destroy_node a (ns_mem ns) seed;
     remove_ranges ngx rs (ns\<lparr>ns_mem := m, ns_keyslots := seed\<rparr>)
   }"

definition nodeset_cluster_node_unindex_keyslot_ranges ::
  "ngx_rbtree \<Rightarrow> addr \<Rightarrow> redis_nodeset \<Rightarrow> (bool \<times> redis_nodeset) option" where
  "nodeset_cluster_node_unindex_keyslot_ranges ngx node ns = do {
     nd \<leftarrow> ns_node ns node;
     if \<not> n_indexed nd then Some (True, ns)
     else do {
       rs \<leftarrow> range_array nd;
       ns \<leftarrow> remove_ranges ngx rs ns;
       Some (True, upd_node node (\<lambda>nd. nd\<lparr>n_indexed := False\<rparr>) ns)
     }
   }"

fun find_any_ready_master :: "redis_nodeset \<Rightarrow> addr list \<Rightarrow> ptr option" where
  "find_any_ready_master ns [] = Some None"
| "find_any_ready_master ns (a # as) = do {
     nd \<leftarrow> ns_node ns a;
     if n_state nd \<ge> REDIS_NODE_READY \<and> n_role nd = REDIS_NODE_ROLE_MASTER then Some (Some a)
     else find_any_ready_master ns as
   }"

definition nodeset_node_find_any_ready_master :: "redis_nodeset \<Rightarrow> ptr option" where
  "nodeset_node_find_any_ready_master ns = find_any_ready_master ns (ns_nodes ns)"

definition crc16tab :: "uint16 list" where
  "crc16tab = [
    0x0000, 0x1021, 0x2042, 0x3063, 0x4084, 0x50a5, 0x60c6, 0x70e7,
    0x8108, 0x9129, 0xa14a, 0xb16b, 0xc18c, 0xd1ad, 0xe1ce, 0xf1ef,
    0x1231, 0x0210, 0x3273, 0x2252, 0x52b5, 0x4294, 0x72f7, 0x62d6,
    0x9339, 0x8318, 0xb37b, 0xa35a, 0xd3bd, 0xc39c, 0xf3ff, 0xe3de,
    0x2462, 0x3443, 0x0420, 0x1401, 0x64e6, 0x74c7, 0x44a4, 0x5485,
    0xa56a, 0xb54b, 0x8528, 0x9509, 0xe5ee, 0xf5cf, 0xc5ac, 0xd58d,
    0x3653, 0x2672, 0x1611, 0x0630, 0x76d7, 0x66f6, 0x5695, 0x46b4,
    0xb75b, 0xa77a, 0x9719, 0x8738, 0xf7df, 0xe7fe, 0xd79d, 0xc7bc,
    0x48c4, 0x58e5, 0x6886, 0x78a7, 0x0840, 0x1861, 0x2802, 0x3823,
    0xc9cc, 0xd9ed, 0xe98e, 0xf9af, 0x8948, 0x9969, 0xa90a, 0xb92b,
    0x5af5, 0x4ad4, 0x7ab7, 0x6a96, 0x1a71, 0x0a50, 0x3a33, 0x2a12,
    0xdbfd, 0xcbdc, 0xfbbf, 0xeb9e, 0x9b79, 0x8b58, 0xbb3b, 0xab1a,
    0x6ca6, 0x7c87, 0x4ce4, 0x5cc5, 0x2c22, 0x3c03, 0x0c60, 0x1c41,
    0xedae, 0xfd8f, 0xcdec, 0xddcd, 0xad2a, 0xbd0b, 0x8d68, 0x9d49,
    0x7e97, 0x6eb6, 0x5ed5, 0x4ef4, 0x3e13, 0x2e32, 0x1e51, 0x0e70,
    0xff9f, 0xefbe, 0xdfdd, 0xcffc, 0xbf1b, 0xaf3a, 0x9f59, 0x8f78,
    0x9188, 0x81a9, 0xb1ca, 0xa1eb, 0xd10c, 0xc12d, 0xf14e, 0xe16f,
    0x1080, 0x00a1, 0x30c2, 0x20e3, 0x5004, 0x4025, 0x7046, 0x6067,
    0x83b9, 0x9398, 0xa3fb, 0xb3da, 0xc33d, 0xd31c, 0xe37f, 0xf35e,
    0x02b1, 0x1290, 0x22f3, 0x32d2, 0x4235, 0x5214, 0x6277, 0x7256,
    0xb5ea, 0xa5cb, 0x95a8, 0x8589, 0xf56e, 0xe54f, 0xd52c, 0xc50d,
    0x34e2, 0x24c3, 0x14a0, 0x0481, 0x7466, 0x6447, 0x5424, 0x4405,
    0xa7db, 0xb7fa, 0x8799, 0x97b8, 0xe75f, 0xf77e, 0xc71d, 0xd73c,
    0x26d3, 0x36f2, 0x0691, 0x16b0, 0x6657, 0x7676, 0x4615, 0x5634,
    0xd94c, 0xc96d, 0xf90e, 0xe92f, 0x99c8, 0x89e9, 0xb98a, 0xa9ab,
    0x5844, 0x4865, 0x7806, 0x6827, 0x18c0, 0x08e1, 0x3882, 0x28a3,
    0xcb7d, 0xdb5c, 0xeb3f, 0xfb1e, 0x8bf9, 0x9bd8, 0xabbb, 0xbb9a,
    0x4a75, 0x5a54, 0x6a37, 0x7a16, 0x0af1, 0x1ad0, 0x2ab3, 0x3a92,
    0xfd2e, 0xed0f, 0xdd6c, 0xcd4d, 0xbdaa, 0xad8b, 0x9de8, 0x8dc9,
    0x7c26, 0x6c07, 0x5c64, 0x4c45, 0x3ca2, 0x2c83, 0x1ce0, 0x0cc1,
    0xef1f, 0xff3e, 0xcf5d, 0xdf7c, 0xaf9b, 0xbfba, 0x8fd9, 0x9ff8,
    0x6e17, 0x7e36, 0x4e55, 0x5e74, 0x2e93, 0x3eb2, 0x0ed1, 0x1ef0]"

fun redis_crc16 :: "uint16 \<Rightarrow> string \<Rightarrow> uint16" where
  "redis_crc16 crc [] = crc"
| "redis_crc16 crc (c # buf) =
     redis_crc16 (push_bit 8 crc XOR (crc16tab ! unat ((drop_bit 8 crc XOR of_char c) AND 0x00FF))) buf"

text \<open>The checksum of the prefix is computed once and then kept.\<close>

definition redis_keyslot_from_channel_id :: "string \<Rightarrow> uint16" where
  "redis_keyslot_from_channel_id chid = redis_crc16 (redis_crc16 0 ''channel:'') chid mod 16384"

definition node_channel_in_keyspace :: "redis_node \<Rightarrow> string \<Rightarrow> bool option" where
  "node_channel_in_keyspace nd chid =
     (if \<not> n_cluster_enabled nd then Some True
      else do {
        let slot = redis_keyslot_from_channel_id chid;
        rs \<leftarrow> range_array nd;
        Some (list_ex (\<lambda>r. keyslot_ranges_overlap r \<lparr>sr_min = slot, sr_max = slot\<rparr>) rs)
      })"

definition nodeset_node_find_by_channel_id :: "redis_nodeset \<Rightarrow> string \<Rightarrow> ptr option" where
  "nodeset_node_find_by_channel_id ns channel_id =
     (if \<not> ns_cluster_enabled ns then nodeset_node_find_any_ready_master ns
      else nodeset_node_find_by_slot ns (redis_keyslot_from_channel_id channel_id))"

definition nodeset_node_find_by_key :: "redis_nodeset \<Rightarrow> string \<Rightarrow> ptr option" where
  "nodeset_node_find_by_key ns key =
     (if \<not> ns_cluster_enabled ns then nodeset_node_find_any_ready_master ns
      else
        let hashable = (case memchr (CHR ''{'') key of
              None \<Rightarrow> key
            | Some k \<Rightarrow> (case memchr (CHR ''}'') (drop (k + 1) key) of
                None \<Rightarrow> key
              | Some n \<Rightarrow> if n > 1 then take n (drop (k + 1) key) else key))
        in nodeset_node_find_by_slot ns (redis_crc16 0 hashable mod 16384))"

definition node_unset_cluster_slots :: "ngx_rbtree \<Rightarrow> addr \<Rightarrow> redis_nodeset \<Rightarrow> redis_nodeset option" where
  "node_unset_cluster_slots ngx node ns = do {
     nd \<leftarrow> ns_node ns node;
     (ok, ns) \<leftarrow> (if n_indexed nd then nodeset_cluster_node_unindex_keyslot_ranges ngx node ns else Some (True, ns));
     Some (upd_node node (\<lambda>nd. nd\<lparr>n_range := None, n_range_n := 0\<rparr>) ns)
   }"

datatype slots_error =
  No_slots | Out_of_memory | Parse_failed | Conflict_with_itself | Conflict_with addr | Index_failed

text \<open>The loop that looks for conflicts; at \<^verbatim>\<open>fail\<close> the array is freed.\<close>

fun find_conflict :: "redis_nodeset \<Rightarrow> addr \<Rightarrow> redis_slot_range list \<Rightarrow> slots_error option option" where
  "find_conflict ns node [] = Some None"
| "find_conflict ns node (r # rs) = do {
     p \<leftarrow> nodeset_node_find_by_range ns r;
     case p of
       Some c \<Rightarrow> Some (Some (if c = node then Conflict_with_itself else Conflict_with c))
     | None \<Rightarrow> find_conflict ns node rs
   }"

definition node_set_cluster_slots ::
  "ngx_env \<Rightarrow> ngx_rbtree \<Rightarrow> bool \<Rightarrow> ptr list \<Rightarrow> addr \<Rightarrow> cluster_nodes_line \<Rightarrow> redis_nodeset
     \<Rightarrow> ((slots_error + unit) \<times> redis_nodeset) option" where
  "node_set_cluster_slots e ngx alloc_ok allocs node l ns = do {
     ns \<leftarrow> node_unset_cluster_slots ngx node ns;
     let fail = (\<lambda>err ns. Some (Inl err, upd_node node (\<lambda>nd. nd\<lparr>n_range := None\<rparr>) ns));
     if cl_slot_ranges_count l = 0 then fail No_slots ns
     else do {
       let n = cl_slot_ranges_count l;
       let ns = upd_node node (\<lambda>nd. nd\<lparr>n_range_n := n\<rparr>) ns;
       if \<not> alloc_ok then fail Out_of_memory ns
       else do {
         (ok, ranges) \<leftarrow> parse_cluster_node_slots e n l;
         let ns = upd_node node (\<lambda>nd. nd\<lparr>n_range := Some ranges\<rparr>) ns;
         if \<not> ok then fail Parse_failed ns
         else do {
           conflict \<leftarrow> find_conflict ns node ranges;
           case conflict of
             Some err \<Rightarrow> fail err ns
           | None \<Rightarrow> do {
               (indexed, ns) \<leftarrow> nodeset_cluster_node_index_keyslot_ranges ngx allocs node ns;
               if \<not> indexed then fail Index_failed ns else Some (Inr (), ns)
             }
         }
       }
     }
   }"

text \<open>
  \<^verbatim>\<open>nodeset_cluster_keyslot_space_complete\<close>: the bounds of the range are fields of 16 bits.  Running out of fuel is \<open>None\<close>.
\<close>

fun keyslot_space_from :: "nat \<Rightarrow> redis_nodeset \<Rightarrow> int \<Rightarrow> uint16 \<Rightarrow> bool option" where
  "keyslot_space_from 0 ns min_node_state slot = None"
| "keyslot_space_from (Suc fuel) ns min_node_state slot =
     (if slot \<le> 16383 then do {
        p \<leftarrow> rbtree_find_node keyslot_fns (ns_mem ns) (ns_keyslots ns) \<lparr>sr_min = slot, sr_max = slot\<rparr>;
        case p of
          None \<Rightarrow> Some False
        | Some a \<Rightarrow> do {
            rn \<leftarrow> ns_mem ns a;
            nd \<leftarrow> ns_node ns (srn_node (node_data rn));
            if n_state nd < min_node_state then Some False
            else if n_role nd \<noteq> REDIS_NODE_ROLE_MASTER then Some False
            else keyslot_space_from fuel ns min_node_state (sr_max (srn_range (node_data rn)) + 1)
          }
      }
      else Some True)"

definition nodeset_cluster_keyslot_space_complete :: "nat \<Rightarrow> redis_nodeset \<Rightarrow> int \<Rightarrow> bool option" where
  "nodeset_cluster_keyslot_space_complete fuel ns min_node_state = keyslot_space_from fuel ns min_node_state 0"

subsection \<open>The tree of ranges\<close>

definition valid_range :: "redis_slot_range \<Rightarrow> bool" where
  "valid_range r \<longleftrightarrow> sr_min r \<le> sr_max r"

lemma overlap_iff:
  "keyslot_ranges_overlap r s \<longleftrightarrow> sr_min s \<le> sr_max r \<and> sr_min r \<le> sr_max s"
  by (auto simp: keyslot_ranges_overlap_def rbtree_cluster_keyslots_compare_def not_less)

lemma overlap_sym: "keyslot_ranges_overlap r s \<longleftrightarrow> keyslot_ranges_overlap s r"
  by (auto simp: overlap_iff)

lemma keyslot_fns_simps [simp]: "fn_id keyslot_fns = srn_range" "fn_hash keyslot_fns = rbtree_cluster_keyslots_bucketer"
    "fn_compare keyslot_fns r s = Some (rbtree_cluster_keyslots_compare r s)"
  by (simp_all add: keyslot_fns_def)

interpretation slots: rb_order keyslot_fns valid_range
proof unfold_locales
  fix x y z
  assume v: "valid_range x" "valid_range y" "valid_range z"
  show "\<exists>c. fn_compare keyslot_fns x y = Some c" by (simp add:)
  show "the (fn_compare keyslot_fns x y) < 0 \<longleftrightarrow> 0 < the (fn_compare keyslot_fns y x)"
    using v by (auto simp: rbtree_cluster_keyslots_compare_def valid_range_def)
  assume "the (fn_compare keyslot_fns x y) < 0" "the (fn_compare keyslot_fns y z) < 0"
  then show "the (fn_compare keyslot_fns x z) < 0"
    using v by (auto simp: rbtree_cluster_keyslots_compare_def valid_range_def split: if_splits)
qed

lemma slots_matches: "slots.matches r s \<longleftrightarrow> keyslot_ranges_overlap r s"
  by (simp add: slots.matches_def keyslot_ranges_overlap_def rbtree_cluster_keyslots_bucketer_def)

text \<open>The entries of the tree.\<close>

definition entry :: "slot_range_node rb_mem \<Rightarrow> addr \<Rightarrow> redis_slot_range \<times> addr" where
  "entry m a = (srn_range (node_data (the (m a))), srn_node (node_data (the (m a))))"

definition entries :: "slot_range_node rb_mem \<Rightarrow> rbtree_seed \<Rightarrow> (redis_slot_range \<times> addr) set" where
  "entries m seed = entry m ` set_tree (rb_tree seed)"

lemma entry_id: "fst (entry m a) = slots.node_id m a"
  by (simp add: entry_def slots.node_id_def)

lemma entries_valid: "\<lbrakk>slots.seed_ok m seed; (r, n) \<in> entries m seed\<rbrakk> \<Longrightarrow> valid_range r"
  using slots.node_okD unfolding slots.seed_ok_def slots.tree_ok_def entries_def
  by (auto simp: image_iff entry_id [symmetric] dest!: bspec) (metis fst_conv entry_id)

lemma entries_disjoint:
  assumes "slots.seed_ok m seed" "a \<in> set_tree (rb_tree seed)" "b \<in> set_tree (rb_tree seed)"
    and "keyslot_ranges_overlap (fst (entry m a)) (fst (entry m b))"
  shows "a = b"
  using slots.tree_ok_unique [of m "rb_tree seed" a b] assms by (auto simp: slots.seed_ok_def entry_id slots_matches)

lemma find_entry:
  assumes s: "slots.seed_ok m seed" and r: "valid_range r"
  shows "\<exists>p. rbtree_find_node keyslot_fns m seed r = Some p \<and> (case p of
     Some a \<Rightarrow> a \<in> set_tree (rb_tree seed) \<and> keyslot_ranges_overlap r (fst (entry m a))
   | None \<Rightarrow> \<forall>(s, n) \<in> entries m seed. \<not> keyslot_ranges_overlap r s)"
proof -
  obtain p where p: "rbtree_find_node_generic keyslot_fns m r (fn_hash keyslot_fns r) (rb_tree seed) = Some p"
    "case p of Some a \<Rightarrow> a \<in> set_tree (rb_tree seed) \<and> slots.matches r (slots.node_id m a)
       | None \<Rightarrow> \<forall>a \<in> set_tree (rb_tree seed). \<not> slots.matches r (slots.node_id m a)"
    using slots.find_node_ok [of m "rb_tree seed" r] s r by (auto simp: slots.seed_ok_def)
  then show ?thesis
    by (intro exI [of _ p]) (auto simp: rbtree_find_node_def slots_matches entry_id entries_def split: option.splits,
      metis entry_id fst_conv)
qed

lemma insert_entry:
  assumes ngx: "keeps_order ngx" and s: "slots.seed_ok m seed" and r: "valid_range r"
    and no: "\<forall>(s, n) \<in> entries m seed. \<not> keyslot_ranges_overlap r s" and a: "m a = None" and len: "size (rb_tree seed) + 1 < 2 ^ 64"
  shows "\<exists>m' seed'. (case rbtree_create_node \<lparr>srn_range = r, srn_node = node\<rparr> (Some a) m seed of
        (q, m, seed) \<Rightarrow> rbtree_insert_node ngx keyslot_fns a m seed) = Some (m', seed')
     \<and> slots.seed_ok m' seed' \<and> entries m' seed' = insert (r, node) (entries m seed) \<and> dom m' = insert a (dom m)
     \<and> size (rb_tree seed') = Suc (size (rb_tree seed))"
proof -
  let ?nd = "\<lparr>node_key = 0, node_data = \<lparr>srn_range = r, srn_node = node\<rparr>\<rparr>"
  let ?m = "m(a \<mapsto> ?nd)" and ?seed = "seed\<lparr>allocd_nodes := allocd_nodes seed + 1\<rparr>"
  let ?m' = "?m(a \<mapsto> ?nd\<lparr>node_key := fn_hash keyslot_fns (fn_id keyslot_fns (node_data ?nd))\<rparr>)"
  have fresh: "a \<notin> set_tree (rb_tree seed)"
    using s a by (auto simp: slots.seed_ok_def slots.tree_ok_def slots.node_ok_def)
  have same: "?m b = m b" "?m' b = m b" if "b \<in> set_tree (rb_tree seed)" for b using fresh that by auto
  have ok: "slots.seed_ok ?m ?seed"
    using s slots.tree_ok_cong [of "rb_tree seed" ?m m] same(1) by (simp add: slots.seed_ok_def counts_nodes_def)
  have "\<forall>b \<in> set_tree (rb_tree ?seed). \<not> slots.matches (fn_id keyslot_fns (node_data ?nd)) (slots.node_id ?m b)"
  proof
    fix b assume b: "b \<in> set_tree (rb_tree ?seed)"
    then have "entry m b \<in> entries m seed" by (auto simp: entries_def)
    with no have "\<not> keyslot_ranges_overlap r (fst (entry m b))" by (cases "entry m b") auto
    moreover have "slots.node_id ?m b = fst (entry m b)" using same(1) [of b] b by (simp add: entry_id slots.node_id_def)
    ultimately show "\<not> slots.matches (fn_id keyslot_fns (node_data ?nd)) (slots.node_id ?m b)" by (simp add: slots_matches)
  qed
  from slots.insert_node_ok [OF ngx ok, of a ?nd, OF _ _ _ this] fresh r len obtain seed' where i:
    "rbtree_insert_node ngx keyslot_fns a ?m ?seed = Some (?m', seed')" "slots.seed_ok ?m' seed'"
    "set_tree (rb_tree seed') = insert a (set_tree (rb_tree seed))" "size (rb_tree seed') = Suc (size (rb_tree seed))"
    by (auto simp:)
  have "entry ?m' b = entry m b" if "b \<in> set_tree (rb_tree seed)" for b using same(2) [OF that] by (simp add: entry_def)
  then have "entries ?m' seed' = insert (r, node) (entries m seed)"
    unfolding entries_def i(3) image_insert by (auto simp: entry_def [of _ a] image_iff)
  with i show ?thesis by (intro exI [of _ ?m'] exI [of _ seed']) (auto simp: rbtree_create_node_def)
qed

lemma remove_entry:
  assumes ngx: "keeps_order ngx" and s: "slots.seed_ok m seed" and e: "(r, n) \<in> entries m seed"
  shows "\<exists>a s1 m' seed'. rbtree_find_node keyslot_fns m seed r = Some (Some a) \<and> rbtree_remove_node ngx a seed = Some s1
     \<and> rbtree_destroy_node a m s1 = Some (m', seed') \<and> slots.seed_ok m' seed' \<and> entries m' seed' = entries m seed - {(r, n)}
     \<and> dom m' \<subseteq> dom m \<and> size (rb_tree seed') \<le> size (rb_tree seed)"
proof -
  note v = entries_valid [OF s e]
  obtain b where b: "b \<in> set_tree (rb_tree seed)" "entry m b = (r, n)" using e by (auto simp: entries_def)
  have ov: "keyslot_ranges_overlap r r" using v by (auto simp: overlap_iff valid_range_def)
  obtain a where a: "rbtree_find_node keyslot_fns m seed r = Some (Some a)" "a \<in> set_tree (rb_tree seed)" "keyslot_ranges_overlap r (fst (entry m a))"
    using find_entry [OF s v] e ov by (auto split: option.splits)
  have ab: "a = b" using entries_disjoint [OF s b(1) a(2)] b(2) a(3) by simp
  obtain s1 where s1: "rbtree_remove_node ngx a seed = Some s1" "slots.seed_ok m s1" "set_tree (rb_tree s1) = set_tree (rb_tree seed) - {a}"
      "Suc (size (rb_tree s1)) = size (rb_tree seed)"
    using slots.remove_node_ok [OF ngx s a(2)] by blast
  let ?m = "m(a := None)" and ?s = "s1\<lparr>allocd_nodes := allocd_nodes s1 - 1\<rparr>"
  have ma: "m a \<noteq> None" using s a(2) by (auto simp: slots.seed_ok_def slots.tree_ok_def slots.node_ok_def)
  have ok: "slots.seed_ok ?m ?s"
    using s1(2,3) slots.tree_ok_cong [of "rb_tree s1" ?m m] by (auto simp: slots.seed_ok_def counts_nodes_def)
  have other: "entry m c \<noteq> (r, n)" if "c \<in> set_tree (rb_tree seed) - {a}" for c
  proof
    assume "entry m c = (r, n)"
    with entries_disjoint [OF s b(1), of c] that b(2) ov ab show False by simp
  qed
  have "entries ?m ?s = entry m ` (set_tree (rb_tree seed) - {a})"
    unfolding entries_def using s1(3) by (intro image_cong) (auto simp: entry_def)
  also have "\<dots> = entries m seed - {(r, n)}"
  proof (intro equalityI subsetI)
    fix x assume "x \<in> entries m seed - {(r, n)}"
    then show "x \<in> entry m ` (set_tree (rb_tree seed) - {a})" using b(2) ab by (auto simp: entries_def)
  qed (use other in \<open>force simp: entries_def\<close>)
  finally have ent: "entries ?m ?s = entries m seed - {(r, n)}" .
  have destr: "rbtree_destroy_node a m s1 = Some (?m, ?s)" using ma by (simp add: rbtree_destroy_node_def)
  have "dom ?m \<subseteq> dom m" "size (rb_tree ?s) \<le> size (rb_tree seed)" using s1(4) by auto
  with a(1) s1(1) ok ent destr show ?thesis by blast
qed

subsection \<open>The slots of the nodes\<close>

abbreviation ents :: "redis_nodeset \<Rightarrow> (redis_slot_range \<times> addr) set" where
  "ents ns \<equiv> entries (ns_mem ns) (ns_keyslots ns)"

abbreviation index_ok :: "redis_nodeset \<Rightarrow> bool" where
  "index_ok ns \<equiv> slots.seed_ok (ns_mem ns) (ns_keyslots ns)"

definition disjoint_ranges :: "redis_slot_range list \<Rightarrow> bool" where
  "disjoint_ranges rs \<longleftrightarrow> sorted_wrt (\<lambda>r s. \<not> keyslot_ranges_overlap r s) rs \<and> (\<forall>r \<in> set rs. valid_range r)"

text \<open>The tree has exactly the ranges of the nodes that are marked as indexed.\<close>

definition keyslots_ok :: "redis_nodeset \<Rightarrow> bool" where
  "keyslots_ok ns \<longleftrightarrow> index_ok ns
     \<and> (\<forall>r n. (r, n) \<in> ents ns \<longrightarrow> (\<exists>nd rs. ns_node ns n = Some nd \<and> n_indexed nd \<and> range_array nd = Some rs \<and> r \<in> set rs))
     \<and> (\<forall>n nd. ns_node ns n = Some nd \<and> n_indexed nd \<longrightarrow>
          (\<exists>rs. range_array nd = Some rs \<and> disjoint_ranges rs \<and> (\<forall>r \<in> set rs. (r, n) \<in> ents ns)))"

definition in_range :: "uint16 \<Rightarrow> redis_slot_range \<Rightarrow> bool" where
  "in_range s r \<longleftrightarrow> sr_min r \<le> s \<and> s \<le> sr_max r"

lemma overlap_slot: "keyslot_ranges_overlap \<lparr>sr_min = s, sr_max = s\<rparr> r \<longleftrightarrow> in_range s r"
  by (auto simp: overlap_iff in_range_def)

lemma ents_unique:
  assumes "index_ok ns" "(r, n) \<in> ents ns" "(r', n') \<in> ents ns" "keyslot_ranges_overlap r r'"
  shows "r = r' \<and> n = n'"
  using entries_disjoint [OF assms(1)] assms(2-4) by (auto simp: entries_def) (metis fst_conv prod.inject)+

definition clash :: "redis_nodeset \<Rightarrow> redis_slot_range \<Rightarrow> addr \<Rightarrow> bool" where
  "clash ns r n \<longleftrightarrow> (\<exists>s. (s, n) \<in> ents ns \<and> keyslot_ranges_overlap r s)"

lemma find_by_range_ok:
  assumes "index_ok ns" "valid_range r"
  shows "\<exists>p. nodeset_node_find_by_range ns r = Some p \<and> (case p of
     None \<Rightarrow> \<forall>n. \<not> clash ns r n
   | Some n \<Rightarrow> clash ns r n)"
proof -
  obtain p where p: "rbtree_find_node keyslot_fns (ns_mem ns) (ns_keyslots ns) r = Some p" "case p of
      Some a \<Rightarrow> a \<in> set_tree (rb_tree (ns_keyslots ns)) \<and> keyslot_ranges_overlap r (fst (entry (ns_mem ns) a))
    | None \<Rightarrow> \<forall>(s, n) \<in> ents ns. \<not> keyslot_ranges_overlap r s"
    using find_entry [OF assms] by blast
  show ?thesis
  proof (cases p)
    case None
    with p show ?thesis by (auto simp: nodeset_node_find_by_range_def clash_def)
  next
    case (Some a)
    with p have a: "a \<in> set_tree (rb_tree (ns_keyslots ns))" "keyslot_ranges_overlap r (fst (entry (ns_mem ns) a))" by auto
    then obtain nd where nd: "ns_mem ns a = Some nd"
      using assms(1) by (auto simp: slots.seed_ok_def slots.tree_ok_def slots.node_ok_def)
    have "entry (ns_mem ns) a \<in> ents ns" using a(1) by (simp add: entries_def)
    moreover have "entry (ns_mem ns) a = (srn_range (node_data nd), srn_node (node_data nd))" by (simp add: entry_def nd)
    ultimately show ?thesis using p(1) Some a(2) nd
      by (auto simp: nodeset_node_find_by_range_def clash_def)
  qed
qed

lemma find_by_slot_ok:
  assumes "index_ok ns"
  shows "\<exists>p. nodeset_node_find_by_slot ns s = Some p \<and> (\<forall>n. p = Some n \<longleftrightarrow> (\<exists>r. (r, n) \<in> ents ns \<and> in_range s r))"
proof -
  have v: "valid_range \<lparr>sr_min = s, sr_max = s\<rparr>" by (simp add: valid_range_def)
  obtain p where p: "nodeset_node_find_by_range ns \<lparr>sr_min = s, sr_max = s\<rparr> = Some p" "case p of
     None \<Rightarrow> \<forall>n. \<not> clash ns \<lparr>sr_min = s, sr_max = s\<rparr> n
   | Some n \<Rightarrow> clash ns \<lparr>sr_min = s, sr_max = s\<rparr> n"
    using find_by_range_ok [OF assms v] by blast
  have "n = n'" if "(r, n) \<in> ents ns" "in_range s r" "(r', n') \<in> ents ns" "in_range s r'" for r n r' n'
    using ents_unique [OF assms that(1,3)] that(2,4) order_trans [of "sr_min r'" s "sr_max r"] order_trans [of "sr_min r" s "sr_max r'"]
    by (simp add: overlap_iff in_range_def)
  with p show ?thesis by (intro exI [of _ p]) (auto simp: nodeset_node_find_by_slot_def overlap_slot clash_def split: option.splits)
qed

lemma overlaps_index_ok:
  "\<lbrakk>index_ok ns; \<forall>r \<in> set rs. valid_range r\<rbrakk> \<Longrightarrow> overlaps_index ns rs = Some (\<exists>r \<in> set rs. \<exists>n. clash ns r n)"
proof (induction rs)
  case (Cons r rs)
  with find_by_range_ok [of ns r] show ?case by (auto split: option.splits)
qed simp

lemma find_conflict_ok:
  "\<lbrakk>index_ok ns; \<forall>r \<in> set rs. valid_range r\<rbrakk> \<Longrightarrow> \<exists>c. find_conflict ns node rs = Some c
     \<and> (c = None \<longleftrightarrow> (\<forall>r \<in> set rs. \<forall>n. \<not> clash ns r n))
     \<and> (\<forall>err. c = Some err \<longrightarrow> (\<exists>r \<in> set rs. \<exists>n. clash ns r n \<and> err = (if n = node then Conflict_with_itself else Conflict_with n)))"
proof (induction rs)
  case (Cons r rs)
  then obtain p where p: "nodeset_node_find_by_range ns r = Some p" "case p of
       None \<Rightarrow> \<forall>n. \<not> clash ns r n | Some n \<Rightarrow> clash ns r n"
    using find_by_range_ok [of ns r] by auto
  show ?case
  proof (cases p)
    case None
    with p have "find_conflict ns node (r # rs) = find_conflict ns node rs" "\<forall>n. \<not> clash ns r n" by auto
    with Cons show ?thesis by auto
  next
    case (Some n)
    with p have "find_conflict ns node (r # rs) = Some (Some (if n = node then Conflict_with_itself else Conflict_with n))" "clash ns r n"
      by auto
    then show ?thesis by (simp del: find_conflict.simps) blast
  qed
qed simp

text \<open>The addresses of new tree nodes: enough of them, none in use.\<close>

definition fresh_nodes :: "ptr list \<Rightarrow> nat \<Rightarrow> slot_range_node rb_mem \<Rightarrow> bool" where
  "fresh_nodes allocs n m \<longleftrightarrow> (\<exists>as bs. allocs = map Some as @ bs \<and> length as = n \<and> distinct as \<and> set as \<inter> dom m = {})"

lemma fresh_nodes_mono: "\<lbrakk>fresh_nodes allocs n m; dom m' \<subseteq> dom m\<rbrakk> \<Longrightarrow> fresh_nodes allocs n m'"
  unfolding fresh_nodes_def by blast

lemma insert_ranges_ok:
  assumes ngx: "keeps_order ngx"
  shows "\<lbrakk>index_ok ns; disjoint_ranges rs; \<forall>r \<in> set rs. \<forall>(s, n) \<in> ents ns. \<not> keyslot_ranges_overlap r s;
     fresh_nodes allocs (length rs) (ns_mem ns); size (rb_tree (ns_keyslots ns)) + length rs < 2 ^ 64\<rbrakk>
    \<Longrightarrow> \<exists>m seed. insert_ranges ngx allocs node rs ns = Some (ns\<lparr>ns_mem := m, ns_keyslots := seed\<rparr>)
       \<and> slots.seed_ok m seed \<and> entries m seed = ents ns \<union> (\<lambda>r. (r, node)) ` set rs"
proof (induction rs arbitrary: ns allocs)
  case Nil
  then show ?case by (intro exI [of _ "ns_mem ns"] exI [of _ "ns_keyslots ns"]) simp
next
  case (Cons r rs)
  obtain a as bs where al: "allocs = Some a # map Some as @ bs" "length as = length rs" "a \<notin> set as" "distinct as"
      "ns_mem ns a = None" "set as \<inter> dom (ns_mem ns) = {}"
    using Cons.prems(4) by (fastforce simp: fresh_nodes_def length_Suc_conv)
  have v: "valid_range r" "\<forall>(s, n) \<in> ents ns. \<not> keyslot_ranges_overlap r s" using Cons.prems(2,3) by (auto simp: disjoint_ranges_def)
  obtain m seed where i: "(case rbtree_create_node \<lparr>srn_range = r, srn_node = node\<rparr> (Some a) (ns_mem ns) (ns_keyslots ns) of
        (q, m, seed) \<Rightarrow> rbtree_insert_node ngx keyslot_fns a m seed) = Some (m, seed)"
      "slots.seed_ok m seed" "entries m seed = insert (r, node) (ents ns)" "dom m = insert a (dom (ns_mem ns))"
      "size (rb_tree seed) = Suc (size (rb_tree (ns_keyslots ns)))"
    using insert_entry [OF ngx Cons.prems(1) v al(5), of node] Cons.prems(5) by auto
  let ?ns = "ns\<lparr>ns_mem := m, ns_keyslots := seed\<rparr>"
  have "insert_ranges ngx allocs node (r # rs) ns = insert_ranges ngx (map Some as @ bs) node rs ?ns"
    using i(1) al(1) by (simp add: rbtree_create_node_def)
  moreover have "\<exists>m' seed'. insert_ranges ngx (map Some as @ bs) node rs ?ns = Some (?ns\<lparr>ns_mem := m', ns_keyslots := seed'\<rparr>)
      \<and> slots.seed_ok m' seed' \<and> entries m' seed' = ents ?ns \<union> (\<lambda>r. (r, node)) ` set rs"
  proof (rule Cons.IH)
    show "\<forall>x \<in> set rs. \<forall>(s, n) \<in> ents ?ns. \<not> keyslot_ranges_overlap x s"
      using Cons.prems(2,3) i(3) overlap_sym by (auto simp: disjoint_ranges_def)
    show "fresh_nodes (map Some as @ bs) (length rs) (ns_mem ?ns)"
      using al i(4) unfolding fresh_nodes_def by (intro exI [of _ as] exI [of _ bs]) auto
  qed (use i Cons.prems in \<open>auto simp: disjoint_ranges_def\<close>)
  ultimately show ?case using i(3) by auto
qed

lemma remove_ranges_ok:
  assumes ngx: "keeps_order ngx"
  shows "\<lbrakk>index_ok ns; disjoint_ranges rs; \<forall>r \<in> set rs. (r, node) \<in> ents ns\<rbrakk>
    \<Longrightarrow> \<exists>m seed. remove_ranges ngx rs ns = Some (ns\<lparr>ns_mem := m, ns_keyslots := seed\<rparr>) \<and> slots.seed_ok m seed
       \<and> entries m seed = ents ns - (\<lambda>r. (r, node)) ` set rs \<and> dom m \<subseteq> dom (ns_mem ns)
       \<and> size (rb_tree seed) \<le> size (rb_tree (ns_keyslots ns))"
proof (induction rs arbitrary: ns)
  case Nil
  then show ?case by (intro exI [of _ "ns_mem ns"] exI [of _ "ns_keyslots ns"]) simp
next
  case (Cons r rs)
  obtain a s1 m seed where x: "rbtree_find_node keyslot_fns (ns_mem ns) (ns_keyslots ns) r = Some (Some a)"
      "rbtree_remove_node ngx a (ns_keyslots ns) = Some s1" "rbtree_destroy_node a (ns_mem ns) s1 = Some (m, seed)"
      "slots.seed_ok m seed" "entries m seed = ents ns - {(r, node)}" "dom m \<subseteq> dom (ns_mem ns)"
      "size (rb_tree seed) \<le> size (rb_tree (ns_keyslots ns))"
    using remove_entry [OF ngx Cons.prems(1), of r node] Cons.prems(3) by auto
  let ?ns = "ns\<lparr>ns_mem := m, ns_keyslots := seed\<rparr>"
  have "r \<notin> set rs" using Cons.prems(2) by (auto simp: disjoint_ranges_def overlap_iff valid_range_def)
  then have "\<exists>m' seed'. remove_ranges ngx rs ?ns = Some (?ns\<lparr>ns_mem := m', ns_keyslots := seed'\<rparr>) \<and> slots.seed_ok m' seed'
      \<and> entries m' seed' = ents ?ns - (\<lambda>r. (r, node)) ` set rs \<and> dom m' \<subseteq> dom (ns_mem ?ns)
      \<and> size (rb_tree seed') \<le> size (rb_tree (ns_keyslots ?ns))"
    using Cons.prems x(4,5) by (intro Cons.IH) (auto simp: disjoint_ranges_def)
  then obtain m' seed' where y: "remove_ranges ngx rs ?ns = Some (?ns\<lparr>ns_mem := m', ns_keyslots := seed'\<rparr>)" "slots.seed_ok m' seed'"
      "entries m' seed' = ents ?ns - (\<lambda>r. (r, node)) ` set rs" "dom m' \<subseteq> dom m" "size (rb_tree seed') \<le> size (rb_tree seed)" by auto
  have "remove_ranges ngx (r # rs) ns = Some (ns\<lparr>ns_mem := m', ns_keyslots := seed'\<rparr>)" using x(1-3) y(1) by simp
  moreover have "entries m' seed' = ents ns - (\<lambda>r. (r, node)) ` set (r # rs)" using y(3) x(5) by auto
  ultimately show ?case using y x by (intro exI [of _ m'] exI [of _ seed']) auto
qed

lemma upd_node_same [simp]:
  "ns_mem (upd_node a f ns) = ns_mem ns" "ns_keyslots (upd_node a f ns) = ns_keyslots ns" "ns_nodes (upd_node a f ns) = ns_nodes ns"
  "ns_cluster_enabled (upd_node a f ns) = ns_cluster_enabled ns" "ns_node (upd_node a f ns) = (ns_node ns)(a := map_option f (ns_node ns a))"
  by (simp_all add: upd_node_def)

lemma find_by_range_cong [simp]: "nodeset_node_find_by_range (upd_node a f ns) r = nodeset_node_find_by_range ns r"
  by (simp add: nodeset_node_find_by_range_def cong: option.case_cong)

lemma find_by_slot_cong [simp]: "nodeset_node_find_by_slot (upd_node a f ns) s = nodeset_node_find_by_slot ns s"
  by (simp add: nodeset_node_find_by_slot_def)

lemma clash_cong [simp]: "clash (upd_node a f ns) r n = clash ns r n"
  by (simp add: clash_def)

lemma find_conflict_cong [simp]: "find_conflict (upd_node a f ns) node rs = find_conflict ns node rs"
  by (induction rs) (simp_all cong: option.case_cong)

lemma keyslots_entryD: "\<lbrakk>keyslots_ok ns; (r, n) \<in> ents ns; ns_node ns n = Some nd\<rbrakk> \<Longrightarrow> n_indexed nd \<and> (\<exists>rs. range_array nd = Some rs \<and> r \<in> set rs)"
  unfolding keyslots_ok_def by fastforce

lemma keyslots_nodeD:
  "\<lbrakk>keyslots_ok ns; ns_node ns n = Some nd; n_indexed nd\<rbrakk>
    \<Longrightarrow> \<exists>rs. range_array nd = Some rs \<and> disjoint_ranges rs \<and> (\<forall>r \<in> set rs. (r, n) \<in> ents ns)"
  unfolding keyslots_ok_def by blast

lemma keyslots_ok_other:
  assumes ok: "keyslots_ok ns" and i: "index_ok ns'" and e: "ents ns' = {x \<in> ents ns. snd x \<noteq> node}"
    and n: "\<And>n. n \<noteq> node \<Longrightarrow> ns_node ns' n = ns_node ns n" "\<And>nd. ns_node ns' node = Some nd \<Longrightarrow> \<not> n_indexed nd"
  shows "keyslots_ok ns'"
  unfolding keyslots_ok_def
proof (intro conjI allI impI i)
  fix r n' assume "(r, n') \<in> ents ns'"
  then have "(r, n') \<in> ents ns" "n' \<noteq> node" using e by auto
  then show "\<exists>nd rs. ns_node ns' n' = Some nd \<and> n_indexed nd \<and> range_array nd = Some rs \<and> r \<in> set rs"
    using ok n(1) by (simp add: keyslots_ok_def)
next
  fix n' nd assume a: "ns_node ns' n' = Some nd \<and> n_indexed nd"
  then have "n' \<noteq> node" using n(2) by auto
  with a n(1) keyslots_nodeD [OF ok, of n' nd] e
  show "\<exists>rs. range_array nd = Some rs \<and> disjoint_ranges rs \<and> (\<forall>r \<in> set rs. (r, n') \<in> ents ns')" by auto
qed

lemma keyslots_ok_add:
  assumes ok: "keyslots_ok ns" and i: "index_ok ns'" and e: "ents ns' = ents ns \<union> (\<lambda>r. (r, node)) ` set rs" and none: "\<And>r. (r, node) \<notin> ents ns"
    and n: "\<And>n. n \<noteq> node \<Longrightarrow> ns_node ns' n = ns_node ns n" "ns_node ns' node = Some nd" "n_indexed nd" "range_array nd = Some rs"
    and dis: "disjoint_ranges rs"
  shows "keyslots_ok ns'"
  unfolding keyslots_ok_def
proof (intro conjI allI impI i)
  fix r n' assume "(r, n') \<in> ents ns'"
  then consider "n' = node" "r \<in> set rs" | "n' \<noteq> node" "(r, n') \<in> ents ns" using e none by auto
  then show "\<exists>nd rs. ns_node ns' n' = Some nd \<and> n_indexed nd \<and> range_array nd = Some rs \<and> r \<in> set rs"
    using ok n by cases (simp_all add: keyslots_ok_def)
next
  fix n' nd' assume a: "ns_node ns' n' = Some nd' \<and> n_indexed nd'"
  show "\<exists>rs. range_array nd' = Some rs \<and> disjoint_ranges rs \<and> (\<forall>r \<in> set rs. (r, n') \<in> ents ns')"
  proof (cases "n' = node")
    case False
    then show ?thesis using a n(1) keyslots_nodeD [OF ok, of n' nd'] e by auto
  qed (use a n dis e in simp)
qed

lemma unset_ok:
  assumes ngx: "keeps_order ngx" and ok: "keyslots_ok ns" and nd: "ns_node ns node = Some nd"
  shows "\<exists>ns'. node_unset_cluster_slots ngx node ns = Some ns' \<and> keyslots_ok ns' \<and> ents ns' = {x \<in> ents ns. snd x \<noteq> node}
     \<and> ns_node ns' = (ns_node ns)(node \<mapsto> nd\<lparr>n_indexed := False, n_range := None, n_range_n := 0\<rparr>)
     \<and> dom (ns_mem ns') \<subseteq> dom (ns_mem ns) \<and> size (rb_tree (ns_keyslots ns')) \<le> size (rb_tree (ns_keyslots ns))"
proof (cases "n_indexed nd")
  case False
  then have no: "(r, node) \<notin> ents ns" for r using keyslots_entryD [OF ok _ nd] by auto
  let ?ns = "upd_node node (\<lambda>nd. nd\<lparr>n_range := None, n_range_n := 0\<rparr>) ns"
  have "{x \<in> ents ns. snd x \<noteq> node} = ents ns" using no by auto
  moreover have "keyslots_ok ?ns"
    using ok nd False no by (intro keyslots_ok_other [OF ok, where node = node]) (auto simp: keyslots_ok_def)
  moreover have "nd\<lparr>n_indexed := False, n_range := None, n_range_n := 0\<rparr> = nd\<lparr>n_range := None, n_range_n := 0\<rparr>" using False by simp
  ultimately show ?thesis using False nd by (intro exI [of _ ?ns]) (auto simp: node_unset_cluster_slots_def)
next
  case True
  obtain rs where rs: "range_array nd = Some rs" "disjoint_ranges rs" "\<forall>r \<in> set rs. (r, node) \<in> ents ns"
    using keyslots_nodeD [OF ok nd True] by auto
  obtain m seed where r: "remove_ranges ngx rs ns = Some (ns\<lparr>ns_mem := m, ns_keyslots := seed\<rparr>)" "slots.seed_ok m seed"
      "entries m seed = ents ns - (\<lambda>r. (r, node)) ` set rs" "dom m \<subseteq> dom (ns_mem ns)" "size (rb_tree seed) \<le> size (rb_tree (ns_keyslots ns))"
    using remove_ranges_ok [OF ngx _ rs(2,3)] ok unfolding keyslots_ok_def by blast
  have "r \<in> set rs" if "(r, node) \<in> ents ns" for r using keyslots_entryD [OF ok that nd] rs(1) by auto
  then have e: "entries m seed = {x \<in> ents ns. snd x \<noteq> node}" using r(3) by auto
  let ?ns = "upd_node node (\<lambda>nd. nd\<lparr>n_range := None, n_range_n := 0\<rparr>) (upd_node node (\<lambda>nd. nd\<lparr>n_indexed := False\<rparr>) (ns\<lparr>ns_mem := m, ns_keyslots := seed\<rparr>))"
  have "node_unset_cluster_slots ngx node ns = Some ?ns"
    using nd True rs(1) r(1) by (simp add: node_unset_cluster_slots_def nodeset_cluster_node_unindex_keyslot_ranges_def)
  moreover have "keyslots_ok ?ns"
    using r(2) e nd by (intro keyslots_ok_other [OF ok, where node = node]) auto
  ultimately show ?thesis using e r(4,5) nd by (intro exI [of _ ?ns]) auto
qed

lemma index_ranges_ok:
  assumes ngx: "keeps_order ngx" and ok: "keyslots_ok ns" and nd: "ns_node ns node = Some nd" "\<not> n_indexed nd" "range_array nd = Some rs"
    and dis: "disjoint_ranges rs" and no: "\<forall>r \<in> set rs. \<forall>n. \<not> clash ns r n"
    and al: "fresh_nodes allocs (length rs) (ns_mem ns)" and sz: "size (rb_tree (ns_keyslots ns)) + length rs < 2 ^ 64"
  shows "\<exists>ns'. nodeset_cluster_node_index_keyslot_ranges ngx allocs node ns = Some (True, ns') \<and> keyslots_ok ns'
     \<and> ents ns' = ents ns \<union> (\<lambda>r. (r, node)) ` set rs"
proof -
  have i: "index_ok ns" using ok by (simp add: keyslots_ok_def)
  have v: "\<forall>r \<in> set rs. valid_range r" using dis by (simp add: disjoint_ranges_def)
  obtain m seed where r: "insert_ranges ngx allocs node rs ns = Some (ns\<lparr>ns_mem := m, ns_keyslots := seed\<rparr>)" "slots.seed_ok m seed"
      "entries m seed = ents ns \<union> (\<lambda>r. (r, node)) ` set rs"
    using insert_ranges_ok [OF ngx i dis _ al sz, of node] no unfolding clash_def by blast
  let ?ns = "upd_node node (\<lambda>nd. nd\<lparr>n_indexed := True\<rparr>) (ns\<lparr>ns_mem := m, ns_keyslots := seed\<rparr>)"
  have ov: "overlaps_index ns rs = Some False" using overlaps_index_ok [OF i v] no by auto
  have ra: "range_array (nd\<lparr>n_indexed := True\<rparr>) = Some rs" unfolding nd(3) [symmetric] range_array_def by simp
  have none: "(r, node) \<notin> ents ns" for r using keyslots_entryD [OF ok _ nd(1)] nd(2) by auto
  have "keyslots_ok ?ns" using r nd ra none dis by (intro keyslots_ok_add [OF ok, where node = node and rs = rs and nd = "nd\<lparr>n_indexed := True\<rparr>"]) auto
  with r ov nd show ?thesis
    by (intro exI [of _ ?ns]) (simp add: nodeset_cluster_node_index_keyslot_ranges_def)
qed

text \<open>What the tree is for: each slot has at most one node.\<close>

definition slot_owner :: "redis_nodeset \<Rightarrow> uint16 \<Rightarrow> ptr" where
  "slot_owner ns s = the (nodeset_node_find_by_slot ns s)"

lemma slot_owner_iff: "index_ok ns \<Longrightarrow> slot_owner ns s = Some n \<longleftrightarrow> (\<exists>r. (r, n) \<in> ents ns \<and> in_range s r)"
  using find_by_slot_ok [of ns s] by (auto simp: slot_owner_def)

lemma slot_owner_eqI: "(\<And>n. slot_owner ns s = Some n \<longleftrightarrow> q = Some n) \<Longrightarrow> slot_owner ns s = q"
  by (cases q; cases "slot_owner ns s") auto

lemma overlap_common: "\<lbrakk>valid_range r; valid_range s\<rbrakk> \<Longrightarrow> keyslot_ranges_overlap r s \<longleftrightarrow> (\<exists>x. in_range x r \<and> in_range x s)"
  unfolding overlap_iff in_range_def valid_range_def
  by (rule iffI, rule exI [of _ "max (sr_min r) (sr_min s)"]) auto

lemma clash_iff:
  assumes "index_ok ns" "valid_range r"
  shows "clash ns r n \<longleftrightarrow> (\<exists>s. in_range s r \<and> slot_owner ns s = Some n)"
  using overlap_common [OF assms(2) entries_valid [OF assms(1)]] unfolding clash_def slot_owner_iff [OF assms(1)] by blast

lemma find_owner: "index_ok ns \<Longrightarrow> nodeset_node_find_by_slot ns s = Some (slot_owner ns s)"
  using find_by_slot_ok [of ns s] by (auto simp: slot_owner_def)

lemma owner_without:
  assumes "index_ok ns" "index_ok ns'" "ents ns' = {x \<in> ents ns. snd x \<noteq> node}"
  shows "slot_owner ns' s = (if slot_owner ns s = Some node then None else slot_owner ns s)"
proof (rule slot_owner_eqI)
  fix n
  have "slot_owner ns' s = Some n \<longleftrightarrow> n \<noteq> node \<and> slot_owner ns s = Some n"
    unfolding slot_owner_iff [OF assms(1)] slot_owner_iff [OF assms(2)] assms(3) by auto
  then show "slot_owner ns' s = Some n \<longleftrightarrow> (if slot_owner ns s = Some node then None else slot_owner ns s) = Some n" by auto
qed

lemma owner_added:
  assumes "index_ok ns" "index_ok ns'" "ents ns' = ents ns \<union> (\<lambda>r. (r, node)) ` set rs"
    and "\<forall>r \<in> set rs. \<forall>n. \<not> clash ns r n" "\<forall>r \<in> set rs. valid_range r"
  shows "slot_owner ns' s = (if list_ex (in_range s) rs then Some node else slot_owner ns s)"
proof (rule slot_owner_eqI)
  fix n
  have "slot_owner ns s = None" if "r \<in> set rs" "in_range s r" for r
    using assms(4) that clash_iff [OF assms(1)] assms(5) by (cases "slot_owner ns s") auto
  then show "slot_owner ns' s = Some n \<longleftrightarrow> (if list_ex (in_range s) rs then Some node else slot_owner ns s) = Some n"
    using slot_owner_iff [OF assms(1), of s] assms(3) by (auto simp: slot_owner_iff [OF assms(2)] list_ex_iff)
qed

text \<open>
  C11: setting the slots of a node from its line of \<^verbatim>\<open>CLUSTER NODES\<close> is an update of the map from slots to nodes that the tree
  stands for.  The node loses the slots it had.  If no other node has one of the slots of the line, the node then has exactly
  those, every other slot has the node it had, and the call succeeds.  Otherwise the call reports a node that has one of them,
  and the other nodes keep their slots.  In both cases the tree stays consistent with the arrays of the nodes.
\<close>

theorem slots_assigned:
  assumes ngx: "keeps_order ngx" and e: "ngx_env_ok e" and ok: "keyslots_ok ns" and nd: "ns_node ns node = Some nd"
    and ts: "\<forall>t \<in> set ts. token_ok t" "cl_slots l = slots_text ts" "cl_slot_ranges_count l = length (token_ranges ts)"
    and rs: "token_ranges ts \<noteq> []" "disjoint_ranges (token_ranges ts)"
    and al: "fresh_nodes allocs (length (token_ranges ts)) (ns_mem ns)"
    and sz: "size (rb_tree (ns_keyslots ns)) + length (token_ranges ts) < 2 ^ 64"
  shows "\<exists>res ns'. node_set_cluster_slots e ngx True allocs node l ns = Some (res, ns') \<and> keyslots_ok ns' \<and>
    (let wanted = (\<lambda>s. list_ex (in_range s) (token_ranges ts));
         others = (\<lambda>s. if nodeset_node_find_by_slot ns s = Some (Some node) then Some None else nodeset_node_find_by_slot ns s)
     in if \<exists>s. wanted s \<and> others s \<noteq> Some None
        then (\<exists>c s. res = Inl (Conflict_with c) \<and> wanted s \<and> others s = Some (Some c)) \<and> (\<forall>s. nodeset_node_find_by_slot ns' s = others s)
        else res = Inr () \<and> (\<forall>s. nodeset_node_find_by_slot ns' s = (if wanted s then Some (Some node) else others s)))"
proof -
  obtain ns1 where u: "node_unset_cluster_slots ngx node ns = Some ns1" "keyslots_ok ns1" "ents ns1 = {x \<in> ents ns. snd x \<noteq> node}"
      "ns_node ns1 = (ns_node ns)(node \<mapsto> nd\<lparr>n_indexed := False, n_range := None, n_range_n := 0\<rparr>)"
      "dom (ns_mem ns1) \<subseteq> dom (ns_mem ns)" "size (rb_tree (ns_keyslots ns1)) \<le> size (rb_tree (ns_keyslots ns))"
    using unset_ok [OF ngx ok nd] by blast
  let ?rs = "token_ranges ts" and ?n = "length (token_ranges ts)"
  have i: "index_ok ns" "index_ok ns1" using ok u(2) by (simp_all add: keyslots_ok_def)
  have v: "\<forall>r \<in> set ?rs. valid_range r" using rs(2) by (simp add: disjoint_ranges_def)
  have parsed: "parse_cluster_node_slots e ?n l = Some (True, ?rs)"
    using slots_roundtrip(2) [OF e ts(1), of ?n] ts by (simp add: parse_cluster_node_slots_def)
  let ?ns2 = "upd_node node (\<lambda>nd. nd\<lparr>n_range := Some ?rs\<rparr>) (upd_node node (\<lambda>nd. nd\<lparr>n_range_n := ?n\<rparr>) ns1)"
  obtain c where c: "find_conflict ns1 node ?rs = Some c" "c = None \<longleftrightarrow> (\<forall>r \<in> set ?rs. \<forall>n. \<not> clash ns1 r n)"
      "\<And>err. c = Some err \<Longrightarrow> \<exists>r \<in> set ?rs. \<exists>n. clash ns1 r n \<and> err = (if n = node then Conflict_with_itself else Conflict_with n)"
    using find_conflict_ok [OF i(2) v] by blast
  note own = owner_without [OF i u(3)]
  have others: "(if nodeset_node_find_by_slot ns s = Some (Some node) then Some None else nodeset_node_find_by_slot ns s) = Some (slot_owner ns1 s)" for s
    by (simp add: find_owner [OF i(1)] own)
  have busy: "(\<exists>s. list_ex (in_range s) ?rs \<and> slot_owner ns1 s \<noteq> None) \<longleftrightarrow> c \<noteq> None"
    using clash_iff [OF i(2)] v c(2) by (auto simp: list_ex_iff)
  have ok2: "keyslots_ok ?ns2" using u(4) i(2) u(3) by (intro keyslots_ok_other [OF ok, where node = node]) auto
  show ?thesis
  proof (cases c)
    case None
    have nd2: "ns_node ?ns2 node = Some (nd\<lparr>n_indexed := False, n_range := Some ?rs, n_range_n := ?n\<rparr>)" using u(4) by simp
    have "\<exists>ns'. nodeset_cluster_node_index_keyslot_ranges ngx allocs node ?ns2 = Some (True, ns') \<and> keyslots_ok ns'
        \<and> ents ns' = ents ?ns2 \<union> (\<lambda>r. (r, node)) ` set ?rs"
      using c(2) None fresh_nodes_mono [OF al u(5)] sz u(6) by (intro index_ranges_ok [OF ngx ok2 nd2 _ _ rs(2)]) (auto simp: range_array_def)
    then obtain ns' where ns': "nodeset_cluster_node_index_keyslot_ranges ngx allocs node ?ns2 = Some (True, ns')" "keyslots_ok ns'"
        "ents ns' = ents ns1 \<union> (\<lambda>r. (r, node)) ` set ?rs" by auto
    have i': "index_ok ns'" using ns'(2) by (simp add: keyslots_ok_def)
    have "node_set_cluster_slots e ngx True allocs node l ns = Some (Inr (), ns')"
      using u(1) c(1) None ns'(1) parsed rs(1) ts(3) by (simp add: node_set_cluster_slots_def)
    moreover have "slot_owner ns' s = (if list_ex (in_range s) ?rs then Some node else slot_owner ns1 s)" for s
      using c(2) None by (intro owner_added [OF i(2) i' ns'(3) _ v]) simp
    ultimately show ?thesis using busy None ns'(2) unfolding Let_def others by (auto simp: find_owner [OF i'])
  next
    case (Some err)
    then obtain r n where r: "r \<in> set ?rs" "clash ns1 r n" "err = (if n = node then Conflict_with_itself else Conflict_with n)" using c(3) by blast
    then obtain s where s: "in_range s r" "slot_owner ns1 s = Some n" using clash_iff [OF i(2)] v by blast
    then have "n \<noteq> node" by (auto simp: own split: if_splits)
    let ?ns' = "upd_node node (\<lambda>nd. nd\<lparr>n_range := None\<rparr>) ?ns2"
    have "node_set_cluster_slots e ngx True allocs node l ns = Some (Inl err, ?ns')"
      using u(1) c(1) Some parsed rs(1) ts(3) by (simp add: node_set_cluster_slots_def)
    moreover have "keyslots_ok ?ns'" using u(4) i(2) u(3) by (intro keyslots_ok_other [OF ok, where node = node]) auto
    moreover have "err = Conflict_with n" "list_ex (in_range s) ?rs" using r s \<open>n \<noteq> node\<close> by (auto simp: list_ex_iff)
    ultimately show ?thesis using busy Some s(2) unfolding Let_def others by (auto simp: find_owner [OF i(2)])
  qed
qed

definition plain_rbtree :: ngx_rbtree where
  "plain_rbtree = \<lparr>insert_fixup = (\<lambda>t. t), delete_node = (\<lambda>a t. foldr (\<lambda>b t. \<langle>\<langle>\<rangle>, b, t\<rangle>) (remove1 a (inorder t)) \<langle>\<rangle>)\<rparr>"

lemma plain_rbtree_ok: "keeps_order plain_rbtree"
proof -
  have "inorder (foldr (\<lambda>b t. \<langle>\<langle>\<rangle>, b, t\<rangle>) xs \<langle>\<rangle>) = xs" for xs :: "addr list" by (induction xs) simp_all
  then show ?thesis by (simp add: keeps_order_def plain_rbtree_def)
qed

definition sample_node :: redis_node where
  "sample_node = \<lparr>n_state = REDIS_NODE_READY, n_role = REDIS_NODE_ROLE_MASTER, n_cluster_enabled = True, n_cluster_id = ''a'',
     n_range = None, n_range_n = 0, n_indexed = False\<rparr>"

definition sample_nodeset :: redis_nodeset where
  "sample_nodeset = \<lparr>ns_nodes = [7], ns_node = [7 \<mapsto> sample_node], ns_cluster_enabled = True,
     ns_keyslots = rbtree_init, ns_mem = Map.empty\<rparr>"

lemma sample_nodeset_ok: "keyslots_ok sample_nodeset"
  by (simp add: keyslots_ok_def sample_nodeset_def sample_node_def entries_def rbtree_init_def slots.seed_ok_def slots.tree_ok_def
    counts_nodes_def)

definition sample_tokens :: "slot_token list" where
  "sample_tokens = [Slots \<lparr>sr_min = 0, sr_max = 5460\<rparr>, Moving ''93-<-292f]'', Slots \<lparr>sr_min = 16383, sr_max = 16383\<rparr>]"

definition sample_line :: cluster_nodes_line where
  "sample_line = blank_line\<lparr>cl_slots := slots_text sample_tokens, cl_slot_ranges_count := 2\<rparr>"

theorem slots_assigned_witness:
  "\<exists>ns'. node_set_cluster_slots sample_env plain_rbtree True [Some 1, Some 2] 7 sample_line sample_nodeset = Some (Inr (), ns')
     \<and> nodeset_node_find_by_slot ns' 5460 = Some (Some 7) \<and> nodeset_node_find_by_slot ns' 5461 = Some None"
proof -
  have n: "CHR '' '' \<notin> set (dec_nat k)" "NL \<notin> set (dec_nat k)" for k using dec_nat_chars by auto
  have tk: "\<forall>t \<in> set sample_tokens. token_ok t" using n by (simp add: sample_tokens_def token_ok_def range_text_def NL_def)
  have tr: "token_ranges sample_tokens = [\<lparr>sr_min = 0, sr_max = 5460\<rparr>, \<lparr>sr_min = 16383, sr_max = 16383\<rparr>]"
    by (simp add: sample_tokens_def)
  have dis: "disjoint_ranges (token_ranges sample_tokens)" by (simp add: tr disjoint_ranges_def overlap_iff valid_range_def)
  have none: "nodeset_node_find_by_slot sample_nodeset s = Some None" for s
    by (simp add: nodeset_node_find_by_slot_def nodeset_node_find_by_range_def sample_nodeset_def rbtree_init_def rbtree_find_node_def)
  have len: "length (token_ranges sample_tokens) = 2" by (simp add: tr)
  have al: "fresh_nodes [Some 1, Some 2] (length (token_ranges sample_tokens)) (ns_mem sample_nodeset)"
    unfolding len fresh_nodes_def sample_nodeset_def by (intro exI [of _ "[1, 2]"] exI [of _ "[]"]) simp
  have ne: "token_ranges sample_tokens \<noteq> []" by (simp add: tr)
  have sn: "ns_node sample_nodeset 7 = Some sample_node" "rb_tree (ns_keyslots sample_nodeset) = \<langle>\<rangle>"
    by (simp_all add: sample_nodeset_def rbtree_init_def)
  show ?thesis
    using slots_assigned [OF plain_rbtree_ok sample_env_ok sample_nodeset_ok sn(1) tk _ _ ne dis al]
    unfolding len sn(2) none tr by (force simp: sample_line_def in_range_def)
qed

end
