(* ===== verification/Spec2Isabelle.thy ===== *)
theory Spec2Isabelle
  imports Slist Heap_List Reuse_Queue Timequeue Reaper Msg_Text Message Channel_Groups Chan_Publish Multi_Get
    Rwlock Websocket_Frames Redis_Callback Keyslots
begin

text \<open>
  A verification library for nchan, the publish/subscribe module for nginx (the C sources under \<^verbatim>\<open>src/src/\<close>).

  \<^bold>\<open>The program.\<close>  Publishers send messages to channels, subscribers ask for the message after the last one they have.  A
  message is named by an id, a time and a tag per channel (\<^verbatim>\<open>util/nchan_msg.c\<close>, \<^verbatim>\<open>util/nchan_output.c\<close>).  The memory store
  (\<^verbatim>\<open>store/memory/\<close>) keeps the messages of a channel in a list in shared memory, in the worker that owns the channel, and
  counts channels, messages and subscribers by group.  The Redis store (\<^verbatim>\<open>store/redis/\<close>) keeps them in Redis and gets new
  messages over a PUBSUB connection in MessagePack.  Subscribers are of several kinds; those of
  \<^verbatim>\<open>subscribers/websocket.c\<close> also publish.  Underneath are lists, queues, a reaper and a lock (\<^verbatim>\<open>util/\<close>,
  \<^verbatim>\<open>store/ngx_rwlock.c\<close>).

  \<^bold>\<open>Conventions\<close> (theory \<open>Nchan_Prelude\<close>).  Memory that is shared or linked is an explicit map from addresses; every
  operation takes the state and returns the new one.  The result \<open>None\<close> of an operation is a failed \<^verbatim>\<open>assert\<close>, a
  dereferenced \<^verbatim>\<open>NULL\<close> or an access outside of an array; the codes that the program returns are values of \<open>ngx_rc\<close>.
  Allocators, clocks and nginx's own functions are arguments.  Integers that may wrap are words; the others are \<open>int\<close>
  and \<open>nat\<close>.

  \<^bold>\<open>Lists, queues and the reaper.\<close>
  \<^item> \<open>Link_Heap\<close>: doubly linked lists through the fields of objects, as a representation of HOL lists; the locale
    \<open>link_queue\<close> is the contract of a queue of linked objects.
  \<^item> \<open>Slist\<close> (\<^verbatim>\<open>util/nchan_slist.c\<close>) and \<open>Heap_List\<close> (\<^verbatim>\<open>util/nchan_list.c\<close>): every operation of the two lists; what each
    does to the represented list; two operations that break it.
  \<^item> \<open>Reuse_Queue\<close> (\<^verbatim>\<open>util/nchan_reuse_queue.c\<close>): a queue with a reserve of used cells; pushed and popped it allocates no
    more than were in use at once (locale \<open>object_pool\<close>), but flushing it forgets the cells that were idle.
  \<^item> \<open>Timequeue\<close> (\<^verbatim>\<open>util/nchan_timequeue.c\<close>): a queue in pages; by a simulation (locale \<open>simulation\<close> of theory
    \<open>Simulation\<close>) it behaves as a plain list.
  \<^item> \<open>Reaper\<close> (\<^verbatim>\<open>util/nchan_reaper.c\<close>): the three ways of scanning the things that wait to be freed.  The loops are
    partial functions of which it is proved that they return; the callbacks decide and record, and leave the list alone.

  \<^bold>\<open>Messages and channels.\<close>
  \<^item> \<open>Msg_Id\<close>, \<open>Msg_Text\<close>: ids with the union of inline and allocated tags; comparing, updating and extracting positions;
    printing and parsing, with the round trip and the sizes.
  \<^item> \<open>Message\<close> (\<^verbatim>\<open>util/nchan_msg.c\<close>, \<^verbatim>\<open>store/memory/memstore.c\<close>): reference counts, derived messages, the copy into one
    block of shared memory.
  \<^item> \<open>Chan_Messages\<close>, \<open>Chan_Publish\<close> (\<^verbatim>\<open>memstore.c\<close>): the buffer of a channel; its invariant; what collecting, finding and
    publishing do; that a subscriber who keeps asking gets every message once and in order.
  \<^item> \<open>Multi_Get\<close> (\<^verbatim>\<open>memstore.c\<close>): asking several channels for one subscriber; no message is lost or given twice, whatever
    the order of the answers; the timeout.
  \<^item> \<open>Channel_Groups\<close> (\<^verbatim>\<open>groups.c\<close>, \<^verbatim>\<open>memstore.c\<close>): counters that are exactly what was added and not removed, limits and by how
    much publishing to several channels may exceed them, what is done when a group's data is not there yet.
  \<^item> \<open>Rwlock\<close> (\<^verbatim>\<open>store/ngx_rwlock.c\<close>): any number of processes, each access of shared memory a step, except that an access to
    the counter inside of the mutex is one with its test; exclusion, releases, and that from every state the processes can
    come to rest.

  \<^bold>\<open>WebSocket.\<close>  \<open>Byte_Order\<close>, \<open>Websocket\<close>, \<open>Websocket_Stream\<close> and \<open>Websocket_Frames\<close> (\<^verbatim>\<open>subscribers/websocket.c\<close>): unmasking, also
  with vector instructions and their aligned loads; reading frames as bytes arrive; inflating compressed messages with the
  stream that is kept between them; the closing handshake.  The loop of the reader is a partial function of which it is
  proved that it always returns.  The specification of a client's frames (\<open>client_frame\<close>) is written from RFC 6455 and uses
  none of the server's functions.

  \<^bold>\<open>Redis.\<close>
  \<^item> \<open>Msgpack\<close>, \<open>Msgpack_Write\<close>, \<open>Msgpack_Read\<close> (\<^verbatim>\<open>store/redis/cmp.c\<close>): every function of the MessagePack library.
  \<^item> \<open>Msgpack_Codec\<close>, \<open>Msgpack_Values\<close>: the format as a specification and that reading accepts exactly what it says.  The
    locale \<open>byte_reader\<close> is what the library relies on of its caller's reader.
  \<^item> \<open>Redis_Msg\<close>, \<open>Redis_Callback\<close> (\<^verbatim>\<open>store/redis/rdsstore.c\<close>): the reader (the interpretation of \<open>byte_reader\<close>), decoding a
    message, and the whole handler of a PUBSUB connection: what publish.lua publishes (\<open>publish_unpacked\<close>, packed as
    the cmsgpack of Redis does, whole or by the key of a message that is too long) reaches the channel; what malformed
    messages do.
  \<^item> \<open>Rbtree\<close> (\<^verbatim>\<open>util/nchan_rbtree.c\<close>): the search tree over nginx's red-black tree; the locale \<open>rb_order\<close> is what its users
    promise of their comparison and what they get.  Rebalancing is nginx's and a parameter that keeps the order.
  \<^item> \<open>Cluster_Parser\<close> (\<^verbatim>\<open>redis_nodeset_parser.c\<close>): reading the replies to INFO and CLUSTER NODES, with the round trip of the
    described nodes and their slots.  The loop over the lines of INFO has fuel, the others end by themselves.
  \<^item> \<open>Keyslots\<close> (\<^verbatim>\<open>redis_nodeset.c\<close>): which node of a cluster has which slots, as an interpretation of \<open>rb_order\<close>; setting the slots
    of a node updates a map from slots to nodes.

  \<^bold>\<open>Text.\<close>  \<open>Str_Scan\<close> (\<^verbatim>\<open>util/nchan_util.c\<close>): scanning, splitting and matching of strings; when the search for a line hangs.
  \<open>Channel_Id\<close> (\<^verbatim>\<open>util/nchan_channel_id.c\<close>, \<^verbatim>\<open>memstore.c\<close>): the ids of a request made into one text and taken apart again.

  \<^bold>\<open>Not modelled.\<close>
  \<^item> The spooler (\<^verbatim>\<open>store/spool.c\<close>), the channel heads and subscriptions of the memory store, the messages between workers
    (\<^verbatim>\<open>store/memory/ipc*.c\<close>): pipes, events and calls into subscribers.
  \<^item> The rest of the Redis store (the connections of \<^verbatim>\<open>redis_nodeset.c\<close>, the commands and publishing of \<^verbatim>\<open>rdsstore.c\<close>):
    connections, timers and Lua scripts that Redis runs; hiredis is a copy of another project.
  \<^item> The subscribers over HTTP, the handshake and the compression of outgoing messages of \<^verbatim>\<open>websocket.c\<close>: nginx's requests,
    output filters and zlib.
  \<^item> The module, its configuration and variables: tables that nginx reads.
  \<^item> Of the utilities: the hash tables, the thing cache, pools of output chains, statistics, the slab allocator
    and the benchmark: wrappers over nginx's structures.
\<close>

end
